(* ===== verification/Identity.thy ===== *)
theory Identity
  imports Prelude
begin

text \<open>
  The persistent identifiers, revisions and timestamps of \<open>crates/marginalis-domain/src/model.rs\<close>
  and the identities, principals and actors of \<open>model/identity.rs\<close>.  \<open>Url::parse\<close> and
  \<open>Uuid::parse_str\<close> are library code: the first is the parameter \<open>pu\<close>, the second \<open>parse_uuid\<close>.
\<close>

section \<open>Identifiers, revisions, timestamps\<close>

type_synonym unix_millis = int
type_synonym revision = int
type_synonym uuid = "128 word"
type_synonym entity_id = uuid

datatype invalid_revision = InvalidRevision
datatype invalid_entity_id = InvalidEntityId

definition revision_minimum :: int where "revision_minimum = 1"
definition revision_initial :: revision where "revision_initial = revision_minimum"

definition revision_new :: "int \<Rightarrow> invalid_revision + revision" where
  "revision_new value = (if revision_minimum \<le> value then Inr value else Inl InvalidRevision)"

definition uuid_version :: "uuid \<Rightarrow> nat" where
  "uuid_version u = unat (and (drop_bit 76 u) 15)"

definition entity_id_try_from_uuid :: "uuid \<Rightarrow> invalid_entity_id + entity_id" where
  "entity_id_try_from_uuid value =
     (if uuid_version value = 7 then Inr value else Inl InvalidEntityId)"

definition entity_id_from_str ::
  "(rstr \<Rightarrow> uuid option) \<Rightarrow> rstr \<Rightarrow> invalid_entity_id + entity_id" where
  "entity_id_from_str parse_uuid value =
     rbind (ok_or InvalidEntityId (parse_uuid value)) entity_id_try_from_uuid"

lemma revision_new_Inr_iff [result_simps]: "revision_new v = Inr r \<longleftrightarrow> r = v \<and> 1 \<le> v"
  by (auto simp: revision_new_def revision_minimum_def)

lemma entity_id_from_str_v7: "entity_id_from_str p s = Inr u \<Longrightarrow> uuid_version u = 7 \<and> p s = Some u"
  by (auto simp: entity_id_from_str_def entity_id_try_from_uuid_def result_simps split: if_splits)

section \<open>Identities\<close>

text \<open>What the code reads of a parsed URL.\<close>

record parsed_url =
  url_scheme :: rstr
  url_cannot_be_a_base :: bool
  url_username :: rstr
  url_password :: "rstr option"
  url_query :: "rstr option"
  url_fragment :: "rstr option"

type_synonym url_parser = "rstr \<Rightarrow> parsed_url option"

datatype invalid_identity = InvalidIdentity

definition max_identity_issuer_bytes :: nat where "max_identity_issuer_bytes = 2048"
definition max_identity_subject_bytes :: nat where "max_identity_subject_bytes = 1024"

definition issuer_valid :: "parsed_url \<Rightarrow> rstr \<Rightarrow> bool" where
  "issuer_valid u issuer \<longleftrightarrow>
     byte_len issuer \<le> max_identity_issuer_bytes
     \<and> (url_scheme u = lit ''http'' \<or> url_scheme u = lit ''https'')
     \<and> \<not> url_cannot_be_a_base u
     \<and> url_username u = []
     \<and> url_password u = None
     \<and> url_query u = None
     \<and> url_fragment u = None
     \<and> \<not> list_ex is_control issuer"

definition subject_valid :: "rstr \<Rightarrow> bool" where
  "subject_valid subject \<longleftrightarrow>
     subject \<noteq> [] \<and> byte_len subject \<le> max_identity_subject_bytes \<and> \<not> list_ex is_control subject"

definition validate_identity :: "url_parser \<Rightarrow> rstr \<Rightarrow> rstr \<Rightarrow> invalid_identity + unit" where
  "validate_identity pu issuer subject =
     rbind (ok_or InvalidIdentity (pu issuer)) (\<lambda>u.
       if issuer_valid u issuer \<and> subject_valid subject then Inr () else Inl InvalidIdentity)"

record identity =
  issuer :: rstr
  subject :: rstr

definition identity_new :: "url_parser \<Rightarrow> rstr \<Rightarrow> rstr \<Rightarrow> invalid_identity + identity" where
  "identity_new pu iss sub =
     rbind (validate_identity pu iss sub) (\<lambda>_. Inr \<lparr>issuer = iss, subject = sub\<rparr>)"

definition identity_ok :: "url_parser \<Rightarrow> identity \<Rightarrow> bool" where
  "identity_ok pu i \<longleftrightarrow> validate_identity pu (issuer i) (subject i) = Inr ()"

lemma identity_new_Inr_iff [result_simps]:
  "identity_new pu iss sub = Inr i \<longleftrightarrow>
     i = \<lparr>issuer = iss, subject = sub\<rparr> \<and> identity_ok pu i"
  by (auto simp: identity_new_def identity_ok_def result_simps)

lemma identity_new_again: "identity_ok pu i \<Longrightarrow> identity_new pu (issuer i) (subject i) = Inr i"
  by (simp add: result_simps)

section \<open>Principals and actors\<close>

type_synonym principal_id = int

datatype invalid_principal_id = InvalidPrincipalId
datatype invalid_principal = InvalidPrincipal

definition principal_id_new :: "int \<Rightarrow> invalid_principal_id + principal_id" where
  "principal_id_new value = (if 0 < value then Inr value else Inl InvalidPrincipalId)"

record principal_ref =
  pref_id :: principal_id
  primary_identity :: identity

text \<open>\<open>PartialEq\<close> of \<open>PrincipalRef\<close> compares the internal ID only.\<close>

definition principal_ref_eq :: "principal_ref \<Rightarrow> principal_ref \<Rightarrow> bool" where
  "principal_ref_eq a b \<longleftrightarrow> pref_id a = pref_id b"

record principal =
  reference :: principal_ref
  identities :: "identity list"

text \<open>Whether some element occurs again further right, as the nested search of the code finds it.\<close>

fun repeats :: "'a list \<Rightarrow> bool" where
  "repeats [] = False"
| "repeats (x # xs) = (x \<in> set xs \<or> repeats xs)"

definition principal_restore ::
  "principal_id \<Rightarrow> identity \<Rightarrow> identity list \<Rightarrow> invalid_principal + principal" where
  "principal_restore pid primary ids =
     (if ids = [] \<or> primary \<notin> set ids \<or> repeats ids then Inl InvalidPrincipal
      else Inr \<lparr>reference = \<lparr>pref_id = pid, primary_identity = primary\<rparr>, identities = ids\<rparr>)"

definition principal_single :: "principal_id \<Rightarrow> identity \<Rightarrow> principal" where
  "principal_single pid i =
     \<lparr>reference = \<lparr>pref_id = pid, primary_identity = i\<rparr>, identities = [i]\<rparr>"

record actor =
  actor_principal :: principal_ref
  authenticated_identity :: identity

definition actor_authenticate :: "principal \<Rightarrow> identity \<Rightarrow> invalid_principal + actor" where
  "actor_authenticate p i =
     (if i \<notin> set (identities p) then Inl InvalidPrincipal
      else Inr \<lparr>actor_principal = reference p, authenticated_identity = i\<rparr>)"

definition actor_for_single_identity :: "principal_id \<Rightarrow> identity \<Rightarrow> actor" where
  "actor_for_single_identity pid i =
     \<lparr>actor_principal = \<lparr>pref_id = pid, primary_identity = i\<rparr>, authenticated_identity = i\<rparr>"

abbreviation actor_id :: "actor \<Rightarrow> principal_id" where
  "actor_id a \<equiv> pref_id (actor_principal a)"

lemma principal_id_new_Inr_iff [result_simps]: "principal_id_new v = Inr p \<longleftrightarrow> p = v \<and> 0 < v"
  by (auto simp: principal_id_new_def)

lemma repeats_iff: "repeats xs \<longleftrightarrow> \<not> distinct xs"
  by (induction xs) auto

lemma principal_restore_Inr:
  "principal_restore pid i ids = Inr p \<Longrightarrow>
     reference p = \<lparr>pref_id = pid, primary_identity = i\<rparr> \<and> identities p = ids
     \<and> i \<in> set ids \<and> distinct ids"
  by (auto simp: principal_restore_def repeats_iff split: if_splits)

lemma principal_restore_single: "principal_restore pid i [i] = Inr (principal_single pid i)"
  by (simp add: principal_restore_def principal_single_def)

lemma actor_authenticate_single:
  "actor_authenticate (principal_single pid i) i = Inr (actor_for_single_identity pid i)"
  by (simp add: actor_authenticate_def principal_single_def actor_for_single_identity_def)

end
