(* ===== verification/NoteModel.thy ===== *)
theory NoteModel
  imports Identity
begin

text \<open>
  The note of \<open>crates/marginalis-domain/src/model/note.rs\<close>: its metadata, the review tracking, the
  access levels and the constructors that every storage path goes through.
\<close>

section \<open>Enumerations and their wire names\<close>

type_synonym note_id = entity_id

datatype creation_source = Web | Rest | Mcp | UnknownSource

fun creation_source_as_str :: "creation_source \<Rightarrow> rstr" where
  "creation_source_as_str Web = lit ''web''"
| "creation_source_as_str Rest = lit ''rest''"
| "creation_source_as_str Mcp = lit ''mcp''"
| "creation_source_as_str UnknownSource = lit ''unknown''"

datatype invalid_enum = InvalidNoteCreationSource | InvalidNoteRevisionKind | InvalidNoteReviewStatus

definition creation_source_from_str :: "rstr \<Rightarrow> invalid_enum + creation_source" where
  "creation_source_from_str s =
     (if s = lit ''web'' then Inr Web
      else if s = lit ''rest'' then Inr Rest
      else if s = lit ''mcp'' then Inr Mcp
      else if s = lit ''unknown'' then Inr UnknownSource
      else Inl InvalidNoteCreationSource)"

datatype review_status = ReviewUnknown | ReviewPending | Reviewed

fun review_status_as_str :: "review_status \<Rightarrow> rstr" where
  "review_status_as_str ReviewUnknown = lit ''unknown''"
| "review_status_as_str ReviewPending = lit ''pending''"
| "review_status_as_str Reviewed = lit ''reviewed''"

definition review_status_from_str :: "rstr \<Rightarrow> invalid_enum + review_status" where
  "review_status_from_str s =
     (if s = lit ''unknown'' then Inr ReviewUnknown
      else if s = lit ''pending'' then Inr ReviewPending
      else if s = lit ''reviewed'' then Inr Reviewed
      else Inl InvalidNoteReviewStatus)"

datatype revision_kind =
  KCreated | KContentUpdated | KAclUpdated | KReviewed | KDeleted | KRestored | KHistoryRestored | KImported

fun revision_kind_as_str :: "revision_kind \<Rightarrow> rstr" where
  "revision_kind_as_str KCreated = lit ''created''"
| "revision_kind_as_str KContentUpdated = lit ''content_updated''"
| "revision_kind_as_str KAclUpdated = lit ''acl_updated''"
| "revision_kind_as_str KReviewed = lit ''reviewed''"
| "revision_kind_as_str KDeleted = lit ''deleted''"
| "revision_kind_as_str KRestored = lit ''restored''"
| "revision_kind_as_str KHistoryRestored = lit ''history_restored''"
| "revision_kind_as_str KImported = lit ''imported''"

definition revision_kind_from_str :: "rstr \<Rightarrow> invalid_enum + revision_kind" where
  "revision_kind_from_str s =
     (if s = lit ''created'' then Inr KCreated
      else if s = lit ''content_updated'' then Inr KContentUpdated
      else if s = lit ''acl_updated'' then Inr KAclUpdated
      else if s = lit ''reviewed'' then Inr KReviewed
      else if s = lit ''deleted'' then Inr KDeleted
      else if s = lit ''restored'' then Inr KRestored
      else if s = lit ''history_restored'' then Inr KHistoryRestored
      else if s = lit ''imported'' then Inr KImported
      else Inl InvalidNoteRevisionKind)"

lemma creation_source_roundtrip [simp]:
  "creation_source_from_str (creation_source_as_str x) = Inr x"
  by (cases x) (simp_all add: creation_source_from_str_def)

lemma review_status_roundtrip [simp]: "review_status_from_str (review_status_as_str x) = Inr x"
  by (cases x) (simp_all add: review_status_from_str_def)

lemma revision_kind_roundtrip [simp]: "revision_kind_from_str (revision_kind_as_str x) = Inr x"
  by (cases x) (simp_all add: revision_kind_from_str_def)

lemma creation_source_parse_inverse:
  "creation_source_from_str s = Inr x \<longleftrightarrow> s = creation_source_as_str x"
  by (cases x) (auto simp: creation_source_from_str_def)

lemma review_status_parse_inverse:
  "review_status_from_str s = Inr x \<longleftrightarrow> s = review_status_as_str x"
  by (cases x) (auto simp: review_status_from_str_def)

lemma revision_kind_parse_inverse:
  "revision_kind_from_str s = Inr x \<longleftrightarrow> s = revision_kind_as_str x"
  by (cases x) (auto simp: revision_kind_from_str_def)

section \<open>Access levels\<close>

datatype note_permission = PRead | PEdit
datatype note_access = ARead | AEdit | AManage

fun note_access_rank :: "note_access \<Rightarrow> nat" where
  "note_access_rank ARead = 0"
| "note_access_rank AEdit = 1"
| "note_access_rank AManage = 2"

lemma note_access_rank_inj [simp]: "note_access_rank a = note_access_rank b \<longleftrightarrow> a = b"
  by (cases a; cases b) auto

instantiation note_access :: linorder
begin

definition less_eq_note_access :: "note_access \<Rightarrow> note_access \<Rightarrow> bool" where
  "less_eq_note_access a b \<longleftrightarrow> note_access_rank a \<le> note_access_rank b"

definition less_note_access :: "note_access \<Rightarrow> note_access \<Rightarrow> bool" where
  "less_note_access a b \<longleftrightarrow> note_access_rank a < note_access_rank b"

instance
  by standard (auto simp: less_eq_note_access_def less_note_access_def)

end

definition note_access_allows :: "note_access \<Rightarrow> note_access \<Rightarrow> bool" where
  "note_access_allows self required \<longleftrightarrow> note_access_rank required \<le> note_access_rank self"

lemma note_access_allows_le: "note_access_allows a r \<longleftrightarrow> r \<le> a"
  by (simp add: note_access_allows_def less_eq_note_access_def)

section \<open>Review tracking\<close>

record review_record =
  rv_revision :: revision
  rv_reviewed_at :: unix_millis
  rv_reviewer :: principal_ref

datatype review_tracking = TUnknown | Tracked (tracked_review: "review_record option")

definition review_pending :: review_tracking where "review_pending = Tracked None"

fun tracking_status :: "review_tracking \<Rightarrow> revision \<Rightarrow> review_status" where
  "tracking_status TUnknown cur = ReviewUnknown"
| "tracking_status (Tracked (Some r)) cur = (if rv_revision r = cur then Reviewed else ReviewPending)"
| "tracking_status (Tracked None) cur = ReviewPending"

fun last_review_of :: "review_tracking \<Rightarrow> review_record option" where
  "last_review_of TUnknown = None"
| "last_review_of (Tracked r) = r"

section \<open>Notes\<close>

record note_draft =
  d_source :: rstr
  d_title :: rstr
  d_tags :: "rstr list"

record note_rec =
  n_id :: note_id
  n_owner :: principal_ref
  n_title :: rstr
  n_source :: rstr
  n_tags :: "rstr list"
  n_created_at :: unix_millis
  n_updated_at :: unix_millis
  n_revision :: revision
  n_deleted_at :: "unix_millis option"
  n_created_via :: creation_source
  n_review :: review_tracking

datatype invalid_note = InvalidNote

definition note_create ::
  "note_id \<Rightarrow> principal_ref \<Rightarrow> note_draft \<Rightarrow> unix_millis \<Rightarrow> creation_source \<Rightarrow> note_rec" where
  "note_create nid own draft created via =
     \<lparr>n_id = nid, n_owner = own, n_title = d_title draft, n_source = d_source draft,
      n_tags = d_tags draft, n_created_at = created, n_updated_at = created,
      n_revision = revision_initial, n_deleted_at = None, n_created_via = via,
      n_review = review_pending\<rparr>"

text \<open>The consistency conditions of \<open>Note::restore\<close>.\<close>

definition note_inconsistent ::
  "principal_ref \<Rightarrow> unix_millis \<Rightarrow> unix_millis \<Rightarrow> revision \<Rightarrow> unix_millis option \<Rightarrow> review_tracking \<Rightarrow> bool" where
  "note_inconsistent own created updated rvn deleted rvw \<longleftrightarrow>
     created > updated
     \<or> (case deleted of None \<Rightarrow> False | Some d \<Rightarrow> d < created \<or> d > updated)
     \<or> (case last_review_of rvw of None \<Rightarrow> False
        | Some r \<Rightarrow> rv_revision r > rvn \<or> rv_reviewed_at r < created \<or> rv_reviewed_at r > updated
                   \<or> \<not> principal_ref_eq (rv_reviewer r) own)"

definition note_restore ::
  "note_id \<Rightarrow> principal_ref \<Rightarrow> note_draft \<Rightarrow> unix_millis \<Rightarrow> unix_millis \<Rightarrow> revision
   \<Rightarrow> unix_millis option \<Rightarrow> creation_source \<Rightarrow> review_tracking \<Rightarrow> invalid_note + note_rec" where
  "note_restore nid own draft created updated rvn deleted via rvw =
     (if note_inconsistent own created updated rvn deleted rvw then Inl InvalidNote
      else Inr \<lparr>n_id = nid, n_owner = own, n_title = d_title draft, n_source = d_source draft,
        n_tags = d_tags draft, n_created_at = created, n_updated_at = updated, n_revision = rvn,
        n_deleted_at = deleted, n_created_via = via, n_review = rvw\<rparr>)"

definition note_review_status :: "note_rec \<Rightarrow> review_status" where
  "note_review_status n = tracking_status (n_review n) (n_revision n)"

definition note_last_review :: "note_rec \<Rightarrow> review_record option" where
  "note_last_review n = last_review_of (n_review n)"

fun review_tracking_known :: "note_rec \<Rightarrow> bool" where
  "review_tracking_known n = (case n_review n of TUnknown \<Rightarrow> False | Tracked _ \<Rightarrow> True)"

definition soft_delete_retention_ms :: int where
  "soft_delete_retention_ms = 30 * 24 * 60 * 60 * 1000"

text \<open>The note invariant that \<open>create\<close> establishes and \<open>restore\<close> checks.\<close>

definition note_ok :: "note_rec \<Rightarrow> bool" where
  "note_ok n \<longleftrightarrow> \<not> note_inconsistent (n_owner n) (n_created_at n) (n_updated_at n) (n_revision n)
     (n_deleted_at n) (n_review n)"

lemma note_create_ok: "note_ok (note_create nid own draft created via)"
  by (simp add: note_ok_def note_create_def note_inconsistent_def review_pending_def)

lemma note_restore_ok: "note_restore nid own dr c u rvn del via rvw = Inr n \<Longrightarrow> note_ok n"
  by (auto simp: note_restore_def note_ok_def split: if_splits)

lemma note_restore_again:
  assumes "note_ok n"
  shows "note_restore (n_id n) (n_owner n)
      \<lparr>d_source = n_source n, d_title = n_title n, d_tags = n_tags n\<rparr>
      (n_created_at n) (n_updated_at n) (n_revision n) (n_deleted_at n) (n_created_via n) (n_review n)
    = Inr n"
  using assms by (simp add: note_restore_def note_ok_def)

lemma note_create_status: "note_review_status (note_create nid own dr t via) = ReviewPending"
  by (simp add: note_review_status_def note_create_def review_pending_def)

section \<open>Summaries\<close>

record note_summary =
  s_note_id :: note_id
  s_title :: rstr
  s_tags :: "rstr list"
  s_updated_at :: unix_millis
  s_revision :: revision
  s_created_via :: creation_source
  s_review_status :: review_status
  s_reviewed_revision :: "revision option"
  s_reviewed_at :: "unix_millis option"

definition summary_of_note :: "note_rec \<Rightarrow> note_summary" where
  "summary_of_note n =
     \<lparr>s_note_id = n_id n, s_title = n_title n, s_tags = n_tags n, s_updated_at = n_updated_at n,
      s_revision = n_revision n, s_created_via = n_created_via n,
      s_review_status = note_review_status n,
      s_reviewed_revision = map_option rv_revision (note_last_review n),
      s_reviewed_at = map_option rv_reviewed_at (note_last_review n)\<rparr>"

record note_list_entry =
  le_summary :: note_summary
  le_access :: note_access

record deleted_note_entry =
  del_note_id :: note_id
  del_title :: rstr
  del_deleted_at :: unix_millis
  del_purge_at :: unix_millis
  del_revision :: revision

record note_acl_entry =
  acl_principal :: principal_ref
  acl_permission :: note_permission

record revision_snapshot =
  rs_note :: note_rec
  rs_changed_by :: principal_ref
  rs_kind :: revision_kind

definition snapshot_changed_at :: "revision_snapshot \<Rightarrow> unix_millis" where
  "snapshot_changed_at s = n_updated_at (rs_note s)"

record revision_summary =
  rsum_revision :: revision
  rsum_changed_at :: unix_millis
  rsum_changed_by :: principal_ref
  rsum_kind :: revision_kind

definition revision_summary_of :: "revision_snapshot \<Rightarrow> revision_summary" where
  "revision_summary_of s =
     \<lparr>rsum_revision = n_revision (rs_note s), rsum_changed_at = snapshot_changed_at s,
      rsum_changed_by = rs_changed_by s, rsum_kind = rs_kind s\<rparr>"

end
