(* ===== verification/Attachment.thy ===== *)
theory Attachment
  imports NoteModel
begin

text \<open>
  Attached images, \<open>crates/marginalis-domain/src/model/attachment.rs\<close>: the format recognised from the
  content, the checked draft, the stored metadata and the consistency of stored bytes.  Unicode
  normalisation (\<open>nfc\<close>) and SHA-256 (\<open>sha256\<close>) are library code and stay parameters.
\<close>

type_synonym u8 = "8 word"
type_synonym attachment_id = entity_id

record attachment_policy =
  ap_max_bytes :: nat
  ap_max_attachments_per_note :: nat
  ap_max_bytes_per_note :: nat
  ap_max_file_name_characters :: nat

definition the_attachment_policy :: attachment_policy where
  "the_attachment_policy =
     \<lparr>ap_max_bytes = 8 * 1024 * 1024, ap_max_attachments_per_note = 32,
      ap_max_bytes_per_note = 64 * 1024 * 1024, ap_max_file_name_characters = 200\<rparr>"

definition unreferenced_attachment_retention_ms :: int where
  "unreferenced_attachment_retention_ms = 30 * 24 * 60 * 60 * 1000"

section \<open>Media types\<close>

datatype media_type = Png | Jpeg | WebP

fun media_type_as_str :: "media_type \<Rightarrow> rstr" where
  "media_type_as_str Png = lit ''image/png''"
| "media_type_as_str Jpeg = lit ''image/jpeg''"
| "media_type_as_str WebP = lit ''image/webp''"

datatype invalid_media_type = InvalidAttachmentMediaType

definition media_type_from_str :: "rstr \<Rightarrow> invalid_media_type + media_type" where
  "media_type_from_str s =
     (if s = lit ''image/png'' then Inr Png
      else if s = lit ''image/jpeg'' then Inr Jpeg
      else if s = lit ''image/webp'' then Inr WebP
      else Inl InvalidAttachmentMediaType)"

lemma media_type_roundtrip [simp]: "media_type_from_str (media_type_as_str m) = Inr m"
  by (cases m) (simp_all add: media_type_from_str_def)

text \<open>\<open>bytes.get(a..b)\<close>\<close>

definition get_range :: "nat \<Rightarrow> nat \<Rightarrow> 'a list \<Rightarrow> 'a list option" where
  "get_range a b xs = (if a \<le> b \<and> b \<le> length xs then Some (take (b - a) (drop a xs)) else None)"

definition png_signature :: "u8 list" where
  "png_signature = [0x89, 0x50, 0x4E, 0x47, 0x0D, 0x0A, 0x1A, 0x0A]"

definition is_png :: "u8 list \<Rightarrow> bool" where
  "is_png bytes \<longleftrightarrow>
     24 \<le> length bytes
     \<and> starts_with png_signature bytes
     \<and> get_range 12 16 bytes = Some [0x49, 0x48, 0x44, 0x52]
     \<and> (case get_range 16 24 bytes of None \<Rightarrow> False
        | Some dims \<Rightarrow> take 4 dims \<noteq> [0, 0, 0, 0] \<and> drop 4 dims \<noteq> [0, 0, 0, 0])"

definition is_jpeg :: "u8 list \<Rightarrow> bool" where
  "is_jpeg bytes \<longleftrightarrow>
     4 \<le> length bytes
     \<and> starts_with [0xFF, 0xD8, 0xFF] bytes
     \<and> starts_with [0xD9, 0xFF] (rev bytes)"

definition is_webp :: "u8 list \<Rightarrow> bool" where
  "is_webp bytes \<longleftrightarrow>
     16 \<le> length bytes
     \<and> starts_with [0x52, 0x49, 0x46, 0x46] bytes
     \<and> get_range 8 12 bytes = Some [0x57, 0x45, 0x42, 0x50]
     \<and> get_range 12 16 bytes \<in> {Some [0x56, 0x50, 0x38, 0x20], Some [0x56, 0x50, 0x38, 0x4C],
          Some [0x56, 0x50, 0x38, 0x58]}"

definition media_type_detect :: "u8 list \<Rightarrow> media_type option" where
  "media_type_detect bytes =
     (if is_png bytes then Some Png
      else if is_jpeg bytes then Some Jpeg
      else if is_webp bytes then Some WebP
      else None)"

lemma media_type_detect_nonempty: "media_type_detect bytes = Some m \<Longrightarrow> bytes \<noteq> []"
  by (auto simp: media_type_detect_def is_png_def is_jpeg_def is_webp_def split: if_splits)

text \<open>At most one signature matches: the first byte tells the three formats apart.\<close>

lemma starts_with_hd: "starts_with (p # ps) xs \<Longrightarrow> xs \<noteq> [] \<and> hd xs = p"
  by (auto simp: starts_with_iff)

lemma media_type_signatures_disjoint:
  "is_png b \<Longrightarrow> \<not> is_jpeg b" "is_png b \<Longrightarrow> \<not> is_webp b" "is_jpeg b \<Longrightarrow> \<not> is_webp b"
  by (auto simp: is_png_def is_jpeg_def is_webp_def png_signature_def dest!: starts_with_hd)

section \<open>Drafts\<close>

datatype invalid_attachment = InvalidFileName | AttachmentEmpty | AttachmentTooLarge | UnsupportedMediaType

definition file_name_rejected :: "rstr \<Rightarrow> bool" where
  "file_name_rejected name \<longleftrightarrow>
     name = []
     \<or> ap_max_file_name_characters the_attachment_policy < length name
     \<or> list_ex (\<lambda>c. is_control c \<or> c = 47 \<or> c = 92) name
     \<or> name = lit ''.'' \<or> name = lit ''..''"

definition normalise_file_name :: "(rstr \<Rightarrow> rstr) \<Rightarrow> rstr \<Rightarrow> rstr" where
  "normalise_file_name nfc name = nfc (trim name)"

record attachment_draft =
  ad_file_name :: rstr
  ad_media_type :: media_type
  ad_bytes :: "u8 list"

definition attachment_draft_new ::
  "(rstr \<Rightarrow> rstr) \<Rightarrow> rstr \<Rightarrow> u8 list \<Rightarrow> invalid_attachment + attachment_draft" where
  "attachment_draft_new nfc name bytes =
     (let file_name = normalise_file_name nfc name in
      if file_name_rejected file_name then Inl InvalidFileName
      else if bytes = [] then Inl AttachmentEmpty
      else if ap_max_bytes the_attachment_policy < length bytes then Inl AttachmentTooLarge
      else rbind (ok_or UnsupportedMediaType (media_type_detect bytes)) (\<lambda>m.
        Inr \<lparr>ad_file_name = file_name, ad_media_type = m, ad_bytes = bytes\<rparr>))"

section \<open>Metadata and stored attachments\<close>

record attachment_metadata =
  am_id :: attachment_id
  am_note :: note_id
  am_file_name :: rstr
  am_media_type :: media_type
  am_byte_length :: nat
  am_sha256 :: "u8 list"
  am_created_at :: unix_millis
  am_created_by :: principal_ref

definition attachment_metadata_new ::
  "(rstr \<Rightarrow> rstr) \<Rightarrow> attachment_id \<Rightarrow> note_id \<Rightarrow> rstr \<Rightarrow> media_type \<Rightarrow> nat \<Rightarrow> u8 list \<Rightarrow> unix_millis
   \<Rightarrow> principal_ref \<Rightarrow> invalid_attachment + attachment_metadata" where
  "attachment_metadata_new nfc aid nid name m len sha created by_ref =
     (let file_name = normalise_file_name nfc name in
      if file_name_rejected file_name then Inl InvalidFileName
      else if len = 0 then Inl AttachmentEmpty
      else if ap_max_bytes the_attachment_policy < len then Inl AttachmentTooLarge
      else Inr \<lparr>am_id = aid, am_note = nid, am_file_name = file_name, am_media_type = m,
             am_byte_length = len, am_sha256 = sha, am_created_at = created, am_created_by = by_ref\<rparr>)"

record stored_attachment =
  sa_metadata :: attachment_metadata
  sa_bytes :: "u8 list"

definition stored_attachment_new ::
  "(u8 list \<Rightarrow> u8 list) \<Rightarrow> attachment_metadata \<Rightarrow> u8 list \<Rightarrow> invalid_attachment + stored_attachment" where
  "stored_attachment_new sha256 meta bytes =
     (if length bytes \<noteq> am_byte_length meta
         \<or> media_type_detect bytes \<noteq> Some (am_media_type meta)
         \<or> sha256 bytes \<noteq> am_sha256 meta
      then Inl UnsupportedMediaType
      else Inr \<lparr>sa_metadata = meta, sa_bytes = bytes\<rparr>)"

text \<open>\<open>None\<close> is the panic of the \<open>expect\<close> in \<open>into_stored\<close>.\<close>

definition attachment_into_stored ::
  "(rstr \<Rightarrow> rstr) \<Rightarrow> (u8 list \<Rightarrow> u8 list) \<Rightarrow> attachment_draft \<Rightarrow> attachment_id \<Rightarrow> note_id \<Rightarrow> unix_millis
   \<Rightarrow> principal_ref \<Rightarrow> stored_attachment option" where
  "attachment_into_stored nfc sha256 draft aid nid created by_ref =
     (case attachment_metadata_new nfc aid nid (ad_file_name draft) (ad_media_type draft)
          (length (ad_bytes draft)) (sha256 (ad_bytes draft)) created by_ref of
        Inl _ \<Rightarrow> None
      | Inr meta \<Rightarrow> Some \<lparr>sa_metadata = meta, sa_bytes = ad_bytes draft\<rparr>)"

lemma attachment_draft_new_Inr:
  "attachment_draft_new nfc name bytes = Inr d \<longleftrightarrow>
     ad_file_name d = nfc (trim name) \<and> ad_bytes d = bytes \<and> \<not> file_name_rejected (nfc (trim name))
     \<and> length bytes \<le> 8388608 \<and> media_type_detect bytes = Some (ad_media_type d)"
  by (auto simp: attachment_draft_new_def Let_def result_simps normalise_file_name_def
      the_attachment_policy_def dest: media_type_detect_nonempty intro!: attachment_draft.equality)

lemma attachment_metadata_new_Inr:
  "attachment_metadata_new nfc aid nid name m len sha created by_ref = Inr meta \<longleftrightarrow>
     \<not> file_name_rejected (nfc (trim name)) \<and> 0 < len \<and> len \<le> 8388608
     \<and> meta = \<lparr>am_id = aid, am_note = nid, am_file_name = nfc (trim name), am_media_type = m,
             am_byte_length = len, am_sha256 = sha, am_created_at = created, am_created_by = by_ref\<rparr>"
  by (auto simp: attachment_metadata_new_def Let_def normalise_file_name_def the_attachment_policy_def)

text \<open>What the code relies on of the normaliser: a normalised trimmed name is left unchanged.\<close>

definition nfc_stable :: "(rstr \<Rightarrow> rstr) \<Rightarrow> bool" where
  "nfc_stable nfc \<longleftrightarrow> (\<forall>s. trim (nfc (trim s)) = nfc (trim s) \<and> nfc (nfc s) = nfc s)"

lemma attachment_stored_checks:
  assumes "nfc_stable nfc" "attachment_draft_new nfc name bytes = Inr d"
  shows "\<exists>s. attachment_into_stored nfc sha256 d aid nid created by_ref = Some s
     \<and> stored_attachment_new sha256 (sa_metadata s) (sa_bytes s) = Inr s
     \<and> am_file_name (sa_metadata s) = ad_file_name d \<and> sa_bytes s = bytes"
proof -
  from assms(2) have d: "ad_file_name d = nfc (trim name)" "ad_bytes d = bytes"
      "\<not> file_name_rejected (nfc (trim name))" "length bytes \<le> 8388608"
      "media_type_detect bytes = Some (ad_media_type d)"
    by (auto simp: attachment_draft_new_Inr)
  have "nfc (trim (nfc (trim name))) = nfc (trim name)"
    using assms(1) by (simp add: nfc_stable_def)
  moreover have "0 < length bytes" using d(5) by (auto dest: media_type_detect_nonempty)
  ultimately obtain meta where
    "attachment_metadata_new nfc aid nid (ad_file_name d) (ad_media_type d) (length (ad_bytes d))
       (sha256 (ad_bytes d)) created by_ref = Inr meta"
    "am_file_name meta = ad_file_name d" "am_byte_length meta = length bytes"
    "am_media_type meta = ad_media_type d" "am_sha256 meta = sha256 bytes"
    using d by (simp add: attachment_metadata_new_Inr)
  with d show ?thesis
    by (auto simp: attachment_into_stored_def stored_attachment_new_def)
qed

end
