(* ===== verification/Store.thy ===== *)
theory Store
  imports Attachment
begin

text \<open>
  The SQLite schema the note operations work on (\<open>crates/marginalis-sqlite/src\<close>): one row type per
  table, the database as the record of its tables, the view \<open>note_access\<close>, the constraints a
  statement may violate, and the triggers that derive the change log and the synchronisation
  projection.  A column whose values a CHECK lists is the datatype it names, and \<open>tags_json\<close> is the
  list it encodes.  A violated constraint is the error \<open>Database\<close>.
\<close>

datatype store_error = NotFound | Conflict | ArchiveTargetNotEmpty | CorruptData | Database

text \<open>How the application sees a storage failure, \<open>impl From<SqliteStoreError> for StorageError\<close>.\<close>

datatype storage_error = StorageNotFound | StorageConflict | StorageRetentionExpired
  | StorageUnavailable | StorageCorruptData

fun storage_error_of :: "store_error \<Rightarrow> storage_error" where
  "storage_error_of NotFound = StorageNotFound"
| "storage_error_of Conflict = StorageConflict"
| "storage_error_of ArchiveTargetNotEmpty = StorageCorruptData"
| "storage_error_of CorruptData = StorageCorruptData"
| "storage_error_of Database = StorageUnavailable"

text \<open>
  \<open>hash_token\<close> of \<open>token.rs\<close> is the SHA-256 digest of the token, which is not computed here: it is a
  parameter of the operations that store or look up tokens.
\<close>

type_synonym token_hash = "rstr \<Rightarrow> u8 list"

section \<open>Rows\<close>

record identity_row =
  ir_identity_id :: int
  ir_principal :: int
  ir_issuer :: rstr
  ir_subject :: rstr
  ir_primary :: bool

record note_row =
  nr_id :: note_id
  nr_creator :: int
  nr_title :: rstr
  nr_source :: rstr
  nr_tags :: "rstr list"
  nr_created_at :: int
  nr_updated_at :: int
  nr_revision :: int
  nr_deleted_at :: "int option"
  nr_created_via :: creation_source
  nr_tracking_known :: bool
  nr_reviewed_revision :: "int option"
  nr_reviewed_at :: "int option"
  nr_reviewer :: "int option"

record acl_row =
  ar_note :: note_id
  ar_principal :: int
  ar_permission :: note_permission

record revision_row =
  hr_note :: note_id
  hr_revision :: int
  hr_changed_at :: int
  hr_changed_by :: int
  hr_kind :: revision_kind
  hr_title :: rstr
  hr_source :: rstr
  hr_tags :: "rstr list"
  hr_deleted_at :: "int option"
  hr_tracking_known :: bool
  hr_reviewed_revision :: "int option"
  hr_reviewed_at :: "int option"
  hr_reviewer :: "int option"

record attachment_row =
  at_id :: attachment_id
  at_note :: note_id
  at_file_name :: rstr
  at_media_type :: media_type
  at_byte_length :: int
  at_sha256 :: "u8 list"
  at_content :: "u8 list"
  at_created_at :: int
  at_created_by :: int

datatype change_kind =
  CNoteCreated | CNoteUpdated | CNoteDeleted | CNoteRestored | CNoteStateChanged
  | CAccessGranted | CAccessRevoked | CItemCreated | CItemUpdated | CItemDeleted

record change_row =
  ch_sequence :: int
  ch_owner :: int
  ch_affected :: "int option"
  ch_kind :: change_kind
  ch_target :: note_id
  ch_revision :: int
  ch_occurred_at :: int

datatype removal_reason = ReasonDeleted | ReasonAccessRevoked
datatype projection_kind = PUpsert | PRemove removal_reason

record projection_row =
  pj_sequence :: int
  pj_principal :: int
  pj_note :: note_id
  pj_kind :: projection_kind

datatype sync_phase = Snapshot | Changes

record cursor_row =
  cu_hash :: "u8 list"
  cu_principal :: int
  cu_phase :: sync_phase
  cu_after_note :: "note_id option"
  cu_after_sequence :: int
  cu_high_watermark :: int
  cu_expires_at :: int

record db =
  db_principals :: "int list"
  db_identities :: "identity_row list"
  db_notes :: "note_row list"
  db_acl :: "acl_row list"
  db_revisions :: "revision_row list"
  db_attachments :: "attachment_row list"
  db_revision_attachments :: "(note_id \<times> int \<times> attachment_id) list"
  db_references :: "(note_id \<times> note_id) list"
  db_citations :: "(note_id \<times> rstr) list"
  db_changes :: "change_row list"
  db_next_sequence :: int
  db_latest_change :: int
  db_projection :: "projection_row list"
  db_cursors :: "cursor_row list"

definition empty_db :: db where
  "empty_db = \<lparr>db_principals = [], db_identities = [], db_notes = [], db_acl = [], db_revisions = [],
     db_attachments = [], db_revision_attachments = [], db_references = [], db_citations = [],
     db_changes = [], db_next_sequence = 1, db_latest_change = 0, db_projection = [],
     db_cursors = []\<rparr>"

section \<open>Access levels\<close>

fun permission_level :: "note_permission \<Rightarrow> int" where
  "permission_level PRead = 1"
| "permission_level PEdit = 2"

fun access_level :: "note_access \<Rightarrow> int" where
  "access_level ARead = 1"
| "access_level AEdit = 2"
| "access_level AManage = 3"

definition access_from_level :: "int \<Rightarrow> store_error + note_access" where
  "access_from_level level =
     (if level = 1 then Inr ARead
      else if level = 2 then Inr AEdit
      else if level = 3 then Inr AManage
      else Inl CorruptData)"

lemma access_from_level_roundtrip [simp]: "access_from_level (access_level a) = Inr a"
  by (cases a) (simp_all add: access_from_level_def)

lemma access_level_mono: "access_level a \<le> access_level b \<longleftrightarrow> a \<le> b"
  by (cases a; cases b) (auto simp: less_eq_note_access_def)

text \<open>The view \<open>note_access\<close>: the owner manages, the ACL grants reading or editing.\<close>

definition note_access :: "db \<Rightarrow> (note_id \<times> int \<times> int) list" where
  "note_access d = map (\<lambda>r. (nr_id r, nr_creator r, 3)) (db_notes d)
     @ map (\<lambda>a. (ar_note a, ar_principal a, permission_level (ar_permission a))) (db_acl d)"

definition access_at_least :: "db \<Rightarrow> note_id \<Rightarrow> int \<Rightarrow> int \<Rightarrow> bool" where
  "access_at_least d nid p level \<longleftrightarrow>
     list_ex (\<lambda>(n, q, l). n = nid \<and> q = p \<and> level \<le> l) (note_access d)"

text \<open>The row a join with \<open>note_access\<close> finds for a note and a principal.\<close>

definition access_row :: "db \<Rightarrow> note_id \<Rightarrow> int \<Rightarrow> int option" where
  "access_row d nid p = map_option (\<lambda>(n, q, l). l) (find (\<lambda>(n, q, l). n = nid \<and> q = p) (note_access d))"

lemma access_at_least_iff:
  "access_at_least d nid p level \<longleftrightarrow>
     (\<exists>r\<in>set (db_notes d). nr_id r = nid \<and> nr_creator r = p \<and> level \<le> 3)
     \<or> (\<exists>a\<in>set (db_acl d). ar_note a = nid \<and> ar_principal a = p
          \<and> level \<le> permission_level (ar_permission a))"
  by (auto simp: access_at_least_def note_access_def list_ex_iff)

section \<open>Row constraints\<close>

text \<open>The CHECK of the review columns of \<open>notes\<close>.\<close>

definition note_row_check :: "note_row \<Rightarrow> bool" where
  "note_row_check r \<longleftrightarrow>
     0 < nr_revision r \<and> in_i64 (nr_revision r)
     \<and> ((nr_reviewed_revision r = None \<and> nr_reviewed_at r = None \<and> nr_reviewer r = None)
        \<or> (nr_tracking_known r
           \<and> (\<exists>rr ra. nr_reviewed_revision r = Some rr \<and> nr_reviewed_at r = Some ra
               \<and> 0 < rr \<and> rr \<le> nr_revision r
               \<and> nr_created_at r \<le> ra \<and> ra \<le> nr_updated_at r)
           \<and> nr_reviewer r = Some (nr_creator r)))"

definition attachment_row_check :: "attachment_row \<Rightarrow> bool" where
  "attachment_row_check a \<longleftrightarrow>
     1 \<le> length (at_file_name a) \<and> length (at_file_name a) \<le> 200
     \<and> 47 \<notin> set (at_file_name a) \<and> 92 \<notin> set (at_file_name a)
     \<and> 1 \<le> at_byte_length a \<and> at_byte_length a \<le> 8388608
     \<and> length (at_sha256 a) = 32 \<and> int (length (at_content a)) = at_byte_length a"

section \<open>Triggers\<close>

text \<open>\<open>INSERT ... ON CONFLICT (principal_id, note_id) DO UPDATE\<close> on \<open>note_sync_projection\<close>.\<close>

definition upsert_projection :: "projection_row \<Rightarrow> projection_row list \<Rightarrow> projection_row list" where
  "upsert_projection row t =
     (let same = (\<lambda>r. pj_principal r = pj_principal row \<and> pj_note r = pj_note row) in
      if exists_where same t
      then update_where same (\<lambda>r. r\<lparr>pj_sequence := pj_sequence row, pj_kind := pj_kind row\<rparr>) t
      else t @ [row])"

fun note_change_projection :: "change_kind \<Rightarrow> projection_kind" where
  "note_change_projection CNoteDeleted = PRemove ReasonDeleted"
| "note_change_projection _ = PUpsert"

text \<open>\<open>note_sync_after_note_change_insert\<close>: every principal of \<open>note_access\<close> gets the new state.\<close>

definition project_note_change :: "int \<Rightarrow> note_id \<Rightarrow> change_kind \<Rightarrow> db \<Rightarrow> db" where
  "project_note_change s nid kind d =
     d\<lparr>db_projection := fold (\<lambda>(n, p, l) t.
           if n = nid
           then upsert_projection \<lparr>pj_sequence = s, pj_principal = p, pj_note = nid,
                  pj_kind = note_change_projection kind\<rparr> t
           else t) (note_access d) (db_projection d),
       db_latest_change := s\<rparr>"

text \<open>\<open>note_sync_after_access_change_insert\<close>: only the affected principal gets the new state.\<close>

definition project_access_change :: "int \<Rightarrow> note_id \<Rightarrow> int \<Rightarrow> change_kind \<Rightarrow> db \<Rightarrow> db" where
  "project_access_change s nid p kind d =
     d\<lparr>db_projection := upsert_projection \<lparr>pj_sequence = s, pj_principal = p, pj_note = nid,
           pj_kind = (if kind = CAccessGranted then PUpsert else PRemove ReasonAccessRevoked)\<rparr>
           (db_projection d),
       db_latest_change := s\<rparr>"

text \<open>An insertion into \<open>domain_changes\<close> and the projection triggers it fires.\<close>

definition append_change :: "int \<Rightarrow> int option \<Rightarrow> change_kind \<Rightarrow> note_id \<Rightarrow> int \<Rightarrow> int \<Rightarrow> db \<Rightarrow> db" where
  "append_change own affected kind nid rvn occurred d =
     d\<lparr>db_changes := db_changes d @ [\<lparr>ch_sequence = db_next_sequence d, ch_owner = own,
           ch_affected = affected, ch_kind = kind, ch_target = nid, ch_revision = rvn,
           ch_occurred_at = occurred\<rparr>],
       db_next_sequence := db_next_sequence d + 1\<rparr>"

definition record_note_change :: "change_kind \<Rightarrow> note_row \<Rightarrow> db \<Rightarrow> db" where
  "record_note_change kind r d =
     project_note_change (db_next_sequence d) (nr_id r) kind
       (append_change (nr_creator r) None kind (nr_id r) (nr_revision r) (nr_updated_at r) d)"

definition record_access_change :: "change_kind \<Rightarrow> note_row \<Rightarrow> int \<Rightarrow> db \<Rightarrow> db" where
  "record_access_change kind r p d =
     project_access_change (db_next_sequence d) (nr_id r) p kind
       (append_change (nr_creator r) (Some p) kind (nr_id r) (nr_revision r) (nr_updated_at r) d)"

text \<open>The CASE of \<open>domain_change_after_note_update\<close>.\<close>

definition update_change_kind :: "note_row \<Rightarrow> note_row \<Rightarrow> change_kind" where
  "update_change_kind old new =
     (if nr_deleted_at old = None \<and> nr_deleted_at new \<noteq> None then CNoteDeleted
      else if nr_deleted_at old \<noteq> None \<and> nr_deleted_at new = None then CNoteRestored
      else if nr_source new \<noteq> nr_source old then CNoteUpdated
      else CNoteStateChanged)"

section \<open>Statements on \<open>notes\<close> and \<open>note_acl\<close>\<close>

definition find_note :: "db \<Rightarrow> note_id \<Rightarrow> note_row option" where
  "find_note d nid = row_by nr_id nid (db_notes d)"

definition sql_insert_note :: "note_row \<Rightarrow> db \<Rightarrow> store_error + db" where
  "sql_insert_note r d =
     (if find_note d (nr_id r) \<noteq> None \<or> nr_creator r \<notin> set (db_principals d) \<or> \<not> note_row_check r
      then Inl Database
      else Inr (record_note_change CNoteCreated r (d\<lparr>db_notes := db_notes d @ [r]\<rparr>)))"

text \<open>
  \<open>UPDATE notes SET ... WHERE note_id = ? AND ...\<close>.  The primary key selects at most one row; the
  result says whether one row was affected.
\<close>

definition put_note :: "note_row \<Rightarrow> db \<Rightarrow> db" where
  "put_note r d = d\<lparr>db_notes := update_where (\<lambda>x. nr_id x = nr_id r) (\<lambda>_. r) (db_notes d)\<rparr>"

definition sql_update_note ::
  "note_id \<Rightarrow> (note_row \<Rightarrow> bool) \<Rightarrow> (note_row \<Rightarrow> note_row) \<Rightarrow> db \<Rightarrow> store_error + (bool \<times> db)" where
  "sql_update_note nid guard f d =
     (case find_note d nid of
        None \<Rightarrow> Inr (False, d)
      | Some old \<Rightarrow>
          if \<not> guard old then Inr (False, d)
          else if \<not> note_row_check (f old) then Inl Database
          else Inr (True, record_note_change (update_change_kind old (f old)) (f old) (put_note (f old) d)))"

definition sql_delete_acl :: "note_id \<Rightarrow> db \<Rightarrow> db" where
  "sql_delete_acl nid d =
     (let gone = select_where (\<lambda>a. ar_note a = nid) (db_acl d);
          d1 = d\<lparr>db_acl := delete_where (\<lambda>a. ar_note a = nid) (db_acl d)\<rparr> in
      fold (\<lambda>a e. case find_note e (ar_note a) of
                     None \<Rightarrow> e
                   | Some r \<Rightarrow> record_access_change CAccessRevoked r (ar_principal a) e) gone d1)"

text \<open>An ACL row is refused for the owner (trigger), a duplicate, or an unknown note or principal.\<close>

definition sql_insert_acl :: "acl_row \<Rightarrow> db \<Rightarrow> store_error + db" where
  "sql_insert_acl a d =
     (case find_note d (ar_note a) of
        None \<Rightarrow> Inl Database
      | Some r \<Rightarrow>
          if nr_creator r = ar_principal a
             \<or> exists_where (\<lambda>b. ar_note b = ar_note a \<and> ar_principal b = ar_principal a) (db_acl d)
             \<or> ar_principal a \<notin> set (db_principals d)
          then Inl Database
          else Inr (record_access_change CAccessGranted r (ar_principal a)
                      (d\<lparr>db_acl := db_acl d @ [a]\<rparr>)))"

end
