(* ===== verification/NoteStore.thy ===== *)
theory NoteStore
  imports Store "HOL-Library.List_Lexorder"
begin

text \<open>
  The note transactions of \<open>crates/marginalis-sqlite/src/notes.rs\<close>, \<open>note_history.rs\<close>, \<open>note_acl.rs\<close>
  and \<open>note_reviews.rs\<close>.  A transaction maps the database to an error, which rolls it back and leaves
  the database as it was, or to its result and the committed database.  Failures of the connection
  itself are not modelled.
\<close>

section \<open>Reading rows\<close>

text \<open>The view \<open>note_details\<close>: a note joined with the primary identities of owner and reviewer.\<close>

record note_details =
  nd_row :: note_row
  nd_creator_issuer :: rstr
  nd_creator_subject :: rstr
  nd_reviewer_issuer :: "rstr option"
  nd_reviewer_subject :: "rstr option"

definition primary_identity_row :: "db \<Rightarrow> int \<Rightarrow> identity_row option" where
  "primary_identity_row d p = find (\<lambda>i. ir_principal i = p \<and> ir_primary i) (db_identities d)"

definition note_details_of :: "db \<Rightarrow> note_row \<Rightarrow> note_details option" where
  "note_details_of d r =
     Option.bind (primary_identity_row d (nr_creator r)) (\<lambda>own.
     let rv = Option.bind (nr_reviewer r) (primary_identity_row d) in
     Some \<lparr>nd_row = r, nd_creator_issuer = ir_issuer own, nd_creator_subject = ir_subject own,
           nd_reviewer_issuer = map_option ir_issuer rv,
           nd_reviewer_subject = map_option ir_subject rv\<rparr>)"

definition fetch_details :: "db \<Rightarrow> note_id \<Rightarrow> note_details option" where
  "fetch_details d nid = Option.bind (find_note d nid) (note_details_of d)"

definition corrupt :: "'e + 'a \<Rightarrow> store_error + 'a" where
  "corrupt r = map_err (\<lambda>_. CorruptData) r"

definition opt_result :: "('a \<Rightarrow> 'e + 'b) \<Rightarrow> 'a option \<Rightarrow> 'e + 'b option" where
  "opt_result f x = (case x of None \<Rightarrow> Inr None | Some v \<Rightarrow> rbind (f v) (\<lambda>y. Inr (Some y)))"

text \<open>The match on the six review columns, shared by \<open>note_from_row\<close> and \<open>revision_from_row\<close>.\<close>

definition review_from_columns ::
  "url_parser \<Rightarrow> bool \<Rightarrow> int option \<Rightarrow> int option \<Rightarrow> rstr option \<Rightarrow> rstr option \<Rightarrow> int option
   \<Rightarrow> store_error + review_tracking" where
  "review_from_columns pu known rrev rat iss sub rid =
     (case (known, rrev, rat, iss, sub, rid) of
        (False, None, None, None, None, None) \<Rightarrow> Inr TUnknown
      | (True, None, None, None, None, None) \<Rightarrow> Inr review_pending
      | (True, Some r, Some t, Some i, Some s, Some p) \<Rightarrow>
          rbind (corrupt (identity_new pu i s)) (\<lambda>ident.
          Inr (Tracked (Some \<lparr>rv_revision = r, rv_reviewed_at = t,
            rv_reviewer = \<lparr>pref_id = p, primary_identity = ident\<rparr>\<rparr>)))
      | _ \<Rightarrow> Inl CorruptData)"

definition note_from_row :: "url_parser \<Rightarrow> note_details \<Rightarrow> store_error + note_rec" where
  "note_from_row pu nd =
     (let r = nd_row nd in
      rbind (corrupt (identity_new pu (nd_creator_issuer nd) (nd_creator_subject nd))) (\<lambda>ident.
      rbind (corrupt (principal_id_new (nr_creator r))) (\<lambda>pid.
      rbind (corrupt (opt_result revision_new (nr_reviewed_revision r))) (\<lambda>rrev.
      rbind (corrupt (opt_result principal_id_new (nr_reviewer r))) (\<lambda>rid.
      rbind (review_from_columns pu (nr_tracking_known r) rrev (nr_reviewed_at r)
               (nd_reviewer_issuer nd) (nd_reviewer_subject nd) rid) (\<lambda>rvw.
      rbind (corrupt (revision_new (nr_revision r))) (\<lambda>rvn.
      corrupt (note_restore (nr_id r) \<lparr>pref_id = pid, primary_identity = ident\<rparr>
        \<lparr>d_source = nr_source r, d_title = nr_title r, d_tags = nr_tags r\<rparr>
        (nr_created_at r) (nr_updated_at r) rvn (nr_deleted_at r) (nr_created_via r) rvw))))))))"

text \<open>\<open>note_row\<close> and \<open>note_from_row\<close>: \<open>fetch_one\<close> fails when the view has no such row.\<close>

definition fetch_note :: "url_parser \<Rightarrow> note_id \<Rightarrow> db \<Rightarrow> store_error + note_rec" where
  "fetch_note pu nid d = rbind (ok_or Database (fetch_details d nid)) (note_from_row pu)"

record accessible_note_rec =
  an_note :: note_rec
  an_access :: note_access

definition accessible_note :: "url_parser \<Rightarrow> actor \<Rightarrow> note_id \<Rightarrow> db \<Rightarrow> store_error + accessible_note_rec option" where
  "accessible_note pu act nid d =
     (case fetch_details d nid of
        None \<Rightarrow> Inr None
      | Some nd \<Rightarrow>
          if nr_deleted_at (nd_row nd) \<noteq> None then Inr None
          else (case access_row d nid (actor_id act) of
              None \<Rightarrow> Inr None
            | Some level \<Rightarrow>
                rbind (access_from_level level) (\<lambda>acc.
                rbind (note_from_row pu nd) (\<lambda>n. Inr (Some \<lparr>an_note = n, an_access = acc\<rparr>)))))"

section \<open>Links, history and failure classification\<close>

record note_links =
  nl_reference_targets :: "note_id list"
  nl_cited_keys :: "rstr list"
  nl_attachment_ids :: "attachment_id list"

text \<open>\<open>INSERT OR IGNORE\<close> of one pair.\<close>

definition insert_or_ignore :: "'a \<Rightarrow> 'a list \<Rightarrow> 'a list" where
  "insert_or_ignore x t = (if x \<in> set t then t else t @ [x])"

definition replace_reference_rows :: "note_id \<Rightarrow> note_id list \<Rightarrow> db \<Rightarrow> db" where
  "replace_reference_rows nid targets d =
     d\<lparr>db_references := fold (\<lambda>t rows. insert_or_ignore (nid, t) rows) targets
         (delete_where (\<lambda>p. fst p = nid) (db_references d))\<rparr>"

definition replace_link_rows :: "note_id \<Rightarrow> note_links \<Rightarrow> db \<Rightarrow> db" where
  "replace_link_rows nid links d =
     (let d1 = replace_reference_rows nid (nl_reference_targets links) d in
      d1\<lparr>db_citations := fold (\<lambda>k rows. insert_or_ignore (nid, k) rows) (nl_cited_keys links)
          (delete_where (\<lambda>p. fst p = nid) (db_citations d1))\<rparr>)"

definition history_row :: "int \<Rightarrow> revision_kind \<Rightarrow> note_row \<Rightarrow> revision_row" where
  "history_row changed_by kind r =
     \<lparr>hr_note = nr_id r, hr_revision = nr_revision r, hr_changed_at = nr_updated_at r,
      hr_changed_by = changed_by, hr_kind = kind, hr_title = nr_title r, hr_source = nr_source r,
      hr_tags = nr_tags r, hr_deleted_at = nr_deleted_at r,
      hr_tracking_known = nr_tracking_known r, hr_reviewed_revision = nr_reviewed_revision r,
      hr_reviewed_at = nr_reviewed_at r, hr_reviewer = nr_reviewer r\<rparr>"

text \<open>
  The first statement copies the note row; no row, a revision already recorded or an unknown
  principal fails.  The second one carries the attachments of the previous revision over.
\<close>

definition insert_note_revision :: "note_id \<Rightarrow> int \<Rightarrow> revision_kind \<Rightarrow> db \<Rightarrow> store_error + db" where
  "insert_note_revision nid changed_by kind d =
     (case find_note d nid of
        None \<Rightarrow> Inl CorruptData
      | Some r \<Rightarrow>
          if exists_where (\<lambda>h. hr_note h = nid \<and> hr_revision h = nr_revision r) (db_revisions d)
             \<or> changed_by \<notin> set (db_principals d)
          then Inl Database
          else Inr (d\<lparr>db_revisions := db_revisions d @ [history_row changed_by kind r],
                 db_revision_attachments := db_revision_attachments d
                   @ map (\<lambda>(n, v, a). (n, nr_revision r, a))
                       (select_where (\<lambda>(n, v, a). n = nid \<and> v = nr_revision r - 1)
                          (db_revision_attachments d))\<rparr>))"

fun insert_revision_attachments ::
  "note_id \<Rightarrow> int \<Rightarrow> attachment_id list \<Rightarrow> db \<Rightarrow> store_error + db" where
  "insert_revision_attachments nid rvn [] d = Inr d"
| "insert_revision_attachments nid rvn (a # as) d =
     (if \<not> exists_where (\<lambda>x. at_note x = nid \<and> at_id x = a) (db_attachments d) then Inl CorruptData
      else if (nid, rvn, a) \<in> set (db_revision_attachments d) then Inl Database
      else insert_revision_attachments nid rvn as
             (d\<lparr>db_revision_attachments := db_revision_attachments d @ [(nid, rvn, a)]\<rparr>))"

definition replace_note_revision_attachments ::
  "note_id \<Rightarrow> attachment_id list \<Rightarrow> db \<Rightarrow> store_error + db" where
  "replace_note_revision_attachments nid as d =
     (case find_note d nid of
        None \<Rightarrow> Inl CorruptData
      | Some r \<Rightarrow> insert_revision_attachments nid (nr_revision r) as
          (d\<lparr>db_revision_attachments :=
              delete_where (\<lambda>(n, v, a). n = nid \<and> v = nr_revision r) (db_revision_attachments d)\<rparr>))"

definition require_active_note_access ::
  "actor \<Rightarrow> note_id \<Rightarrow> note_access \<Rightarrow> db \<Rightarrow> store_error + unit" where
  "require_active_note_access act nid required d =
     (case find_note d nid of
        None \<Rightarrow> Inl NotFound
      | Some r \<Rightarrow>
          if nr_deleted_at r = None \<and> access_at_least d nid (actor_id act) (access_level required)
          then Inr () else Inl NotFound)"

definition classify_failed_mutation :: "actor \<Rightarrow> note_id \<Rightarrow> note_access \<Rightarrow> db \<Rightarrow> store_error" where
  "classify_failed_mutation act nid required d =
     (case require_active_note_access act nid required d of Inr _ \<Rightarrow> Conflict | Inl e \<Rightarrow> e)"

section \<open>Transactions\<close>

definition row_of_new_note :: "note_rec \<Rightarrow> note_row" where
  "row_of_new_note n =
     \<lparr>nr_id = n_id n, nr_creator = pref_id (n_owner n), nr_title = n_title n, nr_source = n_source n,
      nr_tags = n_tags n, nr_created_at = n_created_at n, nr_updated_at = n_updated_at n,
      nr_revision = n_revision n, nr_deleted_at = n_deleted_at n, nr_created_via = n_created_via n,
      nr_tracking_known = review_tracking_known n,
      nr_reviewed_revision = map_option rv_revision (note_last_review n),
      nr_reviewed_at = map_option rv_reviewed_at (note_last_review n),
      nr_reviewer = map_option (\<lambda>r. pref_id (rv_reviewer r)) (note_last_review n)\<rparr>"

definition create_note :: "note_rec \<Rightarrow> note_links \<Rightarrow> db \<Rightarrow> store_error + db" where
  "create_note n links d =
     rbind (sql_insert_note (row_of_new_note n) d) (\<lambda>d1.
     rbind (insert_note_revision (n_id n) (pref_id (n_owner n)) KCreated
              (replace_link_rows (n_id n) links d1))
       (replace_note_revision_attachments (n_id n) (nl_attachment_ids links)))"

text \<open>The tail every mutation shares: read the new row back and append it to the history.\<close>

definition commit_revision ::
  "url_parser \<Rightarrow> actor \<Rightarrow> note_id \<Rightarrow> note_access \<Rightarrow> revision_kind \<Rightarrow> (db \<Rightarrow> store_error + db)
   \<Rightarrow> (db \<Rightarrow> store_error + db) \<Rightarrow> bool \<times> db \<Rightarrow> store_error + (note_rec \<times> db)" where
  "commit_revision pu act nid required kind before after res =
     (case res of (affected, d1) \<Rightarrow>
        if \<not> affected then Inl (classify_failed_mutation act nid required d1)
        else rbind (fetch_note pu nid d1) (\<lambda>n.
          rbind (before d1) (\<lambda>d2.
          rbind (insert_note_revision nid (actor_id act) kind d2) (\<lambda>d3.
          rbind (after d3) (\<lambda>d4. Inr (n, d4))))))"

definition update_visible_note_with_kind ::
  "url_parser \<Rightarrow> actor \<Rightarrow> note_id \<Rightarrow> revision \<Rightarrow> note_draft \<Rightarrow> note_links \<Rightarrow> unix_millis \<Rightarrow> revision_kind
   \<Rightarrow> db \<Rightarrow> store_error + (note_rec \<times> db)" where
  "update_visible_note_with_kind pu act nid expected draft links now kind d =
     rbind (sql_update_note nid
         (\<lambda>r. nr_revision r = expected \<and> nr_deleted_at r = None \<and> access_at_least d nid (actor_id act) 2)
         (\<lambda>r. r\<lparr>nr_title := d_title draft, nr_source := d_source draft, nr_tags := d_tags draft,
                nr_updated_at := now, nr_tracking_known := True, nr_revision := nr_revision r + 1\<rparr>) d)
       (commit_revision pu act nid AEdit kind
          (\<lambda>d1. Inr (replace_link_rows nid links d1))
          (replace_note_revision_attachments nid (nl_attachment_ids links)))"

definition update_visible_note ::
  "url_parser \<Rightarrow> actor \<Rightarrow> note_id \<Rightarrow> revision \<Rightarrow> note_draft \<Rightarrow> note_links \<Rightarrow> unix_millis
   \<Rightarrow> db \<Rightarrow> store_error + (note_rec \<times> db)" where
  "update_visible_note pu act nid expected draft links now =
     update_visible_note_with_kind pu act nid expected draft links now KContentUpdated"

definition restore_visible_note_revision ::
  "url_parser \<Rightarrow> actor \<Rightarrow> note_id \<Rightarrow> revision \<Rightarrow> note_draft \<Rightarrow> note_links \<Rightarrow> unix_millis
   \<Rightarrow> db \<Rightarrow> store_error + (note_rec \<times> db)" where
  "restore_visible_note_revision pu act nid expected draft links now =
     update_visible_note_with_kind pu act nid expected draft links now KHistoryRestored"

definition soft_delete_visible_note ::
  "url_parser \<Rightarrow> actor \<Rightarrow> note_id \<Rightarrow> revision \<Rightarrow> unix_millis \<Rightarrow> db \<Rightarrow> store_error + (note_rec \<times> db)" where
  "soft_delete_visible_note pu act nid expected now d =
     rbind (sql_update_note nid
         (\<lambda>r. nr_revision r = expected \<and> nr_deleted_at r = None \<and> access_at_least d nid (actor_id act) 3)
         (\<lambda>r. r\<lparr>nr_deleted_at := Some now, nr_updated_at := now, nr_tracking_known := True,
                nr_revision := nr_revision r + 1\<rparr>) d)
       (commit_revision pu act nid AManage KDeleted Inr Inr)"

datatype restore_error = RestoreStore store_error | RetentionExpired

definition retention_cutoff :: "unix_millis \<Rightarrow> int" where
  "retention_cutoff now = i64_saturating_sub now soft_delete_retention_ms"

definition classify_failed_restore ::
  "actor \<Rightarrow> note_id \<Rightarrow> revision \<Rightarrow> int \<Rightarrow> db \<Rightarrow> restore_error" where
  "classify_failed_restore act nid expected cutoff d =
     (case find_note d nid of
        None \<Rightarrow> RestoreStore NotFound
      | Some r \<Rightarrow>
          (case nr_deleted_at r of
             None \<Rightarrow> RestoreStore NotFound
           | Some del \<Rightarrow>
               if nr_creator r \<noteq> actor_id act then RestoreStore NotFound
               else (case revision_new (nr_revision r) of
                   Inl _ \<Rightarrow> RestoreStore CorruptData
                 | Inr rvn \<Rightarrow>
                     if rvn \<noteq> expected then RestoreStore Conflict
                     else if del < cutoff then RetentionExpired
                     else RestoreStore Conflict)))"

definition restore_owned_deleted_note ::
  "url_parser \<Rightarrow> actor \<Rightarrow> note_id \<Rightarrow> revision \<Rightarrow> unix_millis \<Rightarrow> db \<Rightarrow> restore_error + (note_rec \<times> db)" where
  "restore_owned_deleted_note pu act nid expected now d =
     (let cutoff = retention_cutoff now in
      rbind (map_err RestoreStore (sql_update_note nid
          (\<lambda>r. nr_revision r = expected \<and> (case nr_deleted_at r of None \<Rightarrow> False | Some del \<Rightarrow> cutoff \<le> del)
               \<and> nr_creator r = actor_id act)
          (\<lambda>r. r\<lparr>nr_deleted_at := None, nr_updated_at := now, nr_tracking_known := True,
                 nr_revision := nr_revision r + 1\<rparr>) d))
        (\<lambda>(affected, d1).
          if \<not> affected then Inl (classify_failed_restore act nid expected cutoff d1)
          else map_err RestoreStore
            (commit_revision pu act nid AManage KRestored Inr Inr (affected, d1))))"

section \<open>ACL and review\<close>

fun insert_acl_entries :: "note_id \<Rightarrow> note_acl_entry list \<Rightarrow> db \<Rightarrow> store_error + db" where
  "insert_acl_entries nid [] d = Inr d"
| "insert_acl_entries nid (e # es) d =
     rbind (sql_insert_acl \<lparr>ar_note = nid, ar_principal = pref_id (acl_principal e),
              ar_permission = acl_permission e\<rparr> d)
       (insert_acl_entries nid es)"

definition replace_note_acl ::
  "url_parser \<Rightarrow> actor \<Rightarrow> note_id \<Rightarrow> note_acl_entry list \<Rightarrow> revision \<Rightarrow> unix_millis
   \<Rightarrow> db \<Rightarrow> store_error + (note_rec \<times> db)" where
  "replace_note_acl pu act nid entries expected now d =
     rbind (sql_update_note nid
         (\<lambda>r. nr_revision r = expected \<and> nr_deleted_at r = None \<and> access_at_least d nid (actor_id act) 3)
         (\<lambda>r. r\<lparr>nr_revision := nr_revision r + 1, nr_updated_at := now, nr_tracking_known := True\<rparr>) d)
       (\<lambda>(affected, d1).
         if \<not> affected then Inl (classify_failed_mutation act nid AManage d1)
         else rbind (insert_acl_entries nid entries (sql_delete_acl nid d1)) (\<lambda>d2.
           commit_revision pu act nid AManage KAclUpdated Inr Inr (True, d2)))"

record note_acl_state =
  as_entries :: "note_acl_entry list"
  as_revision :: revision

definition read_note_acl :: "url_parser \<Rightarrow> actor \<Rightarrow> note_id \<Rightarrow> db \<Rightarrow> store_error + note_acl_state" where
  "read_note_acl pu act nid d =
     rbind (require_active_note_access act nid AManage d) (\<lambda>_.
     rbind (traverse (\<lambda>(a, i).
         rbind (corrupt (identity_new pu (ir_issuer i) (ir_subject i))) (\<lambda>ident.
         rbind (corrupt (principal_id_new (ar_principal a))) (\<lambda>pid.
         Inr \<lparr>acl_principal = \<lparr>pref_id = pid, primary_identity = ident\<rparr>,
              acl_permission = ar_permission a\<rparr>)))
       (sort_key (\<lambda>(a, i). ir_issuer i) (sort_key (\<lambda>(a, i). ir_subject i)
         (List.map_filter (\<lambda>a. map_option (Pair a) (primary_identity_row d (ar_principal a)))
            (select_where (\<lambda>a. ar_note a = nid) (db_acl d)))))) (\<lambda>entries.
     rbind (ok_or Database (find_note d nid)) (\<lambda>r.
     rbind (corrupt (revision_new (nr_revision r))) (\<lambda>rvn.
     Inr \<lparr>as_entries = entries, as_revision = rvn\<rparr>))))"

definition read_owned_note_review :: "url_parser \<Rightarrow> actor \<Rightarrow> note_id \<Rightarrow> db \<Rightarrow> store_error + note_rec" where
  "read_owned_note_review pu act nid d =
     rbind (require_active_note_access act nid AManage d) (\<lambda>_. fetch_note pu nid d)"

definition mark_owned_note_reviewed ::
  "url_parser \<Rightarrow> actor \<Rightarrow> note_id \<Rightarrow> revision \<Rightarrow> unix_millis \<Rightarrow> db \<Rightarrow> store_error + (note_rec \<times> db)" where
  "mark_owned_note_reviewed pu act nid expected now d =
     rbind (sql_update_note nid
         (\<lambda>r. nr_revision r = expected \<and> nr_deleted_at r = None \<and> access_at_least d nid (actor_id act) 3)
         (\<lambda>r. r\<lparr>nr_tracking_known := True, nr_reviewed_revision := Some (nr_revision r + 1),
                nr_reviewed_at := Some now, nr_reviewer := Some (actor_id act),
                nr_updated_at := now, nr_revision := nr_revision r + 1\<rparr>) d)
       (commit_revision pu act nid AManage KReviewed Inr Inr)"

end
