(* ===== verification/StoreLemmas.thy ===== *)
theory StoreLemmas
  imports NoteStore
begin

text \<open>
  What each statement of the store does to the tables it touches, and that it leaves the others
  alone: the facts every invariant and every refinement of the store rests on.
\<close>

section \<open>The projection table\<close>

definition pj_key :: "projection_row \<Rightarrow> int \<times> note_id" where
  "pj_key r = (pj_principal r, pj_note r)"

lemma pj_key_make [simp]:
  "pj_key \<lparr>pj_sequence = s, pj_principal = p, pj_note = n, pj_kind = k\<rparr> = (p, n)"
  by (simp add: pj_key_def)

lemma pj_key_eq_iff:
  "pj_key r = pj_key q \<longleftrightarrow> pj_principal r = pj_principal q \<and> pj_note r = pj_note q"
  by (simp add: pj_key_def)

definition proj_row :: "db \<Rightarrow> int \<Rightarrow> note_id \<Rightarrow> projection_row option" where
  "proj_row d p n = row_by pj_key (p, n) (db_projection d)"

lemma upsert_projection_Nil [simp]: "upsert_projection row [] = [row]"
  by (simp add: upsert_projection_def exists_where_def)

lemma upsert_projection_alt:
  "upsert_projection row t =
     (if \<exists>r\<in>set t. pj_key r = pj_key row
      then update_where (\<lambda>r. pj_key r = pj_key row) (\<lambda>_. row) t else t @ [row])"
proof -
  have "r\<lparr>pj_sequence := pj_sequence row, pj_kind := pj_kind row\<rparr> = row"
    if "pj_key r = pj_key row" for r
    using that by (cases r; cases row) (simp add: pj_key_def)
  then show ?thesis
    unfolding upsert_projection_def Let_def exists_where_def pj_key_eq_iff update_where_def
    by (auto simp: pj_key_eq_iff)
qed

lemma upsert_projection_cases:
  obtains (hit) "upsert_projection row t = update_where (\<lambda>r. pj_key r = pj_key row) (\<lambda>_. row) t"
      "\<exists>r\<in>set t. pj_key r = pj_key row"
  | (miss) "upsert_projection row t = t @ [row]" "\<forall>r\<in>set t. pj_key r \<noteq> pj_key row"
  by (cases "\<exists>r\<in>set t. pj_key r = pj_key row") (auto simp: upsert_projection_alt)

lemma row_by_replace:
  "row_by k v (update_where (\<lambda>r. k r = k row) (\<lambda>_. row) t) =
     (if v = k row \<and> row_by k v t \<noteq> None then Some row else row_by k v t)"
  by (induction t) (auto simp: row_by_def update_where_def)

lemma row_by_upsert_projection:
  "row_by pj_key k (upsert_projection row t) = (if k = pj_key row then Some row else row_by pj_key k t)"
proof (cases rule: upsert_projection_cases [of row t])
  case hit
  then have "row_by pj_key (pj_key row) t \<noteq> None" by (simp only: row_by_None_iff) blast
  then show ?thesis unfolding hit(1) row_by_replace by simp
next
  case miss
  then have "row_by pj_key (pj_key row) t = None" by (simp only: row_by_None_iff)
  then show ?thesis unfolding miss(1) row_by_append_new by (cases "row_by pj_key k t") auto
qed

lemma distinct_upsert_projection:
  "distinct (map pj_key t) \<Longrightarrow> distinct (map pj_key (upsert_projection row t))"
proof (cases rule: upsert_projection_cases [of row t])
  case hit
  have "map pj_key (update_where (\<lambda>r. pj_key r = pj_key row) (\<lambda>_. row) t) = map pj_key t"
    by (auto simp: update_where_def)
  then show "distinct (map pj_key t) \<Longrightarrow> ?thesis" unfolding hit(1) by (simp only:)
next
  case miss
  then show "distinct (map pj_key t) \<Longrightarrow> ?thesis" unfolding miss(1) by auto
qed

lemma set_upsert_projection:
  "r \<in> set (upsert_projection row t) \<longleftrightarrow> r = row \<or> (r \<in> set t \<and> pj_key r \<noteq> pj_key row)"
proof (cases rule: upsert_projection_cases [of row t])
  case hit
  then show ?thesis unfolding hit(1) set_update_where by (auto simp: image_iff)
next
  case miss
  then show ?thesis unfolding miss(1) by auto
qed

text \<open>The projection after a note change: a new row for each principal with access.\<close>

definition has_access :: "db \<Rightarrow> note_id \<Rightarrow> int \<Rightarrow> bool" where
  "has_access d nid p \<longleftrightarrow> access_at_least d nid p 1"

lemma permission_level_pos [simp]: "1 \<le> permission_level p"
  by (cases p) simp_all

lemma note_access_level_pos: "(n, p, l) \<in> set (note_access d) \<Longrightarrow> 1 \<le> l"
  by (auto simp: note_access_def)

lemma has_access_iff: "has_access d nid p \<longleftrightarrow> (\<exists>l. (nid, p, l) \<in> set (note_access d))"
  using note_access_level_pos
  by (fastforce simp: has_access_def access_at_least_def list_ex_iff)

definition project_step ::
  "int \<Rightarrow> note_id \<Rightarrow> projection_kind \<Rightarrow> note_id \<times> int \<times> int \<Rightarrow> projection_row list \<Rightarrow> projection_row list" where
  "project_step s nid kd = (\<lambda>(n, p, l) t. if n = nid then upsert_projection
     \<lparr>pj_sequence = s, pj_principal = p, pj_note = nid, pj_kind = kd\<rparr> t else t)"

lemma project_step_simp [simp]:
  "project_step s nid kd (n, p, l) t = (if n = nid then upsert_projection
     \<lparr>pj_sequence = s, pj_principal = p, pj_note = nid, pj_kind = kd\<rparr> t else t)"
  by (simp add: project_step_def)

lemma project_note_change_alt:
  "project_note_change s nid kind d =
     d\<lparr>db_projection := fold (project_step s nid (note_change_projection kind)) (note_access d)
         (db_projection d), db_latest_change := s\<rparr>"
  by (simp add: project_note_change_def project_step_def)

lemma row_by_fold_upsert:
  "row_by pj_key k (fold (project_step s nid kd) acc t) =
   (if snd k = nid \<and> (\<exists>l. (nid, fst k, l) \<in> set acc)
    then Some \<lparr>pj_sequence = s, pj_principal = fst k, pj_note = nid, pj_kind = kd\<rparr>
    else row_by pj_key k t)"
proof (induction acc arbitrary: t k)
  case (Cons a acc)
  obtain n p l where "a = (n, p, l)" by (cases a)
  then show ?case
    by (cases k) (auto simp: Cons.IH row_by_upsert_projection)
qed auto

lemma distinct_fold_upsert:
  "distinct (map pj_key t) \<Longrightarrow> distinct (map pj_key (fold (project_step s nid kd) acc t))"
proof (induction acc arbitrary: t)
  case (Cons a acc)
  then show ?case by (cases a) (auto simp: distinct_upsert_projection)
qed simp

lemma set_fold_upsert:
  "r \<in> set (fold (project_step s nid kd) acc t)
   \<Longrightarrow> r \<in> set t \<or> (r = \<lparr>pj_sequence = s, pj_principal = pj_principal r, pj_note = nid, pj_kind = kd\<rparr>
        \<and> (\<exists>l. (nid, pj_principal r, l) \<in> set acc))"
proof (induction acc arbitrary: t)
  case (Cons a acc)
  then show ?case
    by (cases a) (fastforce split: if_splits simp: set_upsert_projection)
qed simp

lemma set_fold_upsert_cases:
  assumes "r \<in> set (fold (project_step s nid kd) acc t)"
  shows "r \<in> set t \<or> (pj_note r = nid \<and> pj_sequence r = s)"
  using set_fold_upsert [OF assms] by (metis projection_row.select_convs(1,3))

section \<open>Frames of the change log\<close>

lemma append_change_frame [simp]:
  "db_principals (append_change a b c e f g d) = db_principals d"
  "db_identities (append_change a b c e f g d) = db_identities d"
  "db_notes (append_change a b c e f g d) = db_notes d"
  "db_acl (append_change a b c e f g d) = db_acl d"
  "db_revisions (append_change a b c e f g d) = db_revisions d"
  "db_attachments (append_change a b c e f g d) = db_attachments d"
  "db_revision_attachments (append_change a b c e f g d) = db_revision_attachments d"
  "db_references (append_change a b c e f g d) = db_references d"
  "db_citations (append_change a b c e f g d) = db_citations d"
  "db_next_sequence (append_change a b c e f g d) = db_next_sequence d + 1"
  "db_projection (append_change a b c e f g d) = db_projection d"
  "db_cursors (append_change a b c e f g d) = db_cursors d"
  "note_access (append_change a b c e f g d) = note_access d"
  by (simp_all add: append_change_def note_access_def)

lemma record_note_change_frame [simp]:
  "db_principals (record_note_change k r d) = db_principals d"
  "db_identities (record_note_change k r d) = db_identities d"
  "db_notes (record_note_change k r d) = db_notes d"
  "db_acl (record_note_change k r d) = db_acl d"
  "db_revisions (record_note_change k r d) = db_revisions d"
  "db_attachments (record_note_change k r d) = db_attachments d"
  "db_revision_attachments (record_note_change k r d) = db_revision_attachments d"
  "db_references (record_note_change k r d) = db_references d"
  "db_citations (record_note_change k r d) = db_citations d"
  "db_next_sequence (record_note_change k r d) = db_next_sequence d + 1"
  "db_latest_change (record_note_change k r d) = db_next_sequence d"
  "db_cursors (record_note_change k r d) = db_cursors d"
  by (simp_all add: record_note_change_def project_note_change_def)

lemma record_access_change_frame [simp]:
  "db_principals (record_access_change k r p d) = db_principals d"
  "db_identities (record_access_change k r p d) = db_identities d"
  "db_notes (record_access_change k r p d) = db_notes d"
  "db_acl (record_access_change k r p d) = db_acl d"
  "db_revisions (record_access_change k r p d) = db_revisions d"
  "db_attachments (record_access_change k r p d) = db_attachments d"
  "db_revision_attachments (record_access_change k r p d) = db_revision_attachments d"
  "db_references (record_access_change k r p d) = db_references d"
  "db_citations (record_access_change k r p d) = db_citations d"
  "db_next_sequence (record_access_change k r p d) = db_next_sequence d + 1"
  "db_latest_change (record_access_change k r p d) = db_next_sequence d"
  "db_cursors (record_access_change k r p d) = db_cursors d"
  by (simp_all add: record_access_change_def project_access_change_def)

lemma proj_row_record_note_change:
  "proj_row (record_note_change k r d) p n =
     (if n = nr_id r \<and> has_access d n p
      then Some \<lparr>pj_sequence = db_next_sequence d, pj_principal = p, pj_note = n,
                 pj_kind = note_change_projection k\<rparr>
      else proj_row d p n)"
  by (auto simp: proj_row_def record_note_change_def project_note_change_alt row_by_fold_upsert has_access_iff)

lemma proj_row_record_access_change:
  "proj_row (record_access_change k r q d) p n =
     (if n = nr_id r \<and> p = q
      then Some \<lparr>pj_sequence = db_next_sequence d, pj_principal = p, pj_note = n,
                 pj_kind = (if k = CAccessGranted then PUpsert else PRemove ReasonAccessRevoked)\<rparr>
      else proj_row d p n)"
  by (auto simp: proj_row_def record_access_change_def project_access_change_def row_by_upsert_projection)

section \<open>Notes\<close>

lemma find_note_Some: "find_note d n = Some r \<Longrightarrow> r \<in> set (db_notes d) \<and> nr_id r = n"
  unfolding find_note_def by (rule row_by_Some)

lemma find_note_cong:
  "db_notes d = db_notes e \<Longrightarrow> find_note d = find_note e"
  by (intro ext) (simp add: find_note_def)

lemma find_note_put:
  "find_note (put_note r d) n = (if n = nr_id r \<and> find_note d n \<noteq> None then Some r else find_note d n)"
  by (auto simp: find_note_def put_note_def row_by_replace)

lemma put_note_frame [simp]:
  "db_principals (put_note r d) = db_principals d"
  "db_identities (put_note r d) = db_identities d"
  "db_acl (put_note r d) = db_acl d"
  "db_revisions (put_note r d) = db_revisions d"
  "db_attachments (put_note r d) = db_attachments d"
  "db_revision_attachments (put_note r d) = db_revision_attachments d"
  "db_references (put_note r d) = db_references d"
  "db_citations (put_note r d) = db_citations d"
  "db_changes (put_note r d) = db_changes d"
  "db_next_sequence (put_note r d) = db_next_sequence d"
  "db_latest_change (put_note r d) = db_latest_change d"
  "db_projection (put_note r d) = db_projection d"
  "db_cursors (put_note r d) = db_cursors d"
  by (simp_all add: put_note_def)

lemma proj_row_cong: "db_projection d = db_projection e \<Longrightarrow> proj_row d = proj_row e"
  by (intro ext) (simp add: proj_row_def)

lemma sql_update_note_Inr_iff:
  "sql_update_note nid g f d = Inr (b, e) \<longleftrightarrow>
     (\<not> b \<and> e = d \<and> (\<forall>old. find_note d nid = Some old \<longrightarrow> \<not> g old))
     \<or> (b \<and> (\<exists>old. find_note d nid = Some old \<and> g old \<and> note_row_check (f old)
          \<and> e = record_note_change (update_change_kind old (f old)) (f old) (put_note (f old) d)))"
  by (auto simp: sql_update_note_def split: option.splits if_splits)

lemma sql_update_note_err: "sql_update_note nid g f d = Inl e \<Longrightarrow> e = Database"
  by (auto simp: sql_update_note_def split: option.splits if_splits)

section \<open>ACL rows\<close>

lemma sql_insert_acl_Inr_iff:
  "sql_insert_acl a d = Inr e \<longleftrightarrow>
     (\<exists>r. find_note d (ar_note a) = Some r \<and> nr_creator r \<noteq> ar_principal a
        \<and> (\<forall>b\<in>set (db_acl d). ar_note b = ar_note a \<longrightarrow> ar_principal b \<noteq> ar_principal a)
        \<and> ar_principal a \<in> set (db_principals d)
        \<and> e = record_access_change CAccessGranted r (ar_principal a) (d\<lparr>db_acl := db_acl d @ [a]\<rparr>))"
  by (auto simp: sql_insert_acl_def exists_where_def split: option.splits if_splits)

definition revoke_all :: "acl_row list \<Rightarrow> db \<Rightarrow> db" where
  "revoke_all gone d = fold (\<lambda>a e. case find_note e (ar_note a) of None \<Rightarrow> e
      | Some r \<Rightarrow> record_access_change CAccessRevoked r (ar_principal a) e) gone d"

lemma revoke_all_simps [simp]:
  "revoke_all [] d = d"
  "revoke_all (a # as) d = revoke_all as (case find_note d (ar_note a) of None \<Rightarrow> d
      | Some r \<Rightarrow> record_access_change CAccessRevoked r (ar_principal a) d)"
  by (simp_all add: revoke_all_def)

lemma sql_delete_acl_alt:
  "sql_delete_acl nid d = revoke_all (select_where (\<lambda>a. ar_note a = nid) (db_acl d))
     (d\<lparr>db_acl := delete_where (\<lambda>a. ar_note a = nid) (db_acl d)\<rparr>)"
  by (simp add: sql_delete_acl_def revoke_all_def Let_def)

lemma revoke_all_frame [simp]:
  "db_principals (revoke_all as d) = db_principals d"
  "db_identities (revoke_all as d) = db_identities d"
  "db_notes (revoke_all as d) = db_notes d"
  "db_acl (revoke_all as d) = db_acl d"
  "db_revisions (revoke_all as d) = db_revisions d"
  "db_attachments (revoke_all as d) = db_attachments d"
  "db_revision_attachments (revoke_all as d) = db_revision_attachments d"
  "db_references (revoke_all as d) = db_references d"
  "db_citations (revoke_all as d) = db_citations d"
  "db_cursors (revoke_all as d) = db_cursors d"
  by (induction as arbitrary: d) (auto split: option.splits)

lemma sql_delete_acl_frame [simp]:
  "db_principals (sql_delete_acl n d) = db_principals d"
  "db_identities (sql_delete_acl n d) = db_identities d"
  "db_notes (sql_delete_acl n d) = db_notes d"
  "db_acl (sql_delete_acl n d) = delete_where (\<lambda>a. ar_note a = n) (db_acl d)"
  "db_revisions (sql_delete_acl n d) = db_revisions d"
  "db_attachments (sql_delete_acl n d) = db_attachments d"
  "db_revision_attachments (sql_delete_acl n d) = db_revision_attachments d"
  "db_references (sql_delete_acl n d) = db_references d"
  "db_citations (sql_delete_acl n d) = db_citations d"
  "db_cursors (sql_delete_acl n d) = db_cursors d"
  by (simp_all add: sql_delete_acl_alt)

section \<open>Tables outside the change log\<close>

text \<open>
  Two databases agree on everything the visible notes and the change log depend on: the statements
  on links, history and attachments change none of it.
\<close>

definition same_core :: "db \<Rightarrow> db \<Rightarrow> bool" where
  "same_core d e \<longleftrightarrow> db_principals e = db_principals d \<and> db_identities e = db_identities d
     \<and> db_notes e = db_notes d \<and> db_acl e = db_acl d \<and> db_changes e = db_changes d
     \<and> db_next_sequence e = db_next_sequence d \<and> db_latest_change e = db_latest_change d
     \<and> db_projection e = db_projection d \<and> db_cursors e = db_cursors d
     \<and> db_attachments e = db_attachments d"

lemma same_core_refl [simp]: "same_core d d"
  by (simp add: same_core_def)

lemma same_core_trans: "same_core a b \<Longrightarrow> same_core b c \<Longrightarrow> same_core a c"
  by (simp add: same_core_def)

lemma replace_link_rows_core: "same_core d (replace_link_rows n links d)"
  by (simp add: same_core_def replace_link_rows_def replace_reference_rows_def Let_def)

lemma replace_link_rows_history [simp]:
  "db_revisions (replace_link_rows n links d) = db_revisions d"
  "db_revision_attachments (replace_link_rows n links d) = db_revision_attachments d"
  "db_notes (replace_link_rows n links d) = db_notes d"
  "db_principals (replace_link_rows n links d) = db_principals d"
  by (simp_all add: replace_link_rows_def replace_reference_rows_def Let_def)

lemma insert_note_revision_Inr_iff:
  "insert_note_revision n cb k d = Inr e \<longleftrightarrow>
     (\<exists>r. find_note d n = Some r
        \<and> (\<forall>h\<in>set (db_revisions d). hr_note h = n \<longrightarrow> hr_revision h \<noteq> nr_revision r)
        \<and> cb \<in> set (db_principals d)
        \<and> e = d\<lparr>db_revisions := db_revisions d @ [history_row cb k r],
                 db_revision_attachments := db_revision_attachments d
                   @ map (\<lambda>(m, v, a). (m, nr_revision r, a))
                       (select_where (\<lambda>(m, v, a). m = n \<and> v = nr_revision r - 1)
                          (db_revision_attachments d))\<rparr>)"
  by (auto simp: insert_note_revision_def exists_where_def split: option.splits if_splits)

lemma insert_note_revision_core: "insert_note_revision n cb k d = Inr e \<Longrightarrow> same_core d e"
  by (auto simp: insert_note_revision_Inr_iff same_core_def)

lemma insert_revision_attachments_frame:
  "insert_revision_attachments n v as d = Inr e \<Longrightarrow> same_core d e \<and> db_revisions e = db_revisions d"
  by (induction as arbitrary: d) (fastforce simp: same_core_def split: if_splits)+

lemma replace_note_revision_attachments_frame:
  "replace_note_revision_attachments n as d = Inr e \<Longrightarrow> same_core d e \<and> db_revisions e = db_revisions d"
  by (auto simp: replace_note_revision_attachments_def same_core_def split: option.splits
      dest!: insert_revision_attachments_frame)

lemmas core_frames = replace_link_rows_core insert_note_revision_core
  insert_revision_attachments_frame replace_note_revision_attachments_frame

end
