(* ===== verification/NoteMutations.thy ===== *)
theory NoteMutations
  imports StoreLemmas
begin

text \<open>
  The shape every successful mutation of a note has: one \<open>UPDATE\<close> of its row under a guard, for
  the ACL the exchange of its rows, and the common tail that reads the note back and appends the new
  row to the history.  The error of a failed one is what \<open>classify_failed_mutation\<close> says.
\<close>

section \<open>The common tail\<close>

text \<open>The database \<open>e\<close> is \<open>d\<close> with the current row of the note appended to the history.\<close>

definition committed ::
  "url_parser \<Rightarrow> note_id \<Rightarrow> int \<Rightarrow> revision_kind \<Rightarrow> db \<Rightarrow> note_rec \<Rightarrow> db \<Rightarrow> bool" where
  "committed pu nid cb kind d n e \<longleftrightarrow>
     same_core d e \<and> fetch_note pu nid d = Inr n \<and> cb \<in> set (db_principals d)
     \<and> (\<exists>r. find_note d nid = Some r
          \<and> (\<forall>h\<in>set (db_revisions d). hr_note h = nid \<longrightarrow> hr_revision h \<noteq> nr_revision r)
          \<and> db_revisions e = db_revisions d @ [history_row cb kind r])"

lemma same_core_fields:
  assumes "same_core d e"
  shows "db_principals e = db_principals d" "db_identities e = db_identities d"
    "db_notes e = db_notes d" "db_acl e = db_acl d" "db_changes e = db_changes d"
    "db_next_sequence e = db_next_sequence d" "db_latest_change e = db_latest_change d"
    "db_projection e = db_projection d" "db_cursors e = db_cursors d"
    "db_attachments e = db_attachments d"
  using assms by (simp_all add: same_core_def)

lemma find_note_same_core: "same_core d e \<Longrightarrow> find_note e = find_note d"
  by (rule find_note_cong) (simp add: same_core_def)

text \<open>A statement that leaves the history and the core alone.\<close>

definition side_statement :: "(db \<Rightarrow> store_error + db) \<Rightarrow> bool" where
  "side_statement f \<longleftrightarrow> (\<forall>d e. f d = Inr e \<longrightarrow> same_core d e \<and> db_revisions e = db_revisions d)"

lemma side_statements [simp]:
  "side_statement Inr" "side_statement (\<lambda>d. Inr (replace_link_rows nid links d))"
  "side_statement (replace_note_revision_attachments nid as)"
  by (auto simp: side_statement_def replace_link_rows_core dest: replace_note_revision_attachments_frame)

lemma commit_revision_Inr:
  assumes "side_statement before" "side_statement after"
    and "commit_revision pu act nid required kind before after (b, d) = Inr (n, e)"
  shows "b \<and> committed pu nid (actor_id act) kind d n e"
proof -
  from assms(3) obtain d2 d3 where b: b and f: "fetch_note pu nid d = Inr n"
    and s: "before d = Inr d2" "insert_note_revision nid (actor_id act) kind d2 = Inr d3"
      "after d3 = Inr e"
    by (auto simp: commit_revision_def rbind_Inr_iff split: if_splits)
  have c: "same_core d d2" "db_revisions d2 = db_revisions d" "same_core d3 e" "db_revisions e = db_revisions d3"
    using assms(1,2) s by (auto simp: side_statement_def)
  have "same_core d2 d3" using s(2) by (rule insert_note_revision_core)
  with c have "same_core d e" by (blast intro: same_core_trans)
  with b f s(2) c show ?thesis
    by (auto simp: committed_def insert_note_revision_Inr_iff find_note_same_core same_core_fields)
qed

lemma commit_revision_not_affected:
  "commit_revision pu act nid required kind before after (False, d)
     = Inl (classify_failed_mutation act nid required d)"
  by (simp add: commit_revision_def)

section \<open>One guarded update\<close>

abbreviation row_updated :: "note_row \<Rightarrow> note_row \<Rightarrow> db \<Rightarrow> db" where
  "row_updated old new d \<equiv> record_note_change (update_change_kind old new) new (put_note new d)"

definition guarded_update ::
  "url_parser \<Rightarrow> note_id \<Rightarrow> int \<Rightarrow> revision_kind \<Rightarrow> (note_row \<Rightarrow> bool) \<Rightarrow> (note_row \<Rightarrow> note_row)
   \<Rightarrow> db \<Rightarrow> note_rec \<Rightarrow> db \<Rightarrow> bool" where
  "guarded_update pu nid cb kind g f d n e \<longleftrightarrow>
     (\<exists>old. find_note d nid = Some old \<and> g old \<and> note_row_check (f old)
        \<and> committed pu nid cb kind (row_updated old (f old) d) n e)"

lemma guarded_updateI:
  assumes "side_statement before" "side_statement after"
    and "rbind (sql_update_note nid g f d) (commit_revision pu act nid required kind before after) = Inr (n, e)"
  shows "guarded_update pu nid (actor_id act) kind g f d n e"
proof -
  from assms(3) obtain b d1 where "sql_update_note nid g f d = Inr (b, d1)"
    and c: "commit_revision pu act nid required kind before after (b, d1) = Inr (n, e)"
    by (auto simp: rbind_Inr_iff)
  with commit_revision_Inr [OF assms(1,2) c] show ?thesis
    by (auto simp: guarded_update_def sql_update_note_Inr_iff)
qed

definition content_update :: "note_draft \<Rightarrow> unix_millis \<Rightarrow> note_row \<Rightarrow> note_row" where
  "content_update draft now r = r\<lparr>nr_title := d_title draft, nr_source := d_source draft,
     nr_tags := d_tags draft, nr_updated_at := now, nr_tracking_known := True,
     nr_revision := nr_revision r + 1\<rparr>"

definition deletion_update :: "unix_millis \<Rightarrow> note_row \<Rightarrow> note_row" where
  "deletion_update now r = r\<lparr>nr_deleted_at := Some now, nr_updated_at := now,
     nr_tracking_known := True, nr_revision := nr_revision r + 1\<rparr>"

definition restoration_update :: "unix_millis \<Rightarrow> note_row \<Rightarrow> note_row" where
  "restoration_update now r = r\<lparr>nr_deleted_at := None, nr_updated_at := now,
     nr_tracking_known := True, nr_revision := nr_revision r + 1\<rparr>"

definition acl_update :: "unix_millis \<Rightarrow> note_row \<Rightarrow> note_row" where
  "acl_update now r = r\<lparr>nr_revision := nr_revision r + 1, nr_updated_at := now,
     nr_tracking_known := True\<rparr>"

definition review_update :: "actor \<Rightarrow> unix_millis \<Rightarrow> note_row \<Rightarrow> note_row" where
  "review_update act now r = r\<lparr>nr_tracking_known := True, nr_reviewed_revision := Some (nr_revision r + 1),
     nr_reviewed_at := Some now, nr_reviewer := Some (actor_id act), nr_updated_at := now,
     nr_revision := nr_revision r + 1\<rparr>"

lemmas row_updates = content_update_def deletion_update_def restoration_update_def acl_update_def
  review_update_def

definition active_guard :: "actor \<Rightarrow> note_id \<Rightarrow> revision \<Rightarrow> int \<Rightarrow> db \<Rightarrow> note_row \<Rightarrow> bool" where
  "active_guard act nid expected level d r \<longleftrightarrow>
     nr_revision r = expected \<and> nr_deleted_at r = None \<and> access_at_least d nid (actor_id act) level"

definition restore_guard :: "actor \<Rightarrow> revision \<Rightarrow> unix_millis \<Rightarrow> note_row \<Rightarrow> bool" where
  "restore_guard act expected now r \<longleftrightarrow>
     nr_revision r = expected \<and> nr_creator r = actor_id act
     \<and> (\<exists>del. nr_deleted_at r = Some del \<and> retention_cutoff now \<le> del)"

lemma update_visible_note_with_kind_Inr:
  assumes "update_visible_note_with_kind pu act nid expected draft links now kind d = Inr (n, e)"
  shows "guarded_update pu nid (actor_id act) kind (active_guard act nid expected 2 d)
    (content_update draft now) d n e"
  using assms unfolding update_visible_note_with_kind_def active_guard_def [abs_def]
    content_update_def [abs_def]
  by (rule guarded_updateI [rotated 2]) simp_all

lemma soft_delete_visible_note_Inr:
  assumes "soft_delete_visible_note pu act nid expected now d = Inr (n, e)"
  shows "guarded_update pu nid (actor_id act) KDeleted (active_guard act nid expected 3 d)
    (deletion_update now) d n e"
  using assms unfolding soft_delete_visible_note_def active_guard_def [abs_def]
    deletion_update_def [abs_def]
  by (rule guarded_updateI [rotated 2]) simp_all

lemma mark_owned_note_reviewed_Inr:
  assumes "mark_owned_note_reviewed pu act nid expected now d = Inr (n, e)"
  shows "guarded_update pu nid (actor_id act) KReviewed (active_guard act nid expected 3 d)
    (review_update act now) d n e"
  using assms unfolding mark_owned_note_reviewed_def active_guard_def [abs_def]
    review_update_def [abs_def]
  by (rule guarded_updateI [rotated 2]) simp_all

lemma restore_owned_deleted_note_Inr:
  assumes "restore_owned_deleted_note pu act nid expected now d = Inr (n, e)"
  shows "guarded_update pu nid (actor_id act) KRestored (restore_guard act expected now)
    (restoration_update now) d n e"
proof -
  let ?g = "\<lambda>r. nr_revision r = expected \<and> (case nr_deleted_at r of None \<Rightarrow> False
      | Some del \<Rightarrow> retention_cutoff now \<le> del) \<and> nr_creator r = actor_id act"
  have g: "?g = restore_guard act expected now"
    by (auto simp: restore_guard_def fun_eq_iff split: option.splits)
  from assms obtain b d1 where
    "map_err RestoreStore (sql_update_note nid ?g (restoration_update now) d) = Inr (b, d1)" and b: b
    and "map_err RestoreStore (commit_revision pu act nid AManage KRestored Inr Inr (b, d1)) = Inr (n, e)"
    unfolding restore_owned_deleted_note_def restoration_update_def [abs_def]
    by (auto simp: rbind_Inr_iff Let_def split: if_splits)
  then have "sql_update_note nid ?g (restoration_update now) d = Inr (b, d1)"
    and "commit_revision pu act nid AManage KRestored Inr Inr (b, d1) = Inr (n, e)"
    by (auto simp: map_err_Inr_iff)
  then show ?thesis using commit_revision_Inr [of Inr Inr pu act nid AManage KRestored b d1 n e]
    unfolding g by (auto simp: guarded_update_def sql_update_note_Inr_iff)
qed

text \<open>The ACL exchange puts a step between the update and the tail.\<close>

lemma replace_note_acl_Inr:
  assumes "replace_note_acl pu act nid entries expected now d = Inr (n, e)"
  obtains old d2 where "find_note d nid = Some old" "active_guard act nid expected 3 d old"
    "note_row_check (acl_update now old)"
    "insert_acl_entries nid entries (sql_delete_acl nid (row_updated old (acl_update now old) d)) = Inr d2"
    "committed pu nid (actor_id act) KAclUpdated d2 n e"
proof -
  from assms obtain b d1 d2 where
    "sql_update_note nid (active_guard act nid expected 3 d) (acl_update now) d = Inr (b, d1)" and b: b
    and "insert_acl_entries nid entries (sql_delete_acl nid d1) = Inr d2"
    and c: "commit_revision pu act nid AManage KAclUpdated Inr Inr (True, d2) = Inr (n, e)"
    unfolding replace_note_acl_def active_guard_def [abs_def] acl_update_def [abs_def]
    by (auto simp: rbind_Inr_iff split: if_splits)
  with commit_revision_Inr [OF _ _ c] that show thesis
    by (auto simp: sql_update_note_Inr_iff)
qed

end
