(* ===== verification/ChangeLog.thy ===== *)
theory ChangeLog
  imports NoteMutations
begin

text \<open>
  The synchronisation projection records every change a principal can see: between two states of the
  database, either the projection row of a principal and a note has a new sequence number, or neither
  the row nor what the principal sees of the note changed.  The well-formedness of the projection,
  its removal rows included, is preserved by every statement.
\<close>

section \<open>What a principal sees\<close>

lemma has_access_rows:
  "has_access d nid p \<longleftrightarrow> (\<exists>r\<in>set (db_notes d). nr_id r = nid \<and> nr_creator r = p)
     \<or> (\<exists>a\<in>set (db_acl d). ar_note a = nid \<and> ar_principal a = p)"
  by (auto simp: has_access_def access_at_least_iff)

definition visible :: "db \<Rightarrow> int \<Rightarrow> note_id \<Rightarrow> bool" where
  "visible d p n \<longleftrightarrow> (\<exists>r. find_note d n = Some r \<and> nr_deleted_at r = None) \<and> has_access d n p"

definition visible_details :: "db \<Rightarrow> int \<Rightarrow> note_id \<Rightarrow> note_details option" where
  "visible_details d p n = (if visible d p n then fetch_details d n else None)"

definition visible_note :: "url_parser \<Rightarrow> db \<Rightarrow> int \<Rightarrow> note_id \<Rightarrow> note_rec option" where
  "visible_note pu d p n = Option.bind (visible_details d p n)
     (\<lambda>nd. case note_from_row pu nd of Inr x \<Rightarrow> Some x | Inl _ \<Rightarrow> None)"

lemma visible_details_cong:
  assumes "find_note e n = find_note d n" "db_identities e = db_identities d"
    "has_access e n p = has_access d n p"
  shows "visible_details e p n = visible_details d p n"
proof -
  have "primary_identity_row e = primary_identity_row d"
    using assms(2) by (intro ext) (simp add: primary_identity_row_def)
  then have "note_details_of e = note_details_of d" by (intro ext) (simp add: note_details_of_def)
  with assms have "visible e p n = visible d p n" "fetch_details e n = fetch_details d n"
    by (simp_all add: visible_def fetch_details_def)
  then show ?thesis by (simp only: visible_details_def)
qed

definition tracks :: "db \<Rightarrow> db \<Rightarrow> bool" where
  "tracks d e \<longleftrightarrow> db_next_sequence d \<le> db_next_sequence e \<and>
     (\<forall>p n. (\<exists>row. proj_row e p n = Some row \<and> db_next_sequence d \<le> pj_sequence row)
        \<or> (proj_row e p n = proj_row d p n \<and> visible_details e p n = visible_details d p n))"

lemma tracks_refl [simp]: "tracks d d"
  by (simp add: tracks_def)

lemma tracks_trans:
  assumes ab: "tracks a b" and bc: "tracks b c"
  shows "tracks a c"
proof -
  have "(\<exists>row. proj_row c p n = Some row \<and> db_next_sequence a \<le> pj_sequence row)
      \<or> (proj_row c p n = proj_row a p n \<and> visible_details c p n = visible_details a p n)" for p n
  proof (cases "\<exists>row. proj_row c p n = Some row \<and> db_next_sequence b \<le> pj_sequence row")
    case True
    then show ?thesis using ab by (auto simp: tracks_def)
  next
    case False
    with bc have "proj_row c p n = proj_row b p n" "visible_details c p n = visible_details b p n"
      unfolding tracks_def by blast+
    then show ?thesis using ab by (simp add: tracks_def)
  qed
  then show ?thesis using ab bc by (simp add: tracks_def)
qed

definition sync_ok :: "db \<Rightarrow> bool" where
  "sync_ok d \<longleftrightarrow> distinct (map pj_key (db_projection d))
     \<and> (\<forall>x\<in>set (db_projection d). 0 < pj_sequence x \<and> pj_sequence x \<le> db_latest_change d)
     \<and> (\<forall>x\<in>set (db_projection d). \<forall>y\<in>set (db_projection d).
          pj_sequence x = pj_sequence y \<longrightarrow> pj_note x = pj_note y)
     \<and> (\<forall>x\<in>set (db_projection d). pj_kind x \<noteq> PUpsert \<longrightarrow> \<not> visible d (pj_principal x) (pj_note x))
     \<and> 0 \<le> db_latest_change d \<and> db_latest_change d < db_next_sequence d"

lemma sync_okD:
  assumes "sync_ok d"
  shows "distinct (map pj_key (db_projection d))"
    "x \<in> set (db_projection d) \<Longrightarrow> 0 < pj_sequence x"
    "x \<in> set (db_projection d) \<Longrightarrow> pj_sequence x \<le> db_latest_change d"
    "x \<in> set (db_projection d) \<Longrightarrow> y \<in> set (db_projection d) \<Longrightarrow> pj_sequence x = pj_sequence y
      \<Longrightarrow> pj_note x = pj_note y"
    "x \<in> set (db_projection d) \<Longrightarrow> pj_kind x \<noteq> PUpsert \<Longrightarrow> \<not> visible d (pj_principal x) (pj_note x)"
    "0 \<le> db_latest_change d" "db_latest_change d < db_next_sequence d"
  using assms unfolding sync_ok_def by blast+

lemma sync_okI:
  assumes "distinct (map pj_key (db_projection d))"
    and "\<And>x. x \<in> set (db_projection d) \<Longrightarrow> 0 < pj_sequence x \<and> pj_sequence x \<le> db_latest_change d"
    and "\<And>x y. x \<in> set (db_projection d) \<Longrightarrow> y \<in> set (db_projection d)
      \<Longrightarrow> pj_sequence x = pj_sequence y \<Longrightarrow> pj_note x = pj_note y"
    and "\<And>x. x \<in> set (db_projection d) \<Longrightarrow> pj_kind x \<noteq> PUpsert
      \<Longrightarrow> \<not> visible d (pj_principal x) (pj_note x)"
    and "0 \<le> db_latest_change d" "db_latest_change d < db_next_sequence d"
  shows "sync_ok d"
  unfolding sync_ok_def using assms by blast

section \<open>One recorded change\<close>

text \<open>
  Between \<open>d\<close> and \<open>e\<close> a single change of one note is recorded: rows of the note get the next
  sequence number, every other row stays.
\<close>

definition one_change :: "note_id \<Rightarrow> db \<Rightarrow> db \<Rightarrow> bool" where
  "one_change nid d e \<longleftrightarrow> db_next_sequence e = db_next_sequence d + 1
     \<and> db_latest_change e = db_next_sequence d
     \<and> distinct (map pj_key (db_projection e))
     \<and> (\<forall>x\<in>set (db_projection e). x \<in> set (db_projection d)
          \<or> (pj_note x = nid \<and> pj_sequence x = db_next_sequence d))"

lemma sync_ok_one_change:
  assumes ok: "sync_ok d" and one: "one_change nid d e"
    and rem: "\<And>x. x \<in> set (db_projection e) \<Longrightarrow> pj_kind x \<noteq> PUpsert
      \<Longrightarrow> \<not> visible e (pj_principal x) (pj_note x)"
  shows "sync_ok e"
proof -
  have old: "0 < pj_sequence x" "pj_sequence x < db_next_sequence d" if "x \<in> set (db_projection d)" for x
    using sync_okD(2,3,7) [OF ok] that by (auto intro: le_less_trans)
  have rows: "x \<in> set (db_projection d) \<or> (pj_note x = nid \<and> pj_sequence x = db_next_sequence d)"
    if "x \<in> set (db_projection e)" for x
    using one that by (simp add: one_change_def)
  have seq: "pj_note x = pj_note y" if "x \<in> set (db_projection e)" "y \<in> set (db_projection e)"
      "pj_sequence x = pj_sequence y" for x y
    using rows [OF that(1)] rows [OF that(2)] that(3) old [of x] old [of y] sync_okD(4) [OF ok, of x y]
    by (elim disjE) simp_all
  have latest: "0 < db_next_sequence d" "db_latest_change e = db_next_sequence d"
      "db_next_sequence e = db_next_sequence d + 1"
    using sync_okD(6,7) [OF ok] one by (simp_all add: one_change_def)
  have pos: "0 < pj_sequence x \<and> pj_sequence x \<le> db_latest_change e" if "x \<in> set (db_projection e)" for x
    using rows [OF that] old [of x] latest by (elim disjE) simp_all
  have "distinct (map pj_key (db_projection e))" using one by (simp add: one_change_def)
  then show ?thesis
    by (rule sync_okI) (fact pos, fact seq, fact rem, use latest in simp_all)
qed

lemma one_change_note:
  assumes "distinct (map pj_key (db_projection d))"
  shows "one_change (nr_id r) d (record_note_change k r d)"
proof -
  have "x \<in> set (db_projection d) \<or> pj_note x = nr_id r \<and> pj_sequence x = db_next_sequence d"
    if "x \<in> set (db_projection (record_note_change k r d))" for x
  proof -
    have "x \<in> set (fold (project_step (db_next_sequence d) (nr_id r) (note_change_projection k))
        (note_access d) (db_projection d))"
      using that by (simp add: record_note_change_def project_note_change_alt)
    then show ?thesis by (rule set_fold_upsert_cases)
  qed
  then show ?thesis
    using assms unfolding one_change_def
    by (simp add: record_note_change_def project_note_change_alt distinct_fold_upsert)
qed

lemma one_change_access:
  assumes "distinct (map pj_key (db_projection d))"
  shows "one_change (nr_id r) d (record_access_change k r p d)"
  using assms unfolding one_change_def
  by (auto simp: record_access_change_def project_access_change_def distinct_upsert_projection
      set_upsert_projection)

text \<open>A row of the projection of a given principal and note.\<close>

lemma proj_row_iff:
  "distinct (map pj_key (db_projection d)) \<Longrightarrow>
   proj_row d p n = Some x \<longleftrightarrow> x \<in> set (db_projection d) \<and> pj_principal x = p \<and> pj_note x = n"
  by (auto simp: proj_row_def row_by_Some_iff pj_key_def)

text \<open>Only the tables of the change log matter on the side a change starts from.\<close>

lemma one_change_cong:
  "db_next_sequence d = db_next_sequence d' \<Longrightarrow> db_projection d = db_projection d'
   \<Longrightarrow> one_change n d e = one_change n d' e"
  by (simp add: one_change_def)

lemma has_access_cong:
  "db_notes d = db_notes e \<Longrightarrow> db_acl d = db_acl e \<Longrightarrow> has_access d = has_access e"
  by (intro ext) (simp add: has_access_rows)

section \<open>A note is created or updated\<close>

lemma note_change_effect:
  fixes d0 d1 :: db and r :: note_row and k :: change_kind
  defines "e \<equiv> record_note_change k r d1"
  assumes ok: "sync_ok d0"
    and log: "db_projection d1 = db_projection d0" "db_next_sequence d1 = db_next_sequence d0"
    and ids: "db_identities d1 = db_identities d0"
    and others: "\<And>n. n \<noteq> nr_id r \<Longrightarrow> find_note d1 n = find_note d0 n"
    and acc: "\<And>n p. n \<noteq> nr_id r \<Longrightarrow> has_access d1 n p = has_access d0 n p"
    and lost: "\<And>p. has_access d0 (nr_id r) p \<Longrightarrow> has_access d1 (nr_id r) p"
    and del: "k = CNoteDeleted \<Longrightarrow> find_note d1 (nr_id r) = Some r \<and> nr_deleted_at r \<noteq> None"
  shows "sync_ok e \<and> tracks d0 e"
proof
  have dist: "distinct (map pj_key (db_projection d1))" using sync_okD(1) [OF ok] log by simp
  have one: "one_change (nr_id r) d0 e"
    using one_change_note [OF dist, of r k] one_change_cong [of d1 d0] log by (simp add: e_def)
  have fe: "find_note e = find_note d1" by (rule find_note_cong) (simp add: e_def)
  have ae: "has_access e = has_access d1" by (rule has_access_cong) (simp_all add: e_def)
  have ide: "db_identities e = db_identities d0" by (simp add: e_def ids)
  have row: "proj_row e p n = (if n = nr_id r \<and> has_access d1 n p
      then Some \<lparr>pj_sequence = db_next_sequence d0, pj_principal = p, pj_note = n,
                 pj_kind = note_change_projection k\<rparr>
      else proj_row d0 p n)" for p n
    using proj_row_record_note_change [of k r d1 p n] proj_row_cong [of d1 d0] log
    by (cases "n = nr_id r \<and> has_access d1 n p") (auto simp: e_def)
  have same: "visible_details e p n = visible_details d0 p n"
    if "n \<noteq> nr_id r \<or> \<not> has_access d1 n p" for p n
  proof (cases "n = nr_id r")
    case True
    then have "\<not> has_access e n p" "\<not> has_access d0 n p" using that lost ae by auto
    then show ?thesis by (simp add: visible_details_def visible_def)
  next
    case False
    then show ?thesis
      by (intro visible_details_cong) (simp_all add: fe ae others acc ide)
  qed
  have vis: "visible e p n \<Longrightarrow> visible d0 p n" if "n \<noteq> nr_id r" for p n
    using that by (simp add: visible_def fe ae others acc)
  show "sync_ok e"
  proof (rule sync_ok_one_change [OF ok one])
    fix x assume x: "x \<in> set (db_projection e)" "pj_kind x \<noteq> PUpsert"
    let ?p = "pj_principal x" and ?n = "pj_note x"
    have px: "proj_row e ?p ?n = Some x"
      using x(1) one proj_row_iff [of e] by (simp add: one_change_def)
    show "\<not> visible e ?p ?n"
    proof (cases "?n = nr_id r \<and> has_access d1 ?n ?p")
      case True
      then have "pj_kind x = note_change_projection k" using px row by (metis option.inject projection_row.select_convs(4))
      with x have "k = CNoteDeleted" by (cases k) simp_all
      with del True show ?thesis by (auto simp: visible_def fe)
    next
      case False
      then have "proj_row d0 ?p ?n = Some x" using px unfolding row by (simp only: if_False)
      then have "x \<in> set (db_projection d0)"
        using proj_row_iff [OF sync_okD(1) [OF ok]] by blast
      then have gone: "\<not> visible d0 ?p ?n" using sync_okD(5) [OF ok] x(2) by blast
      show ?thesis
      proof (cases "?n = nr_id r")
        case True
        with False show ?thesis by (simp add: visible_def ae)
      next
        case other: False
        show ?thesis using vis [OF other] gone by blast
      qed
    qed
  qed
  have "(\<exists>x. proj_row e p n = Some x \<and> db_next_sequence d0 \<le> pj_sequence x)
      \<or> (proj_row e p n = proj_row d0 p n \<and> visible_details e p n = visible_details d0 p n)" for p n
    using row [of p n] same [of n p] by auto
  moreover have "db_next_sequence d0 \<le> db_next_sequence e" using one by (simp add: one_change_def)
  ultimately show "tracks d0 e" by (simp add: tracks_def)
qed

lemma has_access_put_note:
  assumes "distinct (map nr_id (db_notes d))" "find_note d (nr_id r) = Some old" "nr_creator r = nr_creator old"
  shows "has_access (put_note r d) n p = has_access d n p"
proof -
  have "old \<in> set (db_notes d)" "nr_id old = nr_id r" using find_note_Some [OF assms(2)] by simp_all
  moreover have unique: "x = old" if "x \<in> set (db_notes d)" "nr_id x = nr_id r" for x
    using that row_by_unique [OF assms(1), of x] assms(2) by (simp add: find_note_def)
  have "map (\<lambda>x. (nr_id x, nr_creator x)) (update_where (\<lambda>x. nr_id x = nr_id r) (\<lambda>_. r) (db_notes d))
      = map (\<lambda>x. (nr_id x, nr_creator x)) (db_notes d)"
    using unique assms(3) by (auto simp: update_where_def)
  then have "(\<lambda>x. (nr_id x, nr_creator x)) ` set (db_notes (put_note r d))
      = (\<lambda>x. (nr_id x, nr_creator x)) ` set (db_notes d)"
    unfolding put_note_def by (metis (lifting) db.select_convs(3) db.surjective db.update_convs(3) list.set_map)
  moreover have "has_access e n p \<longleftrightarrow> (n, p) \<in> (\<lambda>x. (nr_id x, nr_creator x)) ` set (db_notes e)
      \<or> (n, p) \<in> (\<lambda>a. (ar_note a, ar_principal a)) ` set (db_acl e)" for e
    by (auto simp: has_access_rows)
  ultimately show ?thesis by simp
qed

lemma row_updated_effect:
  assumes "sync_ok d" "distinct (map nr_id (db_notes d))" "find_note d nid = Some old"
    and "nr_id new = nid" "nr_creator new = nr_creator old"
  shows "sync_ok (row_updated old new d) \<and> tracks d (row_updated old new d)"
proof (rule note_change_effect)
  have f: "find_note (put_note new d) n = (if n = nid then Some new else find_note d n)" for n
    using assms(3,4) by (auto simp: find_note_put)
  show "n \<noteq> nr_id new \<Longrightarrow> find_note (put_note new d) n = find_note d n" for n
    using f assms(4) by simp
  show "has_access (put_note new d) n p = has_access d n p" for n p
    using assms by (intro has_access_put_note) auto
  then show "has_access d (nr_id new) p \<Longrightarrow> has_access (put_note new d) (nr_id new) p" for p by simp
  show "update_change_kind old new = CNoteDeleted \<Longrightarrow>
      find_note (put_note new d) (nr_id new) = Some new \<and> nr_deleted_at new \<noteq> None"
    using f assms(4) by (auto simp: update_change_kind_def split: if_splits)
qed (use assms in simp_all)

lemma insert_note_effect:
  assumes "sync_ok d" "sql_insert_note r d = Inr e"
    and "\<forall>a\<in>set (db_acl d). find_note d (ar_note a) \<noteq> None"
  shows "sync_ok e \<and> tracks d e"
proof -
  let ?d1 = "d\<lparr>db_notes := db_notes d @ [r]\<rparr>"
  from assms(2) have new: "find_note d (nr_id r) = None" and e: "e = record_note_change CNoteCreated r ?d1"
    by (auto simp: sql_insert_note_def split: if_splits)
  have f: "find_note ?d1 n = (if n = nr_id r then Some r else find_note d n)" for n
    using new by (auto simp: find_note_def row_by_append_new split: option.splits)
  have "has_access ?d1 n p = (has_access d n p \<or> n = nr_id r \<and> p = nr_creator r)" for n p
    by (auto simp: has_access_rows)
  then show ?thesis unfolding e by (intro note_change_effect) (use assms(1) f in simp_all)
qed

section \<open>Access is granted and revoked\<close>

lemma access_change_effect:
  fixes d0 d1 :: db and r :: note_row and k :: change_kind and q :: int
  defines "e \<equiv> record_access_change k r q d1"
  assumes ok: "sync_ok d0"
    and log: "db_projection d1 = db_projection d0" "db_next_sequence d1 = db_next_sequence d0"
    and ids: "db_identities d1 = db_identities d0"
    and rows: "db_notes d1 = db_notes d0"
    and acc: "\<And>n p. (n, p) \<noteq> (nr_id r, q) \<Longrightarrow> has_access d1 n p = has_access d0 n p"
    and gone: "k \<noteq> CAccessGranted \<Longrightarrow> \<not> has_access d1 (nr_id r) q"
  shows "sync_ok e \<and> tracks d0 e"
proof
  have dist: "distinct (map pj_key (db_projection d1))" using sync_okD(1) [OF ok] log by simp
  have one: "one_change (nr_id r) d0 e"
    using one_change_access [OF dist, of r k] one_change_cong [of d1 d0] log by (simp add: e_def)
  have fe: "find_note e = find_note d0" by (rule find_note_cong) (simp add: e_def rows)
  have ae: "has_access e = has_access d1" by (rule has_access_cong) (simp_all add: e_def)
  have ide: "db_identities e = db_identities d0" by (simp add: e_def ids)
  have row: "proj_row e p n = (if n = nr_id r \<and> p = q
      then Some \<lparr>pj_sequence = db_next_sequence d0, pj_principal = p, pj_note = n,
                 pj_kind = (if k = CAccessGranted then PUpsert else PRemove ReasonAccessRevoked)\<rparr>
      else proj_row d0 p n)" for p n
    using proj_row_record_access_change [of k r q d1 p n] proj_row_cong [of d1 d0] log
    by (cases "n = nr_id r \<and> p = q") (auto simp: e_def)
  have same: "visible_details e p n = visible_details d0 p n" if "\<not> (n = nr_id r \<and> p = q)" for p n
    using that by (intro visible_details_cong) (simp_all add: fe ae acc ide)
  have vis: "visible e p n \<Longrightarrow> visible d0 p n" if "\<not> (n = nr_id r \<and> p = q)" for p n
    using that by (simp add: visible_def fe ae acc)
  show "sync_ok e"
  proof (rule sync_ok_one_change [OF ok one])
    fix x assume x: "x \<in> set (db_projection e)" "pj_kind x \<noteq> PUpsert"
    let ?p = "pj_principal x" and ?n = "pj_note x"
    have px: "proj_row e ?p ?n = Some x"
      using x(1) one proj_row_iff [of e] by (simp add: one_change_def)
    show "\<not> visible e ?p ?n"
    proof (cases "?n = nr_id r \<and> ?p = q")
      case True
      then have "pj_kind x = (if k = CAccessGranted then PUpsert else PRemove ReasonAccessRevoked)"
        using px row by (metis option.inject projection_row.select_convs(4))
      with x gone True show ?thesis by (auto simp: visible_def ae split: if_splits)
    next
      case False
      then have "proj_row d0 ?p ?n = Some x" using px unfolding row by (simp only: if_False)
      then have "x \<in> set (db_projection d0)"
        using proj_row_iff [OF sync_okD(1) [OF ok]] by blast
      then have "\<not> visible d0 ?p ?n" using sync_okD(5) [OF ok] x(2) by blast
      with vis [OF False] show ?thesis by blast
    qed
  qed
  have "(\<exists>x. proj_row e p n = Some x \<and> db_next_sequence d0 \<le> pj_sequence x)
      \<or> (proj_row e p n = proj_row d0 p n \<and> visible_details e p n = visible_details d0 p n)" for p n
    using row [of p n] same [of n p] by auto
  moreover have "db_next_sequence d0 \<le> db_next_sequence e" using one by (simp add: one_change_def)
  ultimately show "tracks d0 e" by (simp add: tracks_def)
qed

lemma sql_insert_acl_effect:
  assumes "sync_ok d" "sql_insert_acl a d = Inr e"
  shows "sync_ok e \<and> tracks d e"
proof -
  let ?d1 = "d\<lparr>db_acl := db_acl d @ [a]\<rparr>"
  from assms(2) obtain r where r: "find_note d (ar_note a) = Some r"
    and e: "e = record_access_change CAccessGranted r (ar_principal a) ?d1"
    by (auto simp: sql_insert_acl_Inr_iff)
  have "nr_id r = ar_note a" using find_note_Some [OF r] by simp
  moreover have "has_access ?d1 n p = (has_access d n p \<or> n = ar_note a \<and> p = ar_principal a)" for n p
    by (auto simp: has_access_rows)
  ultimately show ?thesis unfolding e by (intro access_change_effect) (use assms(1) in auto)
qed

lemma sql_insert_acl_frame:
  assumes "sql_insert_acl a d = Inr e"
  shows "db_notes e = db_notes d" "db_acl e = db_acl d @ [a]" "db_principals e = db_principals d"
    "db_identities e = db_identities d" "db_revisions e = db_revisions d"
    "db_attachments e = db_attachments d" "db_revision_attachments e = db_revision_attachments d"
    "db_cursors e = db_cursors d"
  using assms by (auto simp: sql_insert_acl_Inr_iff)

lemma insert_acl_entries_effect:
  assumes "sync_ok d" "insert_acl_entries nid es d = Inr e"
  shows "sync_ok e \<and> tracks d e"
  using assms
proof (induction es arbitrary: d)
  case (Cons a es)
  then obtain d1 where d1: "sql_insert_acl \<lparr>ar_note = nid, ar_principal = pref_id (acl_principal a),
      ar_permission = acl_permission a\<rparr> d = Inr d1" "insert_acl_entries nid es d1 = Inr e"
    by (auto simp: rbind_Inr_iff)
  with sql_insert_acl_effect [OF Cons.prems(1) d1(1)] Cons.IH show ?case
    by (blast intro: tracks_trans)
qed simp

text \<open>
  Revocation: the rows are gone first, then each lost access is recorded.  Until it is, the projection
  may still show the note to a principal that lost it, which is harmless for removal rows; \<open>tracks\<close>
  only holds once the last one is recorded.
\<close>

lemma visible_details_none: "\<not> has_access d n p \<Longrightarrow> visible_details d p n = None"
  by (simp add: visible_details_def visible_def)

lemma revoke_all_effect:
  fixes as :: "acl_row list"
  assumes "sync_ok d" "\<forall>a\<in>set as. ar_note a = nid \<and> \<not> has_access d nid (ar_principal a)"
    and "find_note d nid = Some r"
  shows "sync_ok (revoke_all as d) \<and> tracks d (revoke_all as d)
    \<and> (\<forall>a\<in>set as. \<exists>x. proj_row (revoke_all as d) (ar_principal a) nid = Some x
         \<and> db_next_sequence d \<le> pj_sequence x)"
  using assms
proof (induction as arbitrary: d)
  case (Cons a as)
  let ?d1 = "record_access_change CAccessRevoked r (ar_principal a) d"
  have rid: "nr_id r = nid" using find_note_Some [OF Cons.prems(3)] by simp
  have eff: "sync_ok ?d1 \<and> tracks d ?d1"
    by (rule access_change_effect) (use Cons.prems rid in auto)
  have acc: "has_access ?d1 = has_access d" by (rule has_access_cong) simp_all
  have f: "find_note ?d1 nid = Some r"
    using Cons.prems(3) find_note_cong [of ?d1 d] by simp
  have IH: "sync_ok (revoke_all as ?d1) \<and> tracks ?d1 (revoke_all as ?d1)
    \<and> (\<forall>a\<in>set as. \<exists>x. proj_row (revoke_all as ?d1) (ar_principal a) nid = Some x
         \<and> db_next_sequence ?d1 \<le> pj_sequence x)"
    using Cons.prems eff f by (intro Cons.IH) (auto simp: acc)
  have eq: "revoke_all (a # as) d = revoke_all as ?d1"
    using Cons.prems by simp
  have "\<exists>x. proj_row ?d1 (ar_principal a) nid = Some x \<and> db_next_sequence d \<le> pj_sequence x"
    by (simp add: proj_row_record_access_change rid)
  then have "\<exists>x. proj_row (revoke_all as ?d1) (ar_principal a) nid = Some x \<and> db_next_sequence d \<le> pj_sequence x"
    using IH eff unfolding tracks_def by (metis order_trans)
  then show ?case
    unfolding eq using IH eff by (auto intro: tracks_trans order_trans [rotated])
qed simp

lemma sql_delete_acl_effect:
  assumes ok: "sync_ok d" and r: "find_note d nid = Some r"
    and own: "\<forall>a\<in>set (db_acl d). ar_note a = nid \<longrightarrow> (\<forall>r\<in>set (db_notes d). nr_id r = nid \<longrightarrow> nr_creator r \<noteq> ar_principal a)"
  shows "sync_ok (sql_delete_acl nid d) \<and> tracks d (sql_delete_acl nid d)"
proof
  let ?as = "select_where (\<lambda>a. ar_note a = nid) (db_acl d)"
  let ?d1 = "d\<lparr>db_acl := delete_where (\<lambda>a. ar_note a = nid) (db_acl d)\<rparr>"
  let ?e = "sql_delete_acl nid d"
  have e: "?e = revoke_all ?as ?d1" by (rule sql_delete_acl_alt)
  have f: "find_note ?d1 = find_note d" by (rule find_note_cong) simp
  have pr: "proj_row ?d1 = proj_row d" by (rule proj_row_cong) simp
  have acc: "has_access ?d1 n p = (has_access d n p \<and> \<not> (n = nid \<and> p \<in> ar_principal ` set ?as))" for n p
    using own by (auto simp: has_access_rows set_delete_where set_select_where)
  have "sync_ok ?d1"
  proof (rule sync_okI)
    fix x assume "x \<in> set (db_projection ?d1)" "pj_kind x \<noteq> PUpsert"
    then have "\<not> visible d (pj_principal x) (pj_note x)" using sync_okD(5) [OF ok] by simp
    then show "\<not> visible ?d1 (pj_principal x) (pj_note x)" by (auto simp: visible_def f acc)
  next
    fix x y assume "x \<in> set (db_projection ?d1)" "y \<in> set (db_projection ?d1)" "pj_sequence x = pj_sequence y"
    then show "pj_note x = pj_note y" by (intro sync_okD(4) [OF ok, of x y]) simp_all
  qed (use sync_okD(1,2,3,6,7) [OF ok] in simp_all)
  then have "sync_ok (revoke_all ?as ?d1) \<and> tracks ?d1 (revoke_all ?as ?d1)
    \<and> (\<forall>a\<in>set ?as. \<exists>x. proj_row (revoke_all ?as ?d1) (ar_principal a) nid = Some x
         \<and> db_next_sequence ?d1 \<le> pj_sequence x)"
    by (rule revoke_all_effect) (use r f in \<open>auto simp: acc set_select_where\<close>)
  then have eff: "sync_ok ?e" "tracks ?d1 ?e"
    "\<forall>a\<in>set ?as. \<exists>x. proj_row ?e (ar_principal a) nid = Some x \<and> db_next_sequence d \<le> pj_sequence x"
    by (simp_all add: e)
  show "sync_ok ?e" by (rule eff)
  have "visible_details ?d1 p n = visible_details d p n" if "\<not> (n = nid \<and> p \<in> ar_principal ` set ?as)" for p n
    using that by (intro visible_details_cong) (simp_all add: f acc)
  note kept = this
  have "(\<exists>x. proj_row ?e p n = Some x \<and> db_next_sequence d \<le> pj_sequence x)
      \<or> (proj_row ?e p n = proj_row d p n \<and> visible_details ?e p n = visible_details d p n)" for p n
  proof (cases "n = nid \<and> p \<in> ar_principal ` set ?as")
    case True
    then show ?thesis using eff(3) by blast
  next
    case False
    have "(\<exists>x. proj_row ?e p n = Some x \<and> db_next_sequence ?d1 \<le> pj_sequence x)
        \<or> (proj_row ?e p n = proj_row ?d1 p n \<and> visible_details ?e p n = visible_details ?d1 p n)"
      using eff(2) unfolding tracks_def by blast
    then show ?thesis unfolding pr kept [OF False] by simp
  qed
  moreover have "db_next_sequence d \<le> db_next_sequence ?e" using eff(2) by (simp add: tracks_def)
  ultimately show "tracks d ?e" by (simp add: tracks_def)
qed

section \<open>Statements outside the log\<close>

lemma same_core_effect:
  assumes "same_core d e"
  shows "tracks d e \<and> sync_ok e = sync_ok d"
proof -
  have log: "db_projection e = db_projection d" "db_next_sequence e = db_next_sequence d"
      "db_latest_change e = db_latest_change d" "db_identities e = db_identities d"
    using assms by (simp_all add: same_core_def)
  have f: "find_note e = find_note d" by (rule find_note_same_core) (rule assms)
  have h: "has_access e = has_access d" by (rule has_access_cong) (use assms in \<open>simp_all add: same_core_def\<close>)
  have "proj_row e = proj_row d" by (rule proj_row_cong) (rule log)
  moreover have "visible_details e p n = visible_details d p n" for p n
    by (rule visible_details_cong) (simp_all add: f h log)
  moreover have "visible e = visible d" by (intro ext) (simp add: visible_def f h)
  ultimately show ?thesis by (simp add: tracks_def sync_ok_def log)
qed

end
