(* ===== verification/PrincipalStore.thy ===== *)
theory PrincipalStore
  imports ChangeLog
begin

text \<open>
  The directory of principals, \<open>crates/marginalis-sqlite/src/principal.rs\<close>: an external identity is
  resolved to the internal principal it is bound to, or registered with a fresh one.  A fresh id is
  one above the largest, as SQLite assigns it to an \<open>INTEGER PRIMARY KEY\<close>.
\<close>

section \<open>Operations\<close>

definition next_rowid :: "int list \<Rightarrow> int" where
  "next_rowid ids = foldr max ids 0 + 1"

definition identity_match :: "db \<Rightarrow> identity \<Rightarrow> identity_row option" where
  "identity_match d i = find (\<lambda>r. ir_issuer r = issuer i \<and> ir_subject r = subject i) (db_identities d)"

definition resolve_in :: "url_parser \<Rightarrow> identity \<Rightarrow> db \<Rightarrow> storage_error + (actor \<times> int) option" where
  "resolve_in pu i d =
     (case identity_match d i of
        None \<Rightarrow> Inr None
      | Some row \<Rightarrow>
          rbind (map_err (\<lambda>_. StorageCorruptData) (principal_id_new (ir_principal row))) (\<lambda>pid.
          rbind (ok_or StorageCorruptData (primary_identity_row d (ir_principal row))) (\<lambda>prim.
          rbind (map_err (\<lambda>_. StorageCorruptData) (identity_new pu (ir_issuer prim) (ir_subject prim))) (\<lambda>primary.
          let ids = (if primary = i then [i] else [primary, i]) in
          rbind (map_err (\<lambda>_. StorageCorruptData) (principal_restore pid primary ids)) (\<lambda>p.
          rbind (map_err (\<lambda>_. StorageCorruptData) (actor_authenticate p i)) (\<lambda>a.
          Inr (Some (a, ir_identity_id row))))))))"

definition insert_principal :: "identity \<Rightarrow> db \<Rightarrow> int \<times> int \<times> db" where
  "insert_principal i d =
     (let pid = next_rowid (db_principals d); iid = next_rowid (map ir_identity_id (db_identities d)) in
      (pid, iid, d\<lparr>db_principals := db_principals d @ [pid],
         db_identities := db_identities d @ [\<lparr>ir_identity_id = iid, ir_principal = pid,
           ir_issuer = issuer i, ir_subject = subject i, ir_primary = True\<rparr>]\<rparr>))"

definition resolve_or_create_in ::
  "url_parser \<Rightarrow> identity \<Rightarrow> db \<Rightarrow> storage_error + ((actor \<times> int) \<times> db)" where
  "resolve_or_create_in pu i d =
     rbind (resolve_in pu i d) (\<lambda>found.
       case found of
         Some res \<Rightarrow> Inr (res, d)
       | None \<Rightarrow>
           (case insert_principal i d of (pid, iid, e) \<Rightarrow>
              rbind (map_err (\<lambda>_. StorageCorruptData) (principal_id_new pid)) (\<lambda>pid.
              Inr ((actor_for_single_identity pid i, iid), e))))"

definition resolve_or_create_verified ::
  "url_parser \<Rightarrow> identity \<Rightarrow> db \<Rightarrow> storage_error + (actor \<times> db)" where
  "resolve_or_create_verified pu i d =
     rbind (resolve_or_create_in pu i d) (\<lambda>((a, _), e). Inr (a, e))"

definition resolve :: "url_parser \<Rightarrow> identity \<Rightarrow> db \<Rightarrow> storage_error + actor option" where
  "resolve pu i d = rbind (resolve_in pu i d) (\<lambda>r. Inr (map_option fst r))"

definition resolve_or_create_acl_target ::
  "url_parser \<Rightarrow> identity \<Rightarrow> db \<Rightarrow> storage_error + (principal_ref \<times> db)" where
  "resolve_or_create_acl_target pu i d =
     rbind (resolve_or_create_in pu i d) (\<lambda>((a, _), e). Inr (actor_principal a, e))"

section \<open>The directory invariant\<close>

text \<open>Every principal has a valid primary identity, and no identity belongs to two principals.\<close>

definition row_identity :: "identity_row \<Rightarrow> identity" where
  "row_identity r = \<lparr>issuer = ir_issuer r, subject = ir_subject r\<rparr>"

definition principals_ok :: "url_parser \<Rightarrow> db \<Rightarrow> bool" where
  "principals_ok pu d \<longleftrightarrow> distinct (db_principals d)
     \<and> distinct (map ir_identity_id (db_identities d)) \<and> distinct (map row_identity (db_identities d))
     \<and> (\<forall>p\<in>set (db_principals d). 0 < p
          \<and> (\<exists>r. primary_identity_row d p = Some r \<and> identity_ok pu (row_identity r)))
     \<and> (\<forall>r\<in>set (db_identities d). ir_principal r \<in> set (db_principals d))"

lemma next_rowid_fresh: "x \<in> set ids \<Longrightarrow> x < next_rowid ids"
proof -
  have "x \<in> set ids \<Longrightarrow> x \<le> foldr max ids 0" by (induction ids) (auto simp: le_max_iff_disj)
  then show "x \<in> set ids \<Longrightarrow> x < next_rowid ids" by (simp add: next_rowid_def)
qed

lemma next_rowid_pos: "0 < next_rowid ids"
proof -
  have "0 \<le> foldr max ids 0" by (induction ids) (auto simp: le_max_iff_disj)
  then show ?thesis by (simp add: next_rowid_def)
qed

lemma next_rowid_notin: "next_rowid ids \<notin> set ids"
  using next_rowid_fresh by fastforce

lemma primary_identity_row_Some:
  "primary_identity_row d p = Some r \<Longrightarrow> r \<in> set (db_identities d) \<and> ir_principal r = p \<and> ir_primary r"
  by (auto simp: primary_identity_row_def find_Some_iff)

lemma identity_match_alt: "identity_match d i = row_by row_identity i (db_identities d)"
  by (cases i) (simp add: identity_match_def row_by_def row_identity_def)

lemma identity_new_row [simp]:
  "identity_new pu (ir_issuer r) (ir_subject r) =
     (if identity_ok pu (row_identity r) then Inr (row_identity r) else Inl InvalidIdentity)"
  by (cases "validate_identity pu (ir_issuer r) (ir_subject r)")
    (auto simp: identity_new_def identity_ok_def row_identity_def intro: invalid_identity.exhaust)

lemma find_append: "find P (xs @ ys) = (case find P xs of None \<Rightarrow> find P ys | Some x \<Rightarrow> Some x)"
  by (induction xs) auto

section \<open>Registration\<close>

lemma insert_principal_facts:
  assumes "insert_principal i d = (pid, iid, e)"
  shows "pid = next_rowid (db_principals d)"
    "db_principals e = db_principals d @ [pid]"
    "db_identities e = db_identities d @ [\<lparr>ir_identity_id = iid, ir_principal = pid,
       ir_issuer = issuer i, ir_subject = subject i, ir_primary = True\<rparr>]"
    "iid = next_rowid (map ir_identity_id (db_identities d))"
    "e = d\<lparr>db_principals := db_principals e, db_identities := db_identities e\<rparr>"
  using assms by (auto simp: insert_principal_def Let_def)

lemma primary_after_insert:
  assumes "insert_principal i d = (pid, iid, e)" "principals_ok pu d"
  shows "primary_identity_row e p = (if p = pid then Some \<lparr>ir_identity_id = iid, ir_principal = pid,
     ir_issuer = issuer i, ir_subject = subject i, ir_primary = True\<rparr> else primary_identity_row d p)"
proof -
  have "primary_identity_row d pid = None"
    using assms(2) next_rowid_notin [of "db_principals d"] insert_principal_facts(1) [OF assms(1)]
    by (auto simp: primary_identity_row_def find_None_iff principals_ok_def)
  then show ?thesis
    using insert_principal_facts(3) [OF assms(1)]
    by (auto simp: primary_identity_row_def find_append split: option.splits)
qed

lemma insert_principal_ok:
  assumes ins: "insert_principal i d = (pid, iid, e)" and ok: "principals_ok pu d"
    and new: "identity_match d i = None" and valid: "identity_ok pu i"
  shows "principals_ok pu e"
proof -
  note f = insert_principal_facts(1-4) [OF ins]
  have valid': "identity_ok pu (row_identity \<lparr>ir_identity_id = iid, ir_principal = pid,
      ir_issuer = issuer i, ir_subject = subject i, ir_primary = True\<rparr>)"
    using valid by (simp add: row_identity_def identity_ok_def)
  have 1: "distinct (db_principals e)"
    using ok next_rowid_notin [of "db_principals d"] f by (simp add: principals_ok_def)
  have 2: "distinct (map ir_identity_id (db_identities e))"
    using ok next_rowid_notin [of "map ir_identity_id (db_identities d)"] f
    by (simp add: principals_ok_def)
  have 3: "distinct (map row_identity (db_identities e))"
    using ok new f by (auto simp: principals_ok_def identity_match_alt row_by_None_iff row_identity_def)
  have 4: "0 < p \<and> (\<exists>r. primary_identity_row e p = Some r \<and> identity_ok pu (row_identity r))"
    if "p \<in> set (db_principals e)" for p
  proof (cases "p = pid")
    case True
    then show ?thesis
      using f(1) next_rowid_pos [of "db_principals d"] primary_after_insert [OF ins ok, of p] valid' by auto
  next
    case False
    then have "p \<in> set (db_principals d)" using that f(2) by auto
    then show ?thesis
      using ok primary_after_insert [OF ins ok, of p] False by (auto simp: principals_ok_def)
  qed
  have 5: "\<forall>r\<in>set (db_identities e). ir_principal r \<in> set (db_principals e)"
    using ok f by (auto simp: principals_ok_def)
  show ?thesis using 1 2 3 4 5 by (simp add: principals_ok_def)
qed

text \<open>A resolved actor is bound to a known principal, with that principal's primary identity.\<close>

definition actor_known :: "url_parser \<Rightarrow> db \<Rightarrow> actor \<Rightarrow> bool" where
  "actor_known pu d a \<longleftrightarrow> actor_id a \<in> set (db_principals d)
     \<and> (\<exists>r. primary_identity_row d (actor_id a) = Some r
          \<and> primary_identity (actor_principal a) = row_identity r \<and> identity_ok pu (row_identity r))"

lemma resolve_in_known:
  assumes ok: "principals_ok pu d" and row: "identity_match d i = Some row"
  shows "\<exists>a. resolve_in pu i d = Inr (Some (a, ir_identity_id row)) \<and> actor_known pu d a
    \<and> authenticated_identity a = i \<and> actor_id a = ir_principal row"
proof -
  have "row \<in> set (db_identities d)" using row_by_Some [of row_identity i] row unfolding identity_match_alt by blast
  then have p: "ir_principal row \<in> set (db_principals d)" using ok by (auto simp: principals_ok_def)
  then obtain prim where prim: "primary_identity_row d (ir_principal row) = Some prim"
      "identity_ok pu (row_identity prim)" and pos: "0 < ir_principal row"
    using ok by (auto simp: principals_ok_def)
  show ?thesis
    using row p prim pos
    by (auto simp: resolve_in_def principal_id_new_def principal_restore_def actor_authenticate_def
        actor_known_def Let_def)
qed

lemma resolve_in_None_iff:
  "principals_ok pu d \<Longrightarrow> resolve_in pu i d = Inr None \<longleftrightarrow> identity_match d i = None"
  using resolve_in_known [of pu d i] by (cases "identity_match d i") (auto simp: resolve_in_def)

lemma resolve_or_create_in_cases:
  assumes "principals_ok pu d"
  obtains (found) a iid where "resolve_or_create_in pu i d = Inr ((a, iid), d)"
      "resolve_in pu i d = Inr (Some (a, iid))" "actor_known pu d a" "identity_match d i \<noteq> None"
  | (new) pid iid e where "identity_match d i = None" "insert_principal i d = (pid, iid, e)"
      "resolve_or_create_in pu i d = Inr ((actor_for_single_identity pid i, iid), e)"
proof (cases "identity_match d i")
  case None
  obtain pid iid e where ins: "insert_principal i d = (pid, iid, e)" by (cases "insert_principal i d")
  have "0 < pid" using insert_principal_facts(1) [OF ins] next_rowid_pos by simp
  with None ins show thesis
    by (intro new) (auto simp: resolve_or_create_in_def resolve_in_def principal_id_new_def)
next
  case (Some row)
  with resolve_in_known [OF assms Some] found show thesis
    by (auto simp: resolve_or_create_in_def)
qed

lemma new_actor_resolves:
  assumes ins: "insert_principal i d = (pid, iid, e)" and ok: "principals_ok pu d"
    and new: "identity_match d i = None" and valid: "identity_ok pu i"
  shows "resolve_in pu i e = Inr (Some (actor_for_single_identity pid i, iid))"
proof -
  let ?r = "\<lparr>ir_identity_id = iid, ir_principal = pid, ir_issuer = issuer i, ir_subject = subject i,
      ir_primary = True\<rparr>"
  have i: "row_identity ?r = i" by (simp add: row_identity_def)
  have "identity_match e i = Some ?r"
    using new insert_principal_facts(3) [OF ins] i by (simp add: identity_match_alt row_by_append_new)
  moreover have "0 < pid" using insert_principal_facts(1) [OF ins] next_rowid_pos by simp
  moreover have "primary_identity_row e pid = Some ?r" using primary_after_insert [OF ins ok] by simp
  ultimately show ?thesis
    using valid i by (simp add: resolve_in_def principal_id_new_def principal_restore_single actor_authenticate_single Let_def)
qed

lemma resolve_in_insert_other:
  assumes ins: "insert_principal i d = (pid, iid, e)" and ok: "principals_ok pu d"
    and j: "resolve_in pu j d = Inr (Some res)"
  shows "resolve_in pu j e = Inr (Some res)"
proof -
  from j obtain row where row: "identity_match d j = Some row"
    by (auto simp: resolve_in_def split: option.splits)
  then have "row \<in> set (db_identities d)" unfolding identity_match_alt using row_by_Some by fast
  then have "ir_principal row \<noteq> pid"
    using ok next_rowid_notin [of "db_principals d"] insert_principal_facts(1) [OF ins]
    by (auto simp: principals_ok_def)
  then have "primary_identity_row e (ir_principal row) = primary_identity_row d (ir_principal row)"
    using primary_after_insert [OF ins ok] by simp
  moreover have "identity_match e j = Some row"
    using row insert_principal_facts(3) [OF ins] by (simp add: identity_match_alt row_by_append_new)
  ultimately show ?thesis using j row by (simp add: resolve_in_def)
qed

text \<open>
  C15: looking an external identity up, or registering it on first login, always succeeds for a valid
  identity; it keeps the directory well formed, every later lookup of the identity returns the same
  actor without changing the directory again, and nobody else's resolution changes.
\<close>

theorem resolve_or_create_stable:
  assumes "principals_ok pu d" "identity_ok pu i"
  shows "\<exists>a e. resolve_or_create_verified pu i d = Inr (a, e) \<and> principals_ok pu e
    \<and> authenticated_identity a = i
    \<and> resolve pu i e = Inr (Some a) \<and> resolve_or_create_verified pu i e = Inr (a, e)
    \<and> (\<forall>j b. resolve pu j d = Inr (Some b) \<longrightarrow> resolve pu j e = Inr (Some b))"
proof (cases rule: resolve_or_create_in_cases [OF assms(1), of i, case_names found new])
  case (found a iid)
  moreover from found(4) obtain row where row: "identity_match d i = Some row" by auto
  ultimately show ?thesis
    using resolve_in_known [OF assms(1) row] assms(1)
    by (auto simp: resolve_or_create_verified_def resolve_def)
next
  case (new pid iid e)
  have ok: "principals_ok pu e" by (rule insert_principal_ok) (use new assms in auto)
  have res: "resolve_in pu i e = Inr (Some (actor_for_single_identity pid i, iid))"
    by (rule new_actor_resolves) (use new assms in auto)
  have keep: "resolve pu j d = Inr (Some b) \<longrightarrow> resolve pu j e = Inr (Some b)" for j b
    using resolve_in_insert_other [OF new(2) assms(1)]
    by (auto simp: resolve_def rbind_Inr_iff)
  have "resolve_or_create_verified pu i d = Inr (actor_for_single_identity pid i, e)"
    using new(3) by (simp add: resolve_or_create_verified_def)
  moreover have "resolve pu i e = Inr (Some (actor_for_single_identity pid i))"
    using res by (simp add: resolve_def)
  moreover have "resolve_or_create_verified pu i e = Inr (actor_for_single_identity pid i, e)"
    using res by (simp add: resolve_or_create_verified_def resolve_or_create_in_def)
  moreover have "authenticated_identity (actor_for_single_identity pid i) = i"
    by (simp add: actor_for_single_identity_def)
  ultimately show ?thesis using ok keep by blast
qed

text \<open>A URL parser for concrete runs: every text is an https URL without extras.\<close>

definition sample_parser :: url_parser where
  "sample_parser s = Some \<lparr>url_scheme = lit ''https'', url_cannot_be_a_base = False, url_username = [],
     url_password = None, url_query = None, url_fragment = None\<rparr>"

definition sample_identity :: "nat \<Rightarrow> identity" where
  "sample_identity k = \<lparr>issuer = lit ''https://id'', subject = [97 + k]\<rparr>"

lemma sample_identity_ok: "k < 26 \<Longrightarrow> identity_ok sample_parser (sample_identity k)"
  by (simp add: identity_ok_def sample_identity_def sample_parser_def validate_identity_def
      issuer_valid_def subject_valid_def max_identity_issuer_bytes_def max_identity_subject_bytes_def
      byte_len_def utf8_width_def is_control_def)

lemma empty_principals_ok: "principals_ok pu empty_db"
  by (simp add: principals_ok_def empty_db_def)

lemma resolve_or_create_stable_witness:
  "\<exists>a e. resolve_or_create_verified sample_parser (sample_identity 0) empty_db = Inr (a, e)
     \<and> resolve sample_parser (sample_identity 0) e = Inr (Some a)"
  using resolve_or_create_stable [OF empty_principals_ok sample_identity_ok [of 0]] by auto

end
