(* ===== verification/StoreInv.thy ===== *)
theory StoreInv
  imports PrincipalStore
begin

text \<open>
  The store invariant: the tables agree with each other, every committed note reads back, the ACL
  never names the owner, the history of a note is exactly its revisions 1 to the current one with the
  current row as the newest entry, and the synchronisation projection is well formed.
\<close>

section \<open>The invariant\<close>

definition notes_ok :: "url_parser \<Rightarrow> db \<Rightarrow> bool" where
  "notes_ok pu d \<longleftrightarrow> distinct (map nr_id (db_notes d))
     \<and> (\<forall>r\<in>set (db_notes d). note_row_check r \<and> nr_creator r \<in> set (db_principals d)
          \<and> (\<exists>n. fetch_note pu (nr_id r) d = Inr n))"

definition acl_ok :: "db \<Rightarrow> bool" where
  "acl_ok d \<longleftrightarrow> distinct (map (\<lambda>a. (ar_note a, ar_principal a)) (db_acl d))
     \<and> (\<forall>a\<in>set (db_acl d). ar_principal a \<in> set (db_principals d)
          \<and> (\<exists>r. find_note d (ar_note a) = Some r \<and> nr_creator r \<noteq> ar_principal a))"

definition note_history :: "db \<Rightarrow> note_id \<Rightarrow> revision_row list" where
  "note_history d n = filter (\<lambda>h. hr_note h = n) (db_revisions d)"

text \<open>The history lists the revisions in order and ends with the current row.\<close>

definition history_ok :: "db \<Rightarrow> bool" where
  "history_ok d \<longleftrightarrow>
     (\<forall>h\<in>set (db_revisions d). find_note d (hr_note h) \<noteq> None)
     \<and> (\<forall>r\<in>set (db_notes d).
          map hr_revision (note_history d (nr_id r)) = map int [1..<nat (nr_revision r) + 1]
          \<and> (\<exists>cb kind. last (note_history d (nr_id r)) = history_row cb kind r
               \<and> cb \<in> set (db_principals d)))"

definition store_ok :: "url_parser \<Rightarrow> db \<Rightarrow> bool" where
  "store_ok pu d \<longleftrightarrow> principals_ok pu d \<and> notes_ok pu d \<and> acl_ok d \<and> history_ok d \<and> sync_ok d"

lemma store_okD:
  assumes "store_ok pu d"
  shows "principals_ok pu d" "notes_ok pu d" "acl_ok d" "history_ok d" "sync_ok d"
  using assms by (simp_all add: store_ok_def)

lemma empty_store_ok: "store_ok pu empty_db"
proof -
  have "sync_ok empty_db" by (rule sync_okI) (simp_all add: empty_db_def)
  then show ?thesis
    by (simp add: store_ok_def empty_principals_ok notes_ok_def acl_ok_def history_ok_def)
      (simp add: empty_db_def)
qed

lemma find_note_iff:
  "notes_ok pu d \<Longrightarrow> find_note d n = Some r \<longleftrightarrow> r \<in> set (db_notes d) \<and> nr_id r = n"
  by (auto simp: find_note_def row_by_Some_iff notes_ok_def)

lemma notes_okD:
  assumes "notes_ok pu d" "find_note d n = Some r"
  shows "note_row_check r" "nr_creator r \<in> set (db_principals d)" "nr_id r = n"
    "\<exists>x. fetch_note pu n d = Inr x" "r \<in> set (db_notes d)" "1 \<le> nr_revision r"
proof -
  have r: "r \<in> set (db_notes d)" "nr_id r = n" using assms find_note_iff by blast+
  then show "r \<in> set (db_notes d)" "nr_id r = n" .
  with assms(1) show c: "note_row_check r" "nr_creator r \<in> set (db_principals d)"
      "\<exists>x. fetch_note pu n d = Inr x"
    unfolding notes_ok_def by blast+
  then show "1 \<le> nr_revision r" by (simp add: note_row_check_def)
qed

lemma store_access_unique:
  assumes "notes_ok pu d" "acl_ok d" "find_note d n = Some r"
  shows "access_at_least d n p l \<longleftrightarrow> (if nr_creator r = p then l \<le> 3
     else \<exists>a\<in>set (db_acl d). ar_note a = n \<and> ar_principal a = p \<and> l \<le> permission_level (ar_permission a))"
proof -
  have u: "x = r" if "x \<in> set (db_notes d)" "nr_id x = n" for x
    using that assms(3) find_note_iff [OF assms(1), of n x] by simp
  have r: "r \<in> set (db_notes d)" "nr_id r = n" using notes_okD [OF assms(1,3)] by simp_all
  have acl: "ar_principal a \<noteq> nr_creator r" if "a \<in> set (db_acl d)" "ar_note a = n" for a
    using assms(2,3) that unfolding acl_ok_def by (metis option.inject)
  have owner: "(\<exists>x\<in>set (db_notes d). nr_id x = n \<and> nr_creator x = p \<and> l \<le> 3) \<longleftrightarrow> nr_creator r = p \<and> l \<le> 3"
  proof
    assume "\<exists>x\<in>set (db_notes d). nr_id x = n \<and> nr_creator x = p \<and> l \<le> 3"
    then show "nr_creator r = p \<and> l \<le> 3" using u by blast
  next
    assume "nr_creator r = p \<and> l \<le> 3"
    then show "\<exists>x\<in>set (db_notes d). nr_id x = n \<and> nr_creator x = p \<and> l \<le> 3" using r by blast
  qed
  show ?thesis
  proof (cases "nr_creator r = p")
    case True
    have none: "\<not> (\<exists>a\<in>set (db_acl d). ar_note a = n \<and> ar_principal a = p \<and> l \<le> permission_level (ar_permission a))"
    proof (rule notI, elim bexE conjE)
      fix a assume "a \<in> set (db_acl d)" "ar_note a = n" "ar_principal a = p"
      with acl [of a] True show False by simp
    qed
    show ?thesis unfolding access_at_least_iff owner by (simp only: none True simp_thms if_True)
  next
    case False
    then show ?thesis unfolding access_at_least_iff owner by (simp only: if_False simp_thms)
  qed
qed

section \<open>What the tables share after a step\<close>

lemma principals_ok_cong:
  "db_principals e = db_principals d \<Longrightarrow> db_identities e = db_identities d
   \<Longrightarrow> principals_ok pu e = principals_ok pu d"
  by (simp add: principals_ok_def primary_identity_row_def)

lemma fetch_details_cong:
  "find_note e n = find_note d n \<Longrightarrow> db_identities e = db_identities d
   \<Longrightarrow> fetch_details e n = fetch_details d n"
proof -
  assume "db_identities e = db_identities d"
  then have "primary_identity_row e = primary_identity_row d"
    by (intro ext) (simp add: primary_identity_row_def)
  then have "note_details_of e = note_details_of d" by (intro ext) (simp add: note_details_of_def)
  then show "find_note e n = find_note d n \<Longrightarrow> fetch_details e n = fetch_details d n"
    by (simp add: fetch_details_def)
qed

lemma fetch_note_cong:
  "find_note e n = find_note d n \<Longrightarrow> db_identities e = db_identities d
   \<Longrightarrow> fetch_note pu n e = fetch_note pu n d"
  using fetch_details_cong [of e n d] by (simp add: fetch_note_def)

section \<open>A committed revision keeps the invariant\<close>

lemma note_history_append:
  assumes "db_revisions e = db_revisions d @ [h]"
  shows "note_history e m = note_history d m @ (if hr_note h = m then [h] else [])"
  using assms by (simp add: note_history_def)

lemma commit_ok:
  assumes ok: "store_ok pu d" and old: "find_note d nid = Some old"
    and frame: "db_principals d1 = db_principals d" "db_identities d1 = db_identities d"
      "db_revisions d1 = db_revisions d" "map nr_id (db_notes d1) = map nr_id (db_notes d)"
    and rows: "\<And>m. find_note d1 m = (if m = nid then Some new else find_note d m)"
    and new: "nr_id new = nid" "nr_creator new = nr_creator old" "nr_revision new = nr_revision old + 1"
      "note_row_check new"
    and acl: "acl_ok d1" and sync: "sync_ok d1" "tracks d d1"
    and com: "committed pu nid cb kind d1 n e"
  shows "store_ok pu e \<and> tracks d e"
proof
  note okd = store_okD [OF ok]
  from com have core: "same_core d1 e" and n: "fetch_note pu nid d1 = Inr n"
    and cb: "cb \<in> set (db_principals d1)"
    and revs: "db_revisions e = db_revisions d @ [history_row cb kind new]"
    using rows frame(3) by (auto simp: committed_def)
  note ce = same_core_fields [OF core]
  have fe: "find_note e = find_note d1" by (rule find_note_same_core [OF core])
  have oldid: "nr_id old = nid" "old \<in> set (db_notes d)" "1 \<le> nr_revision old"
    using notes_okD [OF okd(2) old] by simp_all
  have dist: "distinct (map nr_id (db_notes e))" using okd(2) frame(4) ce(3) by (simp add: notes_ok_def)
  have mem: "r \<in> set (db_notes e) \<longleftrightarrow> find_note d1 (nr_id r) = Some r" for r
    using row_by_Some_iff [OF dist, of "nr_id r" r] unfolding fe [symmetric] find_note_def by simp
  have fetch: "fetch_note pu m e = (if m = nid then Inr n else fetch_note pu m d)" for m
  proof (cases "m = nid")
    case True
    then show ?thesis using n fetch_note_cong [of e nid d1 pu] fe ce(2) by simp
  next
    case False
    then show ?thesis using fetch_note_cong [of e m d pu] fe rows ce(2) frame(2) by simp
  qed
  have notes_e: "notes_ok pu e"
    unfolding notes_ok_def
  proof (intro conjI ballI)
    fix r assume "r \<in> set (db_notes e)"
    then have r: "find_note d1 (nr_id r) = Some r" using mem by blast
    have "note_row_check r \<and> nr_creator r \<in> set (db_principals d) \<and> (\<exists>x. fetch_note pu (nr_id r) e = Inr x)"
    proof (cases "nr_id r = nid")
      case True
      then have "r = new" using r rows by simp
      then show ?thesis using new(2,4) notes_okD(2) [OF okd(2) old] fetch True by simp
    next
      case False
      then have "find_note d (nr_id r) = Some r" using r rows by simp
      from notes_okD(1,2,4) [OF okd(2) this] False show ?thesis by (simp add: fetch)
    qed
    then show "note_row_check r" "nr_creator r \<in> set (db_principals e)" "\<exists>x. fetch_note pu (nr_id r) e = Inr x"
      using ce(1) frame(1) by simp_all
  qed (rule dist)
  have "acl_ok e" using acl ce fe by (simp add: acl_ok_def)
  moreover have "principals_ok pu e" using okd(1) principals_ok_cong [of e d pu] ce frame by simp
  moreover have "sync_ok e" using same_core_effect [OF core] sync(1) by simp
  moreover have "history_ok e"
    unfolding history_ok_def
  proof (intro conjI ballI)
    fix h assume "h \<in> set (db_revisions e)"
    then have "find_note d (hr_note h) \<noteq> None \<or> hr_note h = nid"
      using okd(4) new(1) unfolding revs history_ok_def by (auto simp: history_row_def)
    then show "find_note e (hr_note h) \<noteq> None" using fe rows by auto
  next
    fix r assume "r \<in> set (db_notes e)"
    then have r: "find_note d1 (nr_id r) = Some r" using mem by blast
    have nh: "note_history e m = note_history d m @ (if m = nid then [history_row cb kind new] else [])" for m
      using note_history_append [OF revs, of m] new(1) by (auto simp: history_row_def)
    have "map hr_revision (note_history e (nr_id r)) = map int [1..<nat (nr_revision r) + 1]
        \<and> (\<exists>cb kind. last (note_history e (nr_id r)) = history_row cb kind r \<and> cb \<in> set (db_principals d))"
    proof (cases "nr_id r = nid")
      case True
      then have rn: "r = new" using r rows by simp
      have "map hr_revision (note_history d nid) = map int [1..<nat (nr_revision old) + 1]"
        using okd(4) oldid by (auto simp: history_ok_def)
      moreover have "nat (nr_revision new) + 1 = Suc (nat (nr_revision old) + 1)" using new(3) oldid(3) by simp
      ultimately show ?thesis
        using True rn nh oldid(3) new(3) cb frame(1) by (auto simp: history_row_def)
    next
      case False
      then have "find_note d (nr_id r) = Some r" using r rows by simp
      from notes_okD(5) [OF okd(2) this] False show ?thesis
        using okd(4) nh unfolding history_ok_def by simp
    qed
    then show "map hr_revision (note_history e (nr_id r)) = map int [1..<nat (nr_revision r) + 1]"
      "\<exists>cb kind. last (note_history e (nr_id r)) = history_row cb kind r \<and> cb \<in> set (db_principals e)"
      using ce(1) frame(1) by simp_all
  qed
  ultimately show "store_ok pu e" using notes_e by (simp add: store_ok_def)
  show "tracks d e" using sync(2) same_core_effect [OF core] tracks_trans by blast
qed

text \<open>The row updates keep the key and the owner and count the revision up.\<close>

definition revises :: "(note_row \<Rightarrow> note_row) \<Rightarrow> bool" where
  "revises f \<longleftrightarrow> (\<forall>r. nr_id (f r) = nr_id r \<and> nr_creator (f r) = nr_creator r
     \<and> nr_revision (f r) = nr_revision r + 1)"

lemma revises_updates [simp]:
  "revises (content_update draft now)" "revises (deletion_update now)" "revises (restoration_update now)"
  "revises (acl_update now)" "revises (review_update act now)"
  by (simp_all add: revises_def row_updates)

lemma map_nr_id_put: "map nr_id (db_notes (put_note r d)) = map nr_id (db_notes d)"
  by (auto simp: put_note_def update_where_def)

lemma guarded_update_ok:
  assumes ok: "store_ok pu d" and rev: "revises f" and g: "guarded_update pu nid cb kind g f d n e"
  shows "store_ok pu e \<and> tracks d e"
proof -
  note okd = store_okD [OF ok]
  from g obtain old where old: "find_note d nid = Some old" and chk: "note_row_check (f old)"
    and com: "committed pu nid cb kind (row_updated old (f old) d) n e"
    by (auto simp: guarded_update_def)
  have id: "nr_id old = nid" using notes_okD [OF okd(2) old] by simp
  let ?d1 = "row_updated old (f old) d"
  have f: "find_note ?d1 m = (if m = nid then Some (f old) else find_note d m)" for m
    using find_note_cong [of ?d1 "put_note (f old) d"] find_note_put [of "f old" d m] old rev id
    by (auto simp: revises_def)
  have dist: "distinct (map nr_id (db_notes d))" using okd(2) by (simp add: notes_ok_def)
  have eff: "sync_ok ?d1 \<and> tracks d ?d1"
    by (rule row_updated_effect [OF okd(5) dist old]) (use rev id in \<open>simp_all add: revises_def\<close>)
  have acl: "acl_ok ?d1"
    using okd(3) f old rev unfolding acl_ok_def revises_def by auto
  show ?thesis
    by (rule commit_ok [OF ok old _ _ _ _ f _ _ _ chk acl _ _ com])
      (use eff rev id in \<open>simp_all add: revises_def map_nr_id_put\<close>)
qed

end
