(* ===== verification/StoreOps.thy ===== *)
theory StoreOps
  imports StoreInv
begin

text \<open>
  Every transaction of the note store keeps the store invariant and is tracked by the change log:
  creation, content update, history restore, soft deletion, restoration, ACL replacement, review and
  the registration of principals.
\<close>

section \<open>ACL replacement\<close>

lemma insert_acl_entries_frame:
  assumes "insert_acl_entries nid es d = Inr e"
  shows "db_notes e = db_notes d" "db_principals e = db_principals d" "db_identities e = db_identities d"
    "db_revisions e = db_revisions d"
    "db_acl e = db_acl d @ map (\<lambda>x. \<lparr>ar_note = nid, ar_principal = pref_id (acl_principal x),
       ar_permission = acl_permission x\<rparr>) es"
  using assms
proof (induction es arbitrary: d)
  case (Cons x es)
  {
    case 1
    then show ?case using Cons.IH sql_insert_acl_frame by (fastforce simp: rbind_Inr_iff)
  next
    case 2
    then show ?case using Cons.IH sql_insert_acl_frame by (fastforce simp: rbind_Inr_iff)
  next
    case 3
    then show ?case using Cons.IH sql_insert_acl_frame by (fastforce simp: rbind_Inr_iff)
  next
    case 4
    then show ?case using Cons.IH sql_insert_acl_frame by (fastforce simp: rbind_Inr_iff)
  next
    case 5
    then show ?case using Cons.IH sql_insert_acl_frame by (fastforce simp: rbind_Inr_iff)
  }
qed simp_all

lemma sql_insert_acl_ok:
  assumes "acl_ok d" "sql_insert_acl a d = Inr e"
  shows "acl_ok e"
proof -
  have f: "find_note e = find_note d" by (rule find_note_cong) (rule sql_insert_acl_frame(1) [OF assms(2)])
  from assms(2) obtain r where r: "find_note d (ar_note a) = Some r" "nr_creator r \<noteq> ar_principal a"
      "ar_principal a \<in> set (db_principals d)"
    and new: "\<forall>b\<in>set (db_acl d). ar_note b = ar_note a \<longrightarrow> ar_principal b \<noteq> ar_principal a"
    by (auto simp: sql_insert_acl_Inr_iff)
  have "(ar_note a, ar_principal a) \<notin> (\<lambda>a. (ar_note a, ar_principal a)) ` set (db_acl d)"
    using new by auto
  then show ?thesis
    using assms(1) r f sql_insert_acl_frame(2,3) [OF assms(2)] by (simp add: acl_ok_def)
qed

lemma insert_acl_entries_ok:
  "acl_ok d \<Longrightarrow> insert_acl_entries nid es d = Inr e \<Longrightarrow> acl_ok e"
  by (induction es arbitrary: d) (auto simp: rbind_Inr_iff dest: sql_insert_acl_ok)

lemma replace_note_acl_ok:
  assumes ok: "store_ok pu d" and op: "replace_note_acl pu act nid entries expected now d = Inr (n, e)"
  shows "store_ok pu e \<and> tracks d e"
proof -
  note okd = store_okD [OF ok]
  from op obtain old d2 where old: "find_note d nid = Some old"
    and chk: "note_row_check (acl_update now old)"
    and ins: "insert_acl_entries nid entries (sql_delete_acl nid (row_updated old (acl_update now old) d)) = Inr d2"
    and com: "committed pu nid (actor_id act) KAclUpdated d2 n e"
    by (rule replace_note_acl_Inr)
  let ?new = "acl_update now old"
  let ?d1 = "row_updated old ?new d"
  let ?dd = "sql_delete_acl nid ?d1"
  have id: "nr_id old = nid" using notes_okD [OF okd(2) old] by simp
  have dist: "distinct (map nr_id (db_notes d))" using okd(2) by (simp add: notes_ok_def)
  have eff1: "sync_ok ?d1 \<and> tracks d ?d1"
    by (rule row_updated_effect [OF okd(5) dist old]) (simp_all add: acl_update_def id)
  have f1: "find_note ?d1 m = (if m = nid then Some ?new else find_note d m)" for m
    using find_note_cong [of ?d1 "put_note ?new d"] find_note_put [of ?new d m] old id
    by (auto simp: acl_update_def)
  have dist1: "distinct (map nr_id (db_notes ?d1))" using dist map_nr_id_put [of ?new d] by simp
  have own: "\<forall>a\<in>set (db_acl ?d1). ar_note a = nid \<longrightarrow>
      (\<forall>r\<in>set (db_notes ?d1). nr_id r = nid \<longrightarrow> nr_creator r \<noteq> ar_principal a)"
  proof (intro ballI impI)
    fix a r assume a: "a \<in> set (db_acl ?d1)" "ar_note a = nid"
      and r: "r \<in> set (db_notes ?d1)" "nr_id r = nid"
    have "find_note ?d1 nid = Some r"
      using row_by_unique [OF dist1 r(1)] r(2) by (simp add: find_note_def)
    then have "nr_creator r = nr_creator old" using f1 by (auto simp: acl_update_def)
    moreover have "\<exists>r. find_note d (ar_note a) = Some r \<and> nr_creator r \<noteq> ar_principal a"
      using okd(3) a(1) by (simp add: acl_ok_def)
    ultimately show "nr_creator r \<noteq> ar_principal a" using a(2) old by auto
  qed
  have eff2: "sync_ok ?dd \<and> tracks ?d1 ?dd"
    by (rule sql_delete_acl_effect [OF _ _ own]) (use eff1 f1 in auto)
  have eff3: "sync_ok d2 \<and> tracks ?dd d2"
    by (rule insert_acl_entries_effect [OF _ ins]) (use eff2 in simp)
  have tr: "tracks d d2" using eff1 eff2 eff3 tracks_trans by blast
  note fr = insert_acl_entries_frame [OF ins]
  have f2: "find_note d2 m = (if m = nid then Some ?new else find_note d m)" for m
    using find_note_cong [of d2 ?d1] fr(1) f1 by simp
  have fd: "find_note ?dd m = (if m = nid then Some ?new else find_note d m)" for m
    using find_note_cong [of ?dd ?d1] f1 by simp
  have "acl_ok ?dd"
    unfolding acl_ok_def
  proof (intro conjI ballI)
    show "distinct (map (\<lambda>a. (ar_note a, ar_principal a)) (db_acl ?dd))"
      using okd(3) by (simp add: acl_ok_def distinct_map_delete_where)
    fix a assume "a \<in> set (db_acl ?dd)"
    then have "a \<in> set (db_acl d)" "ar_note a \<noteq> nid" by (simp_all add: set_delete_where)
    then show "ar_principal a \<in> set (db_principals ?dd)"
      "\<exists>r. find_note ?dd (ar_note a) = Some r \<and> nr_creator r \<noteq> ar_principal a"
      using okd(3) fd by (auto simp: acl_ok_def)
  qed
  then have acl: "acl_ok d2" by (rule insert_acl_entries_ok [OF _ ins])
  show ?thesis
    by (rule commit_ok [OF ok old _ _ _ _ f2 _ _ _ chk acl _ tr com])
      (use fr eff3 id in \<open>simp_all add: acl_update_def map_nr_id_put\<close>)
qed

section \<open>Creation\<close>

text \<open>A stored note reads back as the same value.\<close>

definition details_match :: "note_rec \<Rightarrow> note_details \<Rightarrow> bool" where
  "details_match n nd \<longleftrightarrow> nd_row nd = row_of_new_note n
     \<and> nd_creator_issuer nd = issuer (primary_identity (n_owner n))
     \<and> nd_creator_subject nd = subject (primary_identity (n_owner n))
     \<and> nd_reviewer_issuer nd = map_option (\<lambda>r. issuer (primary_identity (rv_reviewer r))) (note_last_review n)
     \<and> nd_reviewer_subject nd = map_option (\<lambda>r. subject (primary_identity (rv_reviewer r))) (note_last_review n)"

definition note_valid :: "url_parser \<Rightarrow> note_rec \<Rightarrow> bool" where
  "note_valid pu n \<longleftrightarrow> note_ok n \<and> 0 < pref_id (n_owner n) \<and> identity_ok pu (primary_identity (n_owner n))
     \<and> 1 \<le> n_revision n
     \<and> (case note_last_review n of None \<Rightarrow> True
        | Some r \<Rightarrow> 1 \<le> rv_revision r \<and> 0 < pref_id (rv_reviewer r)
            \<and> identity_ok pu (primary_identity (rv_reviewer r)))"

lemma revision_new_Inr: "1 \<le> v \<Longrightarrow> revision_new v = Inr v"
  by (simp add: revision_new_def revision_minimum_def)

lemma note_from_row_roundtrip:
  assumes "note_valid pu n" "details_match n nd"
  shows "note_from_row pu nd = Inr n"
proof -
  note v = assms(1) [unfolded note_valid_def] and m = assms(2) [unfolded details_match_def]
  have own: "identity_new pu (nd_creator_issuer nd) (nd_creator_subject nd) = Inr (primary_identity (n_owner n))"
    using v m identity_new_again by simp
  have restore: "note_restore (n_id n) (n_owner n)
      \<lparr>d_source = n_source n, d_title = n_title n, d_tags = n_tags n\<rparr>
      (n_created_at n) (n_updated_at n) (n_revision n) (n_deleted_at n) (n_created_via n) (n_review n)
    = Inr n"
    using v note_restore_again by simp
  have pid: "principal_id_new (pref_id (n_owner n)) = Inr (pref_id (n_owner n))"
    using v by (simp add: principal_id_new_def)
  have rvn: "revision_new (n_revision n) = Inr (n_revision n)" using v revision_new_Inr by simp
  have ownr: "\<lparr>pref_id = pref_id p, primary_identity = primary_identity p\<rparr> = p" for p :: principal_ref
    by simp
  have reta: "\<lparr>rv_revision = rv_revision r, rv_reviewed_at = rv_reviewed_at r, rv_reviewer = rv_reviewer r\<rparr> = r"
    for r :: review_record by simp
  show ?thesis
  proof (cases "n_review n")
    case TUnknown
    then show ?thesis using m own restore pid rvn
      by (simp add: ownr reta note_from_row_def Let_def row_of_new_note_def corrupt_def opt_result_def
          note_last_review_def review_from_columns_def)
  next
    case (Tracked lr)
    show ?thesis
    proof (cases lr)
      case None
      then show ?thesis using m own restore pid rvn Tracked
        by (simp add: ownr reta note_from_row_def Let_def row_of_new_note_def corrupt_def opt_result_def
            note_last_review_def review_from_columns_def review_pending_def)
    next
      case (Some r)
      have lrv: "note_last_review n = Some r" using Tracked Some by (simp add: note_last_review_def)
      have "revision_new (rv_revision r) = Inr (rv_revision r)"
          "principal_id_new (pref_id (rv_reviewer r)) = Inr (pref_id (rv_reviewer r))"
          "identity_new pu (issuer (primary_identity (rv_reviewer r))) (subject (primary_identity (rv_reviewer r)))
             = Inr (primary_identity (rv_reviewer r))"
        using v lrv revision_new_Inr identity_new_again by (auto simp: principal_id_new_def)
      then show ?thesis using m own restore pid rvn Tracked Some lrv
        by (simp add: ownr reta note_from_row_def Let_def row_of_new_note_def corrupt_def opt_result_def
            review_from_columns_def)
    qed
  qed
qed

lemma note_create_valid:
  assumes "actor_known pu d act" "principals_ok pu d"
  shows "note_valid pu (note_create nid (actor_principal act) draft now via)"
proof -
  have "0 < actor_id act" using assms by (auto simp: actor_known_def principals_ok_def)
  moreover have "identity_ok pu (primary_identity (actor_principal act))"
    using assms(1) by (auto simp: actor_known_def)
  ultimately show ?thesis
    using note_create_ok by (simp add: note_valid_def note_create_def revision_initial_def
        revision_minimum_def note_last_review_def review_pending_def)
qed

definition new_note :: "note_id \<Rightarrow> actor \<Rightarrow> note_draft \<Rightarrow> unix_millis \<Rightarrow> creation_source \<Rightarrow> note_rec" where
  "new_note nid act draft now via = note_create nid (actor_principal act) draft now via"

lemma new_note_simps [simp]:
  "n_id (new_note nid act draft now via) = nid"
  "n_owner (new_note nid act draft now via) = actor_principal act"
  "n_revision (new_note nid act draft now via) = 1"
  "note_last_review (new_note nid act draft now via) = None"
  by (simp_all add: new_note_def note_create_def revision_initial_def revision_minimum_def
      note_last_review_def review_pending_def)

lemma create_note_Inr:
  assumes "create_note n links d = Inr e"
  obtains d1 where "sql_insert_note (row_of_new_note n) d = Inr d1" "same_core d1 e"
    "\<exists>r. find_note d1 (n_id n) = Some r \<and> db_revisions e = db_revisions d1 @ [history_row (pref_id (n_owner n)) KCreated r]"
proof -
  from assms obtain d1 d3 where s: "sql_insert_note (row_of_new_note n) d = Inr d1"
    "insert_note_revision (n_id n) (pref_id (n_owner n)) KCreated (replace_link_rows (n_id n) links d1) = Inr d3"
    "replace_note_revision_attachments (n_id n) (nl_attachment_ids links) d3 = Inr e"
    by (auto simp: create_note_def rbind_Inr_iff)
  have c: "same_core d1 (replace_link_rows (n_id n) links d1)" by (rule replace_link_rows_core)
  have "same_core (replace_link_rows (n_id n) links d1) d3" using s(2) by (rule insert_note_revision_core)
  moreover have "same_core d3 e" "db_revisions e = db_revisions d3"
    using replace_note_revision_attachments_frame [OF s(3)] by simp_all
  ultimately show thesis
    using that s(1,2) c find_note_same_core [OF c]
    by (fastforce simp: insert_note_revision_Inr_iff intro: same_core_trans)
qed

lemma create_note_ok:
  assumes ok: "store_ok pu d" and act: "actor_known pu d act"
    and op: "create_note (new_note nid act draft now via) links d = Inr e"
  shows "store_ok pu e \<and> tracks d e \<and> find_note e nid = Some (row_of_new_note (new_note nid act draft now via))
    \<and> fetch_note pu nid e = Inr (new_note nid act draft now via)"
proof -
  note okd = store_okD [OF ok]
  let ?n = "new_note nid act draft now via"
  let ?r = "row_of_new_note ?n"
  from op obtain d1 where ins: "sql_insert_note ?r d = Inr d1" and core: "same_core d1 e"
    and revs0: "\<exists>r. find_note d1 nid = Some r \<and> db_revisions e = db_revisions d1 @ [history_row (actor_id act) KCreated r]"
    by (rule create_note_Inr) simp
  have rid: "nr_id ?r = nid" "nr_creator ?r = actor_id act" "nr_revision ?r = 1"
    by (simp_all add: row_of_new_note_def)
  have new: "find_note d nid = None" and chk: "note_row_check ?r"
    and d1: "d1 = record_note_change CNoteCreated ?r (d\<lparr>db_notes := db_notes d @ [?r]\<rparr>)"
    using ins rid by (auto simp: sql_insert_note_def split: if_splits)
  have eff: "sync_ok d1 \<and> tracks d d1"
    by (rule insert_note_effect [OF okd(5) ins]) (use okd(3) in \<open>auto simp: acl_ok_def\<close>)
  note ce = same_core_fields [OF core]
  have notes_e: "db_notes e = db_notes d @ [?r]" using ce(3) d1 by simp
  have fe: "find_note e m = (if m = nid then Some ?r else find_note d m)" for m
    using new rid unfolding find_note_def notes_e by (auto simp: row_by_append_new split: option.splits)
  have f1: "find_note d1 nid = Some ?r" using fe find_note_same_core [OF core] by simp
  have prin: "db_principals e = db_principals d" "db_identities e = db_identities d" "db_acl e = db_acl d"
    "db_revisions d1 = db_revisions d"
    using ce d1 by simp_all
  have revs: "db_revisions e = db_revisions d @ [history_row (actor_id act) KCreated ?r]"
    using revs0 f1 prin by auto
  have val: "note_valid pu ?n"
    unfolding new_note_def by (rule note_create_valid [OF act okd(1)])
  have fetch: "fetch_note pu nid e = Inr ?n"
  proof -
    from act obtain i where i: "primary_identity_row d (actor_id act) = Some i"
        "primary_identity (actor_principal act) = row_identity i"
      by (auto simp: actor_known_def)
    have "primary_identity_row e = primary_identity_row d"
      using prin(2) by (intro ext) (simp add: primary_identity_row_def)
    then have "\<exists>nd. fetch_details e nid = Some nd \<and> details_match ?n nd"
      using fe i rid by (simp add: fetch_details_def note_details_of_def details_match_def
          row_of_new_note_def row_identity_def)
    then show ?thesis using note_from_row_roundtrip [OF val] by (auto simp: fetch_note_def)
  qed
  have other: "fetch_note pu m e = fetch_note pu m d" if "m \<noteq> nid" for m
    using that fetch_note_cong [of e m d pu] fe prin(2) by simp
  have nomem: "nr_id r \<noteq> nid" if "r \<in> set (db_notes d)" for r
    using new that by (auto simp: find_note_def row_by_None_iff)
  have actp: "actor_id act \<in> set (db_principals d)" using act by (simp add: actor_known_def)
  have "notes_ok pu e"
    using okd(2) new chk rid fetch other nomem actp prin(1)
    unfolding notes_ok_def notes_e by (auto simp: find_note_def row_by_None_iff)
  moreover have "acl_ok e"
    using okd(3) fe new prin unfolding acl_ok_def by fastforce
  moreover have "principals_ok pu e" using okd(1) principals_ok_cong [of e d pu] prin by simp
  moreover have "sync_ok e" using same_core_effect [OF core] eff by simp
  moreover have "history_ok e"
  proof -
    have none: "note_history d nid = []"
      using okd(4) new by (auto simp: history_ok_def note_history_def filter_empty_conv)
    have nh: "note_history e m = note_history d m @ (if m = nid then [history_row (actor_id act) KCreated ?r] else [])" for m
      using note_history_append [OF revs, of m] rid by (auto simp: history_row_def)
    have "find_note e (hr_note h) \<noteq> None" if "h \<in> set (db_revisions e)" for h
      using that okd(4) fe rid unfolding revs history_ok_def by (auto simp: history_row_def)
    moreover have "map hr_revision (note_history e (nr_id r)) = map int [1..<nat (nr_revision r) + 1]
        \<and> (\<exists>cb kind. last (note_history e (nr_id r)) = history_row cb kind r \<and> cb \<in> set (db_principals e))"
      if "r \<in> set (db_notes e)" for r
    proof (cases "r \<in> set (db_notes d)")
      case True
      then show ?thesis using okd(4) nomem nh prin(1) by (simp add: history_ok_def)
    next
      case False
      then have "r = ?r" using that notes_e by simp
      then show ?thesis using nh none rid actp prin(1) by (auto simp: history_row_def)
    qed
    ultimately show ?thesis by (simp add: history_ok_def)
  qed
  ultimately have "store_ok pu e" by (simp add: store_ok_def)
  moreover have "tracks d e" using eff same_core_effect [OF core] tracks_trans by blast
  ultimately show ?thesis using fe fetch by simp
qed

section \<open>Registration\<close>

lemma register_ok:
  assumes ok: "store_ok pu d" and valid: "identity_ok pu i"
    and op: "resolve_or_create_verified pu i d = Inr (a, e)"
  shows "store_ok pu e \<and> tracks d e"
  using store_okD(1) [OF ok]
proof (cases rule: resolve_or_create_in_cases [of pu d i, case_names found new])
  case (found a iid)
  then show ?thesis using op ok by (simp add: resolve_or_create_verified_def)
next
  case (new pid iid e')
  note okd = store_okD [OF ok]
  have e: "e = e'" using op new by (simp add: resolve_or_create_verified_def)
  note f = insert_principal_facts [OF new(2)]
  have prin: "principals_ok pu e'" by (rule insert_principal_ok [OF new(2) okd(1) new(1) valid])
  have tabs: "db_notes e' = db_notes d" "db_acl e' = db_acl d" "db_revisions e' = db_revisions d"
    "db_projection e' = db_projection d" "db_next_sequence e' = db_next_sequence d"
    "db_latest_change e' = db_latest_change d" "set (db_principals d) \<subseteq> set (db_principals e')"
    using f(2) by (subst f(5), simp)+ (auto simp: f(2))
  have fe: "find_note e' = find_note d" by (rule find_note_cong) (rule tabs)
  have he: "has_access e' = has_access d" by (rule has_access_cong) (rule tabs)+
  have pe: "proj_row e' = proj_row d" by (rule proj_row_cong) (rule tabs)
  have same: "fetch_details e' m = fetch_details d m" for m
  proof (cases "find_note d m")
    case (Some r)
    have cr: "nr_creator r \<in> set (db_principals d)" and ck: "note_row_check r"
      using notes_okD [OF okd(2) Some] by simp_all
    have pid: "pid \<notin> set (db_principals d)"
      using f(1) next_rowid_notin by simp
    then have "primary_identity_row e' (nr_creator r) = primary_identity_row d (nr_creator r)"
      using cr primary_after_insert [OF new(2) okd(1)] by auto
    moreover have "Option.bind (nr_reviewer r) (primary_identity_row e') = Option.bind (nr_reviewer r) (primary_identity_row d)"
      using ck calculation by (auto simp: note_row_check_def)
    ultimately show ?thesis using Some by (simp add: fetch_details_def fe note_details_of_def)
  qed (simp add: fetch_details_def fe)
  then have fetch: "fetch_note pu m e' = fetch_note pu m d" for m by (simp add: fetch_note_def)
  have "notes_ok pu e'" using okd(2) tabs fetch by (auto simp: notes_ok_def)
  moreover have "acl_ok e'" using okd(3) tabs fe by (auto simp: acl_ok_def)
  moreover have "history_ok e'"
  proof -
    have nh: "note_history e' = note_history d" by (intro ext) (simp add: note_history_def tabs)
    show ?thesis
      unfolding history_ok_def nh tabs(1,3) fe
      using okd(4) tabs(7) unfolding history_ok_def by (meson subsetD)
  qed
  moreover have vis: "visible e' = visible d" by (intro ext) (simp add: visible_def fe he)
  have "sync_ok e' = sync_ok d" unfolding sync_ok_def tabs vis by (rule refl)
  moreover have "tracks d e'" using tabs pe same vis by (simp add: tracks_def visible_details_def)
  moreover note okd(5)
  ultimately show ?thesis using prin e by (simp add: store_ok_def)
qed

end
