(* ===== verification/StoreMachine.thy ===== *)
theory StoreMachine
  imports StoreOps
begin

text \<open>
  The store as a state machine: its steps are the committed transactions, a refused one leaves the
  database as it is.  The invariant holds in every reachable state, and the results of each
  transaction are characterised: who may perform it, when it conflicts and what it changes.
\<close>

section \<open>Steps\<close>

inductive store_step :: "url_parser \<Rightarrow> db \<Rightarrow> db \<Rightarrow> bool" for pu :: url_parser where
  step_register: "identity_ok pu i \<Longrightarrow> resolve_or_create_verified pu i d = Inr (a, e) \<Longrightarrow> store_step pu d e"
| step_create: "actor_known pu d act \<Longrightarrow> create_note (new_note nid act draft now via) links d = Inr e
    \<Longrightarrow> store_step pu d e"
| step_update: "update_visible_note pu act nid expected draft links now d = Inr (n, e) \<Longrightarrow> store_step pu d e"
| step_rewind: "restore_visible_note_revision pu act nid expected draft links now d = Inr (n, e)
    \<Longrightarrow> store_step pu d e"
| step_delete: "soft_delete_visible_note pu act nid expected now d = Inr (n, e) \<Longrightarrow> store_step pu d e"
| step_restore: "restore_owned_deleted_note pu act nid expected now d = Inr (n, e) \<Longrightarrow> store_step pu d e"
| step_acl: "replace_note_acl pu act nid entries expected now d = Inr (n, e) \<Longrightarrow> store_step pu d e"
| step_review: "mark_owned_note_reviewed pu act nid expected now d = Inr (n, e) \<Longrightarrow> store_step pu d e"

lemma store_step_ok:
  assumes "store_step pu d e" "store_ok pu d"
  shows "store_ok pu e \<and> tracks d e"
  using assms
proof cases
  case step_register
  then show ?thesis using assms register_ok by blast
next
  case step_create
  then show ?thesis using assms create_note_ok by blast
next
  case step_update
  then show ?thesis using assms guarded_update_ok [OF _ revises_updates(1) update_visible_note_with_kind_Inr]
    unfolding update_visible_note_def by blast
next
  case step_rewind
  then show ?thesis using assms guarded_update_ok [OF _ revises_updates(1) update_visible_note_with_kind_Inr]
    unfolding restore_visible_note_revision_def by blast
next
  case step_delete
  then show ?thesis using assms guarded_update_ok [OF _ revises_updates(2) soft_delete_visible_note_Inr] by blast
next
  case step_restore
  then show ?thesis using assms guarded_update_ok [OF _ revises_updates(3) restore_owned_deleted_note_Inr] by blast
next
  case step_acl
  then show ?thesis using assms replace_note_acl_ok by blast
next
  case step_review
  then show ?thesis using assms guarded_update_ok [OF _ revises_updates(5) mark_owned_note_reviewed_Inr] by blast
qed

abbreviation store_steps :: "url_parser \<Rightarrow> db \<Rightarrow> db \<Rightarrow> bool" where
  "store_steps pu \<equiv> (store_step pu)\<^sup>*\<^sup>*"

lemma store_steps_ok: "store_steps pu d e \<Longrightarrow> store_ok pu d \<Longrightarrow> store_ok pu e \<and> tracks d e"
  by (induction rule: rtranclp_induct) (auto dest: store_step_ok intro: tracks_trans)

section \<open>A concrete run\<close>

definition sample_note_id :: note_id where "sample_note_id = 7"

definition no_links :: note_links where
  "no_links = \<lparr>nl_reference_targets = [], nl_cited_keys = [], nl_attachment_ids = []\<rparr>"

definition sample_draft :: "nat \<Rightarrow> note_draft" where
  "sample_draft k = \<lparr>d_source = [65 + k], d_title = [84], d_tags = []\<rparr>"

definition sample_actor :: "int \<Rightarrow> actor" where
  "sample_actor p = actor_for_single_identity p (sample_identity (nat p))"

definition ok_state :: "'e + db \<Rightarrow> db" where
  "ok_state r = (case r of Inr e \<Rightarrow> e | Inl _ \<Rightarrow> empty_db)"

definition sample_users :: db where
  "sample_users = (case insert_principal (sample_identity 1) empty_db of (_, _, d) \<Rightarrow>
     case insert_principal (sample_identity 2) d of (_, _, e) \<Rightarrow> e)"

definition sample_db :: db where
  "sample_db = ok_state (create_note (new_note sample_note_id (sample_actor 1) (sample_draft 0) 1000 Web)
     no_links sample_users)"

lemmas store_eval = create_note_def sql_insert_note_def insert_note_revision_def
  replace_note_revision_attachments_def replace_link_rows_def replace_reference_rows_def
  row_of_new_note_def find_note_def row_by_def note_row_check_def in_i64_def i64_min_def i64_max_def
  record_note_change_def project_note_change_def append_change_def record_access_change_def
  project_access_change_def upsert_projection_def update_change_kind_def note_access_def
  exists_where_def select_where_def update_where_def delete_where_def history_row_def
  insert_or_ignore_def access_at_least_def sql_update_note_def put_note_def

lemmas sample_eval = sample_db_def sample_users_def sample_actor_def sample_draft_def sample_note_id_def
  sample_identity_def ok_state_def no_links_def actor_for_single_identity_def insert_principal_def
  next_rowid_def empty_db_def new_note_def note_create_def revision_initial_def revision_minimum_def
  review_pending_def note_last_review_def

lemma sample_create:
  "create_note (new_note sample_note_id (sample_actor 1) (sample_draft 0) 1000 Web)
     no_links sample_users = Inr sample_db"
  by (simp add: sample_eval store_eval)

lemma sample_register:
  "\<exists>a b d. resolve_or_create_verified sample_parser (sample_identity 1) empty_db = Inr (a, d)
     \<and> resolve_or_create_verified sample_parser (sample_identity 2) d = Inr (b, sample_users)"
  by (simp add: sample_eval resolve_or_create_verified_def resolve_or_create_in_def resolve_in_def
      identity_match_def principal_id_new_def)

lemma sample_reachable: "store_steps sample_parser empty_db sample_db"
proof -
  from sample_register obtain a b d where
    "resolve_or_create_verified sample_parser (sample_identity 1) empty_db = Inr (a, d)"
    "resolve_or_create_verified sample_parser (sample_identity 2) d = Inr (b, sample_users)"
    by blast
  then have "store_steps sample_parser empty_db sample_users"
    using step_register sample_identity_ok [of 1] sample_identity_ok [of 2]
    by (meson converse_rtranclp_into_rtranclp r_into_rtranclp numeral_less_iff one_less_numeral_iff
        semiring_norm(76,77,78))
  moreover have "actor_known sample_parser sample_users (sample_actor 1)"
    using sample_identity_ok [of 1]
    by (simp add: actor_known_def sample_eval primary_identity_row_def row_identity_def)
  then have "store_step sample_parser sample_users sample_db"
    by (rule step_create) (rule sample_create)
  ultimately show ?thesis by (rule rtranclp.rtrancl_into_rtrancl)
qed

lemma sample_ok: "store_ok sample_parser sample_db"
  using store_steps_ok [OF sample_reachable empty_store_ok] by simp

lemma sample_find: "find_note sample_db sample_note_id =
    Some (row_of_new_note (new_note sample_note_id (sample_actor 1) (sample_draft 0) 1000 Web))"
  by (simp add: sample_eval store_eval)

text \<open>
  C1: every database reachable from the empty one by transactions of the store satisfies the store
  invariant: keys are unique and foreign keys resolve, every stored note reads back as a valid note,
  no ACL names the owner of its note, the history of a note is exactly its revisions 1 up to the
  current one with the current row as its newest entry, and the synchronisation projection is well
  formed.
\<close>

theorem store_invariant:
  assumes "store_steps pu empty_db d"
  shows "store_ok pu d"
  using store_steps_ok [OF assms empty_store_ok] by simp

lemma store_invariant_witness:
  "store_ok sample_parser sample_db \<and> db_notes sample_db \<noteq> []"
  using store_invariant [OF sample_reachable] by (simp add: sample_eval store_eval)

section \<open>Reading a note after a mutation\<close>

lemma note_from_row_Inr:
  assumes "note_from_row pu nd = Inr n"
  shows "n_id n = nr_id (nd_row nd)" "pref_id (n_owner n) = nr_creator (nd_row nd)"
    "n_title n = nr_title (nd_row nd)" "n_source n = nr_source (nd_row nd)" "n_tags n = nr_tags (nd_row nd)"
    "n_created_at n = nr_created_at (nd_row nd)" "n_updated_at n = nr_updated_at (nd_row nd)"
    "n_revision n = nr_revision (nd_row nd)" "n_deleted_at n = nr_deleted_at (nd_row nd)"
    "n_created_via n = nr_created_via (nd_row nd)" "note_ok n"
    "note_review_status n = (if \<not> nr_tracking_known (nd_row nd) then ReviewUnknown
       else if nr_reviewed_revision (nd_row nd) = Some (nr_revision (nd_row nd)) then Reviewed
       else ReviewPending)"
proof -
  let ?r = "nd_row nd"
  from assms obtain ident rrev rid rvw where
    res: "note_restore (nr_id ?r) \<lparr>pref_id = nr_creator ?r, primary_identity = ident\<rparr>
        \<lparr>d_source = nr_source ?r, d_title = nr_title ?r, d_tags = nr_tags ?r\<rparr>
        (nr_created_at ?r) (nr_updated_at ?r) (nr_revision ?r) (nr_deleted_at ?r) (nr_created_via ?r) rvw = Inr n"
    and rv: "opt_result revision_new (nr_reviewed_revision ?r) = Inr rrev"
      "review_from_columns pu (nr_tracking_known ?r) rrev (nr_reviewed_at ?r)
         (nd_reviewer_issuer nd) (nd_reviewer_subject nd) rid = Inr rvw"
    by (auto simp: note_from_row_def Let_def rbind_Inr_iff corrupt_def map_err_Inr_iff
        principal_id_new_Inr_iff revision_new_def split: if_splits)
  show "note_ok n" using res by (rule note_restore_ok)
  have rr: "rrev = nr_reviewed_revision ?r"
    using rv(1) by (auto simp: opt_result_def revision_new_def split: option.splits if_splits)
  have n: "n = \<lparr>n_id = nr_id ?r, n_owner = \<lparr>pref_id = nr_creator ?r, primary_identity = ident\<rparr>,
      n_title = nr_title ?r, n_source = nr_source ?r, n_tags = nr_tags ?r, n_created_at = nr_created_at ?r,
      n_updated_at = nr_updated_at ?r, n_revision = nr_revision ?r, n_deleted_at = nr_deleted_at ?r,
      n_created_via = nr_created_via ?r, n_review = rvw\<rparr>"
    using res by (simp add: note_restore_def split: if_splits)
  show "n_id n = nr_id ?r" "pref_id (n_owner n) = nr_creator ?r" "n_title n = nr_title ?r"
    "n_source n = nr_source ?r" "n_tags n = nr_tags ?r" "n_created_at n = nr_created_at ?r"
    "n_updated_at n = nr_updated_at ?r" "n_revision n = nr_revision ?r" "n_deleted_at n = nr_deleted_at ?r"
    "n_created_via n = nr_created_via ?r"
    by (simp_all add: n)
  have "tracking_status rvw (nr_revision ?r) = (if \<not> nr_tracking_known ?r then ReviewUnknown
       else if nr_reviewed_revision ?r = Some (nr_revision ?r) then Reviewed else ReviewPending)"
    using rv(2) rr
    by (auto simp: review_from_columns_def rbind_Inr_iff review_pending_def split: option.splits bool.splits if_splits)
  then show "note_review_status n = (if \<not> nr_tracking_known ?r then ReviewUnknown
       else if nr_reviewed_revision ?r = Some (nr_revision ?r) then Reviewed else ReviewPending)"
    by (simp add: note_review_status_def n)
qed

lemma fetch_note_Inr:
  assumes "fetch_note pu nid d = Inr n"
  obtains r nd where "find_note d nid = Some r" "nd_row nd = r" "note_from_row pu nd = Inr n"
proof -
  from assms obtain nd where nd: "fetch_details d nid = Some nd" "note_from_row pu nd = Inr n"
    by (auto simp: fetch_note_def rbind_Inr_iff ok_or_Inr_iff)
  then have "find_note d nid = Some (nd_row nd)"
    by (auto simp: fetch_details_def note_details_of_def Let_def bind_eq_Some_conv)
  with nd that show thesis by blast
qed

text \<open>What one guarded update leaves behind.\<close>

lemma guarded_update_result:
  assumes ok: "store_ok pu d" and rev: "revises f" and g: "guarded_update pu nid cb kind g f d n e"
  obtains old nd where "find_note d nid = Some old" "g old" "find_note e nid = Some (f old)"
    "fetch_note pu nid e = Inr n" "nd_row nd = f old" "note_from_row pu nd = Inr n"
    "\<And>m. m \<noteq> nid \<Longrightarrow> find_note e m = find_note d m"
    "\<And>m. m \<noteq> nid \<Longrightarrow> fetch_note pu m e = fetch_note pu m d"
    "db_revisions e = db_revisions d @ [history_row cb kind (f old)]"
    "db_acl e = db_acl d" "db_principals e = db_principals d" "db_identities e = db_identities d"
    "\<And>m p l. access_at_least e m p l = access_at_least d m p l"
proof -
  note okd = store_okD [OF ok]
  from g obtain old where old: "find_note d nid = Some old" "g old"
    and com: "committed pu nid cb kind (row_updated old (f old) d) n e"
    by (auto simp: guarded_update_def)
  let ?d1 = "row_updated old (f old) d"
  have id: "nr_id old = nid" using notes_okD [OF okd(2) old(1)] by simp
  have f: "find_note ?d1 m = (if m = nid then Some (f old) else find_note d m)" for m
    using find_note_cong [of ?d1 "put_note (f old) d"] find_note_put [of "f old" d m] old rev id
    by (auto simp: revises_def)
  from com have core: "same_core ?d1 e" and n: "fetch_note pu nid ?d1 = Inr n"
    and revs: "db_revisions e = db_revisions d @ [history_row cb kind (f old)]"
    using f by (auto simp: committed_def)
  note ce = same_core_fields [OF core]
  have fe: "find_note e m = (if m = nid then Some (f old) else find_note d m)" for m
    using f find_note_same_core [OF core] by simp
  have tabs: "db_acl e = db_acl d" "db_principals e = db_principals d" "db_identities e = db_identities d"
    using ce by simp_all
  have ne: "fetch_note pu nid e = Inr n"
    using n fetch_note_cong [of e nid ?d1 pu] find_note_same_core [OF core] ce(2) by simp
  from ne obtain r nd where nd: "find_note e nid = Some r" "nd_row nd = r" "note_from_row pu nd = Inr n"
    by (rule fetch_note_Inr)
  have other: "fetch_note pu m e = fetch_note pu m d" if "m \<noteq> nid" for m
    using that fetch_note_cong [of e m d pu] fe tabs(3) by simp
  have "store_ok pu e" using guarded_update_ok [OF ok rev g] by simp
  note oke = store_okD [OF this]
  have acc: "access_at_least e m p l = access_at_least d m p l" for m p l
  proof (cases "find_note d m")
    case None
    then have "find_note e m = None" using fe old(1) by auto
    with None show ?thesis
      using okd(3) tabs(1) by (auto simp: access_at_least_iff find_note_def row_by_None_iff acl_ok_def)
  next
    case (Some r)
    have "find_note e m = Some (if m = nid then f old else r)" using fe Some by simp
    moreover have "nr_creator (if m = nid then f old else r) = nr_creator r"
      using rev Some old(1) by (auto simp: revises_def)
    ultimately show ?thesis
      using store_access_unique [OF okd(2,3) Some, of p l]
        store_access_unique [OF oke(2,3), of m "if m = nid then f old else r" p l] tabs(1) by simp
  qed
  show thesis
    by (rule that [of old nd]) (use old fe ne nd other revs tabs acc in auto)
qed

end
