(* ===== verification/NoteStoreProps.thy ===== *)
theory NoteStoreProps
  imports StoreMachine
begin

text \<open>
  What the note transactions promise: the exact conditions for \<open>NotFound\<close> and \<open>Conflict\<close>, the
  absence of lost updates, the effect of each mutation on the note, its review status, its history
  and everybody's access, and the retention window of deleted notes.
\<close>

section \<open>Refusals\<close>

definition internal_error :: "store_error \<Rightarrow> bool" where
  "internal_error e \<longleftrightarrow> e = CorruptData \<or> e = Database"

lemma corrupt_Inl: "corrupt r = Inl e \<Longrightarrow> internal_error e"
  by (auto simp: corrupt_def map_err_Inl_iff internal_error_def)

definition internal_only :: "store_error + 'a \<Rightarrow> bool" where
  "internal_only r \<longleftrightarrow> (\<forall>e. r = Inl e \<longrightarrow> internal_error e)"

lemma internal_only_intros [intro]:
  "internal_only (corrupt r)" "internal_only (Inr x)" "internal_only (Inl CorruptData)"
  by (auto simp: internal_only_def internal_error_def dest: corrupt_Inl)

lemma internal_only_rbind: "internal_only r \<Longrightarrow> (\<And>x. internal_only (f x)) \<Longrightarrow> internal_only (rbind r f)"
  by (auto simp: internal_only_def rbind_Inl_iff)

lemma fetch_note_Inl: "fetch_note pu nid d = Inl e \<Longrightarrow> internal_error e"
proof -
  have review: "internal_only (review_from_columns pu k a b i s p)" for k a b i s p
    by (auto simp: review_from_columns_def intro!: internal_only_rbind split: bool.splits option.splits)
  have "internal_only (note_from_row pu nd)" for nd
    unfolding note_from_row_def Let_def by (intro internal_only_rbind internal_only_intros review)
  then show "fetch_note pu nid d = Inl e \<Longrightarrow> internal_error e"
    by (auto simp: fetch_note_def rbind_Inl_iff ok_or_Inl_iff internal_error_def internal_only_def)
qed

lemma insert_note_revision_Inl: "insert_note_revision nid cb k d = Inl e \<Longrightarrow> internal_error e"
  by (auto simp: insert_note_revision_def internal_error_def split: option.splits if_splits)

lemma insert_revision_attachments_Inl: "insert_revision_attachments nid v as d = Inl e \<Longrightarrow> internal_error e"
  by (induction as arbitrary: d) (auto simp: internal_error_def split: if_splits)

lemma replace_note_revision_attachments_Inl:
  "replace_note_revision_attachments nid as d = Inl e \<Longrightarrow> internal_error e"
  by (auto simp: replace_note_revision_attachments_def split: option.splits
      dest: insert_revision_attachments_Inl) (simp add: internal_error_def)

text \<open>The condition under which a mutation that needs an access level may be attempted.\<close>

definition may_mutate :: "actor \<Rightarrow> note_id \<Rightarrow> note_access \<Rightarrow> db \<Rightarrow> bool" where
  "may_mutate act nid required d \<longleftrightarrow> (\<exists>r. find_note d nid = Some r \<and> nr_deleted_at r = None)
     \<and> access_at_least d nid (actor_id act) (access_level required)"

lemma require_active_note_access_iff:
  "require_active_note_access act nid required d =
     (if may_mutate act nid required d then Inr () else Inl NotFound)"
  by (auto simp: require_active_note_access_def may_mutate_def split: option.splits)

lemma classify_failed_mutation_iff:
  "classify_failed_mutation act nid required d =
     (if may_mutate act nid required d then Conflict else NotFound)"
  by (simp add: classify_failed_mutation_def require_active_note_access_iff)

definition harmless :: "(db \<Rightarrow> store_error + db) \<Rightarrow> bool" where
  "harmless f \<longleftrightarrow> (\<forall>d e. f d = Inl e \<longrightarrow> internal_error e)"

lemma harmless_statements [simp]:
  "harmless Inr" "harmless (\<lambda>d. Inr (replace_link_rows nid links d))"
  "harmless (replace_note_revision_attachments nid as)"
  by (auto simp: harmless_def dest: replace_note_revision_attachments_Inl)

lemma commit_revision_Inl:
  assumes "harmless before" "harmless after"
    and "commit_revision pu act nid required kind before after (True, d) = Inl e"
  shows "internal_error e"
  using assms by (auto simp: commit_revision_def rbind_Inl_iff harmless_def
      dest: fetch_note_Inl insert_note_revision_Inl)

lemma guarded_update_refused:
  fixes act nid expected required f d pu kind before after
  defines "res \<equiv> rbind (sql_update_note nid (active_guard act nid expected (access_level required) d) f d)
      (commit_revision pu act nid required kind before after)"
  assumes h: "harmless before" "harmless after"
  shows "res = Inl NotFound \<longleftrightarrow> \<not> may_mutate act nid required d"
    and "res = Inl Conflict \<longleftrightarrow> may_mutate act nid required d
      \<and> \<not> (\<exists>r. find_note d nid = Some r \<and> nr_revision r = expected)"
proof -
  let ?g = "active_guard act nid expected (access_level required) d"
  consider (hit) old where "find_note d nid = Some old" "?g old"
    | (miss) "\<forall>old. find_note d nid = Some old \<longrightarrow> \<not> ?g old" by blast
  then have "(res = Inl NotFound \<longleftrightarrow> \<not> may_mutate act nid required d)
    \<and> (res = Inl Conflict \<longleftrightarrow> may_mutate act nid required d
      \<and> \<not> (\<exists>r. find_note d nid = Some r \<and> nr_revision r = expected))"
  proof cases
    case hit
    then have m: "may_mutate act nid required d" "nr_revision old = expected"
      by (simp_all add: may_mutate_def active_guard_def)
    have "internal_error e" if "res = Inl e" for e
    proof -
      from that hit consider "e = Database" | x where
        "commit_revision pu act nid required kind before after (True, x) = Inl e"
        by (auto simp: res_def rbind_Inl_iff sql_update_note_def split: if_splits)
      then show ?thesis
        by cases (simp add: internal_error_def, erule commit_revision_Inl [OF h])
    qed
    with m hit show ?thesis by (auto simp: internal_error_def)
  next
    case miss
    then have "res = Inl (classify_failed_mutation act nid required d)"
      by (auto simp: res_def sql_update_note_def commit_revision_not_affected split: option.splits)
    with miss show ?thesis
      by (auto simp: classify_failed_mutation_iff may_mutate_def active_guard_def)
  qed
  then show "res = Inl NotFound \<longleftrightarrow> \<not> may_mutate act nid required d"
    "res = Inl Conflict \<longleftrightarrow> may_mutate act nid required d
      \<and> \<not> (\<exists>r. find_note d nid = Some r \<and> nr_revision r = expected)" by blast+
qed

lemma update_visible_note_alt:
  "update_visible_note_with_kind pu act nid expected draft links now kind d =
     rbind (sql_update_note nid (active_guard act nid expected (access_level AEdit) d) (content_update draft now) d)
       (commit_revision pu act nid AEdit kind (\<lambda>d1. Inr (replace_link_rows nid links d1))
          (replace_note_revision_attachments nid (nl_attachment_ids links)))"
  by (simp add: update_visible_note_with_kind_def active_guard_def [abs_def] content_update_def [abs_def])

lemma soft_delete_visible_note_alt:
  "soft_delete_visible_note pu act nid expected now d =
     rbind (sql_update_note nid (active_guard act nid expected (access_level AManage) d) (deletion_update now) d)
       (commit_revision pu act nid AManage KDeleted Inr Inr)"
  by (simp add: soft_delete_visible_note_def active_guard_def [abs_def] deletion_update_def [abs_def])

lemma mark_owned_note_reviewed_alt:
  "mark_owned_note_reviewed pu act nid expected now d =
     rbind (sql_update_note nid (active_guard act nid expected (access_level AManage) d) (review_update act now) d)
       (commit_revision pu act nid AManage KReviewed Inr Inr)"
  by (simp add: mark_owned_note_reviewed_def active_guard_def [abs_def] review_update_def [abs_def])

text \<open>
  C8: a content update is refused as not found exactly when the note does not exist, is deleted or
  gives the actor less than editing access, and as a conflict exactly when the actor may edit it but
  the stored revision is not the expected one.  The same holds for a deletion and a review with
  managing access.
\<close>

theorem mutation_refusals:
  "(update_visible_note pu act nid expected draft links now d = Inl NotFound
       \<longleftrightarrow> \<not> may_mutate act nid AEdit d)
   \<and> (update_visible_note pu act nid expected draft links now d = Inl Conflict
       \<longleftrightarrow> may_mutate act nid AEdit d \<and> \<not> (\<exists>r. find_note d nid = Some r \<and> nr_revision r = expected))
   \<and> (soft_delete_visible_note pu act nid expected now d = Inl NotFound
       \<longleftrightarrow> \<not> may_mutate act nid AManage d)
   \<and> (soft_delete_visible_note pu act nid expected now d = Inl Conflict
       \<longleftrightarrow> may_mutate act nid AManage d \<and> \<not> (\<exists>r. find_note d nid = Some r \<and> nr_revision r = expected))
   \<and> (mark_owned_note_reviewed pu act nid expected now d = Inl NotFound
       \<longleftrightarrow> \<not> may_mutate act nid AManage d)
   \<and> (mark_owned_note_reviewed pu act nid expected now d = Inl Conflict
       \<longleftrightarrow> may_mutate act nid AManage d \<and> \<not> (\<exists>r. find_note d nid = Some r \<and> nr_revision r = expected))"
  unfolding update_visible_note_def update_visible_note_alt soft_delete_visible_note_alt
    mark_owned_note_reviewed_alt
  by (intro conjI; (rule guarded_update_refused; simp))

section \<open>Effects\<close>

lemma insert_revision_attachments_rows:
  "insert_revision_attachments nid v as d = Inr e \<Longrightarrow> e = d\<lparr>db_revision_attachments :=
     db_revision_attachments d @ map (\<lambda>a. (nid, v, a)) as\<rparr>"
proof (induction as arbitrary: d)
  case (Cons a as)
  then have "insert_revision_attachments nid v as
      (d\<lparr>db_revision_attachments := db_revision_attachments d @ [(nid, v, a)]\<rparr>) = Inr e"
    by (simp split: if_splits)
  from Cons.IH [OF this] show ?case by simp
qed simp

lemma set_fold_insert_or_ignore:
  "set (fold (\<lambda>t rows. insert_or_ignore (nid, t) rows) ts rows) = set rows \<union> Pair nid ` set ts"
  by (induction ts arbitrary: rows) (auto simp: insert_or_ignore_def)

lemma replaced_link_rows:
  "set (db_references (replace_link_rows nid links d))
     = {p \<in> set (db_references d). fst p \<noteq> nid} \<union> Pair nid ` set (nl_reference_targets links)"
  "set (db_citations (replace_link_rows nid links d))
     = {p \<in> set (db_citations d). fst p \<noteq> nid} \<union> Pair nid ` set (nl_cited_keys links)"
  by (auto simp: replace_link_rows_def replace_reference_rows_def Let_def set_fold_insert_or_ignore set_delete_where)

lemma record_note_change_log:
  "db_changes (record_note_change kind r d) = db_changes d @ [\<lparr>ch_sequence = db_next_sequence d,
     ch_owner = nr_creator r, ch_affected = None, ch_kind = kind, ch_target = nr_id r,
     ch_revision = nr_revision r, ch_occurred_at = nr_updated_at r\<rparr>]"
  by (simp add: record_note_change_def project_note_change_def append_change_def)

text \<open>The row a content update leaves behind: the columns it sets, and no other.\<close>

definition updated_row :: "note_draft \<Rightarrow> unix_millis \<Rightarrow> note_row \<Rightarrow> note_row" where
  "updated_row draft now old = old\<lparr>nr_title := d_title draft, nr_source := d_source draft, nr_tags := d_tags draft,
     nr_updated_at := now, nr_tracking_known := True, nr_revision := nr_revision old + 1\<rparr>"

text \<open>
  Everything a content update may have changed: the row of the note, its links, the attachments of the
  new revision, one row of the history, one change in the log and the synchronisation rows of those who
  see the note.
\<close>

lemma update_all_tables:
  assumes ok: "store_ok pu d" and upd: "update_visible_note pu act nid expected draft links now d = Inr (n, e)"
  obtains old where "find_note d nid = Some old" "active_guard act nid expected 2 d old"
    "db_notes e = update_where (\<lambda>x. nr_id x = nid) (\<lambda>_. updated_row draft now old) (db_notes d)"
    "db_revisions e = db_revisions d @ [history_row (actor_id act) KContentUpdated (updated_row draft now old)]"
    "set (db_references e) = {p \<in> set (db_references d). fst p \<noteq> nid} \<union> Pair nid ` set (nl_reference_targets links)"
    "set (db_citations e) = {p \<in> set (db_citations d). fst p \<noteq> nid} \<union> Pair nid ` set (nl_cited_keys links)"
    "set (db_revision_attachments e) = {(m, v, a) \<in> set (db_revision_attachments d). m \<noteq> nid \<or> v \<noteq> expected + 1}
       \<union> (\<lambda>a. (nid, expected + 1, a)) ` set (nl_attachment_ids links)"
    "db_changes e = db_changes d @ [\<lparr>ch_sequence = db_next_sequence d, ch_owner = nr_creator old, ch_affected = None,
       ch_kind = (if d_source draft = nr_source old then CNoteStateChanged else CNoteUpdated), ch_target = nid,
       ch_revision = expected + 1, ch_occurred_at = now\<rparr>]"
    "db_next_sequence e = db_next_sequence d + 1"
    "\<And>p m. proj_row e p m = (if m = nid \<and> has_access d m p then Some \<lparr>pj_sequence = db_next_sequence d,
       pj_principal = p, pj_note = m, pj_kind = PUpsert\<rparr> else proj_row d p m)"
    "db_principals e = db_principals d" "db_identities e = db_identities d" "db_acl e = db_acl d"
    "db_attachments e = db_attachments d" "db_cursors e = db_cursors d"
proof -
  from upd obtain old d3 where old: "find_note d nid = Some old" "active_guard act nid expected 2 d old"
    and ins: "insert_note_revision nid (actor_id act) KContentUpdated
        (replace_link_rows nid links (row_updated old (content_update draft now old) d)) = Inr d3"
    and att: "replace_note_revision_attachments nid (nl_attachment_ids links) d3 = Inr e"
    by (auto simp: update_visible_note_def update_visible_note_alt rbind_Inr_iff commit_revision_def
        sql_update_note_Inr_iff split: if_splits)
  let ?new = "updated_row draft now old"
  have new: "content_update draft now old = ?new" by (simp add: content_update_def updated_row_def)
  have id: "nr_id old = nid" using find_note_Some [OF old(1)] by simp
  have rv: "nr_revision old = expected" "nr_deleted_at old = None" using old(2) by (simp_all add: active_guard_def)
  let ?d1 = "row_updated old ?new d" and ?d2 = "replace_link_rows nid links (row_updated old ?new d)"
  have nid: "nr_id ?new = nid" "nr_revision ?new = expected + 1" "nr_creator ?new = nr_creator old"
    using id rv by (simp_all add: updated_row_def)
  have "find_note ?d1 nid = Some ?new"
    using find_note_cong [of ?d1 "put_note ?new d"] find_note_put [of ?new d nid] old(1) nid by simp
  then have f2: "find_note ?d2 nid = Some ?new" using find_note_same_core [OF replace_link_rows_core] by simp
  from ins f2 have d3: "d3 = ?d2\<lparr>db_revisions := db_revisions ?d2 @ [history_row (actor_id act) KContentUpdated ?new],
      db_revision_attachments := db_revision_attachments ?d2 @ map (\<lambda>(m, v, a). (m, expected + 1, a))
        (select_where (\<lambda>(m, v, a). m = nid \<and> v = expected) (db_revision_attachments ?d2))\<rparr>"
    unfolding new by (simp add: insert_note_revision_Inr_iff nid)
  have f3: "find_note d3 nid = Some ?new" using f2 unfolding d3 by (simp add: find_note_def)
  from att f3 have e: "e = d3\<lparr>db_revision_attachments :=
      delete_where (\<lambda>(m, v, a). m = nid \<and> v = expected + 1) (db_revision_attachments d3)
        @ map (\<lambda>a. (nid, expected + 1, a)) (nl_attachment_ids links)\<rparr>"
    by (auto simp: replace_note_revision_attachments_def nid dest!: insert_revision_attachments_rows)
  note core = same_core_fields [OF replace_link_rows_core [of ?d1 nid links]]
  have kind: "update_change_kind old ?new = (if d_source draft = nr_source old then CNoteStateChanged else CNoteUpdated)"
    using rv by (auto simp: update_change_kind_def updated_row_def)
  have ra: "db_revision_attachments ?d2 = db_revision_attachments d" by simp
  have "set (db_revision_attachments e) = {(m, v, a) \<in> set (db_revision_attachments d). m \<noteq> nid \<or> v \<noteq> expected + 1}
       \<union> (\<lambda>a. (nid, expected + 1, a)) ` set (nl_attachment_ids links)"
    unfolding e d3 by (auto simp: set_delete_where set_select_where)
  moreover have "proj_row e p m = (if m = nid \<and> has_access d m p then Some \<lparr>pj_sequence = db_next_sequence d,
       pj_principal = p, pj_note = m, pj_kind = PUpsert\<rparr> else proj_row d p m)" for p m
  proof -
    have "has_access (put_note ?new d) m p = has_access d m p"
      by (rule has_access_put_note) (use store_okD(2) [OF ok] old(1) nid in \<open>simp_all add: notes_ok_def\<close>)
    moreover have "proj_row e p m = proj_row ?d1 p m" by (simp add: proj_row_def e d3 core)
    moreover have "proj_row (put_note ?new d) p m = proj_row d p m" by (simp add: proj_row_def)
    ultimately show ?thesis by (auto simp: proj_row_record_note_change nid kind)
  qed
  moreover have "db_references e = db_references ?d2" "db_citations e = db_citations ?d2"
    "db_changes e = db_changes ?d1" "db_notes e = db_notes (put_note ?new d)"
    "db_revisions e = db_revisions d @ [history_row (actor_id act) KContentUpdated ?new]"
    "db_next_sequence e = db_next_sequence d + 1" "db_principals e = db_principals d"
    "db_identities e = db_identities d" "db_acl e = db_acl d" "db_attachments e = db_attachments d"
    "db_cursors e = db_cursors d"
    by (simp_all add: e d3 core)
  moreover have "nr_updated_at ?new = now" by (simp add: updated_row_def)
  ultimately show thesis
    using old by (intro that [of old]) (simp_all add: replaced_link_rows record_note_change_log nid kind put_note_def)
qed


lemmas mutation_eval = update_visible_note_def update_visible_note_with_kind_def commit_revision_def
  fetch_note_def fetch_details_def note_details_of_def primary_identity_row_def note_from_row_def
  corrupt_def identity_new_def validate_identity_def issuer_valid_def subject_valid_def
  sample_parser_def max_identity_issuer_bytes_def max_identity_subject_bytes_def byte_len_def
  utf8_width_def is_control_def principal_id_new_def opt_result_def review_from_columns_def
  revision_new_def note_restore_def note_inconsistent_def soft_delete_visible_note_def
  mark_owned_note_reviewed_def replace_note_acl_def sql_delete_acl_def sql_insert_acl_def
  principal_ref_eq_def restore_owned_deleted_note_def retention_cutoff_def
  soft_delete_retention_ms_def i64_saturating_sub_def

lemma sample_update:
  "\<exists>n e. update_visible_note sample_parser (sample_actor 1) sample_note_id 1 (sample_draft 1) no_links 2000
     sample_db = Inr (n, e)"
  by (simp add: mutation_eval sample_eval store_eval)


end
