(* ===== verification/NoteHistory.thy ===== *)
theory NoteHistory
  imports NoteStoreProps
begin

text \<open>
  The revision history, \<open>crates/marginalis-sqlite/src/note_history.rs\<close>: who may read it, how a stored
  revision becomes a snapshot, that every step extends the history, that a stored revision row
  reads back as the note it was copied from, and that no update is lost.
\<close>

section \<open>Reading the history\<close>

record history_details =
  hd_row :: revision_row
  hd_current :: note_row
  hd_creator_issuer :: rstr
  hd_creator_subject :: rstr
  hd_reviewer_issuer :: "rstr option"
  hd_reviewer_subject :: "rstr option"
  hd_changed_issuer :: rstr
  hd_changed_subject :: rstr

text \<open>
  The joins of the query: a revision whose owner or author has no primary identity has no result row.
\<close>

definition history_details_of :: "db \<Rightarrow> note_row \<Rightarrow> revision_row \<Rightarrow> history_details option" where
  "history_details_of d cur h =
     Option.bind (primary_identity_row d (nr_creator cur)) (\<lambda>own.
     Option.bind (primary_identity_row d (hr_changed_by h)) (\<lambda>author.
     let rv = Option.bind (hr_reviewer h) (primary_identity_row d) in
     Some \<lparr>hd_row = h, hd_current = cur, hd_creator_issuer = ir_issuer own,
           hd_creator_subject = ir_subject own, hd_reviewer_issuer = map_option ir_issuer rv,
           hd_reviewer_subject = map_option ir_subject rv, hd_changed_issuer = ir_issuer author,
           hd_changed_subject = ir_subject author\<rparr>))"

definition principal_from_columns ::
  "url_parser \<Rightarrow> int \<Rightarrow> rstr \<Rightarrow> rstr \<Rightarrow> store_error + principal_ref" where
  "principal_from_columns pu pid iss sub =
     rbind (corrupt (principal_id_new pid)) (\<lambda>p.
     rbind (corrupt (identity_new pu iss sub)) (\<lambda>i.
     Inr \<lparr>pref_id = p, primary_identity = i\<rparr>))"

text \<open>The match of \<open>revision_from_row\<close> on the review columns; the reviewer is checked inside it.\<close>

definition history_review ::
  "url_parser \<Rightarrow> bool \<Rightarrow> int option \<Rightarrow> int option \<Rightarrow> int option \<Rightarrow> rstr option \<Rightarrow> rstr option
   \<Rightarrow> store_error + review_tracking" where
  "history_review pu known rrev rat rid iss sub =
     (case (known, rrev, rat, rid, iss, sub) of
        (False, None, None, None, None, None) \<Rightarrow> Inr TUnknown
      | (True, None, None, None, None, None) \<Rightarrow> Inr review_pending
      | (True, Some r, Some t, Some p, Some i, Some s) \<Rightarrow>
          rbind (principal_from_columns pu p i s) (\<lambda>reviewer.
          Inr (Tracked (Some \<lparr>rv_revision = r, rv_reviewed_at = t, rv_reviewer = reviewer\<rparr>)))
      | _ \<Rightarrow> Inl CorruptData)"

definition revision_from_row :: "url_parser \<Rightarrow> history_details \<Rightarrow> store_error + revision_snapshot" where
  "revision_from_row pu x =
     (let h = hd_row x; cur = hd_current x in
      rbind (principal_from_columns pu (nr_creator cur) (hd_creator_issuer x) (hd_creator_subject x)) (\<lambda>own.
      rbind (corrupt (revision_new (hr_revision h))) (\<lambda>rvn.
      rbind (corrupt (opt_result revision_new (hr_reviewed_revision h))) (\<lambda>rrev.
      rbind (history_review pu (hr_tracking_known h) rrev (hr_reviewed_at h) (hr_reviewer h)
               (hd_reviewer_issuer x) (hd_reviewer_subject x)) (\<lambda>rvw.
      rbind (corrupt (note_restore (hr_note h) own
               \<lparr>d_source = hr_source h, d_title = hr_title h, d_tags = hr_tags h\<rparr>
               (nr_created_at cur) (hr_changed_at h) rvn (hr_deleted_at h) (nr_created_via cur) rvw)) (\<lambda>n.
      rbind (principal_from_columns pu (hr_changed_by h) (hd_changed_issuer x) (hd_changed_subject x)) (\<lambda>author.
      Inr \<lparr>rs_note = n, rs_changed_by = author, rs_kind = hr_kind h\<rparr>)))))))"

text \<open>An active note is open to everybody with access, a deleted one to its owner only.\<close>

definition history_readable :: "db \<Rightarrow> actor \<Rightarrow> note_row \<Rightarrow> bool" where
  "history_readable d act cur \<longleftrightarrow>
     (nr_deleted_at cur = None \<and> access_row d (nr_id cur) (actor_id act) \<noteq> None)
     \<or> (nr_deleted_at cur \<noteq> None \<and> nr_creator cur = actor_id act)"

record revision_view =
  rw_revision :: revision_snapshot
  rw_access :: note_access

definition note_revision ::
  "url_parser \<Rightarrow> actor \<Rightarrow> note_id \<Rightarrow> revision \<Rightarrow> db \<Rightarrow> store_error + revision_view option" where
  "note_revision pu act nid rvn d =
     (case find_note d nid of
        None \<Rightarrow> Inr None
      | Some cur \<Rightarrow>
          (case row_by (\<lambda>h. (hr_note h, hr_revision h)) (nid, rvn) (db_revisions d) of
             None \<Rightarrow> Inr None
           | Some h \<Rightarrow>
               if \<not> history_readable d act cur then Inr None
               else (case history_details_of d cur h of
                   None \<Rightarrow> Inr None
                 | Some x \<Rightarrow>
                     rbind (ok_or Database (if nr_deleted_at cur \<noteq> None then Some 3
                              else access_row d nid (actor_id act))) (\<lambda>level.
                     rbind (access_from_level level) (\<lambda>acc.
                     rbind (revision_from_row pu x) (\<lambda>s.
                     Inr (Some \<lparr>rw_revision = s, rw_access = acc\<rparr>)))))))"

definition list_note_revisions ::
  "url_parser \<Rightarrow> actor \<Rightarrow> note_id \<Rightarrow> db \<Rightarrow> store_error + revision_summary list option" where
  "list_note_revisions pu act nid d =
     (let rows = (case find_note d nid of
            None \<Rightarrow> []
          | Some cur \<Rightarrow>
              if \<not> history_readable d act cur then []
              else List.map_filter (\<lambda>h. map_option (Pair h) (primary_identity_row d (hr_changed_by h)))
                (sort_key (\<lambda>h. - hr_revision h) (select_where (\<lambda>h. hr_note h = nid) (db_revisions d)))) in
      if rows = [] then Inr None
      else rbind (traverse (\<lambda>(h, i).
          rbind (principal_from_columns pu (hr_changed_by h) (ir_issuer i) (ir_subject i)) (\<lambda>author.
          rbind (corrupt (revision_new (hr_revision h))) (\<lambda>rvn.
          Inr \<lparr>rsum_revision = rvn, rsum_changed_at = hr_changed_at h, rsum_changed_by = author,
               rsum_kind = hr_kind h\<rparr>))) rows) (\<lambda>xs. Inr (Some xs)))"

section \<open>Steps extend the history\<close>

text \<open>What every step of the store keeps: the history grows at its end, notes keep their identity.\<close>

definition extends :: "db \<Rightarrow> db \<Rightarrow> bool" where
  "extends d e \<longleftrightarrow> (\<exists>hs. db_revisions e = db_revisions d @ hs)
     \<and> (\<forall>p\<in>set (db_principals d). p \<in> set (db_principals e)
          \<and> primary_identity_row e p = primary_identity_row d p)
     \<and> (\<forall>n r. find_note d n = Some r \<longrightarrow> (\<exists>r'. find_note e n = Some r' \<and> nr_creator r' = nr_creator r
          \<and> nr_created_at r' = nr_created_at r \<and> nr_created_via r' = nr_created_via r
          \<and> nr_revision r \<le> nr_revision r'))"

lemma extends_refl [simp]: "extends d d"
  by (auto simp: extends_def)

lemma extends_trans: "extends a b \<Longrightarrow> extends b c \<Longrightarrow> extends a c"
  unfolding extends_def by (smt (verit) append.assoc order_trans)

definition keeps_origin :: "(note_row \<Rightarrow> note_row) \<Rightarrow> bool" where
  "keeps_origin f \<longleftrightarrow> (\<forall>r. nr_created_at (f r) = nr_created_at r \<and> nr_created_via (f r) = nr_created_via r)"

lemma keeps_origin_updates [simp]:
  "keeps_origin (content_update draft now)" "keeps_origin (deletion_update now)"
  "keeps_origin (restoration_update now)" "keeps_origin (acl_update now)" "keeps_origin (review_update act now)"
  by (simp_all add: keeps_origin_def row_updates)

lemma primary_identity_row_cong:
  "db_identities e = db_identities d \<Longrightarrow> primary_identity_row e = primary_identity_row d"
  by (intro ext) (simp add: primary_identity_row_def)

lemma guarded_update_extends:
  assumes "store_ok pu d" "revises f" "keeps_origin f" "guarded_update pu nid cb kind g f d n e"
  shows "extends d e"
  using assms(1,2,4)
proof (rule guarded_update_result)
  fix old
  assume o: "find_note d nid = Some old" "find_note e nid = Some (f old)"
    and m: "\<And>m. m \<noteq> nid \<Longrightarrow> find_note e m = find_note d m"
    and t: "db_revisions e = db_revisions d @ [history_row cb kind (f old)]"
      "db_principals e = db_principals d" "db_identities e = db_identities d"
  have "\<exists>r'. find_note e k = Some r' \<and> nr_creator r' = nr_creator r
          \<and> nr_created_at r' = nr_created_at r \<and> nr_created_via r' = nr_created_via r
          \<and> nr_revision r \<le> nr_revision r'" if "find_note d k = Some r" for k r
    using that o m assms(2,3) by (cases "k = nid") (auto simp: revises_def keeps_origin_def)
  with t primary_identity_row_cong [OF t(3)] show ?thesis by (simp add: extends_def)
qed

lemma replace_note_acl_extends:
  assumes ok: "store_ok pu d" and op: "replace_note_acl pu act nid entries expected now d = Inr (n, e)"
  shows "extends d e"
proof -
  note okd = store_okD [OF ok]
  from op obtain old d2 where old: "find_note d nid = Some old"
    and ins: "insert_acl_entries nid entries (sql_delete_acl nid (row_updated old (acl_update now old) d)) = Inr d2"
    and com: "committed pu nid (actor_id act) KAclUpdated d2 n e"
    by (rule replace_note_acl_Inr)
  let ?new = "acl_update now old" and ?d1 = "row_updated old (acl_update now old) d"
  note fr = insert_acl_entries_frame [OF ins]
  have id: "nr_id old = nid" using notes_okD [OF okd(2) old] by simp
  have core: "same_core d2 e" using com by (simp add: committed_def)
  have "find_note ?d1 m = (if m = nid then Some ?new else find_note d m)" for m
    using find_note_cong [of ?d1 "put_note ?new d"] find_note_put [of ?new d m] old id
    by (auto simp: acl_update_def)
  then have fe: "find_note e m = (if m = nid then Some ?new else find_note d m)" for m
    using find_note_same_core [OF core] find_note_cong [of d2 ?d1] fr(1) by simp
  have "\<exists>hs. db_revisions e = db_revisions d @ hs"
    using com fr by (auto simp: committed_def)
  moreover have "db_principals e = db_principals d" "primary_identity_row e = primary_identity_row d"
    using same_core_fields [OF core] fr primary_identity_row_cong [of e d] by simp_all
  ultimately show ?thesis
    using fe old by (auto simp: extends_def acl_update_def)
qed

lemma create_note_extends:
  assumes op: "create_note (new_note nid act draft now via) links d = Inr e"
  shows "extends d e"
proof -
  let ?r = "row_of_new_note (new_note nid act draft now via)"
  from op obtain d1 where ins: "sql_insert_note ?r d = Inr d1" and core: "same_core d1 e"
    and revs: "\<exists>r. find_note d1 nid = Some r \<and> db_revisions e = db_revisions d1 @ [history_row (actor_id act) KCreated r]"
    by (rule create_note_Inr) simp
  have new: "find_note d (nr_id ?r) = None"
    and d1: "d1 = record_note_change CNoteCreated ?r (d\<lparr>db_notes := db_notes d @ [?r]\<rparr>)"
    using ins by (auto simp: sql_insert_note_def split: if_splits)
  note ce = same_core_fields [OF core]
  have notes_e: "db_notes e = db_notes d @ [?r]" using ce(3) d1 by simp
  have "find_note e m = Some r" if "find_note d m = Some r" for m r
    using that unfolding find_note_def notes_e by (simp add: row_by_append_new)
  moreover have "primary_identity_row e = primary_identity_row d"
    by (rule primary_identity_row_cong) (use ce d1 in simp)
  moreover have "\<exists>hs. db_revisions e = db_revisions d @ hs" using revs d1 by auto
  ultimately show ?thesis using ce(1) d1 by (auto simp: extends_def)
qed

lemma register_extends:
  assumes ok: "store_ok pu d" and op: "resolve_or_create_verified pu i d = Inr (a, e)"
  shows "extends d e"
  using store_okD(1) [OF ok]
proof (cases rule: resolve_or_create_in_cases [of pu d i, case_names found new])
  case (found a iid)
  then show ?thesis using op by (simp add: resolve_or_create_verified_def)
next
  case (new pid iid e')
  have e: "e = e'" using op new by (simp add: resolve_or_create_verified_def)
  note f = insert_principal_facts [OF new(2)]
  have tabs: "db_notes e' = db_notes d" "db_revisions e' = db_revisions d" by (subst f(5), simp)+
  have "find_note e' = find_note d" by (rule find_note_cong) (rule tabs)
  moreover have "pid \<notin> set (db_principals d)" using f(1) next_rowid_notin by simp
  ultimately show ?thesis
    using e tabs f(2) primary_after_insert [OF new(2) store_okD(1) [OF ok]]
    by (auto simp: extends_def)
qed

lemma store_step_extends:
  assumes "store_step pu d e" "store_ok pu d"
  shows "extends d e"
  using assms
proof cases
  case step_register
  then show ?thesis using assms register_extends by blast
next
  case step_create
  then show ?thesis using create_note_extends by blast
next
  case step_update
  then show ?thesis unfolding update_visible_note_def
    using guarded_update_extends [OF assms(2) revises_updates(1) keeps_origin_updates(1) update_visible_note_with_kind_Inr] by blast
next
  case step_rewind
  then show ?thesis unfolding restore_visible_note_revision_def
    using guarded_update_extends [OF assms(2) revises_updates(1) keeps_origin_updates(1) update_visible_note_with_kind_Inr] by blast
next
  case step_delete
  then show ?thesis
    using guarded_update_extends [OF assms(2) revises_updates(2) keeps_origin_updates(2) soft_delete_visible_note_Inr] by blast
next
  case step_restore
  then show ?thesis
    using guarded_update_extends [OF assms(2) revises_updates(3) keeps_origin_updates(3) restore_owned_deleted_note_Inr] by blast
next
  case step_acl
  then show ?thesis using assms(2) replace_note_acl_extends by blast
next
  case step_review
  then show ?thesis
    using guarded_update_extends [OF assms(2) revises_updates(5) keeps_origin_updates(5) mark_owned_note_reviewed_Inr] by blast
qed

lemma store_steps_extend: "store_steps pu d e \<Longrightarrow> store_ok pu d \<Longrightarrow> extends d e"
proof (induction rule: rtranclp_induct)
  case (step e f)
  then show ?case using store_steps_ok store_step_extends extends_trans by blast
qed simp

section \<open>The history never changes\<close>

lemma update_stale:
  assumes "\<not> (\<exists>r. find_note d nid = Some r \<and> nr_revision r = expected)"
  shows "update_visible_note pu act nid expected draft links now d =
    Inl (if may_mutate act nid AEdit d then Conflict else NotFound)"
proof (cases "may_mutate act nid AEdit d")
  case True
  have "update_visible_note pu act nid expected draft links now d = Inl Conflict"
    unfolding update_visible_note_def update_visible_note_alt
    by (rule iffD2 [OF guarded_update_refused(2) [OF harmless_statements(2) harmless_statements(3)]])
      (use True assms in blast)
  with True show ?thesis by (simp only: if_True)
next
  case False
  have "update_visible_note pu act nid expected draft links now d = Inl NotFound"
    unfolding update_visible_note_def update_visible_note_alt
    by (rule iffD2 [OF guarded_update_refused(1) [OF harmless_statements(2) harmless_statements(3)]])
      (rule False)
  with False show ?thesis by (simp only: if_False)
qed

text \<open>
  C2: once a content update has been committed, a later submission against the revision it replaced
  is refused, by whomever and however many other transactions come in between: no update is lost.
\<close>

theorem no_lost_update:
  assumes "store_ok pu d"
    and "update_visible_note pu act nid expected draft links now d = Inr (n, e)"
    and "store_steps pu e e'"
  shows "update_visible_note pu act' nid expected draft' links' now' e' =
    Inl (if may_mutate act' nid AEdit e' then Conflict else NotFound)"
proof -
  have g: "guarded_update pu nid (actor_id act) KContentUpdated (active_guard act nid expected 2 d)
      (content_update draft now) d n e"
    using assms(2) unfolding update_visible_note_def by (rule update_visible_note_with_kind_Inr)
  from guarded_update_result [OF assms(1) revises_updates(1) g] obtain old where
    "active_guard act nid expected 2 d old" "find_note e nid = Some (content_update draft now old)"
    by metis
  then obtain r where r: "find_note e nid = Some r" "nr_revision r = expected + 1"
    by (auto simp: active_guard_def content_update_def)
  have "store_ok pu e" using guarded_update_ok [OF assms(1) revises_updates(1) g] by simp
  with assms(3) r obtain r' where r': "find_note e' nid = Some r'" "expected < nr_revision r'"
    using store_steps_extend unfolding extends_def by (metis zle_add1_eq_le add.commute order_less_le_trans less_add_one)
  then have refuse: "\<not> (\<exists>r. find_note e' nid = Some r \<and> nr_revision r = expected)" by auto
  then show ?thesis by (rule update_stale)
qed

lemma no_lost_update_witness:
  "\<exists>n e. update_visible_note sample_parser (sample_actor 1) sample_note_id 1 (sample_draft 1) no_links 2000
       sample_db = Inr (n, e)
     \<and> update_visible_note sample_parser (sample_actor 1) sample_note_id 1 (sample_draft 2) no_links 3000 e
       \<noteq> update_visible_note sample_parser (sample_actor 1) sample_note_id 1 (sample_draft 2) no_links 3000 sample_db"
proof -
  obtain n e where u: "update_visible_note sample_parser (sample_actor 1) sample_note_id 1 (sample_draft 1)
      no_links 2000 sample_db = Inr (n, e)"
    using sample_update by blast
  have "\<exists>n e. update_visible_note sample_parser (sample_actor 1) sample_note_id 1 (sample_draft 2) no_links 3000
      sample_db = Inr (n, e)"
    by (simp add: mutation_eval sample_eval store_eval)
  moreover have "update_visible_note sample_parser (sample_actor 1) sample_note_id 1 (sample_draft 2) no_links 3000 e
      = Inl (if may_mutate (sample_actor 1) sample_note_id AEdit e then Conflict else NotFound)"
    by (rule no_lost_update [OF sample_ok u]) simp
  ultimately show ?thesis using u by fastforce
qed

lemma access_row_level:
  assumes "access_row d n p = Some l"
  shows "\<exists>a. access_from_level l = Inr a"
proof -
  from assms have "\<exists>n p. (n, p, l) \<in> set (note_access d)"
    by (auto simp: access_row_def find_Some_iff) (metis nth_mem)
  then have "l = 3 \<or> (\<exists>p. l = permission_level p)"
    by (auto simp: note_access_def)
  then have "l = 1 \<or> l = 2 \<or> l = 3" by (metis note_permission.exhaust permission_level.simps)
  then show ?thesis by (auto simp: access_from_level_def)
qed

text \<open>A history row copied from a readable note row becomes a snapshot of that note.\<close>

lemma revision_from_row_of_note:
  assumes n: "note_from_row pu nd = Inr n"
    and h: "hd_row x = history_row cb kind (nd_row nd)"
    and cur: "nr_creator (hd_current x) = nr_creator (nd_row nd)"
      "nr_created_at (hd_current x) = nr_created_at (nd_row nd)"
      "nr_created_via (hd_current x) = nr_created_via (nd_row nd)"
    and cols: "hd_creator_issuer x = nd_creator_issuer nd" "hd_creator_subject x = nd_creator_subject nd"
      "hd_reviewer_issuer x = nd_reviewer_issuer nd" "hd_reviewer_subject x = nd_reviewer_subject nd"
    and by_ok: "principal_from_columns pu cb (hd_changed_issuer x) (hd_changed_subject x) = Inr p"
  shows "revision_from_row pu x = Inr \<lparr>rs_note = n, rs_changed_by = p, rs_kind = kind\<rparr>"
proof -
  let ?r = "nd_row nd"
  from n obtain ident rrev rid rvw where own: "identity_new pu (nd_creator_issuer nd) (nd_creator_subject nd) = Inr ident"
      "principal_id_new (nr_creator ?r) = Inr (nr_creator ?r)"
    and rv: "opt_result revision_new (nr_reviewed_revision ?r) = Inr rrev"
      "opt_result principal_id_new (nr_reviewer ?r) = Inr rid"
      "review_from_columns pu (nr_tracking_known ?r) rrev (nr_reviewed_at ?r)
         (nd_reviewer_issuer nd) (nd_reviewer_subject nd) rid = Inr rvw"
      "revision_new (nr_revision ?r) = Inr (nr_revision ?r)"
    and res: "note_restore (nr_id ?r) \<lparr>pref_id = nr_creator ?r, primary_identity = ident\<rparr>
        \<lparr>d_source = nr_source ?r, d_title = nr_title ?r, d_tags = nr_tags ?r\<rparr>
        (nr_created_at ?r) (nr_updated_at ?r) (nr_revision ?r) (nr_deleted_at ?r) (nr_created_via ?r) rvw = Inr n"
    by (auto simp: note_from_row_def Let_def rbind_Inr_iff corrupt_def map_err_Inr_iff
        principal_id_new_Inr_iff revision_new_def split: if_splits)
  have rid: "rid = nr_reviewer ?r" "\<And>q. nr_reviewer ?r = Some q \<Longrightarrow> principal_id_new q = Inr q"
    using rv(2) by (auto simp: opt_result_def rbind_Inr_iff principal_id_new_Inr_iff split: option.splits)
  have "history_review pu (nr_tracking_known ?r) rrev (nr_reviewed_at ?r) (nr_reviewer ?r)
      (nd_reviewer_issuer nd) (nd_reviewer_subject nd) = Inr rvw"
    using rv(3) rid
    by (auto simp: review_from_columns_def history_review_def principal_from_columns_def rbind_Inr_iff
        corrupt_def map_err_Inr_iff split: bool.splits option.splits)
  moreover have "principal_from_columns pu (nr_creator ?r) (nd_creator_issuer nd) (nd_creator_subject nd)
      = Inr \<lparr>pref_id = nr_creator ?r, primary_identity = ident\<rparr>"
    using own by (simp add: principal_from_columns_def corrupt_def)
  ultimately show ?thesis
    using h cur cols by_ok rv(1,4) res
    by (simp add: revision_from_row_def Let_def history_row_def corrupt_def)
qed

lemma history_row_found:
  assumes ok: "history_ok d" and r: "r \<in> set (db_notes d)" and h: "h \<in> set (db_revisions d)" "hr_note h = nr_id r"
  shows "row_by (\<lambda>h. (hr_note h, hr_revision h)) (nr_id r, hr_revision h) (db_revisions d) = Some h"
proof -
  have "distinct (map hr_revision (note_history d (nr_id r)))"
    using ok r by (simp add: history_ok_def distinct_map inj_on_def)
  moreover have split: "row_by (\<lambda>h. (hr_note h, hr_revision h)) (n, v) t = row_by hr_revision v (filter (\<lambda>h. hr_note h = n) t)"
    for n v t by (induction t) (auto simp: row_by_def)
  ultimately show ?thesis
    using row_by_unique [of hr_revision "note_history d (nr_id r)" h] h
    unfolding split note_history_def by simp
qed

lemma note_details_of_Some:
  "note_details_of d r = Some nd \<Longrightarrow> \<exists>y. primary_identity_row d (nr_creator r) = Some y
     \<and> nd_creator_issuer nd = ir_issuer y \<and> nd_creator_subject nd = ir_subject y
     \<and> nd_reviewer_issuer nd = map_option ir_issuer (Option.bind (nr_reviewer r) (primary_identity_row d))
     \<and> nd_reviewer_subject nd = map_option ir_subject (Option.bind (nr_reviewer r) (primary_identity_row d))"
  by (auto simp: note_details_of_def Let_def bind_eq_Some_conv)

end
