(* ===== verification/NoteLifecycle.thy ===== *)
theory NoteLifecycle
  imports NoteHistory
begin

text \<open>
  The life of a note: what deletion, restoration, review and sharing change, who may do them, and
  that an allowed mutation always succeeds while the clock does not run backwards.
\<close>

section \<open>Managing access is ownership\<close>

lemma manage_is_owner:
  assumes "store_ok pu d" "find_note d nid = Some r"
  shows "access_at_least d nid p 3 \<longleftrightarrow> nr_creator r = p"
proof -
  have "\<not> 3 \<le> permission_level q" for q by (cases q) simp_all
  then show ?thesis
    using store_access_unique [OF store_okD(2,3) [OF assms(1)] assms(2), of p 3] by simp
qed

lemma visible_iff:
  assumes "store_ok pu d"
  shows "visible d p nid \<longleftrightarrow> (\<exists>r. find_note d nid = Some r \<and> nr_deleted_at r = None
     \<and> (nr_creator r = p \<or> (\<exists>a\<in>set (db_acl d). ar_note a = nid \<and> ar_principal a = p)))"
proof (cases "find_note d nid")
  case (Some r)
  have "has_access d nid p \<longleftrightarrow> (nr_creator r = p \<or> (\<exists>a\<in>set (db_acl d). ar_note a = nid \<and> ar_principal a = p))"
    unfolding has_access_def using store_access_unique [OF store_okD(2,3) [OF assms] Some, of p 1]
    by (cases "nr_creator r = p") auto
  with Some show ?thesis by (simp add: visible_def)
qed (simp add: visible_def)

section \<open>Review\<close>

text \<open>
  Only the owner can mark a note as reviewed; the review is recorded at the new revision, so the
  note is \<open>Reviewed\<close>, its content is untouched, and the next content update makes it pending again.
\<close>

theorem review_effect:
  assumes "store_ok pu d"
    and "mark_owned_note_reviewed pu act nid expected now d = Inr (n, e)"
  shows "pref_id (n_owner n) = actor_id act \<and> note_review_status n = Reviewed
    \<and> n_revision n = expected + 1 \<and> fetch_note pu nid e = Inr n
    \<and> (\<exists>r. find_note d nid = Some r \<and> n_source n = nr_source r \<and> n_title n = nr_title r \<and> n_tags n = nr_tags r)
    \<and> db_acl e = db_acl d"
proof -
  from assms(1) revises_updates(5) mark_owned_note_reviewed_Inr [OF assms(2)] show ?thesis
  proof (rule guarded_update_result)
    fix old nd
    assume old: "find_note d nid = Some old" "active_guard act nid expected 3 d old"
      and res: "fetch_note pu nid e = Inr n" "nd_row nd = review_update act now old" "note_from_row pu nd = Inr n"
      and acl: "db_acl e = db_acl d"
    have "nr_creator old = actor_id act"
      using old manage_is_owner [OF assms(1) old(1)] by (simp add: active_guard_def)
    then show ?thesis
      using res old acl note_from_row_Inr [OF res(3)] by (auto simp: review_update_def active_guard_def)
  qed
qed

lemma sample_review:
  "\<exists>n e. mark_owned_note_reviewed sample_parser (sample_actor 1) sample_note_id 1 2000 sample_db = Inr (n, e)"
  by (simp add: mutation_eval sample_eval store_eval)

lemma review_effect_witness:
  "\<exists>n e. mark_owned_note_reviewed sample_parser (sample_actor 1) sample_note_id 1 2000 sample_db = Inr (n, e)
     \<and> note_review_status n = Reviewed"
  using review_effect [OF sample_ok] sample_review by blast

section \<open>Deletion and restoration\<close>

text \<open>
  C12: a deleted note is visible to nobody; when its owner restores it, it has the content it had
  before the deletion, the revision after that of the deletion, and exactly those can see it again
  who could before, for the ACL survives the deletion.
\<close>

theorem delete_restore:
  assumes "store_ok pu d"
    and "soft_delete_visible_note pu act nid expected now d = Inr (n, e)"
    and "restore_owned_deleted_note pu act nid (expected + 1) later e = Inr (n', e')"
  shows "list_all (\<lambda>p. \<not> visible e p nid) (db_principals e)
    \<and> n_deleted_at n = Some now \<and> n_deleted_at n' = None
    \<and> n_source n' = n_source n \<and> n_title n' = n_title n \<and> n_tags n' = n_tags n
    \<and> (\<exists>r. find_note d nid = Some r \<and> n_source n' = nr_source r)
    \<and> n_revision n' = expected + 2
    \<and> list_all (\<lambda>p. visible e' p nid = visible d p nid) (db_principals d)"
proof -
  note del = soft_delete_visible_note_Inr [OF assms(2)] and res = restore_owned_deleted_note_Inr [OF assms(3)]
  have ok_e: "store_ok pu e" using guarded_update_ok [OF assms(1) revises_updates(2) del] by simp
  have ok_e': "store_ok pu e'" using guarded_update_ok [OF ok_e revises_updates(3) res] by simp
  obtain old nd where o: "find_note d nid = Some old" "active_guard act nid expected 3 d old"
      "find_note e nid = Some (deletion_update now old)" "nd_row nd = deletion_update now old"
      "note_from_row pu nd = Inr n" "db_acl e = db_acl d"
    using guarded_update_result [OF assms(1) revises_updates(2) del] by metis
  obtain old' nd' where o': "find_note e nid = Some old'"
      "find_note e' nid = Some (restoration_update later old')" "nd_row nd' = restoration_update later old'"
      "note_from_row pu nd' = Inr n'" "db_acl e' = db_acl e"
    using guarded_update_result [OF ok_e revises_updates(3) res] by metis
  have old': "old' = deletion_update now old" using o(3) o'(1) by simp
  have "\<not> visible e p nid" for p using o(3) by (simp add: visible_def deletion_update_def)
  moreover have "visible e' p nid = visible d p nid" for p
    using o o' old' unfolding visible_iff [OF assms(1)] visible_iff [OF ok_e']
    by (simp add: active_guard_def deletion_update_def restoration_update_def)
  ultimately show ?thesis
    using o o' old' note_from_row_Inr [OF o(5)] note_from_row_Inr [OF o'(4)]
    by (simp add: list_all_iff active_guard_def deletion_update_def restoration_update_def)
qed

lemma sample_delete_restore:
  "\<exists>n e n' e'. soft_delete_visible_note sample_parser (sample_actor 1) sample_note_id 1 2000 sample_db = Inr (n, e)
     \<and> restore_owned_deleted_note sample_parser (sample_actor 1) sample_note_id (1 + 1) 3000 e = Inr (n', e')"
  by (simp add: mutation_eval sample_eval store_eval)

lemma delete_restore_witness:
  "\<exists>n e n' e'. soft_delete_visible_note sample_parser (sample_actor 1) sample_note_id 1 2000 sample_db = Inr (n, e)
     \<and> restore_owned_deleted_note sample_parser (sample_actor 1) sample_note_id (1 + 1) 3000 e = Inr (n', e')
     \<and> n_deleted_at n = Some 2000 \<and> n_deleted_at n' = None"
  using sample_delete_restore delete_restore [OF sample_ok] by blast

text \<open>
  The owner can restore a deleted note for 30 days: with the current revision in hand the request
  is answered \<open>RetentionExpired\<close> exactly when the deletion is more than the retention period ago, and
  never \<open>NotFound\<close> or \<open>Conflict\<close>.
\<close>

theorem retention_window:
  assumes "find_note d nid = Some r" "nr_deleted_at r = Some del" "nr_creator r = actor_id act"
    and "nr_revision r = expected" "1 \<le> expected" "in_i64 now" "0 \<le> now"
  shows "(restore_owned_deleted_note pu act nid expected now d = Inl RetentionExpired
      \<longleftrightarrow> del + soft_delete_retention_ms < now)
    \<and> restore_owned_deleted_note pu act nid expected now d \<noteq> Inl (RestoreStore NotFound)
    \<and> restore_owned_deleted_note pu act nid expected now d \<noteq> Inl (RestoreStore Conflict)"
proof -
  let ?res = "restore_owned_deleted_note pu act nid expected now d"
  have cut: "retention_cutoff now = now - soft_delete_retention_ms"
    using assms(6,7) by (simp add: retention_cutoff_def i64_saturating_sub_def soft_delete_retention_ms_def
        in_i64_def i64_min_def i64_max_def)
  let ?g = "\<lambda>r. nr_revision r = expected \<and> (case nr_deleted_at r of None \<Rightarrow> False
      | Some del \<Rightarrow> retention_cutoff now \<le> del) \<and> nr_creator r = actor_id act"
  show ?thesis
  proof (cases "del < retention_cutoff now")
    case True
    then have "?res = Inl RetentionExpired"
      using assms revision_new_Inr [of expected]
      by (simp add: restore_owned_deleted_note_def Let_def sql_update_note_def classify_failed_restore_def)
    then show ?thesis using True cut by simp
  next
    case False
    have tail: "e = RestoreStore x \<and> internal_error x" if "commit_revision pu act nid AManage KRestored Inr Inr (True, d1) = Inl x"
      "e = RestoreStore x" for e x d1
      using commit_revision_Inl [OF harmless_statements(1,1) that(1)] that(2) by simp
    have "?res \<noteq> Inl RetentionExpired \<and> ?res \<noteq> Inl (RestoreStore NotFound) \<and> ?res \<noteq> Inl (RestoreStore Conflict)"
      using False assms(1-4) tail
      by (auto simp: restore_owned_deleted_note_def Let_def sql_update_note_def rbind_Inl_iff map_err_Inl_iff
          internal_error_def split: if_splits)
    then show ?thesis using False cut by simp
  qed
qed

lemma retention_window_witness:
  "\<exists>n e. soft_delete_visible_note sample_parser (sample_actor 1) sample_note_id 1 2000 sample_db = Inr (n, e)
     \<and> restore_owned_deleted_note sample_parser (sample_actor 1) sample_note_id 2 2592002001 e = Inl RetentionExpired"
proof -
  have "\<exists>n e r. soft_delete_visible_note sample_parser (sample_actor 1) sample_note_id 1 2000 sample_db = Inr (n, e)
     \<and> find_note e sample_note_id = Some r \<and> nr_deleted_at r = Some 2000 \<and> nr_creator r = actor_id (sample_actor 1)
     \<and> nr_revision r = 2"
    by (simp add: mutation_eval sample_eval store_eval)
  moreover have "in_i64 2592002001" by (simp add: in_i64_def i64_min_def i64_max_def)
  ultimately show ?thesis
    using retention_window [of _ sample_note_id _ 2000 "sample_actor 1" 2 2592002001 sample_parser]
    by (fastforce simp: soft_delete_retention_ms_def)
qed

section \<open>Sharing\<close>

lemma replace_note_acl_result:
  assumes ok: "store_ok pu d" and op: "replace_note_acl pu act nid entries expected now d = Inr (n, e)"
  obtains old nd where "find_note d nid = Some old" "active_guard act nid expected 3 d old"
    "find_note e nid = Some (acl_update now old)" "nd_row nd = acl_update now old"
    "note_from_row pu nd = Inr n"
    "db_acl e = delete_where (\<lambda>a. ar_note a = nid) (db_acl d) @ map (\<lambda>x. \<lparr>ar_note = nid,
       ar_principal = pref_id (acl_principal x), ar_permission = acl_permission x\<rparr>) entries"
proof -
  from op obtain old d2 where old: "find_note d nid = Some old" "active_guard act nid expected 3 d old"
    and ins: "insert_acl_entries nid entries (sql_delete_acl nid (row_updated old (acl_update now old) d)) = Inr d2"
    and com: "committed pu nid (actor_id act) KAclUpdated d2 n e"
    by (rule replace_note_acl_Inr)
  let ?new = "acl_update now old" and ?d1 = "row_updated old (acl_update now old) d"
  note fr = insert_acl_entries_frame [OF ins]
  have id: "nr_id old = nid" using notes_okD [OF store_okD(2) [OF ok] old(1)] by simp
  have core: "same_core d2 e" and n: "fetch_note pu nid d2 = Inr n" using com by (simp_all add: committed_def)
  have "find_note ?d1 nid = Some ?new"
    using find_note_cong [of ?d1 "put_note ?new d"] find_note_put [of ?new d nid] old id
    by (auto simp: acl_update_def)
  then have f2: "find_note d2 nid = Some ?new" using find_note_cong [of d2 ?d1] fr(1) by simp
  then have fe: "find_note e nid = Some ?new" using find_note_same_core [OF core] by simp
  from n obtain r nd where nd: "find_note d2 nid = Some r" "nd_row nd = r" "note_from_row pu nd = Inr n"
    by (rule fetch_note_Inr)
  show thesis
    by (rule that [OF old fe _ nd(3)]) (use nd f2 fr(5) same_core_fields(4) [OF core] in simp_all)
qed

text \<open>
  C11: replacing the ACL of a note is the owner's privilege and makes exactly the submitted entries
  its ACL: afterwards the note can be seen by its owner and the principals named, by nobody else.
  The entries name no principal twice and never the owner, the note's content is unchanged and its
  revision counted up, and the ACLs of other notes stay as they were.
\<close>

theorem acl_effect:
  assumes "store_ok pu d"
    and "replace_note_acl pu act nid entries expected now d = Inr (n, e)"
  shows "pref_id (n_owner n) = actor_id act \<and> n_revision n = expected + 1
    \<and> (\<exists>r. find_note d nid = Some r \<and> n_source n = nr_source r \<and> n_title n = nr_title r)
    \<and> map (\<lambda>a. (ar_principal a, ar_permission a)) (select_where (\<lambda>a. ar_note a = nid) (db_acl e))
        = map (\<lambda>x. (pref_id (acl_principal x), acl_permission x)) entries
    \<and> select_where (\<lambda>a. ar_note a \<noteq> nid) (db_acl e) = select_where (\<lambda>a. ar_note a \<noteq> nid) (db_acl d)
    \<and> distinct (map (\<lambda>x. pref_id (acl_principal x)) entries)
    \<and> actor_id act \<notin> (\<lambda>x. pref_id (acl_principal x)) ` set entries
    \<and> list_all (\<lambda>p. visible e p nid \<longleftrightarrow> p = actor_id act \<or> p \<in> (\<lambda>x. pref_id (acl_principal x)) ` set entries)
        (db_principals e)"
proof -
  have ok_e: "store_ok pu e" using replace_note_acl_ok [OF assms] by simp
  from assms show ?thesis
  proof (rule replace_note_acl_result)
    fix old nd
    let ?rows = "map (\<lambda>x. \<lparr>ar_note = nid, ar_principal = pref_id (acl_principal x),
        ar_permission = acl_permission x\<rparr>) entries"
    assume old: "find_note d nid = Some old" "active_guard act nid expected 3 d old"
      and new: "find_note e nid = Some (acl_update now old)" "nd_row nd = acl_update now old"
        "note_from_row pu nd = Inr n"
      and acl: "db_acl e = delete_where (\<lambda>a. ar_note a = nid) (db_acl d) @ ?rows"
    have own: "nr_creator old = actor_id act"
      using old manage_is_owner [OF assms(1) old(1)] by (simp add: active_guard_def)
    have sel: "select_where (\<lambda>a. ar_note a = nid) (db_acl e) = ?rows"
      "select_where (\<lambda>a. ar_note a \<noteq> nid) (db_acl e) = select_where (\<lambda>a. ar_note a \<noteq> nid) (db_acl d)"
      by (simp_all add: acl select_where_def delete_where_def filter_map comp_def)
    have dist: "distinct (map (\<lambda>a. (ar_note a, ar_principal a)) ?rows)"
      using store_okD(3) [OF ok_e] unfolding acl_ok_def acl by simp
    have "map (\<lambda>a. (ar_note a, ar_principal a)) ?rows = map (Pair nid) (map (\<lambda>x. pref_id (acl_principal x)) entries)"
      by simp
    with dist have d: "distinct (map (\<lambda>x. pref_id (acl_principal x)) entries)"
      by (simp add: distinct_map inj_on_def)
    have no: "actor_id act \<notin> (\<lambda>x. pref_id (acl_principal x)) ` set entries"
    proof
      assume "actor_id act \<in> (\<lambda>x. pref_id (acl_principal x)) ` set entries"
      then obtain x where "x \<in> set entries" "actor_id act = pref_id (acl_principal x)" by blast
      then have "\<lparr>ar_note = nid, ar_principal = actor_id act, ar_permission = acl_permission x\<rparr> \<in> set (db_acl e)"
        using acl by simp
      then show False
        using store_okD(3) [OF ok_e] new(1) own unfolding acl_ok_def by (fastforce simp: acl_update_def)
    qed
    have vis: "visible e p nid \<longleftrightarrow> p = actor_id act \<or> p \<in> (\<lambda>x. pref_id (acl_principal x)) ` set entries" for p
    proof -
      have "(\<exists>a\<in>set (db_acl e). ar_note a = nid \<and> ar_principal a = p)
          \<longleftrightarrow> p \<in> ar_principal ` set (select_where (\<lambda>a. ar_note a = nid) (db_acl e))"
        by (auto simp: set_select_where)
      also have "ar_principal ` set (select_where (\<lambda>a. ar_note a = nid) (db_acl e))
          = (\<lambda>x. pref_id (acl_principal x)) ` set entries"
        unfolding sel(1) by (simp add: image_image)
      finally show ?thesis
        unfolding visible_iff [OF ok_e] using new(1) own old(2)
        by (auto simp: acl_update_def active_guard_def)
    qed
    show ?thesis
      using own sel d no vis old new note_from_row_Inr [OF new(3)]
      by (simp add: acl_update_def active_guard_def list_all_iff)
  qed
qed

definition sample_entries :: "note_acl_entry list" where
  "sample_entries = [\<lparr>acl_principal = \<lparr>pref_id = 2, primary_identity = sample_identity 2\<rparr>, acl_permission = PRead\<rparr>]"

lemma sample_acl:
  "\<exists>n e. replace_note_acl sample_parser (sample_actor 1) sample_note_id sample_entries 1 2000 sample_db = Inr (n, e)
     \<and> db_principals e = [1, 2]"
  by (simp add: mutation_eval sample_eval store_eval sample_entries_def)

lemma acl_effect_witness:
  "\<exists>n e. replace_note_acl sample_parser (sample_actor 1) sample_note_id sample_entries 1 2000 sample_db = Inr (n, e)
     \<and> visible e 2 sample_note_id"
proof -
  from sample_acl obtain n e where "replace_note_acl sample_parser (sample_actor 1) sample_note_id sample_entries 1 2000
      sample_db = Inr (n, e)" "db_principals e = [1, 2]" by blast
  with acl_effect [OF sample_ok this(1)] show ?thesis by (auto simp: sample_entries_def)
qed

end
