(* ===== verification/NoteProgress.thy ===== *)
theory NoteProgress
  imports NoteLifecycle
begin

text \<open>
  No spurious failures: a content update or a deletion that its guard allows always commits while the
  clock does not run backwards, the revision counter has room, and the attachments that the new source
  shows belong to the note.
\<close>

lemma note_from_row_advances:
  assumes n: "note_from_row pu nd = Inr n" and chk: "note_row_check (nd_row nd)"
    and row: "nr_creator r' = nr_creator (nd_row nd)" "nr_created_at r' = nr_created_at (nd_row nd)"
      "nr_reviewed_revision r' = nr_reviewed_revision (nd_row nd)"
      "nr_reviewed_at r' = nr_reviewed_at (nd_row nd)" "nr_reviewer r' = nr_reviewer (nd_row nd)"
      "nr_tracking_known r'" "nr_revision r' = nr_revision (nd_row nd) + 1"
      "nr_updated_at (nd_row nd) \<le> nr_updated_at r'"
      "nr_deleted_at r' = None \<or> nr_deleted_at r' = Some (nr_updated_at r')"
  shows "\<exists>n'. note_from_row pu (nd\<lparr>nd_row := r'\<rparr>) = Inr n'"
proof -
  let ?r = "nd_row nd"
  from n obtain ident rrev rid rvw where own: "identity_new pu (nd_creator_issuer nd) (nd_creator_subject nd) = Inr ident"
      "principal_id_new (nr_creator ?r) = Inr (nr_creator ?r)"
    and rv: "opt_result revision_new (nr_reviewed_revision ?r) = Inr rrev"
      "opt_result principal_id_new (nr_reviewer ?r) = Inr rid"
      "review_from_columns pu (nr_tracking_known ?r) rrev (nr_reviewed_at ?r)
         (nd_reviewer_issuer nd) (nd_reviewer_subject nd) rid = Inr rvw"
      "revision_new (nr_revision ?r) = Inr (nr_revision ?r)"
    and res: "note_restore (nr_id ?r) \<lparr>pref_id = nr_creator ?r, primary_identity = ident\<rparr>
        \<lparr>d_source = nr_source ?r, d_title = nr_title ?r, d_tags = nr_tags ?r\<rparr>
        (nr_created_at ?r) (nr_updated_at ?r) (nr_revision ?r) (nr_deleted_at ?r) (nr_created_via ?r) rvw = Inr n"
    by (auto simp: note_from_row_def Let_def rbind_Inr_iff corrupt_def map_err_Inr_iff
        principal_id_new_Inr_iff revision_new_def split: if_splits)
  obtain rvw' where rvw': "review_from_columns pu True rrev (nr_reviewed_at ?r)
         (nd_reviewer_issuer nd) (nd_reviewer_subject nd) rid = Inr rvw'" "last_review_of rvw' = last_review_of rvw"
    using rv(3) chk rv(1)
    by (cases "nr_tracking_known ?r")
      (auto simp: review_from_columns_def review_pending_def split: option.splits)
  have cons: "\<not> note_inconsistent \<lparr>pref_id = nr_creator ?r, primary_identity = ident\<rparr> (nr_created_at ?r)
      (nr_updated_at ?r) (nr_revision ?r) (nr_deleted_at ?r) rvw"
    using res by (auto simp: note_restore_def split: if_splits)
  then have "\<not> note_inconsistent \<lparr>pref_id = nr_creator ?r, primary_identity = ident\<rparr> (nr_created_at ?r)
      (nr_updated_at r') (nr_revision ?r + 1) (nr_deleted_at r') rvw'"
    using row(8,9) rvw'(2) by (auto simp: note_inconsistent_def split: option.splits)
  then show ?thesis
    using own rv rvw'(1) row revision_new_Inr [of "nr_revision ?r + 1"] chk
    by (simp add: note_from_row_def Let_def corrupt_def note_restore_def note_row_check_def)
qed

text \<open>The attachments of a revision can be recorded when they belong to the note.\<close>

lemma insert_revision_attachments_succeeds:
  assumes "distinct as" "\<forall>a\<in>set as. \<exists>x\<in>set (db_attachments d). at_note x = nid \<and> at_id x = a"
    and "\<forall>a\<in>set as. (nid, v, a) \<notin> set (db_revision_attachments d)"
  shows "\<exists>e. insert_revision_attachments nid v as d = Inr e"
  using assms
proof (induction as arbitrary: d)
  case (Cons a as)
  then have "\<exists>e. insert_revision_attachments nid v as
      (d\<lparr>db_revision_attachments := db_revision_attachments d @ [(nid, v, a)]\<rparr>) = Inr e"
    by (intro Cons.IH) auto
  with Cons.prems show ?case by (auto simp: exists_where_def)
qed simp

lemma replace_note_revision_attachments_succeeds:
  assumes "find_note d nid = Some r" "distinct as"
    and "\<forall>a\<in>set as. \<exists>x\<in>set (db_attachments d). at_note x = nid \<and> at_id x = a"
  shows "\<exists>e. replace_note_revision_attachments nid as d = Inr e"
  unfolding replace_note_revision_attachments_def assms(1) option.case
  by (rule insert_revision_attachments_succeeds) (use assms in \<open>auto simp: set_delete_where\<close>)

text \<open>A guarded update commits once its row is acceptable.\<close>

lemma guarded_progress:
  fixes d :: db and f :: "note_row \<Rightarrow> note_row"
  assumes ok: "store_ok pu d" and old: "find_note d nid = Some old" "g old"
    and rev: "revises f" and chk: "note_row_check (f old)"
    and adv: "nr_created_at (f old) = nr_created_at old"
      "nr_reviewed_revision (f old) = nr_reviewed_revision old" "nr_reviewed_at (f old) = nr_reviewed_at old"
      "nr_reviewer (f old) = nr_reviewer old" "nr_tracking_known (f old)"
      "nr_updated_at old \<le> nr_updated_at (f old)"
      "nr_deleted_at (f old) = None \<or> nr_deleted_at (f old) = Some (nr_updated_at (f old))"
    and cb: "actor_id act \<in> set (db_principals d)"
    and before: "\<And>x. \<exists>y. before x = Inr y \<and> same_core x y \<and> db_revisions y = db_revisions x"
    and after: "\<And>x r. find_note x nid = Some r \<Longrightarrow> db_attachments x = db_attachments d \<Longrightarrow> \<exists>y. after x = Inr y"
  shows "\<exists>n e. rbind (sql_update_note nid g f d) (commit_revision pu act nid required kind before after) = Inr (n, e)"
proof -
  note okd = store_okD [OF ok]
  let ?d1 = "row_updated old (f old) d"
  have id: "nr_id old = nid" and mem: "old \<in> set (db_notes d)" and ochk: "note_row_check old" "1 \<le> nr_revision old"
    using notes_okD [OF okd(2) old(1)] by simp_all
  have f1: "find_note ?d1 nid = Some (f old)"
    using find_note_cong [of ?d1 "put_note (f old) d"] find_note_put [of "f old" d nid] old rev id
    by (auto simp: revises_def)
  obtain n0 where "fetch_note pu nid d = Inr n0" using notes_okD(4) [OF okd(2) old(1)] by blast
  then obtain nd where nd: "fetch_details d nid = Some nd" "note_from_row pu nd = Inr n0"
    by (auto simp: fetch_note_def rbind_Inr_iff ok_or_Inr_iff)
  have ndr: "nd_row nd = old" "note_details_of d old = Some nd"
    using nd(1) old(1) by (auto simp: fetch_details_def note_details_of_def Let_def bind_eq_Some_conv)
  have "primary_identity_row ?d1 = primary_identity_row d" by (rule primary_identity_row_cong) simp
  then have "note_details_of ?d1 (f old) = Some (nd\<lparr>nd_row := f old\<rparr>)"
    using ndr(2) adv(4) rev by (auto simp: note_details_of_def Let_def bind_eq_Some_conv revises_def)
  then have "fetch_details ?d1 nid = Some (nd\<lparr>nd_row := f old\<rparr>)" using f1 by (simp add: fetch_details_def)
  moreover have "\<exists>n. note_from_row pu (nd\<lparr>nd_row := f old\<rparr>) = Inr n"
    by (rule note_from_row_advances [OF nd(2)]) (use ndr ochk adv rev in \<open>simp_all add: revises_def\<close>)
  ultimately obtain n where n: "fetch_note pu nid ?d1 = Inr n" by (auto simp: fetch_note_def)
  obtain d2 where d2: "before ?d1 = Inr d2" "same_core ?d1 d2" "db_revisions d2 = db_revisions d"
    using before [of ?d1] by auto
  have f2: "find_note d2 nid = Some (f old)" using find_note_same_core [OF d2(2)] f1 by simp
  have fresh: "hr_revision h \<noteq> nr_revision (f old)" if "h \<in> set (db_revisions d)" "hr_note h = nid" for h
  proof -
    have "hr_revision h \<in> set (map hr_revision (note_history d nid))"
      using that by (simp add: note_history_def)
    also have "map hr_revision (note_history d nid) = map int [1..<nat (nr_revision old) + 1]"
      using okd(4) mem id by (auto simp: history_ok_def)
    finally show ?thesis using rev ochk(2) by (auto simp: revises_def)
  qed
  have "\<exists>d3. insert_note_revision nid (actor_id act) kind d2 = Inr d3"
    unfolding insert_note_revision_Inr_iff using f2 fresh cb d2 same_core_fields(1) [OF d2(2)] by auto
  then obtain d3 where d3: "insert_note_revision nid (actor_id act) kind d2 = Inr d3" by blast
  have core3: "same_core d2 d3" by (rule insert_note_revision_core [OF d3])
  have "find_note d3 nid = Some (f old)" using find_note_same_core [OF core3] f2 by simp
  moreover have "db_attachments d3 = db_attachments d"
    using same_core_fields(10) [OF core3] same_core_fields(10) [OF d2(2)] by simp
  ultimately obtain e where "after d3 = Inr e" using after by blast
  then have "commit_revision pu act nid required kind before after (True, ?d1) = Inr (n, e)"
    using n d2(1) d3 by (simp add: commit_revision_def)
  then show ?thesis using old chk by (simp add: sql_update_note_def)
qed

lemma access_is_principal:
  assumes "store_ok pu d" "find_note d nid = Some r" "access_at_least d nid p l"
  shows "p \<in> set (db_principals d)"
  using store_access_unique [OF store_okD(2,3) [OF assms(1)] assms(2), of p l] assms(3)
    notes_okD(2) [OF store_okD(2) [OF assms(1)] assms(2)] store_okD(3) [OF assms(1)]
  by (auto simp: acl_ok_def split: if_splits)

text \<open>
  C10: a content update by somebody who may edit the note, against its current revision, always
  succeeds when the clock is not before the last change, the revision counter has room and the
  attachments of the new source are distinct attachments of the note.
\<close>

theorem update_succeeds:
  assumes "store_ok pu d" "may_mutate act nid AEdit d"
    and "find_note d nid = Some r" "nr_revision r = expected"
    and "nr_updated_at r \<le> now" "in_i64 (expected + 1)"
    and "distinct (nl_attachment_ids links)"
    and "\<forall>a\<in>set (nl_attachment_ids links). \<exists>x\<in>set (db_attachments d). at_note x = nid \<and> at_id x = a"
  shows "\<exists>n e. update_visible_note pu act nid expected draft links now d = Inr (n, e)"
proof -
  have acc: "access_at_least d nid (actor_id act) 2" "nr_deleted_at r = None"
    using assms(2,3) by (auto simp: may_mutate_def)
  have chk: "note_row_check r" using notes_okD(1) [OF store_okD(2) [OF assms(1)] assms(3)] .
  show ?thesis
    unfolding update_visible_note_def update_visible_note_alt
  proof (rule guarded_progress [OF assms(1,3)])
    show "active_guard act nid expected (access_level AEdit) d r"
      using acc assms(4) by (simp add: active_guard_def)
    show "note_row_check (content_update draft now r)"
      using chk assms(4-6) by (auto simp: note_row_check_def content_update_def)
    show "actor_id act \<in> set (db_principals d)" by (rule access_is_principal [OF assms(1,3) acc(1)])
    show "\<exists>y. Inr (replace_link_rows nid links x) = Inr y \<and> same_core x y \<and> db_revisions y = db_revisions x" for x
      by (simp add: replace_link_rows_core)
    show "find_note x nid = Some s \<Longrightarrow> db_attachments x = db_attachments d \<Longrightarrow>
        \<exists>y. replace_note_revision_attachments nid (nl_attachment_ids links) x = Inr y" for x s
      using replace_note_revision_attachments_succeeds assms(7,8) by metis
  qed (use acc assms(5) in \<open>simp_all add: content_update_def\<close>)
qed

lemma update_succeeds_witness:
  "\<exists>n e. update_visible_note sample_parser (sample_actor 1) sample_note_id 1 (sample_draft 3) no_links 1000
     sample_db = Inr (n, e)"
proof (rule update_succeeds [OF sample_ok])
  show "may_mutate (sample_actor 1) sample_note_id AEdit sample_db"
    by (simp add: may_mutate_def sample_eval store_eval)
  show "find_note sample_db sample_note_id =
      Some (row_of_new_note (new_note sample_note_id (sample_actor 1) (sample_draft 0) 1000 Web))"
    by (rule sample_find)
qed (simp_all add: row_of_new_note_def new_note_def note_create_def revision_initial_def revision_minimum_def
      no_links_def in_i64_def i64_min_def i64_max_def)

end
