(* ===== verification/AttachmentStore.thy ===== *)
theory AttachmentStore
  imports NoteLifecycle
begin

text \<open>
  Attached images in the database: the transactions of \<open>crates/marginalis-sqlite/src/attachment.rs\<close>, the
  purges of \<open>cleanup.rs\<close> and \<open>notes.rs\<close>, and the upload of
  \<open>crates/marginalis-application/src/notes/attachments.rs\<close>.  Unicode normalisation and SHA-256 are the
  parameters of \<open>Attachment\<close>.
\<close>

section \<open>Who may read and write\<close>

definition note_is_readable :: "db \<Rightarrow> actor \<Rightarrow> note_id \<Rightarrow> bool" where
  "note_is_readable d act nid \<longleftrightarrow> exists_where (\<lambda>r. nr_id r = nid
     \<and> (nr_deleted_at r = None \<and> has_access d nid (actor_id act)
        \<or> nr_deleted_at r \<noteq> None \<and> nr_creator r = actor_id act)) (db_notes d)"

definition note_is_editable :: "db \<Rightarrow> actor \<Rightarrow> note_id \<Rightarrow> bool" where
  "note_is_editable d act nid \<longleftrightarrow> exists_where (\<lambda>r. nr_id r = nid \<and> nr_deleted_at r = None
     \<and> access_at_least d nid (actor_id act) 2) (db_notes d)"

section \<open>Reading\<close>

text \<open>The joined row: an attachment with the primary identity of its creator.\<close>

definition metadata_from_row ::
  "url_parser \<Rightarrow> (rstr \<Rightarrow> rstr) \<Rightarrow> attachment_row \<times> identity_row \<Rightarrow> store_error + attachment_metadata" where
  "metadata_from_row pu nfc x = (case x of (a, i) \<Rightarrow>
     rbind (if length (at_sha256 a) = 32 then Inr (at_sha256 a) else Inl CorruptData) (\<lambda>sha.
     rbind (corrupt (identity_new pu (ir_issuer i) (ir_subject i))) (\<lambda>ident.
     rbind (corrupt (principal_id_new (at_created_by a))) (\<lambda>pid.
     rbind (if 0 \<le> at_byte_length a then Inr (nat (at_byte_length a)) else Inl CorruptData) (\<lambda>len.
     corrupt (attachment_metadata_new nfc (at_id a) (at_note a) (at_file_name a) (at_media_type a) len sha
       (at_created_at a) \<lparr>pref_id = pid, primary_identity = ident\<rparr>))))))"

definition with_creator :: "db \<Rightarrow> attachment_row \<Rightarrow> (attachment_row \<times> identity_row) option" where
  "with_creator d a = map_option (Pair a) (primary_identity_row d (at_created_by a))"

definition list_note_attachments ::
  "url_parser \<Rightarrow> (rstr \<Rightarrow> rstr) \<Rightarrow> actor \<Rightarrow> note_id \<Rightarrow> db \<Rightarrow> store_error + attachment_metadata list option" where
  "list_note_attachments pu nfc act nid d =
     (if \<not> note_is_readable d act nid then Inr None
      else rbind (traverse (metadata_from_row pu nfc)
          (sort_key (\<lambda>(a, i). at_created_at a) (sort_key (\<lambda>(a, i). at_id a)
            (List.map_filter (with_creator d) (select_where (\<lambda>a. at_note a = nid) (db_attachments d))))))
        (\<lambda>ms. Inr (Some ms)))"

definition note_attachment ::
  "url_parser \<Rightarrow> (rstr \<Rightarrow> rstr) \<Rightarrow> (u8 list \<Rightarrow> u8 list) \<Rightarrow> actor \<Rightarrow> note_id \<Rightarrow> attachment_id \<Rightarrow> db
   \<Rightarrow> store_error + stored_attachment option" where
  "note_attachment pu nfc sha256 act nid aid d =
     (case row_by at_id aid (db_attachments d) of
        None \<Rightarrow> Inr None
      | Some a \<Rightarrow>
          if at_note a \<noteq> nid \<or> \<not> note_is_readable d act nid then Inr None
          else (case with_creator d a of
              None \<Rightarrow> Inr None
            | Some x \<Rightarrow> rbind (metadata_from_row pu nfc x) (\<lambda>m.
                rbind (corrupt (stored_attachment_new sha256 m (at_content a))) (\<lambda>s. Inr (Some s)))))"

section \<open>Writing\<close>

text \<open>\<open>usize\<close> has 64 bits: a sum that does not fit is refused like one above the limit.\<close>

definition usize_max :: nat where "usize_max = 2 ^ 64 - 1"

definition note_attachment_rows :: "note_id \<Rightarrow> db \<Rightarrow> attachment_row list" where
  "note_attachment_rows nid d = select_where (\<lambda>a. at_note a = nid) (db_attachments d)"

definition quota_exceeded :: "note_id \<Rightarrow> nat \<Rightarrow> db \<Rightarrow> bool" where
  "quota_exceeded nid len d \<longleftrightarrow>
     (let count = length (note_attachment_rows nid d);
          total = sum_list (map at_byte_length (note_attachment_rows nid d)) in
      ap_max_attachments_per_note the_attachment_policy \<le> count
      \<or> total < 0 \<or> usize_max < nat total + len
      \<or> ap_max_bytes_per_note the_attachment_policy < nat total + len)"

definition row_of_attachment :: "stored_attachment \<Rightarrow> attachment_row" where
  "row_of_attachment s =
     \<lparr>at_id = am_id (sa_metadata s), at_note = am_note (sa_metadata s), at_file_name = am_file_name (sa_metadata s),
      at_media_type = am_media_type (sa_metadata s), at_byte_length = int (am_byte_length (sa_metadata s)),
      at_sha256 = am_sha256 (sa_metadata s), at_content = sa_bytes s,
      at_created_at = am_created_at (sa_metadata s), at_created_by = pref_id (am_created_by (sa_metadata s))\<rparr>"

definition sql_insert_attachment :: "attachment_row \<Rightarrow> db \<Rightarrow> store_error + db" where
  "sql_insert_attachment a d =
     (if exists_where (\<lambda>b. at_id b = at_id a) (db_attachments d) \<or> find_note d (at_note a) = None
         \<or> at_created_by a \<notin> set (db_principals d) \<or> \<not> attachment_row_check a
      then Inl Database
      else Inr (d\<lparr>db_attachments := db_attachments d @ [a]\<rparr>))"

definition create_note_attachment :: "actor \<Rightarrow> stored_attachment \<Rightarrow> db \<Rightarrow> store_error + db" where
  "create_note_attachment act s d =
     (let m = sa_metadata s in
      if pref_id (am_created_by m) \<noteq> actor_id act then Inl CorruptData
      else if \<not> note_is_editable d act (am_note m) then Inl NotFound
      else if quota_exceeded (am_note m) (am_byte_length m) d then Inl Conflict
      else if \<not> in_i64 (int (am_byte_length m)) then Inl CorruptData
      else sql_insert_attachment (row_of_attachment s) d)"

definition attachment_referenced :: "db \<Rightarrow> attachment_row \<Rightarrow> bool" where
  "attachment_referenced d a \<longleftrightarrow> exists_where (\<lambda>(n, v, x). n = at_note a \<and> x = at_id a) (db_revision_attachments d)"

definition delete_unused_note_attachment :: "actor \<Rightarrow> note_id \<Rightarrow> attachment_id \<Rightarrow> db \<Rightarrow> store_error + db" where
  "delete_unused_note_attachment act nid aid d =
     (if \<not> note_is_editable d act nid then Inl NotFound
      else let unused = (\<lambda>a. at_note a = nid \<and> at_id a = aid \<and> \<not> attachment_referenced d a) in
        if count_where unused (db_attachments d) \<noteq> 1
        then (if exists_where (\<lambda>a. at_note a = nid \<and> at_id a = aid) (db_attachments d) then Inl Conflict else Inl NotFound)
        else Inr (d\<lparr>db_attachments := delete_where unused (db_attachments d)\<rparr>))"

definition purge_unreferenced_note_attachments_before :: "int \<Rightarrow> db \<Rightarrow> nat \<times> db" where
  "purge_unreferenced_note_attachments_before cutoff d =
     (let gone = (\<lambda>a. at_created_at a < cutoff \<and> \<not> attachment_referenced d a) in
      (count_where gone (db_attachments d), d\<lparr>db_attachments := delete_where gone (db_attachments d)\<rparr>))"

section \<open>Upload\<close>

datatype upload_error = UploadStorage storage_error | UploadPanic

text \<open>The clock and the fresh id are arguments; a panic of \<open>into_stored\<close> is a value.\<close>

definition upload_note_attachment ::
  "url_parser \<Rightarrow> (rstr \<Rightarrow> rstr) \<Rightarrow> (u8 list \<Rightarrow> u8 list) \<Rightarrow> actor \<Rightarrow> note_id \<Rightarrow> attachment_draft \<Rightarrow> attachment_id
   \<Rightarrow> unix_millis \<Rightarrow> db \<Rightarrow> upload_error + (attachment_metadata \<times> db)" where
  "upload_note_attachment pu nfc sha256 act nid draft aid now d =
     rbind (map_err (UploadStorage \<circ> storage_error_of) (accessible_note pu act nid d)) (\<lambda>found.
     case found of
       None \<Rightarrow> Inl (UploadStorage StorageNotFound)
     | Some an \<Rightarrow>
         if \<not> note_access_allows (an_access an) AEdit \<or> n_deleted_at (an_note an) \<noteq> None
         then Inl (UploadStorage StorageNotFound)
         else (case attachment_into_stored nfc sha256 draft aid nid now (actor_principal act) of
             None \<Rightarrow> Inl UploadPanic
           | Some s \<Rightarrow> rbind (map_err (UploadStorage \<circ> storage_error_of) (create_note_attachment act s d))
               (\<lambda>e. Inr (sa_metadata s, e))))"

section \<open>Deleting notes\<close>

text \<open>
  \<open>DELETE FROM notes\<close> with its cascades.  SQLite runs the foreign keys of a table that refer to the deleted
  row from the newest declaration to the oldest: the ACL, the citations, the references, the attachments,
  the revisions.  Deleting an attachment that a revision still refers to is restricted and fails the whole
  statement, although the revision would be deleted next.  The triggers on \<open>note_acl\<close> find no note any more.
\<close>

definition sql_delete_notes :: "(note_row \<Rightarrow> bool) \<Rightarrow> db \<Rightarrow> store_error + (nat \<times> db)" where
  "sql_delete_notes gone d =
     (let ids = map nr_id (select_where gone (db_notes d)) in
      if exists_where (\<lambda>a. at_note a \<in> set ids \<and> attachment_referenced d a) (db_attachments d) then Inl Database
      else Inr (length ids, d\<lparr>
        db_notes := delete_where gone (db_notes d),
        db_acl := delete_where (\<lambda>a. ar_note a \<in> set ids) (db_acl d),
        db_citations := delete_where (\<lambda>c. fst c \<in> set ids) (db_citations d),
        db_references := delete_where (\<lambda>c. fst c \<in> set ids) (db_references d),
        db_attachments := delete_where (\<lambda>a. at_note a \<in> set ids) (db_attachments d),
        db_revisions := delete_where (\<lambda>h. hr_note h \<in> set ids) (db_revisions d),
        db_revision_attachments := delete_where (\<lambda>(n, v, x). n \<in> set ids) (db_revision_attachments d)\<rparr>))"

definition purge_deleted_before :: "int \<Rightarrow> db \<Rightarrow> store_error + (nat \<times> db)" where
  "purge_deleted_before cutoff d =
     sql_delete_notes (\<lambda>r. case nr_deleted_at r of None \<Rightarrow> False | Some t \<Rightarrow> t < cutoff) d"

end
