(* ===== verification/AttachmentInv.thy ===== *)
theory AttachmentInv
  imports AttachmentStore
begin

text \<open>
  The attachment invariant: keys and quotas, well-formed and consistent contents, and that every revision
  refers to attachments that exist.  All note transactions keep the attachments and the references of the
  revisions recorded so far.
\<close>

section \<open>The invariant\<close>

definition total_bytes :: "note_id \<Rightarrow> db \<Rightarrow> int" where
  "total_bytes nid d = sum_list (map at_byte_length (note_attachment_rows nid d))"

definition content_ok :: "(rstr \<Rightarrow> rstr) \<Rightarrow> (u8 list \<Rightarrow> u8 list) \<Rightarrow> attachment_row \<Rightarrow> bool" where
  "content_ok nfc sha256 a \<longleftrightarrow> at_sha256 a = sha256 (at_content a)
     \<and> media_type_detect (at_content a) = Some (at_media_type a)
     \<and> normalise_file_name nfc (at_file_name a) = at_file_name a \<and> \<not> file_name_rejected (at_file_name a)"

definition quotas_ok :: "db \<Rightarrow> bool" where
  "quotas_ok d \<longleftrightarrow> (\<forall>nid. length (note_attachment_rows nid d) \<le> 32 \<and> total_bytes nid d \<le> 67108864)"

definition attachments_ok :: "(rstr \<Rightarrow> rstr) \<Rightarrow> (u8 list \<Rightarrow> u8 list) \<Rightarrow> db \<Rightarrow> bool" where
  "attachments_ok nfc sha256 d \<longleftrightarrow> distinct (map at_id (db_attachments d)) \<and> quotas_ok d
     \<and> (\<forall>a\<in>set (db_attachments d). attachment_row_check a \<and> find_note d (at_note a) \<noteq> None
          \<and> at_created_by a \<in> set (db_principals d) \<and> content_ok nfc sha256 a)"

text \<open>Every reference belongs to a recorded revision and names a stored attachment of its note.\<close>

definition refs_ok :: "db \<Rightarrow> bool" where
  "refs_ok d \<longleftrightarrow> (\<forall>(n, v, x)\<in>set (db_revision_attachments d).
     (\<exists>h\<in>set (db_revisions d). hr_note h = n \<and> hr_revision h = v)
     \<and> (\<exists>a\<in>set (db_attachments d). at_note a = n \<and> at_id a = x))"

definition keeps_attachments :: "db \<Rightarrow> db \<Rightarrow> bool" where
  "keeps_attachments d e \<longleftrightarrow> db_attachments e = db_attachments d
     \<and> set (db_revision_attachments d) \<subseteq> set (db_revision_attachments e)"

lemma keeps_attachments_refl [simp]: "keeps_attachments d d"
  by (simp add: keeps_attachments_def)

lemma keeps_attachments_trans: "keeps_attachments d e \<Longrightarrow> keeps_attachments e f \<Longrightarrow> keeps_attachments d f"
  by (auto simp: keeps_attachments_def)

section \<open>Note transactions keep it\<close>

text \<open>Statements outside the history leave attachments, references and revisions alone.\<close>

definition history_frame :: "db \<Rightarrow> db \<Rightarrow> bool" where
  "history_frame d e \<longleftrightarrow> db_attachments e = db_attachments d
     \<and> db_revision_attachments e = db_revision_attachments d \<and> db_revisions e = db_revisions d"

lemma history_frame_refs: "history_frame d e \<Longrightarrow> refs_ok d \<Longrightarrow> refs_ok e \<and> keeps_attachments d e"
  by (simp add: history_frame_def refs_ok_def keeps_attachments_def)

lemma history_frames [simp]:
  "history_frame d (record_note_change k r (put_note r' d))"
  "history_frame d (replace_link_rows n links d)" "history_frame d (sql_delete_acl n d)"
  by (simp_all add: history_frame_def replace_link_rows_def replace_reference_rows_def Let_def)

lemma history_frame_trans: "history_frame d e \<Longrightarrow> history_frame e f \<Longrightarrow> history_frame d f"
  by (simp add: history_frame_def)

lemma insert_acl_frame: "insert_acl_entries n es d = Inr e \<Longrightarrow> history_frame d e"
proof (induction es arbitrary: d)
  case (Cons x es)
  then obtain d1 where d1: "sql_insert_acl \<lparr>ar_note = n, ar_principal = pref_id (acl_principal x),
      ar_permission = acl_permission x\<rparr> d = Inr d1" "insert_acl_entries n es d1 = Inr e"
    by (auto simp: rbind_Inr_iff)
  from d1(1) have "history_frame d d1" by (auto simp: sql_insert_acl_Inr_iff history_frame_def)
  with Cons.IH [OF d1(2)] show ?case by (rule history_frame_trans [rotated])
qed (simp add: history_frame_def)

text \<open>A new revision copies the references of the one before.\<close>

lemma insert_revision_refs:
  assumes "insert_note_revision nid cb k d = Inr e" "refs_ok d"
  shows "refs_ok e \<and> keeps_attachments d e"
proof -
  from assms(1) obtain r where e: "e = d\<lparr>db_revisions := db_revisions d @ [history_row cb k r],
      db_revision_attachments := db_revision_attachments d @ map (\<lambda>(m, v, a). (m, nr_revision r, a))
        (select_where (\<lambda>(m, v, a). m = nid \<and> v = nr_revision r - 1) (db_revision_attachments d))\<rparr>"
      "nr_id r = nid"
    by (auto simp: insert_note_revision_Inr_iff dest: find_note_Some)
  have "refs_ok e"
    unfolding refs_ok_def
  proof (safe, goal_cases)
    case (1 n v x)
    then consider "(n, v, x) \<in> set (db_revision_attachments d)" | "n = nid" "v = nr_revision r"
      by (auto simp: e(1) set_select_where)
    then show ?case
      using assms(2) e(2) by cases (auto simp: e(1) refs_ok_def history_row_def)
  next
    case (2 n v x)
    then obtain v' where "(n, v', x) \<in> set (db_revision_attachments d)"
      by (auto simp: e(1) set_select_where)
    then show ?case using assms(2) by (auto simp: e(1) refs_ok_def)
  qed
  then show ?thesis by (auto simp: keeps_attachments_def e(1))
qed

lemma insert_attachment_refs:
  "insert_revision_attachments nid v as d = Inr e \<Longrightarrow> refs_ok d
   \<Longrightarrow> \<exists>h\<in>set (db_revisions d). hr_note h = nid \<and> hr_revision h = v
   \<Longrightarrow> refs_ok e \<and> keeps_attachments d e \<and> db_revisions e = db_revisions d"
proof (induction as arbitrary: d)
  case (Cons a as)
  let ?d = "d\<lparr>db_revision_attachments := db_revision_attachments d @ [(nid, v, a)]\<rparr>"
  from Cons.prems(1) have s: "\<exists>x\<in>set (db_attachments d). at_note x = nid \<and> at_id x = a"
      "insert_revision_attachments nid v as ?d = Inr e"
    by (auto simp: exists_where_iff split: if_splits)
  have "refs_ok ?d" using Cons.prems(2,3) s(1) by (auto simp: refs_ok_def)
  from Cons.IH [OF s(2) this] Cons.prems(3) show ?case by (auto simp: keeps_attachments_def)
qed simp

text \<open>
  Replacing the attachments of the current revision touches no reference recorded before the transaction:
  its revision is new.
\<close>

lemma committed_refs:
  assumes "insert_note_revision nid cb k d = Inr d1" "replace_note_revision_attachments nid as d1 = Inr e" "refs_ok d"
  shows "refs_ok e \<and> keeps_attachments d e"
proof -
  have r1: "refs_ok d1" "keeps_attachments d d1" using insert_revision_refs [OF assms(1,3)] by simp_all
  from assms(1) obtain r where rr: "find_note d nid = Some r"
      "\<forall>h\<in>set (db_revisions d). hr_note h = nid \<longrightarrow> hr_revision h \<noteq> nr_revision r"
      "db_revisions d1 = db_revisions d @ [history_row cb k r]" "db_notes d1 = db_notes d"
    by (auto simp: insert_note_revision_Inr_iff)
  have "nr_id r = nid" using find_note_Some [OF rr(1)] by blast
  note r = rr(1) this rr(2-)
  have f: "find_note d1 nid = Some r" using r(1,5) by (simp add: find_note_def)
  let ?d2 = "d1\<lparr>db_revision_attachments := delete_where (\<lambda>(n, v, a). n = nid \<and> v = nr_revision r) (db_revision_attachments d1)\<rparr>"
  have e: "insert_revision_attachments nid (nr_revision r) as ?d2 = Inr e"
    using assms(2) f by (simp add: replace_note_revision_attachments_def)
  have r2: "refs_ok ?d2" using r1(1) by (auto simp: refs_ok_def set_delete_where)
  have "\<exists>h\<in>set (db_revisions ?d2). hr_note h = nid \<and> hr_revision h = nr_revision r"
    using r(2,4) by (auto simp: history_row_def)
  from insert_attachment_refs [OF e r2 this] have "refs_ok e" "keeps_attachments ?d2 e" by blast+
  moreover have "keeps_attachments d ?d2"
  proof -
    have "(n, v, a) \<in> set (db_revision_attachments ?d2)" if i: "(n, v, a) \<in> set (db_revision_attachments d)" for n v a
    proof -
      have "\<exists>h\<in>set (db_revisions d). hr_note h = n \<and> hr_revision h = v" using assms(3) i by (auto simp: refs_ok_def)
      with r(3) have "\<not> (n = nid \<and> v = nr_revision r)" by blast
      with i r1(2) show ?thesis by (auto simp: keeps_attachments_def set_delete_where)
    qed
    then show ?thesis using r1(2) by (auto simp: keeps_attachments_def)
  qed
  ultimately show ?thesis using keeps_attachments_trans by blast
qed

lemma guarded_refs:
  assumes "rbind (sql_update_note nid g f d) (commit_revision pu act nid req k before after) = Inr (n, e)"
    and "\<And>x y. before x = Inr y \<Longrightarrow> history_frame x y"
    and "after = Inr \<or> after = replace_note_revision_attachments nid as" "refs_ok d"
  shows "refs_ok e \<and> keeps_attachments d e"
proof -
  from assms(1) obtain b d1 d2 d3 where s: "sql_update_note nid g f d = Inr (b, d1)" "before d1 = Inr d2"
      "insert_note_revision nid (actor_id act) k d2 = Inr d3" "after d3 = Inr e" "b"
    by (auto simp: rbind_Inr_iff commit_revision_def split: if_splits)
  from s(1,5) have "history_frame d d1" by (auto simp: sql_update_note_Inr_iff)
  with assms(2) [OF s(2)] have f: "history_frame d d2" by (rule history_frame_trans [rotated])
  from history_frame_refs [OF this assms(4)] have d2: "refs_ok d2" "keeps_attachments d d2" by simp_all
  from assms(3) have "refs_ok e \<and> keeps_attachments d2 e"
  proof
    assume "after = Inr"
    then show ?thesis using insert_revision_refs [OF s(3) d2(1)] s(4) by simp
  next
    assume "after = replace_note_revision_attachments nid as"
    then show ?thesis using committed_refs [OF s(3) _ d2(1)] s(4) by simp
  qed
  then show ?thesis using d2(2) keeps_attachments_trans by blast
qed

lemma commit_refs:
  assumes "commit_revision pu act nid req k Inr Inr (True, d) = Inr (n, e)" "refs_ok d"
  shows "refs_ok e \<and> keeps_attachments d e"
proof -
  from assms(1) have "insert_note_revision nid (actor_id act) k d = Inr e"
    by (auto simp: rbind_Inr_iff commit_revision_def)
  from insert_revision_refs [OF this assms(2)] show ?thesis .
qed

lemma insert_principal_history: "insert_principal i d = (a, b, e) \<Longrightarrow> history_frame d e"
  by (auto simp: insert_principal_def Let_def history_frame_def)

lemma store_step_refs:
  assumes "store_step pu d e" "refs_ok d"
  shows "refs_ok e \<and> keeps_attachments d e"
  using assms(1)
proof cases
  case (step_register i a)
  then have "history_frame d e"
    by (auto simp: resolve_or_create_verified_def resolve_or_create_in_def rbind_Inr_iff history_frame_def
        insert_principal_def Let_def split: option.splits if_splits)
  then show ?thesis by (rule history_frame_refs [OF _ assms(2)])
next
  case (step_create act nid draft now via links)
  let ?n = "new_note nid act draft now via"
  from step_create(2) obtain d1 d2 where s: "sql_insert_note (row_of_new_note ?n) d = Inr d1"
      "insert_note_revision nid (pref_id (n_owner ?n)) KCreated (replace_link_rows nid links d1) = Inr d2"
      "replace_note_revision_attachments nid (nl_attachment_ids links) d2 = Inr e"
    by (auto simp: create_note_def rbind_Inr_iff)
  from s(1) have "history_frame d d1" by (auto simp: sql_insert_note_def history_frame_def split: if_splits)
  then have "history_frame d (replace_link_rows nid links d1)" by (rule history_frame_trans) simp
  from history_frame_refs [OF this assms(2)] have
    d1: "refs_ok (replace_link_rows nid links d1)" "keeps_attachments d (replace_link_rows nid links d1)" by simp_all
  from committed_refs [OF s(2,3) d1(1)] d1(2) show ?thesis using keeps_attachments_trans by blast
next
  case (step_update act nid expected draft links now n)
  show ?thesis
    by (rule guarded_refs [OF step_update(1) [unfolded update_visible_note_def update_visible_note_with_kind_def] _ _ assms(2)]) auto
next
  case (step_rewind act nid expected draft links now n)
  show ?thesis
    by (rule guarded_refs [OF step_rewind(1) [unfolded restore_visible_note_revision_def update_visible_note_with_kind_def] _ _ assms(2)]) auto
next
  case (step_delete act nid expected now n)
  show ?thesis
    by (rule guarded_refs [OF step_delete(1) [unfolded soft_delete_visible_note_def] _ _ assms(2)]) (auto simp: history_frame_def)
next
  case (step_review act nid expected now n)
  show ?thesis
    by (rule guarded_refs [OF step_review(1) [unfolded mark_owned_note_reviewed_def] _ _ assms(2)]) (auto simp: history_frame_def)
next
  case (step_restore act nid expected now n)
  then obtain b d1 where s: "commit_revision pu act nid AManage KRestored Inr Inr (True, d1) = Inr (n, e)" "history_frame d d1"
    by (auto simp: restore_owned_deleted_note_def rbind_Inr_iff map_err_Inr_iff Let_def sql_update_note_Inr_iff
        split: if_splits)
  with history_frame_refs [OF s(2) assms(2)] commit_refs [OF s(1)] show ?thesis using keeps_attachments_trans by blast
next
  case (step_acl act nid entries expected now n)
  then obtain b d1 d2 g f where s0: "sql_update_note nid g f d = Inr (b, d1)" "b"
      and s: "insert_acl_entries nid entries (sql_delete_acl nid d1) = Inr d2"
      "commit_revision pu act nid AManage KAclUpdated Inr Inr (True, d2) = Inr (n, e)"
    unfolding replace_note_acl_def by (auto simp: rbind_Inr_iff split: if_splits)
  from s0 have "history_frame d d1" by (auto simp: sql_update_note_Inr_iff)
  note s = this s
  have "history_frame d (sql_delete_acl nid d1)" using s(1) by (rule history_frame_trans) simp
  then have "history_frame d d2" using insert_acl_frame [OF s(2)] by (rule history_frame_trans)
  with history_frame_refs [OF this assms(2)] commit_refs [OF s(3)] show ?thesis using keeps_attachments_trans by blast
qed

end
