(* ===== verification/ChangeReplica.thy ===== *)
theory ChangeReplica
  imports NoteProgress
begin

text \<open>
  The contract between a change log and the clients that replicate a keyed view from it.  The log
  gives every changed key a mark above all marks given so far; a client that has read a snapshot and
  all marks up to some point is, key by key, either up to date or has a higher mark still to read.
\<close>

locale change_log =
  fixes ok :: "'d \<Rightarrow> bool"
    and step :: "'d \<Rightarrow> 'd \<Rightarrow> bool"
    and view :: "'d \<Rightarrow> 'k \<Rightarrow> 'v option"
    and mark :: "'d \<Rightarrow> 'k \<Rightarrow> int option"
    and next_mark :: "'d \<Rightarrow> int"
  assumes step_ok: "ok d \<Longrightarrow> step d e \<Longrightarrow> ok e"
    and next_mono: "ok d \<Longrightarrow> step d e \<Longrightarrow> next_mark d \<le> next_mark e"
    and logged: "ok d \<Longrightarrow> step d e \<Longrightarrow> (\<exists>m. mark e k = Some m \<and> next_mark d \<le> m)
      \<or> (mark e k = mark d k \<and> view e k = view d k)"
    and mark_bound: "ok d \<Longrightarrow> mark d k = Some m \<Longrightarrow> m < next_mark d"
begin

definition in_sync :: "'d \<Rightarrow> int \<Rightarrow> ('k \<Rightarrow> 'v option) \<Rightarrow> 'k \<Rightarrow> bool" where
  "in_sync d s c k \<longleftrightarrow> c k = view d k \<or> (\<exists>m. mark d k = Some m \<and> s < m)"

lemma in_sync_step:
  assumes "ok d" "step d e" "s < next_mark d" "in_sync d s c k"
  shows "in_sync e s c k"
  using logged [OF assms(1,2), of k] assms(3,4) unfolding in_sync_def by force

text \<open>A client that has read all marks up to \<open>s\<close>.\<close>

definition following :: "'d \<Rightarrow> int \<Rightarrow> ('k \<Rightarrow> 'v option) \<Rightarrow> bool" where
  "following d s c \<longleftrightarrow> s < next_mark d \<and> (\<forall>k. in_sync d s c k)"

text \<open>A client that has read the snapshot for the keys in \<open>A\<close>, begun when \<open>w\<close> was the last mark.\<close>

definition loading :: "'d \<Rightarrow> int \<Rightarrow> 'k set \<Rightarrow> ('k \<Rightarrow> 'v option) \<Rightarrow> bool" where
  "loading d w A c \<longleftrightarrow> w < next_mark d \<and> (\<forall>k\<in>A. in_sync d w c k) \<and> (\<forall>k. k \<notin> A \<longrightarrow> c k = None)"

lemma following_step: "ok d \<Longrightarrow> step d e \<Longrightarrow> following d s c \<Longrightarrow> following e s c"
  unfolding following_def using in_sync_step next_mono by (metis order_less_le_trans)

lemma loading_step: "ok d \<Longrightarrow> step d e \<Longrightarrow> loading d w A c \<Longrightarrow> loading e w A c"
  unfolding loading_def using in_sync_step next_mono by (metis order_less_le_trans)

lemma loading_start: "w < next_mark d \<Longrightarrow> loading d w {} (\<lambda>_. None)"
  by (simp add: loading_def)

lemma loading_deliver:
  assumes "loading d w A c" "\<And>k. k \<in> B \<Longrightarrow> k \<notin> A \<Longrightarrow> c' k = view d k"
    and "\<And>k. k \<in> A \<or> k \<notin> B \<Longrightarrow> c' k = c k"
  shows "loading d w (A \<union> B) c'"
proof -
  have "in_sync d w c' k" if "k \<in> A \<union> B" for k
    using that assms by (cases "k \<in> A") (auto simp: loading_def in_sync_def)
  then show ?thesis using assms(1,3) by (simp add: loading_def)
qed

lemma loading_done: "loading d w UNIV c \<Longrightarrow> following d w c"
  by (simp add: loading_def following_def)

lemma following_deliver:
  assumes "following d s c" "s \<le> s'" "s' < next_mark d"
    and "\<And>k m. mark d k = Some m \<Longrightarrow> s < m \<Longrightarrow> m \<le> s' \<Longrightarrow> c' k = view d k"
    and "\<And>k. (\<And>m. mark d k = Some m \<Longrightarrow> \<not> (s < m \<and> m \<le> s')) \<Longrightarrow> c' k = c k"
  shows "following d s' c'"
proof -
  have "in_sync d s' c' k" for k
  proof (cases "\<exists>m. mark d k = Some m \<and> s < m \<and> m \<le> s'")
    case True
    then show ?thesis using assms(4) by (auto simp: in_sync_def)
  next
    case False
    then have "c' k = c k" using assms(5) by blast
    moreover have "in_sync d s c k" using assms(1) by (simp add: following_def)
    ultimately show ?thesis using False by (fastforce simp: in_sync_def)
  qed
  with assms(3) show ?thesis by (simp add: following_def)
qed

lemma following_complete:
  assumes "following d s c" "\<And>k m. mark d k = Some m \<Longrightarrow> m \<le> s"
  shows "c = view d"
proof
  fix k
  have "in_sync d s c k" using assms(1) by (simp add: following_def)
  then show "c k = view d k" using assms(2) by (fastforce simp: in_sync_def)
qed

end

end
