(* ===== verification/NoteSync.thy ===== *)
theory NoteSync
  imports ChangeReplica
begin

text \<open>
  The synchronisation feed, \<open>crates/marginalis-sqlite/src/note_sync.rs\<close> and
  \<open>crates/marginalis-application/src/notes/sync.rs\<close>: a client first pages through a snapshot of the
  notes it can see and then through the changes recorded since the snapshot began, each page bounded
  in entries and in bytes, each cursor bound to the principal it was issued to.  Note ids compare as
  their canonical text does, that is as 128-bit numbers.
\<close>

definition max_response_bytes :: nat where "max_response_bytes = 4 * 1024 * 1024"
definition note_sync_default_page_size :: nat where "note_sync_default_page_size = 50"
definition note_sync_max_page_size :: nat where "note_sync_max_page_size = 100"
definition note_sync_cursor_retention_ms :: int where
  "note_sync_cursor_retention_ms = 35 * 24 * 60 * 60 * 1000"

datatype sync_error = InvalidCursor | CursorExpired | SyncStorage storage_error

datatype sync_entry = SyncUpsert note_rec | SyncRemove note_id removal_reason

record sync_page =
  sp_phase :: sync_phase
  sp_entries :: "sync_entry list"
  sp_next_cursor :: rstr
  sp_has_more :: bool
  sp_expires_at :: unix_millis

record cursor_state =
  cs_phase :: sync_phase
  cs_after_note :: "note_id option"
  cs_after_sequence :: int
  cs_high_watermark :: int

definition sync_storage :: "store_error + 'a \<Rightarrow> sync_error + 'a" where
  "sync_storage r = map_err (\<lambda>e. SyncStorage (storage_error_of e)) r"

section \<open>One page\<close>

definition cursor_by_token :: "token_hash \<Rightarrow> rstr \<Rightarrow> db \<Rightarrow> cursor_row option" where
  "cursor_by_token hash tok d = row_by cu_hash (hash tok) (db_cursors d)"

definition load_cursor ::
  "token_hash \<Rightarrow> actor \<Rightarrow> rstr option \<Rightarrow> unix_millis \<Rightarrow> db \<Rightarrow> sync_error + cursor_state" where
  "load_cursor hash act cursor now d =
     (case cursor of
        None \<Rightarrow> Inr \<lparr>cs_phase = Snapshot, cs_after_note = None, cs_after_sequence = 0,
                  cs_high_watermark = db_latest_change d\<rparr>
      | Some tok \<Rightarrow>
          (case cursor_by_token hash tok d of
             None \<Rightarrow> Inl InvalidCursor
           | Some row \<Rightarrow>
               if cu_principal row \<noteq> actor_id act then Inl InvalidCursor
               else if cu_expires_at row \<le> now then Inl CursorExpired
               else Inr \<lparr>cs_phase = cu_phase row, cs_after_note = cu_after_note row,
                      cs_after_sequence = cu_after_sequence row,
                      cs_high_watermark = cu_high_watermark row\<rparr>))"

text \<open>\<open>note_details\<close> joined with \<open>note_access\<close> for one principal.\<close>

definition visible_rows :: "db \<Rightarrow> int \<Rightarrow> note_details list" where
  "visible_rows d p = concat (map (\<lambda>r.
     case note_details_of d r of
       None \<Rightarrow> []
     | Some nd \<Rightarrow> map (\<lambda>_. nd) (filter (\<lambda>(n, q, l). n = nr_id r \<and> q = p) (note_access d)))
     (filter (\<lambda>r. nr_deleted_at r = None) (db_notes d)))"

definition snapshot_rows :: "db \<Rightarrow> int \<Rightarrow> note_id option \<Rightarrow> note_details list" where
  "snapshot_rows d p after = sort_key (\<lambda>nd. nr_id (nd_row nd))
     (filter (\<lambda>nd. case after of None \<Rightarrow> True | Some a \<Rightarrow> a < nr_id (nd_row nd)) (visible_rows d p))"

definition note_estimate :: "note_rec \<Rightarrow> nat" where
  "note_estimate n = 6 * (byte_len (n_source n) + byte_len (n_title n) + sum_list (map byte_len (n_tags n))) + 1024"

definition entry_estimate :: "sync_entry \<Rightarrow> nat" where
  "entry_estimate x = (case x of SyncUpsert n \<Rightarrow> note_estimate n | SyncRemove _ _ \<Rightarrow> 256)"

text \<open>
  The loop over the rows of a page: \<open>read\<close> makes the entry of a row; the loop stops before an entry
  that would exceed the byte budget unless the page is still empty.
\<close>

fun collect_entries ::
  "('r \<Rightarrow> sync_error + sync_entry) \<Rightarrow> nat \<Rightarrow> sync_entry list \<Rightarrow> 'r list
   \<Rightarrow> sync_error + (sync_entry list \<times> bool)" where
  "collect_entries read bytes acc [] = Inr (acc, False)"
| "collect_entries read bytes acc (r # rs) =
     rbind (read r) (\<lambda>x.
       if acc \<noteq> [] \<and> max_response_bytes < bytes + entry_estimate x then Inr (acc, True)
       else collect_entries read (bytes + entry_estimate x) (acc @ [x]) rs)"

definition snapshot_entry :: "url_parser \<Rightarrow> note_details \<Rightarrow> sync_error + sync_entry" where
  "snapshot_entry pu nd = rbind (sync_storage (note_from_row pu nd)) (\<lambda>n. Inr (SyncUpsert n))"

fun entry_note :: "sync_entry \<Rightarrow> note_id" where
  "entry_note (SyncUpsert n) = n_id n"
| "entry_note (SyncRemove nid _) = nid"

definition last_upsert :: "sync_entry list \<Rightarrow> note_id option" where
  "last_upsert xs = (if xs = [] then None
     else case last xs of SyncUpsert n \<Rightarrow> Some (n_id n) | SyncRemove _ _ \<Rightarrow> None)"

definition snapshot_page ::
  "url_parser \<Rightarrow> actor \<Rightarrow> nat \<Rightarrow> cursor_state \<Rightarrow> db \<Rightarrow> sync_error + (sync_entry list \<times> bool \<times> cursor_state)" where
  "snapshot_page pu act limit st d =
     (let rows = take (limit + 1) (snapshot_rows d (actor_id act) (cs_after_note st)) in
      rbind (collect_entries (snapshot_entry pu) 0 [] (take limit rows)) (\<lambda>(entries, truncated).
      let has_more = (limit < length rows \<or> truncated) in
      Inr (entries, has_more,
        if has_more then st\<lparr>cs_after_note := last_upsert entries\<rparr>
        else \<lparr>cs_phase = Changes, cs_after_note = None, cs_after_sequence = cs_high_watermark st,
              cs_high_watermark = cs_high_watermark st\<rparr>)))"

definition change_rows :: "db \<Rightarrow> int \<Rightarrow> int \<Rightarrow> projection_row list" where
  "change_rows d p after = sort_key pj_sequence
     (filter (\<lambda>x. pj_principal x = p \<and> after < pj_sequence x) (db_projection d))"

text \<open>An upsert row whose note is no longer visible is delivered as a removal.\<close>

definition change_entry :: "url_parser \<Rightarrow> db \<Rightarrow> int \<Rightarrow> projection_row \<Rightarrow> sync_error + sync_entry" where
  "change_entry pu d p x =
     (case pj_kind x of
        PUpsert \<Rightarrow>
          (case find (\<lambda>nd. nr_id (nd_row nd) = pj_note x) (visible_rows d p) of
             Some nd \<Rightarrow> snapshot_entry pu nd
           | None \<Rightarrow> Inr (SyncRemove (pj_note x) ReasonAccessRevoked))
      | PRemove reason \<Rightarrow> Inr (SyncRemove (pj_note x) reason))"

definition changes_page ::
  "url_parser \<Rightarrow> actor \<Rightarrow> nat \<Rightarrow> cursor_state \<Rightarrow> db \<Rightarrow> sync_error + (sync_entry list \<times> bool \<times> cursor_state)" where
  "changes_page pu act limit st d =
     (let rows = take (limit + 1) (change_rows d (actor_id act) (cs_after_sequence st)) in
      rbind (collect_entries (change_entry pu d (actor_id act)) 0 [] (take limit rows)) (\<lambda>(entries, truncated).
      let has_more = (limit < length rows \<or> truncated) in
      Inr (entries, has_more,
        st\<lparr>cs_after_sequence := (if entries = [] then cs_after_sequence st
             else pj_sequence (rows ! (length entries - 1)))\<rparr>)))"

definition insert_cursor :: "cursor_row \<Rightarrow> db \<Rightarrow> sync_error + db" where
  "insert_cursor row d =
     (if row_by cu_hash (cu_hash row) (db_cursors d) \<noteq> None \<or> length (cu_hash row) \<noteq> 32
         \<or> cu_principal row \<notin> set (db_principals d)
         \<or> cu_after_sequence row < 0 \<or> cu_high_watermark row < 0
         \<or> (cu_phase row \<noteq> Snapshot \<and> cu_after_note row \<noteq> None)
      then Inl (SyncStorage StorageUnavailable)
      else Inr (d\<lparr>db_cursors := db_cursors d @ [row]\<rparr>))"

definition sync_notes_page ::
  "url_parser \<Rightarrow> token_hash \<Rightarrow> actor \<Rightarrow> rstr option \<Rightarrow> nat \<Rightarrow> rstr \<Rightarrow> unix_millis \<Rightarrow> db
   \<Rightarrow> sync_error + (sync_page \<times> db)" where
  "sync_notes_page pu hash act cursor limit next_tok now d =
     rbind (load_cursor hash act cursor now d) (\<lambda>st.
     let expires = i64_saturating_add now note_sync_cursor_retention_ms in
     rbind (case cs_phase st of
              Snapshot \<Rightarrow> snapshot_page pu act limit st d
            | Changes \<Rightarrow> changes_page pu act limit st d) (\<lambda>(entries, has_more, nxt).
     rbind (insert_cursor \<lparr>cu_hash = hash next_tok, cu_principal = actor_id act, cu_phase = cs_phase nxt,
              cu_after_note = cs_after_note nxt, cu_after_sequence = cs_after_sequence nxt,
              cu_high_watermark = cs_high_watermark nxt, cu_expires_at = expires\<rparr> d) (\<lambda>e.
     Inr (\<lparr>sp_phase = cs_phase st, sp_entries = entries, sp_next_cursor = next_tok,
           sp_has_more = has_more, sp_expires_at = expires\<rparr>, e))))"

section \<open>The application's entry point\<close>

datatype sync_use_case_error = InvalidSyncLimit | InvalidSyncCursor | SyncCursorExpired
  | SyncUseCaseStorage storage_error

fun sync_use_case_error_of :: "sync_error \<Rightarrow> sync_use_case_error" where
  "sync_use_case_error_of InvalidCursor = InvalidSyncCursor"
| "sync_use_case_error_of CursorExpired = SyncCursorExpired"
| "sync_use_case_error_of (SyncStorage e) = SyncUseCaseStorage e"

definition sync_notes ::
  "url_parser \<Rightarrow> token_hash \<Rightarrow> actor \<Rightarrow> rstr option \<Rightarrow> nat option \<Rightarrow> rstr \<Rightarrow> unix_millis \<Rightarrow> db
   \<Rightarrow> sync_use_case_error + (sync_page \<times> db)" where
  "sync_notes pu hash act cursor limit fresh now d =
     (let limit = (case limit of None \<Rightarrow> note_sync_default_page_size | Some l \<Rightarrow> l) in
      if \<not> (1 \<le> limit \<and> limit \<le> note_sync_max_page_size) then Inl InvalidSyncLimit
      else map_err sync_use_case_error_of (sync_notes_page pu hash act cursor limit fresh now d))"

section \<open>What a page contains\<close>

lemma collect_entries_Inr:
  "collect_entries read b acc rs = Inr (es, t) \<Longrightarrow>
     \<exists>xs k. es = acc @ xs \<and> k \<le> length rs \<and> list_all2 (\<lambda>r x. read r = Inr x) (take k rs) xs
       \<and> (\<not> t \<longrightarrow> k = length rs) \<and> (t \<longrightarrow> es \<noteq> [])"
proof (induction read b acc rs rule: collect_entries.induct)
  case (2 read bytes acc r rs)
  from "2.prems" obtain x where x: "read r = Inr x"
    and rest: "(if acc \<noteq> [] \<and> max_response_bytes < bytes + entry_estimate x then Inr (acc, True)
      else collect_entries read (bytes + entry_estimate x) (acc @ [x]) rs) = Inr (es, t)"
    by (auto simp: rbind_Inr_iff)
  show ?case
  proof (cases "acc \<noteq> [] \<and> max_response_bytes < bytes + entry_estimate x")
    case True
    with rest show ?thesis by (intro exI [of _ "[]"] exI [of _ 0]) auto
  next
    case False
    with rest have "collect_entries read (bytes + entry_estimate x) (acc @ [x]) rs = Inr (es, t)" by simp
    from "2.IH" [OF False this] obtain xs k where "es = (acc @ [x]) @ xs" "k \<le> length rs"
        "list_all2 (\<lambda>r x. read r = Inr x) (take k rs) xs" "\<not> t \<longrightarrow> k = length rs" "t \<longrightarrow> es \<noteq> []"
      by blast
    with x show ?thesis by (intro exI [of _ "x # xs"] exI [of _ "Suc k"]) auto
  qed
qed auto

text \<open>A page is a non-empty prefix of the rows unless there are none.\<close>

lemma collect_page:
  assumes "collect_entries read 0 [] (take limit rows) = Inr (es, t)" "1 \<le> limit"
  obtains k where "k \<le> length rows" "list_all2 (\<lambda>r x. read r = Inr x) (take k rows) es"
    "\<not> (limit < length rows \<or> t) \<longrightarrow> k = length rows"
    "rows \<noteq> [] \<longrightarrow> es \<noteq> []" "length es = k" "k \<le> limit"
proof -
  from collect_entries_Inr [OF assms(1)] obtain k where k: "k \<le> length (take limit rows)"
      "list_all2 (\<lambda>r x. read r = Inr x) (take k (take limit rows)) es"
      "\<not> t \<longrightarrow> k = length (take limit rows)" "t \<longrightarrow> es \<noteq> []"
    by (metis append_Nil)
  have "length es = k" using k(1) list_all2_lengthD [OF k(2)] by simp
  moreover have "take k (take limit rows) = take k rows" using k(1) by simp
  moreover have "es \<noteq> []" if "rows \<noteq> []"
    using k that calculation(1) assms(2) by (cases t) (auto simp: min_def split: if_splits)
  moreover have "k = length rows" if "\<not> (limit < length rows \<or> t)" using k(3) that by simp
  moreover have "k \<le> length rows" "k \<le> limit" using k(1) by simp_all
  ultimately show thesis using that [of k] k(2) by simp
qed

lemma set_visible_rows:
  "set (visible_rows d p) = {nd. \<exists>r\<in>set (db_notes d). nr_deleted_at r = None
     \<and> note_details_of d r = Some nd \<and> has_access d (nr_id r) p}"
proof -
  have "set (case note_details_of d r of None \<Rightarrow> []
      | Some nd \<Rightarrow> map (\<lambda>_. nd) (filter (\<lambda>(n, q, l). n = nr_id r \<and> q = p) (note_access d)))
    = {nd. note_details_of d r = Some nd \<and> has_access d (nr_id r) p}" for r
    by (auto simp: has_access_iff image_iff split: option.splits)
  then show ?thesis by (auto simp: visible_rows_def)
qed

lemma visible_rows_iff:
  assumes "store_ok pu d"
  shows "nd \<in> set (visible_rows d p) \<longleftrightarrow> visible_details d p (nr_id (nd_row nd)) = Some nd"
proof -
  note okn = store_okD(2) [OF assms]
  have row: "note_details_of d r = Some nd \<Longrightarrow> nd_row nd = r" for r
    by (auto simp: note_details_of_def Let_def bind_eq_Some_conv)
  show ?thesis
  proof
    assume "nd \<in> set (visible_rows d p)"
    then obtain r where r: "r \<in> set (db_notes d)" "nr_deleted_at r = None" "note_details_of d r = Some nd"
        "has_access d (nr_id r) p"
      unfolding set_visible_rows by blast
    then have "find_note d (nr_id r) = Some r" using find_note_iff [OF okn] by simp
    with r row show "visible_details d p (nr_id (nd_row nd)) = Some nd"
      by (simp add: visible_details_def visible_def fetch_details_def)
  next
    assume v: "visible_details d p (nr_id (nd_row nd)) = Some nd"
    then obtain r where r: "find_note d (nr_id (nd_row nd)) = Some r" "nr_deleted_at r = None"
        "has_access d (nr_id (nd_row nd)) p" "note_details_of d r = Some nd"
      by (auto simp: visible_details_def visible_def fetch_details_def split: if_splits)
    have "r \<in> set (db_notes d)" "nr_id r = nr_id (nd_row nd)" using notes_okD [OF okn r(1)] by simp_all
    then show "nd \<in> set (visible_rows d p)" unfolding set_visible_rows using r by auto
  qed
qed

lemma visible_note_row:
  assumes "visible_details d p n = Some nd" "note_from_row pu nd = Inr x"
  shows "visible_note pu d p n = Some x" "n_id x = n"
proof -
  show "visible_note pu d p n = Some x" using assms by (simp add: visible_note_def)
  have "nd_row nd = r" if "find_note d n = Some r" "note_details_of d r = Some nd" for r
    using that by (auto simp: note_details_of_def Let_def bind_eq_Some_conv)
  then have "find_note d n = Some (nd_row nd)"
    using assms(1) by (auto simp: visible_details_def fetch_details_def bind_eq_Some_conv split: if_splits)
  then show "n_id x = n" using note_from_row_Inr(1) [OF assms(2)] find_note_Some by simp
qed

lemma visible_note_none:
  assumes "store_ok pu d"
  shows "visible_note pu d p n = None \<longleftrightarrow> visible_details d p n = None"
proof (cases "visible_details d p n")
  case (Some nd)
  then have "\<exists>x. fetch_note pu n d = Inr x" "fetch_details d n = Some nd"
    using notes_okD(4) [OF store_okD(2) [OF assms]]
    by (auto simp: visible_details_def visible_def split: if_splits)
  with Some show ?thesis by (auto simp: visible_note_def fetch_note_def)
qed (simp add: visible_note_def)

end
