(* ===== verification/NoteListing.thy ===== *)
theory NoteListing
  imports NoteLifecycle NoteSync
begin

text \<open>
  The listing queries of \<open>crates/marginalis-sqlite/src/notes.rs\<close>: visible notes with their review state,
  deleted notes, and the snapshot a note is shown with, its references and backlinks.  They read summary
  columns only and compute the review state in SQL; the properties relate them to reading single notes.
\<close>

section \<open>Queries\<close>

record note_list_query =
  lq_created_via :: "creation_source option"
  lq_review_status :: "review_status option"

text \<open>The join of \<open>notes\<close> with the rows of \<open>note_access\<close> for one principal.\<close>

definition access_join :: "db \<Rightarrow> int \<Rightarrow> (note_row \<times> int) list" where
  "access_join d p = concat (map (\<lambda>r. map (\<lambda>(n, q, l). (r, l))
     (filter (\<lambda>(n, q, l). n = nr_id r \<and> q = p) (note_access d))) (db_notes d))"

fun status_condition :: "review_status option \<Rightarrow> note_row \<Rightarrow> bool" where
  "status_condition None r \<longleftrightarrow> True"
| "status_condition (Some ReviewUnknown) r \<longleftrightarrow> \<not> nr_tracking_known r"
| "status_condition (Some ReviewPending) r \<longleftrightarrow> nr_tracking_known r
     \<and> (nr_reviewed_revision r = None \<or> nr_reviewed_revision r \<noteq> Some (nr_revision r))"
| "status_condition (Some Reviewed) r \<longleftrightarrow> nr_tracking_known r
     \<and> nr_reviewed_revision r = Some (nr_revision r)"

definition via_condition :: "creation_source option \<Rightarrow> note_row \<Rightarrow> bool" where
  "via_condition via r \<longleftrightarrow> (case via of None \<Rightarrow> True | Some v \<Rightarrow> nr_created_via r = v)"

text \<open>The function \<open>review_status\<close> over the columns.\<close>

fun review_status_of_columns :: "bool \<Rightarrow> revision option \<Rightarrow> revision \<Rightarrow> store_error + review_status" where
  "review_status_of_columns False None cur = Inr ReviewUnknown"
| "review_status_of_columns True None cur = Inr ReviewPending"
| "review_status_of_columns True (Some r) cur =
     (if r = cur then Inr Reviewed else if r < cur then Inr ReviewPending else Inl CorruptData)"
| "review_status_of_columns False (Some r) cur = Inl CorruptData"

definition note_summary_from_row :: "note_row \<Rightarrow> store_error + note_summary" where
  "note_summary_from_row r =
     rbind (corrupt (revision_new (nr_revision r))) (\<lambda>rvn.
     rbind (corrupt (opt_result revision_new (nr_reviewed_revision r))) (\<lambda>reviewed.
     rbind (review_status_of_columns (nr_tracking_known r) reviewed rvn) (\<lambda>status.
     Inr \<lparr>s_note_id = nr_id r, s_title = nr_title r, s_tags = nr_tags r, s_updated_at = nr_updated_at r,
       s_revision = rvn, s_created_via = nr_created_via r, s_review_status = status,
       s_reviewed_revision = reviewed, s_reviewed_at = nr_reviewed_at r\<rparr>)))"

definition note_list_entry_from_row :: "note_row \<times> int \<Rightarrow> store_error + note_list_entry" where
  "note_list_entry_from_row x =
     rbind (access_from_level (snd x)) (\<lambda>acc.
     rbind (note_summary_from_row (fst x)) (\<lambda>s. Inr \<lparr>le_summary = s, le_access = acc\<rparr>))"

text \<open>\<open>ORDER BY updated_at_ms DESC, note_id ASC\<close>: two stable sorts, the minor key first.\<close>

definition newest_first :: "('a \<Rightarrow> note_row) \<Rightarrow> 'a list \<Rightarrow> 'a list" where
  "newest_first row xs = sort_key (\<lambda>x. - nr_updated_at (row x)) (sort_key (\<lambda>x. nr_id (row x)) xs)"

definition listed_rows :: "actor \<Rightarrow> note_list_query \<Rightarrow> db \<Rightarrow> (note_row \<times> int) list" where
  "listed_rows act q d = newest_first fst (filter (\<lambda>(r, l). nr_deleted_at r = None
     \<and> via_condition (lq_created_via q) r \<and> status_condition (lq_review_status q) r)
     (access_join d (actor_id act)))"

definition list_visible_notes :: "actor \<Rightarrow> note_list_query \<Rightarrow> db \<Rightarrow> store_error + note_list_entry list" where
  "list_visible_notes act q d = traverse note_list_entry_from_row (listed_rows act q d)"

definition deleted_note_entry_from_row :: "note_row \<Rightarrow> store_error + deleted_note_entry" where
  "deleted_note_entry_from_row r =
     (case nr_deleted_at r of
        None \<Rightarrow> Inl Database
      | Some t \<Rightarrow> rbind (corrupt (revision_new (nr_revision r))) (\<lambda>rvn.
          Inr \<lparr>del_note_id = nr_id r, del_title = nr_title r, del_deleted_at = t,
            del_purge_at = i64_saturating_add t soft_delete_retention_ms, del_revision = rvn\<rparr>))"

definition list_owned_deleted_notes :: "actor \<Rightarrow> db \<Rightarrow> store_error + deleted_note_entry list" where
  "list_owned_deleted_notes act d = traverse deleted_note_entry_from_row
     (sort_key (\<lambda>r. - (case nr_deleted_at r of None \<Rightarrow> 0 | Some t \<Rightarrow> t)) (sort_key nr_id
        (select_where (\<lambda>r. nr_deleted_at r \<noteq> None \<and> nr_creator r = actor_id act) (db_notes d))))"

definition visible_notes_by_id :: "url_parser \<Rightarrow> actor \<Rightarrow> note_id list \<Rightarrow> db \<Rightarrow> store_error + note_rec list" where
  "visible_notes_by_id pu act ids d =
     (if ids = [] then Inr []
      else traverse (note_from_row pu) (sort_key (\<lambda>nd. nr_id (nd_row nd))
        (List.map_filter (note_details_of d) (select_where (\<lambda>r. nr_deleted_at r = None \<and> nr_id r \<in> set ids
           \<and> has_access d (nr_id r) (actor_id act)) (db_notes d)))))"

record related_notes =
  rel_outgoing :: "note_summary list"
  rel_incoming :: "note_summary list"

record note_view_rec =
  nv_note :: note_rec
  nv_access :: note_access
  nv_targets :: "note_rec list"
  nv_related :: related_notes

text \<open>The readable notes a note refers to, and the readable notes that refer to it.\<close>

definition target_rows :: "db \<Rightarrow> int \<Rightarrow> note_id \<Rightarrow> note_details list" where
  "target_rows d p nid = sort_key (\<lambda>nd. nr_id (nd_row nd))
     (List.map_filter (\<lambda>(s, t). if s = nid then Option.bind (find_note d t) (\<lambda>r.
          if nr_deleted_at r = None \<and> has_access d t p then note_details_of d r else None) else None)
        (db_references d))"

definition source_rows :: "db \<Rightarrow> int \<Rightarrow> note_id \<Rightarrow> note_row list" where
  "source_rows d p nid = newest_first id
     (List.map_filter (\<lambda>(s, t). if t = nid then Option.bind (find_note d s) (\<lambda>r.
          if nr_deleted_at r = None \<and> has_access d s p then Some r else None) else None)
        (db_references d))"

definition note_view_snapshot :: "url_parser \<Rightarrow> actor \<Rightarrow> note_id \<Rightarrow> db \<Rightarrow> store_error + note_view_rec option" where
  "note_view_snapshot pu act nid d =
     rbind (accessible_note pu act nid d) (\<lambda>found.
       case found of
         None \<Rightarrow> Inr None
       | Some an \<Rightarrow>
           rbind (traverse (note_from_row pu) (target_rows d (actor_id act) nid)) (\<lambda>targets.
           rbind (traverse note_summary_from_row (source_rows d (actor_id act) nid)) (\<lambda>incoming.
           Inr (Some \<lparr>nv_note = an_note an, nv_access = an_access an, nv_targets = targets,
             nv_related = \<lparr>rel_outgoing = map summary_of_note targets, rel_incoming = incoming\<rparr>\<rparr>))))"

section \<open>Sorting by two keys\<close>

lemma sorted_two_keys:
  assumes "sorted (map f ys)" "\<And>k. sorted_wrt Q (filter (\<lambda>y. f y = k) ys)"
  shows "sorted_wrt (\<lambda>a b. f a < f b \<or> f a = f b \<and> Q a b) ys"
  using assms
proof (induction ys)
  case (Cons y ys)
  have "sorted_wrt Q (filter (\<lambda>y. f y = k) ys)" for k
    using Cons.prems(2) [of k] by (cases "f y = k") simp_all
  then have "sorted_wrt (\<lambda>a b. f a < f b \<or> f a = f b \<and> Q a b) ys"
    using Cons.IH Cons.prems(1) by simp
  moreover have "f y < f z \<or> f y = f z \<and> Q y z" if "z \<in> set ys" for z
    using Cons.prems(1) Cons.prems(2) [of "f y"] that by (auto simp: less_le)
  ultimately show ?case by simp
qed simp

lemma sorted_wrt_strict:
  assumes "distinct (map g ys)" "sorted (map g ys)"
  shows "sorted_wrt (\<lambda>a b. g a < (g b :: 'k::linorder)) ys"
  using assms by (induction ys) (auto simp: less_le image_iff)

lemma newest_first_sorted:
  assumes "distinct (map (\<lambda>x. nr_id (row x)) xs)"
  shows "sorted_wrt (\<lambda>a b. nr_updated_at (row b) < nr_updated_at (row a)
     \<or> nr_updated_at (row a) = nr_updated_at (row b) \<and> nr_id (row a) < nr_id (row b)) (newest_first row xs)"
proof -
  let ?ys = "sort_key (\<lambda>x. nr_id (row x)) xs"
  have "distinct (map (\<lambda>x. nr_id (row x)) ?ys)"
    using assms by (metis distinct_map distinct_sort set_sort)
  then have s: "sorted_wrt (\<lambda>a b. nr_id (row a) < nr_id (row b)) ?ys"
    by (rule sorted_wrt_strict) simp
  have "sorted_wrt (\<lambda>a b. - nr_updated_at (row a) < - nr_updated_at (row b)
      \<or> - nr_updated_at (row a) = - nr_updated_at (row b) \<and> nr_id (row a) < nr_id (row b)) (newest_first row xs)"
    unfolding newest_first_def
  proof (rule sorted_two_keys)
    show "sorted_wrt (\<lambda>a b. nr_id (row a) < nr_id (row b))
        (filter (\<lambda>y. - nr_updated_at (row y) = k) (sort_key (\<lambda>x. - nr_updated_at (row x)) ?ys))" for k
      unfolding sort_key_stable using s by (rule sorted_wrt_filter)
  qed simp
  then show ?thesis by (simp add: eq_commute)
qed

lemma set_newest_first [simp]: "set (newest_first row xs) = set xs"
  by (simp add: newest_first_def)

lemma traverse_all: "(\<And>x. x \<in> set xs \<Longrightarrow> f x = Inr (g x)) \<Longrightarrow> traverse f xs = Inr (map g xs)"
  by (simp add: traverse_Inr_iff list_all2_conv_all_nth)

section \<open>Summary columns agree with the note\<close>

lemma note_from_row_reviewed:
  assumes "note_from_row pu nd = Inr n"
  shows "map_option rv_revision (note_last_review n) = nr_reviewed_revision (nd_row nd)"
    "map_option rv_reviewed_at (note_last_review n) = nr_reviewed_at (nd_row nd)"
    "nr_tracking_known (nd_row nd) \<or> nr_reviewed_revision (nd_row nd) = None"
proof -
  let ?r = "nd_row nd"
  from assms obtain rrev rid rvw own where
    rv: "opt_result revision_new (nr_reviewed_revision ?r) = Inr rrev"
      "review_from_columns pu (nr_tracking_known ?r) rrev (nr_reviewed_at ?r)
         (nd_reviewer_issuer nd) (nd_reviewer_subject nd) rid = Inr rvw"
    and res: "note_restore (nr_id ?r) own
        \<lparr>d_source = nr_source ?r, d_title = nr_title ?r, d_tags = nr_tags ?r\<rparr>
        (nr_created_at ?r) (nr_updated_at ?r) (nr_revision ?r) (nr_deleted_at ?r) (nr_created_via ?r) rvw = Inr n"
    by (auto simp: note_from_row_def Let_def rbind_Inr_iff corrupt_def map_err_Inr_iff
        principal_id_new_Inr_iff revision_new_def split: if_splits)
  have n: "note_last_review n = last_review_of rvw"
    using res by (auto simp: note_restore_def note_last_review_def split: if_splits)
  have rr: "rrev = nr_reviewed_revision ?r"
    using rv(1) by (auto simp: opt_result_def revision_new_def split: option.splits if_splits)
  show "map_option rv_revision (note_last_review n) = nr_reviewed_revision ?r"
    "map_option rv_reviewed_at (note_last_review n) = nr_reviewed_at ?r"
    "nr_tracking_known ?r \<or> nr_reviewed_revision ?r = None"
    using rv(2) unfolding n rr
    by (auto simp: review_from_columns_def rbind_Inr_iff review_pending_def split: option.splits bool.splits if_splits)
qed

lemma summary_row_agrees:
  assumes "note_from_row pu nd = Inr n" "note_row_check (nd_row nd)"
  shows "note_summary_from_row (nd_row nd) = Inr (summary_of_note n)"
proof -
  let ?r = "nd_row nd"
  note cols = note_from_row_Inr [OF assms(1)] and rvd = note_from_row_reviewed [OF assms(1)]
  have rev: "1 \<le> nr_revision ?r" using assms(2) by (simp add: note_row_check_def)
  have rr: "1 \<le> k \<and> k \<le> nr_revision ?r" if "nr_reviewed_revision ?r = Some k" for k
    using assms(2) that by (auto simp: note_row_check_def)
  have "review_status_of_columns (nr_tracking_known ?r) (nr_reviewed_revision ?r) (nr_revision ?r)
      = Inr (note_review_status n)"
    using rvd(3) rr unfolding cols(12)
    by (cases "nr_tracking_known ?r"; cases "nr_reviewed_revision ?r") (auto simp: less_le)
  moreover have "opt_result revision_new (nr_reviewed_revision ?r) = Inr (nr_reviewed_revision ?r)"
    using rr by (cases "nr_reviewed_revision ?r") (auto simp: opt_result_def revision_new_Inr)
  ultimately show ?thesis
    using rev rvd(1,2) cols by (simp add: note_summary_from_row_def corrupt_def revision_new_Inr summary_of_note_def)
qed

end
