(* ===== verification/NoteListingProps.thy ===== *)
theory NoteListingProps
  imports NoteListing
begin

text \<open>
  The listing is exactly what reading every note one by one would give: the same notes, the same access,
  the same summaries, the filters as the domain model defines them, in a total order.
\<close>

section \<open>Every principal has at most one access row per note\<close>

definition access_key :: "note_id \<times> int \<times> int \<Rightarrow> note_id \<times> int" where
  "access_key = (\<lambda>(n, q, l). (n, q))"

lemma distinct_access:
  assumes "store_ok pu d"
  shows "distinct (map access_key (note_access d))"
proof -
  note okn = store_okD(2) [OF assms] and oka = store_okD(3) [OF assms]
  have keys: "map access_key (note_access d)
      = map (\<lambda>r. (nr_id r, nr_creator r)) (db_notes d) @ map (\<lambda>a. (ar_note a, ar_principal a)) (db_acl d)"
    by (simp add: note_access_def access_key_def)
  have "distinct (map (\<lambda>r. (nr_id r, nr_creator r)) (db_notes d))"
    using okn by (auto simp: notes_ok_def distinct_map inj_on_def)
  moreover have "distinct (map (\<lambda>a. (ar_note a, ar_principal a)) (db_acl d))"
    using oka by (simp add: acl_ok_def)
  moreover have "(nr_id r, nr_creator r) \<noteq> (ar_note a, ar_principal a)"
    if "r \<in> set (db_notes d)" "a \<in> set (db_acl d)" for r a
    using oka that find_note_iff [OF okn, of "nr_id r" r] by (auto simp: acl_ok_def)
  ultimately show ?thesis unfolding keys by (auto simp: image_iff)
qed

lemma filter_unique:
  "distinct (map k xs) \<Longrightarrow> filter (\<lambda>x. k x = v) xs = (case find (\<lambda>x. k x = v) xs of None \<Rightarrow> [] | Some x \<Rightarrow> [x])"
proof (induction xs)
  case (Cons x xs)
  show ?case
  proof (cases "k x = v")
    case True
    with Cons.prems have "filter (\<lambda>x. k x = v) xs = []" by (auto simp: filter_empty_conv image_iff)
    with True show ?thesis by simp
  next
    case False
    with Cons show ?thesis by simp
  qed
qed simp

lemma access_join_rows:
  assumes "store_ok pu d"
  shows "access_join d p = List.map_filter (\<lambda>r. map_option (Pair r) (access_row d (nr_id r) p)) (db_notes d)"
proof -
  have rows: "map (\<lambda>(n, q, l). (r, l)) (filter (\<lambda>(n, q, l). n = nr_id r \<and> q = p) (note_access d))
      = (case map_option (Pair r) (access_row d (nr_id r) p) of None \<Rightarrow> [] | Some x \<Rightarrow> [x])" for r
  proof -
    have k: "(\<lambda>(n, q, l). n = nr_id r \<and> q = p) = (\<lambda>x. access_key x = (nr_id r, p))"
      by (auto simp: access_key_def)
    show ?thesis
      unfolding access_row_def k filter_unique [OF distinct_access [OF assms]]
      by (auto split: option.split)
  qed
  have "concat (map (\<lambda>r. case f r of None \<Rightarrow> [] | Some x \<Rightarrow> [x]) rs) = List.map_filter f rs"
    for f :: "note_row \<Rightarrow> (note_row \<times> int) option" and rs
    by (induction rs) (auto simp: List.map_filter_simps split: option.split)
  then show ?thesis unfolding access_join_def rows .
qed

lemma access_row_has: "access_row d n p \<noteq> None \<longleftrightarrow> has_access d n p"
  by (auto simp: access_row_def has_access_iff find_None_iff)

lemma set_access_join:
  assumes "store_ok pu d"
  shows "(r, l) \<in> set (access_join d p) \<longleftrightarrow> r \<in> set (db_notes d) \<and> access_row d (nr_id r) p = Some l"
  unfolding access_join_rows [OF assms] by (auto simp: List.map_filter_def image_iff)

lemma distinct_access_join:
  assumes "store_ok pu d"
  shows "distinct (map (\<lambda>x. nr_id (fst x)) (access_join d p))"
proof -
  have "map (\<lambda>x. nr_id (fst x)) (List.map_filter (\<lambda>r. map_option (Pair r) (f r)) rs)
      = map nr_id (filter (\<lambda>r. f r \<noteq> None) rs)" for f :: "note_row \<Rightarrow> int option" and rs
    by (induction rs) (auto simp: List.map_filter_simps split: option.split)
  moreover have "distinct (map nr_id (db_notes d))" using store_okD(2) [OF assms] by (simp add: notes_ok_def)
  ultimately show ?thesis
    unfolding access_join_rows [OF assms] by (simp add: distinct_map_filter)
qed

section \<open>Reading one note\<close>

definition listing_entry :: "accessible_note_rec \<Rightarrow> note_list_entry" where
  "listing_entry an = \<lparr>le_summary = summary_of_note (an_note an), le_access = an_access an\<rparr>"

definition query_matches :: "note_list_query \<Rightarrow> note_rec \<Rightarrow> bool" where
  "query_matches q n \<longleftrightarrow> (case lq_created_via q of None \<Rightarrow> True | Some v \<Rightarrow> n_created_via n = v)
     \<and> (case lq_review_status q of None \<Rightarrow> True | Some st \<Rightarrow> note_review_status n = st)"

lemma readable_note:
  assumes "store_ok pu d" "r \<in> set (db_notes d)"
  obtains nd n where "fetch_details d (nr_id r) = Some nd" "nd_row nd = r" "note_from_row pu nd = Inr n"
    "note_row_check r" "n_id n = nr_id r"
proof -
  note okn = store_okD(2) [OF assms(1)]
  have f: "find_note d (nr_id r) = Some r" using find_note_iff [OF okn] assms(2) by simp
  obtain n where n: "fetch_note pu (nr_id r) d = Inr n" using notes_okD(4) [OF okn f] by blast
  then obtain nd where nd: "fetch_details d (nr_id r) = Some nd" "note_from_row pu nd = Inr n"
    by (auto simp: fetch_note_def rbind_Inr_iff ok_or_Inr_iff)
  then have "nd_row nd = r"
    using f by (auto simp: fetch_details_def note_details_of_def Let_def bind_eq_Some_conv)
  with nd note_from_row_Inr(1) [OF nd(2)] notes_okD(1) [OF okn f] that show thesis by simp
qed

lemma conditions_match:
  assumes "note_from_row pu nd = Inr n"
  shows "via_condition (lq_created_via q) (nd_row nd) \<and> status_condition (lq_review_status q) (nd_row nd)
    \<longleftrightarrow> query_matches q n"
proof -
  have "status_condition st (nd_row nd) \<longleftrightarrow> (case st of None \<Rightarrow> True | Some s \<Rightarrow> note_review_status n = s)" for st
    unfolding note_from_row_Inr(12) [OF assms]
    by (cases "(st, nd_row nd)" rule: status_condition.cases) auto
  then show ?thesis
    by (simp add: via_condition_def query_matches_def note_from_row_Inr(10) [OF assms] split: option.split)
qed

lemma accessible_note_iff:
  assumes "store_ok pu d"
  shows "accessible_note pu act nid d = Inr (Some an) \<longleftrightarrow> (\<exists>r l nd. r \<in> set (db_notes d) \<and> nr_id r = nid
     \<and> nr_deleted_at r = None \<and> access_row d nid (actor_id act) = Some l
     \<and> fetch_details d nid = Some nd \<and> nd_row nd = r
     \<and> access_from_level l = Inr (an_access an) \<and> note_from_row pu nd = Inr (an_note an))"
  (is "?L \<longleftrightarrow> ?R")
proof
  assume ?L
  then obtain nd l where nd: "fetch_details d nid = Some nd" "nr_deleted_at (nd_row nd) = None"
      "access_row d nid (actor_id act) = Some l" "access_from_level l = Inr (an_access an)"
      "note_from_row pu nd = Inr (an_note an)"
    by (auto simp: accessible_note_def rbind_Inr_iff split: option.splits if_splits)
  then have "find_note d nid = Some (nd_row nd)"
    by (auto simp: fetch_details_def note_details_of_def Let_def bind_eq_Some_conv)
  with nd find_note_iff [OF store_okD(2) [OF assms]] show ?R by blast
next
  assume ?R
  then show ?L by (auto simp: accessible_note_def)
qed

lemma list_row_reads:
  assumes "store_ok pu d" "(r, l) \<in> set (access_join d (actor_id act))" "nr_deleted_at r = None"
  shows "\<exists>an. accessible_note pu act (nr_id r) d = Inr (Some an)
    \<and> note_list_entry_from_row (r, l) = Inr (listing_entry an)
    \<and> (via_condition (lq_created_via q) r \<and> status_condition (lq_review_status q) r \<longleftrightarrow> query_matches q (an_note an))
    \<and> n_id (an_note an) = nr_id r"
proof -
  from assms(2) have r: "r \<in> set (db_notes d)" "access_row d (nr_id r) (actor_id act) = Some l"
    using set_access_join [OF assms(1)] by auto
  obtain nd n where nd: "fetch_details d (nr_id r) = Some nd" "nd_row nd = r" "note_from_row pu nd = Inr n"
    "note_row_check r" "n_id n = nr_id r" using readable_note [OF assms(1) r(1)] .
  obtain a where a: "access_from_level l = Inr a" using access_row_level [OF r(2)] ..
  have "accessible_note pu act (nr_id r) d = Inr (Some \<lparr>an_note = n, an_access = a\<rparr>)"
    unfolding accessible_note_iff [OF assms(1)] using r nd a assms(3) by auto
  moreover have "note_list_entry_from_row (r, l) = Inr (listing_entry \<lparr>an_note = n, an_access = a\<rparr>)"
    using summary_row_agrees [OF nd(3)] nd(2,4) a by (simp add: note_list_entry_from_row_def listing_entry_def)
  moreover have "via_condition (lq_created_via q) r \<and> status_condition (lq_review_status q) r \<longleftrightarrow> query_matches q n"
    using conditions_match [OF nd(3)] nd(2) by simp
  ultimately show ?thesis using nd(5) by (intro exI [of _ "\<lparr>an_note = n, an_access = a\<rparr>"]) simp
qed

text \<open>The rows of the listing, read one by one.\<close>

lemma set_listed_rows:
  assumes "store_ok pu d"
  shows "x \<in> set (listed_rows act q d) \<longleftrightarrow> x \<in> set (access_join d (actor_id act)) \<and> nr_deleted_at (fst x) = None
     \<and> via_condition (lq_created_via q) (fst x) \<and> status_condition (lq_review_status q) (fst x)"
  by (cases x) (simp add: listed_rows_def)

lemma listed_row_reads:
  assumes "store_ok pu d" "x \<in> set (listed_rows act q d)"
  shows "\<exists>an. accessible_note pu act (nr_id (fst x)) d = Inr (Some an)
    \<and> note_list_entry_from_row x = Inr (listing_entry an) \<and> query_matches q (an_note an)
    \<and> s_note_id (le_summary (listing_entry an)) = nr_id (fst x)
    \<and> s_updated_at (le_summary (listing_entry an)) = nr_updated_at (fst x)"
proof -
  obtain r l where x: "x = (r, l)" by (cases x)
  have c: "(r, l) \<in> set (access_join d (actor_id act))" "nr_deleted_at r = None"
    "via_condition (lq_created_via q) r" "status_condition (lq_review_status q) r"
    using assms(2) unfolding set_listed_rows [OF assms(1)] x by simp_all
  obtain an where an: "accessible_note pu act (nr_id r) d = Inr (Some an)"
      "note_list_entry_from_row (r, l) = Inr (listing_entry an)" "query_matches q (an_note an)"
    using list_row_reads [OF assms(1) c(1,2), of q] c(3,4) by blast
  from an(1) obtain r' nd where nd: "r' \<in> set (db_notes d)" "nr_id r' = nr_id r" "nd_row nd = r'"
      "note_from_row pu nd = Inr (an_note an)"
    unfolding accessible_note_iff [OF assms(1)] by blast
  have "r' = r"
    using nd(1,2) c(1) set_access_join [OF assms(1)] store_okD(2) [OF assms(1)]
    by (auto simp: notes_ok_def distinct_map inj_on_def)
  with an nd note_from_row_Inr(1,7) [OF nd(4)] show ?thesis
    by (intro exI [of _ an]) (simp add: x listing_entry_def summary_of_note_def)
qed

lemma listed_rows_complete:
  assumes "store_ok pu d" "accessible_note pu act nid d = Inr (Some an)" "query_matches q (an_note an)"
  shows "\<exists>x\<in>set (listed_rows act q d). nr_id (fst x) = nid"
proof -
  from assms(2) obtain r l nd where r: "r \<in> set (db_notes d)" "nr_id r = nid" "nr_deleted_at r = None"
      "access_row d nid (actor_id act) = Some l" "nd_row nd = r" "note_from_row pu nd = Inr (an_note an)"
    unfolding accessible_note_iff [OF assms(1)] by blast
  have "(r, l) \<in> set (listed_rows act q d)"
    unfolding set_listed_rows [OF assms(1)]
    using set_access_join [OF assms(1)] conditions_match [OF r(6), of q] assms(3) r by auto
  then show ?thesis using r(2) by force
qed

lemma listed_rows_sorted:
  assumes "store_ok pu d"
  shows "sorted_wrt (\<lambda>a b. nr_updated_at (fst b) < nr_updated_at (fst a)
     \<or> nr_updated_at (fst a) = nr_updated_at (fst b) \<and> nr_id (fst a) < nr_id (fst b)) (listed_rows act q d)"
  unfolding listed_rows_def
  by (rule newest_first_sorted) (rule distinct_map_filter [OF distinct_access_join [OF assms]])

text \<open>
  C28: the listing is exact.  In every reachable database it succeeds and returns, for the notes the
  principal can read one by one and that match the query, exactly the summary and the access level of
  that reading, each note once, newest first and by id among notes of the same time.
\<close>

theorem listing_is_exact:
  assumes "store_steps pu empty_db d"
  shows "\<exists>es. list_visible_notes act q d = Inr es
    \<and> (\<forall>e. e \<in> set es \<longleftrightarrow> (\<exists>nid an. accessible_note pu act nid d = Inr (Some an)
          \<and> query_matches q (an_note an) \<and> e = listing_entry an))
    \<and> sorted_wrt (\<lambda>a b. s_updated_at (le_summary b) < s_updated_at (le_summary a)
          \<or> s_updated_at (le_summary a) = s_updated_at (le_summary b)
            \<and> s_note_id (le_summary a) < s_note_id (le_summary b)) es"
proof -
  have ok: "store_ok pu d" using store_steps_ok [OF assms empty_store_ok] by blast
  let ?rows = "listed_rows act q d"
  obtain f where f: "\<And>x. x \<in> set ?rows \<Longrightarrow> accessible_note pu act (nr_id (fst x)) d = Inr (Some (f x))
      \<and> note_list_entry_from_row x = Inr (listing_entry (f x)) \<and> query_matches q (an_note (f x))
      \<and> s_note_id (le_summary (listing_entry (f x))) = nr_id (fst x)
      \<and> s_updated_at (le_summary (listing_entry (f x))) = nr_updated_at (fst x)"
    using listed_row_reads [OF ok, of _ act q] by metis
  let ?es = "map (\<lambda>x. listing_entry (f x)) ?rows"
  have "list_visible_notes act q d = Inr ?es"
    unfolding list_visible_notes_def by (rule traverse_all) (use f in blast)
  moreover have "e \<in> set ?es \<longleftrightarrow> (\<exists>nid an. accessible_note pu act nid d = Inr (Some an)
          \<and> query_matches q (an_note an) \<and> e = listing_entry an)" for e
  proof
    assume "e \<in> set ?es"
    then obtain x where "x \<in> set ?rows" "e = listing_entry (f x)" by auto
    with f show "\<exists>nid an. accessible_note pu act nid d = Inr (Some an) \<and> query_matches q (an_note an) \<and> e = listing_entry an"
      by blast
  next
    assume "\<exists>nid an. accessible_note pu act nid d = Inr (Some an) \<and> query_matches q (an_note an) \<and> e = listing_entry an"
    then obtain nid an where an: "accessible_note pu act nid d = Inr (Some an)" "query_matches q (an_note an)"
      "e = listing_entry an" by blast
    obtain x where x: "x \<in> set ?rows" "nr_id (fst x) = nid"
      using listed_rows_complete [OF ok an(1,2)] by blast
    have "f x = an" using f [OF x(1)] an(1) x(2) by simp
    with x(1) an(3) show "e \<in> set ?es" by auto
  qed
  moreover have "sorted_wrt (\<lambda>a b. s_updated_at (le_summary b) < s_updated_at (le_summary a)
      \<or> s_updated_at (le_summary a) = s_updated_at (le_summary b)
        \<and> s_note_id (le_summary a) < s_note_id (le_summary b)) ?es"
    unfolding sorted_wrt_map using f
    by (intro sorted_wrt_mono_rel [OF _ listed_rows_sorted [OF ok]]) simp
  ultimately show ?thesis by blast
qed

lemma listing_is_exact_witness:
  "\<exists>es. list_visible_notes (sample_actor 1) \<lparr>lq_created_via = None, lq_review_status = Some ReviewPending\<rparr> sample_db = Inr es"
  using listing_is_exact [OF sample_reachable] by blast

end
