(* ===== verification/AttachmentProps.thy ===== *)
theory AttachmentProps
  imports AttachmentInv NoteListingProps
begin

text \<open>
  Attached images over every interleaving of note transactions, uploads, discards and sweeps: the
  invariant, what a client reads back, and what a purge of deleted notes does.
\<close>

section \<open>Tables beside the attachments\<close>

lemma find_note_attachments [simp]: "find_note (d\<lparr>db_attachments := x\<rparr>) = find_note d"
  by (rule ext) (simp add: find_note_def)

lemma access_attachments [simp]:
  "note_access (d\<lparr>db_attachments := x\<rparr>) = note_access d"
  "has_access (d\<lparr>db_attachments := x\<rparr>) = has_access d"
  "visible (d\<lparr>db_attachments := x\<rparr>) = visible d"
  "access_at_least (d\<lparr>db_attachments := x\<rparr>) = access_at_least d"
  by (simp_all add: fun_eq_iff note_access_def has_access_def visible_def access_at_least_def)

lemma store_ok_attachments [simp]: "store_ok pu (d\<lparr>db_attachments := x\<rparr>) = store_ok pu d"
proof -
  have "fetch_note pu n (d\<lparr>db_attachments := x\<rparr>) = fetch_note pu n d" for n
    by (rule fetch_note_cong) simp_all
  moreover have "principals_ok pu (d\<lparr>db_attachments := x\<rparr>) = principals_ok pu d"
    by (simp add: principals_ok_def primary_identity_row_def)
  moreover have "sync_ok (d\<lparr>db_attachments := x\<rparr>) = sync_ok d"
    by (simp add: sync_ok_def)
  ultimately show ?thesis
    by (simp add: store_ok_def notes_ok_def acl_ok_def history_ok_def note_history_def)
qed

section \<open>The invariant\<close>

definition media_ok :: "url_parser \<Rightarrow> (rstr \<Rightarrow> rstr) \<Rightarrow> (u8 list \<Rightarrow> u8 list) \<Rightarrow> db \<Rightarrow> bool" where
  "media_ok pu nfc sha256 d \<longleftrightarrow> store_ok pu d \<and> attachments_ok nfc sha256 d \<and> refs_ok d"

lemma empty_media_ok: "media_ok pu nfc sha256 empty_db"
  by (simp add: media_ok_def empty_store_ok)
    (simp add: attachments_ok_def quotas_ok_def refs_ok_def empty_db_def note_attachment_rows_def select_where_def total_bytes_def)

lemma note_rows_cong: "db_attachments e = db_attachments d \<Longrightarrow> note_attachment_rows nid e = note_attachment_rows nid d"
  by (simp add: note_attachment_rows_def)

lemma attachments_ok_frame:
  assumes "attachments_ok nfc sha256 d" "db_attachments e = db_attachments d" "extends d e"
  shows "attachments_ok nfc sha256 e"
proof -
  have "quotas_ok e"
    using assms(1,2) by (simp add: attachments_ok_def quotas_ok_def total_bytes_def note_rows_cong [OF assms(2)])
  moreover have "find_note e n \<noteq> None" if "find_note d n \<noteq> None" for n
    using assms(3) that unfolding extends_def by fastforce
  ultimately show ?thesis using assms unfolding attachments_ok_def extends_def by simp
qed

lemma sum_list_delete_where:
  "\<forall>x\<in>set xs. (0::int) \<le> f x \<Longrightarrow> sum_list (map f (delete_where p xs)) \<le> sum_list (map f xs)"
  by (induction xs) (auto simp: delete_where_def)

lemma note_rows_delete:
  "note_attachment_rows nid (d\<lparr>db_attachments := delete_where p (db_attachments d)\<rparr>)
     = delete_where p (note_attachment_rows nid d)"
  by (auto simp: note_attachment_rows_def select_where_def delete_where_def conj_commute intro: filter_cong)

text \<open>Deleting attachments no revision refers to.\<close>

lemma delete_attachments_ok:
  assumes "media_ok pu nfc sha256 d"
    and unused: "\<forall>a\<in>set (db_attachments d). p a \<longrightarrow> \<not> attachment_referenced d a"
  shows "media_ok pu nfc sha256 (d\<lparr>db_attachments := delete_where p (db_attachments d)\<rparr>)" (is "media_ok pu nfc sha256 ?e")
proof -
  have ok: "attachments_ok nfc sha256 d" "refs_ok d" "store_ok pu d" using assms(1) by (simp_all add: media_ok_def)
  have pos: "\<forall>a\<in>set (note_attachment_rows nid d). 0 \<le> at_byte_length a" for nid
    using ok(1) by (auto simp: attachments_ok_def note_attachment_rows_def set_select_where attachment_row_check_def)
  have "quotas_ok ?e"
    unfolding quotas_ok_def total_bytes_def note_rows_delete
  proof (intro allI conjI)
    fix nid
    have q: "length (note_attachment_rows nid d) \<le> 32" "total_bytes nid d \<le> 67108864"
      using ok(1) by (simp_all add: attachments_ok_def quotas_ok_def)
    have "length (delete_where p (note_attachment_rows nid d)) \<le> length (note_attachment_rows nid d)"
      by (simp add: delete_where_def)
    then show "length (delete_where p (note_attachment_rows nid d)) \<le> 32" using q(1) by simp
    show "sum_list (map at_byte_length (delete_where p (note_attachment_rows nid d))) \<le> 67108864"
      using sum_list_delete_where [OF pos, of p nid] q(2) by (simp add: total_bytes_def)
  qed
  moreover have "distinct (map at_id (db_attachments ?e))"
    using ok(1) by (simp add: attachments_ok_def distinct_map_delete_where)
  ultimately have "attachments_ok nfc sha256 ?e"
    using ok(1) by (auto simp: attachments_ok_def set_delete_where)
  moreover have "refs_ok ?e"
    using ok(2) unused
    by (fastforce simp: refs_ok_def set_delete_where attachment_referenced_def exists_where_iff)
  ultimately show ?thesis using ok(3) by (simp add: media_ok_def)
qed

section \<open>Uploads\<close>

text \<open>The attachment an accepted draft becomes.\<close>

definition stored_of ::
  "(u8 list \<Rightarrow> u8 list) \<Rightarrow> attachment_draft \<Rightarrow> attachment_id \<Rightarrow> note_id \<Rightarrow> unix_millis \<Rightarrow> actor \<Rightarrow> stored_attachment" where
  "stored_of sha256 draft aid nid now act = \<lparr>sa_metadata = \<lparr>am_id = aid, am_note = nid,
     am_file_name = ad_file_name draft, am_media_type = ad_media_type draft,
     am_byte_length = length (ad_bytes draft), am_sha256 = sha256 (ad_bytes draft),
     am_created_at = now, am_created_by = actor_principal act\<rparr>, sa_bytes = ad_bytes draft\<rparr>"

lemma accepted_draft:
  assumes "nfc_stable nfc" "attachment_draft_new nfc name bytes = Inr draft"
  shows "attachment_into_stored nfc sha256 draft aid nid now (actor_principal act) = Some (stored_of sha256 draft aid nid now act)"
    "normalise_file_name nfc (ad_file_name draft) = ad_file_name draft" "\<not> file_name_rejected (ad_file_name draft)"
    "0 < length (ad_bytes draft)" "length (ad_bytes draft) \<le> 8388608" "ad_bytes draft = bytes"
    "media_type_detect (ad_bytes draft) = Some (ad_media_type draft)"
proof -
  from assms(2) have d: "ad_file_name draft = nfc (trim name)" "ad_bytes draft = bytes"
      "\<not> file_name_rejected (nfc (trim name))" "length bytes \<le> 8388608"
      "media_type_detect bytes = Some (ad_media_type draft)"
    by (auto simp: attachment_draft_new_Inr)
  have stable: "nfc (trim (nfc (trim name))) = nfc (trim name)"
    using assms(1) by (simp add: nfc_stable_def)
  show len: "0 < length (ad_bytes draft)" using d(2,5) media_type_detect_nonempty by blast
  show "normalise_file_name nfc (ad_file_name draft) = ad_file_name draft" "\<not> file_name_rejected (ad_file_name draft)"
    "length (ad_bytes draft) \<le> 8388608" "ad_bytes draft = bytes"
    "media_type_detect (ad_bytes draft) = Some (ad_media_type draft)"
    using d stable by (simp_all add: normalise_file_name_def)
  have "attachment_metadata_new nfc aid nid (ad_file_name draft) (ad_media_type draft) (length (ad_bytes draft))
      (sha256 (ad_bytes draft)) now (actor_principal act) = Inr (sa_metadata (stored_of sha256 draft aid nid now act))"
    using d stable len by (simp add: attachment_metadata_new_Inr stored_of_def)
  then show "attachment_into_stored nfc sha256 draft aid nid now (actor_principal act) = Some (stored_of sha256 draft aid nid now act)"
    by (simp add: attachment_into_stored_def stored_of_def)
qed

lemma row_of_stored [simp]:
  "at_id (row_of_attachment (stored_of sha256 draft aid nid now act)) = aid"
  "at_note (row_of_attachment (stored_of sha256 draft aid nid now act)) = nid"
  "at_file_name (row_of_attachment (stored_of sha256 draft aid nid now act)) = ad_file_name draft"
  "at_media_type (row_of_attachment (stored_of sha256 draft aid nid now act)) = ad_media_type draft"
  "at_byte_length (row_of_attachment (stored_of sha256 draft aid nid now act)) = int (length (ad_bytes draft))"
  "at_sha256 (row_of_attachment (stored_of sha256 draft aid nid now act)) = sha256 (ad_bytes draft)"
  "at_content (row_of_attachment (stored_of sha256 draft aid nid now act)) = ad_bytes draft"
  "at_created_by (row_of_attachment (stored_of sha256 draft aid nid now act)) = actor_id act"
  by (simp_all add: row_of_attachment_def stored_of_def)

lemma quota_exceeded_iff:
  assumes "attachments_ok nfc sha256 d" "len \<le> 8388608"
  shows "quota_exceeded nid len d \<longleftrightarrow> 32 \<le> length (note_attachment_rows nid d) \<or> 67108864 < total_bytes nid d + int len"
proof -
  have pos: "\<forall>a\<in>set (note_attachment_rows nid d). 0 \<le> at_byte_length a"
    using assms(1) by (auto simp: attachments_ok_def note_attachment_rows_def set_select_where attachment_row_check_def)
  then have "0 \<le> total_bytes nid d" unfolding total_bytes_def by (intro sum_list_nonneg) auto
  moreover have "total_bytes nid d \<le> 67108864" using assms(1) by (simp add: attachments_ok_def quotas_ok_def)
  ultimately show ?thesis
    using assms(2) by (auto simp: quota_exceeded_def Let_def the_attachment_policy_def usize_max_def total_bytes_def [symmetric])
qed

lemma insert_attachment_ok:
  assumes "media_ok pu nfc sha256 d" "nfc_stable nfc" "\<forall>b. length (sha256 b) = 32"
    and draft: "attachment_draft_new nfc name bytes = Inr draft"
    and fresh: "\<forall>a\<in>set (db_attachments d). at_id a \<noteq> aid" and found: "find_note d nid \<noteq> None"
    and known: "actor_id act \<in> set (db_principals d)" and quota: "\<not> quota_exceeded nid (length bytes) d"
  shows "sql_insert_attachment (row_of_attachment (stored_of sha256 draft aid nid now act)) d
      = Inr (d\<lparr>db_attachments := db_attachments d @ [row_of_attachment (stored_of sha256 draft aid nid now act)]\<rparr>)"
      (is "sql_insert_attachment ?a d = Inr ?e")
    and "media_ok pu nfc sha256 (d\<lparr>db_attachments := db_attachments d @ [row_of_attachment (stored_of sha256 draft aid nid now act)]\<rparr>)"
proof -
  note a = accepted_draft [OF assms(2) draft]
  have ok: "attachments_ok nfc sha256 d" "refs_ok d" "store_ok pu d" using assms(1) by (simp_all add: media_ok_def)
  have name: "1 \<le> length (ad_file_name draft)" "length (ad_file_name draft) \<le> 200"
    "47 \<notin> set (ad_file_name draft)" "92 \<notin> set (ad_file_name draft)"
    using a(3) by (auto simp: file_name_rejected_def the_attachment_policy_def list_ex_iff Suc_le_eq)
  have check: "attachment_row_check ?a"
    using name a(4,5) assms(3) by (simp add: attachment_row_check_def Suc_le_eq)
  then show "sql_insert_attachment ?a d = Inr ?e"
    using fresh found known by (auto simp: sql_insert_attachment_def exists_where_iff)
  have rows: "note_attachment_rows k ?e = note_attachment_rows k d @ (if k = nid then [?a] else [])" for k
    by (simp add: note_attachment_rows_def select_where_def)
  have q: "length (note_attachment_rows nid d) < 32" "total_bytes nid d + int (length bytes) \<le> 67108864"
    using quota a(5,6) quota_exceeded_iff [OF ok(1), of "length bytes" nid] by auto
  have "quotas_ok ?e"
    using ok(1) q a(6) by (auto simp: attachments_ok_def quotas_ok_def total_bytes_def rows)
  then have "attachments_ok nfc sha256 ?e"
    using ok(1) check fresh found known a by (auto simp: attachments_ok_def content_ok_def)
  moreover have "refs_ok ?e" using ok(2) by (auto simp: refs_ok_def)
  ultimately show "media_ok pu nfc sha256 ?e" using ok(3) by (simp add: media_ok_def)
qed

section \<open>Who may upload\<close>

lemma access_row_at_least:
  assumes "store_ok pu d"
  shows "access_at_least d n p l \<longleftrightarrow> (\<exists>k. access_row d n p = Some k \<and> l \<le> k)"
proof -
  have u: "x = y" if "x \<in> set (note_access d)" "y \<in> set (note_access d)" "access_key x = access_key y" for x y
    using that distinct_access [OF assms] by (auto simp: distinct_map inj_on_def)
  show ?thesis
  proof
    assume "access_at_least d n p l"
    then obtain k where k: "(n, p, k) \<in> set (note_access d)" "l \<le> k"
      by (auto simp: access_at_least_def list_ex_iff)
    then obtain x where x: "find (\<lambda>(m, q, k). m = n \<and> q = p) (note_access d) = Some x"
      by (cases "find (\<lambda>(m, q, k). m = n \<and> q = p) (note_access d)") (auto simp: find_None_iff)
    from find_SomeD [OF x] have "x \<in> set (note_access d)" "access_key x = access_key (n, p, k)"
      by (auto simp: access_key_def)
    with u k(1) have "x = (n, p, k)" by blast
    with x k(2) show "\<exists>k. access_row d n p = Some k \<and> l \<le> k" by (simp add: access_row_def)
  next
    assume "\<exists>k. access_row d n p = Some k \<and> l \<le> k"
    then obtain x where "find (\<lambda>(m, q, k). m = n \<and> q = p) (note_access d) = Some x" "l \<le> snd (snd x)"
      by (auto simp: access_row_def)
    then show "access_at_least d n p l"
      by (auto simp: access_at_least_def list_ex_iff dest!: find_SomeD)
  qed
qed

text \<open>The check of the use case and the one of the transaction agree.\<close>

lemma editable_iff:
  assumes "store_ok pu d"
  shows "note_is_editable d act nid \<longleftrightarrow> (\<exists>an. accessible_note pu act nid d = Inr (Some an)
     \<and> note_access_allows (an_access an) AEdit)"
proof
  assume "note_is_editable d act nid"
  then obtain r where r: "r \<in> set (db_notes d)" "nr_id r = nid" "nr_deleted_at r = None"
      "access_at_least d nid (actor_id act) 2"
    by (auto simp: note_is_editable_def exists_where_iff)
  obtain l where l: "access_row d nid (actor_id act) = Some l" "2 \<le> l"
    using access_row_at_least [OF assms] r(4) by blast
  obtain a where a: "access_from_level l = Inr a" using access_row_level [OF l(1)] ..
  obtain nd n where nd: "fetch_details d (nr_id r) = Some nd" "nd_row nd = r" "note_from_row pu nd = Inr n"
    using readable_note [OF assms r(1)] .
  have "note_access_allows a AEdit"
    using a l(2) by (auto simp: access_from_level_def note_access_allows_def split: if_splits)
  moreover have "accessible_note pu act nid d = Inr (Some \<lparr>an_note = n, an_access = a\<rparr>)"
    unfolding accessible_note_iff [OF assms] using r l a nd by auto
  ultimately show "\<exists>an. accessible_note pu act nid d = Inr (Some an) \<and> note_access_allows (an_access an) AEdit"
    by fastforce
next
  assume "\<exists>an. accessible_note pu act nid d = Inr (Some an) \<and> note_access_allows (an_access an) AEdit"
  then obtain an where an: "accessible_note pu act nid d = Inr (Some an)" "note_access_allows (an_access an) AEdit"
    by blast
  from an(1) obtain r l where r: "r \<in> set (db_notes d)" "nr_id r = nid"
      "nr_deleted_at r = None" "access_row d nid (actor_id act) = Some l" "access_from_level l = Inr (an_access an)"
    unfolding accessible_note_iff [OF assms] by blast
  with an(2) have "2 \<le> l" by (auto simp: access_from_level_def note_access_allows_def split: if_splits)
  then have "access_at_least d nid (actor_id act) 2" using access_row_at_least [OF assms] r(4) by blast
  with r show "note_is_editable d act nid" by (auto simp: note_is_editable_def exists_where_iff)
qed

lemma accessible_not_deleted:
  assumes "store_ok pu d" "accessible_note pu act nid d = Inr (Some an)"
  shows "n_deleted_at (an_note an) = None"
proof -
  from assms(2) obtain r nd where "nr_deleted_at r = None" "nd_row nd = r" "note_from_row pu nd = Inr (an_note an)"
    unfolding accessible_note_iff [OF assms(1)] by blast
  then show ?thesis using note_from_row_Inr(9) by fastforce
qed

lemma accessible_total:
  assumes "store_ok pu d"
  shows "\<exists>x. accessible_note pu act nid d = Inr x"
proof (cases "fetch_details d nid")
  case (Some nd)
  then have f: "find_note d nid = Some (nd_row nd)"
    by (auto simp: fetch_details_def note_details_of_def Let_def bind_eq_Some_conv)
  obtain n where "fetch_note pu nid d = Inr n" using notes_okD(4) [OF store_okD(2) [OF assms] f] by blast
  with Some have "note_from_row pu nd = Inr n" by (auto simp: fetch_note_def rbind_Inr_iff)
  moreover have "\<exists>a. access_from_level l = Inr a" if "access_row d nid (actor_id act) = Some l" for l
    using access_row_level [OF that] .
  ultimately show ?thesis using Some by (fastforce simp: accessible_note_def split: option.split)
qed (simp add: accessible_note_def)

lemma upload_cases:
  assumes "media_ok pu nfc sha256 d" "nfc_stable nfc" "\<forall>b. length (sha256 b) = 32" "actor_known pu d act"
    and draft: "attachment_draft_new nfc name bytes = Inr draft"
  shows "upload_note_attachment pu nfc sha256 act nid draft aid now d =
    (if \<not> note_is_editable d act nid then Inl (UploadStorage StorageNotFound)
     else if 32 \<le> length (note_attachment_rows nid d) \<or> 67108864 < total_bytes nid d + int (length bytes)
       then Inl (UploadStorage StorageConflict)
     else if \<exists>a\<in>set (db_attachments d). at_id a = aid then Inl (UploadStorage StorageUnavailable)
     else Inr (sa_metadata (stored_of sha256 draft aid nid now act),
       d\<lparr>db_attachments := db_attachments d @ [row_of_attachment (stored_of sha256 draft aid nid now act)]\<rparr>))"
proof -
  let ?s = "stored_of sha256 draft aid nid now act"
  have ok: "store_ok pu d" "attachments_ok nfc sha256 d" using assms(1) by (simp_all add: media_ok_def)
  note a = accepted_draft [OF assms(2) draft]
  obtain x where x: "accessible_note pu act nid d = Inr x" using accessible_total [OF ok(1)] ..
  have first: "upload_note_attachment pu nfc sha256 act nid draft aid now d = (if note_is_editable d act nid
      then rbind (map_err (UploadStorage \<circ> storage_error_of) (create_note_attachment act ?s d)) (\<lambda>e. Inr (sa_metadata ?s, e))
      else Inl (UploadStorage StorageNotFound))"
    using x accessible_not_deleted [OF ok(1)] a(1) editable_iff [OF ok(1), of act nid]
    by (cases x) (auto simp: upload_note_attachment_def)
  have found: "find_note d nid \<noteq> None" if "note_is_editable d act nid"
    using that by (auto simp: note_is_editable_def exists_where_iff find_note_def row_by_None_iff)
  have create: "create_note_attachment act ?s d = (if quota_exceeded nid (length bytes) d then Inl Conflict
      else sql_insert_attachment (row_of_attachment ?s) d)" if "note_is_editable d act nid"
    using that a(5,6) by (simp add: create_note_attachment_def stored_of_def Let_def in_i64_def i64_min_def i64_max_def)
  have known: "actor_id act \<in> set (db_principals d)" using assms(4) by (simp add: actor_known_def)
  show ?thesis
  proof (cases "note_is_editable d act nid \<and> \<not> quota_exceeded nid (length bytes) d")
    case True
    show ?thesis
    proof (cases "\<exists>b\<in>set (db_attachments d). at_id b = aid")
      case taken: True
      then have "sql_insert_attachment (row_of_attachment ?s) d = Inl Database"
        by (simp add: sql_insert_attachment_def exists_where_iff)
      then show ?thesis
        using True taken quota_exceeded_iff [OF ok(2), of "length bytes" nid] a(5,6) first create
        by simp
    next
      case False
      then have fresh: "\<forall>b\<in>set (db_attachments d). at_id b \<noteq> aid" by blast
      note insert_attachment_ok(1) [OF assms(1-3) draft fresh found known]
      then show ?thesis
        using True False quota_exceeded_iff [OF ok(2), of "length bytes" nid] a(5,6) first create
        by simp
    qed
  next
    case False
    then show ?thesis
      using quota_exceeded_iff [OF ok(2), of "length bytes" nid] a(5,6) first create by auto
  qed
qed

section \<open>Reading back\<close>

lemma note_attachment_reads:
  assumes "media_ok pu nfc sha256 d" "a \<in> set (db_attachments d)" "note_is_readable d act (at_note a)"
  shows "\<exists>s. note_attachment pu nfc sha256 act (at_note a) (at_id a) d = Inr (Some s)
    \<and> row_of_attachment s = a"
proof -
  have ok: "store_ok pu d" "attachments_ok nfc sha256 d" using assms(1) by (simp_all add: media_ok_def)
  have a: "attachment_row_check a" "content_ok nfc sha256 a" "at_created_by a \<in> set (db_principals d)"
    "distinct (map at_id (db_attachments d))"
    using ok(2) assms(2) by (simp_all add: attachments_ok_def)
  have row: "row_by at_id (at_id a) (db_attachments d) = Some a"
    using row_by_Some_iff [OF a(4)] assms(2) by blast
  obtain i where i: "primary_identity_row d (at_created_by a) = Some i" "identity_ok pu (row_identity i)" "0 < at_created_by a"
    using store_okD(1) [OF ok(1)] a(3) by (auto simp: principals_ok_def)
  have name: "\<not> file_name_rejected (nfc (trim (at_file_name a)))" "nfc (trim (at_file_name a)) = at_file_name a"
    using a(2) by (simp_all add: content_ok_def normalise_file_name_def)
  have len: "1 \<le> at_byte_length a" "at_byte_length a \<le> 8388608" "int (length (at_content a)) = at_byte_length a"
      "length (at_sha256 a) = 32"
    using a(1) by (simp_all add: attachment_row_check_def)
  let ?m = "\<lparr>am_id = at_id a, am_note = at_note a, am_file_name = at_file_name a, am_media_type = at_media_type a,
      am_byte_length = nat (at_byte_length a), am_sha256 = at_sha256 a, am_created_at = at_created_at a,
      am_created_by = \<lparr>pref_id = at_created_by a, primary_identity = row_identity i\<rparr>\<rparr>"
  have "attachment_metadata_new nfc (at_id a) (at_note a) (at_file_name a) (at_media_type a) (nat (at_byte_length a))
      (at_sha256 a) (at_created_at a) \<lparr>pref_id = at_created_by a, primary_identity = row_identity i\<rparr> = Inr ?m"
    using name len by (simp add: attachment_metadata_new_Inr)
  then have meta: "metadata_from_row pu nfc (a, i) = Inr ?m"
    using len i by (simp add: metadata_from_row_def principal_id_new_def corrupt_def)
  have "length (at_content a) = nat (at_byte_length a)" using len by simp
  then have "stored_attachment_new sha256 ?m (at_content a) = Inr \<lparr>sa_metadata = ?m, sa_bytes = at_content a\<rparr>"
    using a(2) by (simp add: stored_attachment_new_def content_ok_def)
  then have "note_attachment pu nfc sha256 act (at_note a) (at_id a) d = Inr (Some \<lparr>sa_metadata = ?m, sa_bytes = at_content a\<rparr>)"
    using row assms(3) i(1) meta by (simp add: note_attachment_def with_creator_def corrupt_def)
  moreover have "row_of_attachment \<lparr>sa_metadata = ?m, sa_bytes = at_content a\<rparr> = a"
    using len by (simp add: row_of_attachment_def)
  ultimately show ?thesis by blast
qed

section \<open>All interleavings\<close>

inductive media_step :: "url_parser \<Rightarrow> (rstr \<Rightarrow> rstr) \<Rightarrow> (u8 list \<Rightarrow> u8 list) \<Rightarrow> db \<Rightarrow> db \<Rightarrow> bool"
  for pu :: url_parser and nfc :: "rstr \<Rightarrow> rstr" and sha256 :: "u8 list \<Rightarrow> u8 list" where
  media_note: "store_step pu d e \<Longrightarrow> media_step pu nfc sha256 d e"
| media_upload: "actor_known pu d act \<Longrightarrow> attachment_draft_new nfc name bytes = Inr draft
    \<Longrightarrow> upload_note_attachment pu nfc sha256 act nid draft aid now d = Inr (m, e) \<Longrightarrow> media_step pu nfc sha256 d e"
| media_discard: "delete_unused_note_attachment act nid aid d = Inr e \<Longrightarrow> media_step pu nfc sha256 d e"
| media_sweep: "purge_unreferenced_note_attachments_before cutoff d = (n, e) \<Longrightarrow> media_step pu nfc sha256 d e"

abbreviation media_steps :: "url_parser \<Rightarrow> (rstr \<Rightarrow> rstr) \<Rightarrow> (u8 list \<Rightarrow> u8 list) \<Rightarrow> db \<Rightarrow> db \<Rightarrow> bool" where
  "media_steps pu nfc sha256 \<equiv> (media_step pu nfc sha256)\<^sup>*\<^sup>*"

text \<open>The attachments a revision refers to stay, with their rows.\<close>

definition keeps_referenced :: "db \<Rightarrow> db \<Rightarrow> bool" where
  "keeps_referenced d e \<longleftrightarrow> (\<forall>a\<in>set (db_attachments d). attachment_referenced d a
     \<longrightarrow> a \<in> set (db_attachments e) \<and> attachment_referenced e a)"

lemma keeps_referenced_refl [simp]: "keeps_referenced d d"
  by (simp add: keeps_referenced_def)

lemma keeps_referenced_trans: "keeps_referenced d e \<Longrightarrow> keeps_referenced e f \<Longrightarrow> keeps_referenced d f"
  by (simp add: keeps_referenced_def)

lemma referenced_attachments [simp]: "attachment_referenced (d\<lparr>db_attachments := x\<rparr>) = attachment_referenced d"
  by (rule ext) (simp add: attachment_referenced_def)

lemma keeps_referenced_delete:
  "\<forall>a\<in>set (db_attachments d). p a \<longrightarrow> \<not> attachment_referenced d a
   \<Longrightarrow> keeps_referenced d (d\<lparr>db_attachments := delete_where p (db_attachments d)\<rparr>)"
  by (auto simp: keeps_referenced_def set_delete_where)

lemma media_step_ok:
  assumes "media_step pu nfc sha256 d e" "media_ok pu nfc sha256 d" "nfc_stable nfc" "\<forall>b. length (sha256 b) = 32"
  shows "media_ok pu nfc sha256 e \<and> keeps_referenced d e"
  using assms(1)
proof cases
  case media_note
  have ok: "store_ok pu d" "attachments_ok nfc sha256 d" "refs_ok d" using assms(2) by (simp_all add: media_ok_def)
  have k: "refs_ok e" "keeps_attachments d e" using store_step_refs [OF media_note ok(3)] by simp_all
  then have eq: "db_attachments e = db_attachments d" by (simp add: keeps_attachments_def)
  have "attachments_ok nfc sha256 e"
    using ok(2) eq store_step_extends [OF media_note ok(1)] by (rule attachments_ok_frame)
  then have "media_ok pu nfc sha256 e" using store_step_ok [OF media_note ok(1)] k(1) by (simp add: media_ok_def)
  moreover have "keeps_referenced d e"
    using k(2) by (auto simp: keeps_referenced_def keeps_attachments_def attachment_referenced_def exists_where_iff)
  ultimately show ?thesis ..
next
  case (media_upload act name bytes draft nid aid now m)
  have ok: "store_ok pu d" "attachments_ok nfc sha256 d" using assms(2) by (simp_all add: media_ok_def)
  note a = accepted_draft [OF assms(3) media_upload(2)]
  from media_upload(3) [unfolded upload_cases [OF assms(2-4) media_upload(1,2)]]
  have u: "note_is_editable d act nid" "\<not> (32 \<le> length (note_attachment_rows nid d) \<or> 67108864 < total_bytes nid d + int (length bytes))"
    "\<forall>b\<in>set (db_attachments d). at_id b \<noteq> aid"
    and e: "e = d\<lparr>db_attachments := db_attachments d @ [row_of_attachment (stored_of sha256 draft aid nid now act)]\<rparr>"
    by (auto split: if_splits)
  have "find_note d nid \<noteq> None"
    using u(1) by (auto simp: note_is_editable_def exists_where_iff find_note_def row_by_None_iff)
  moreover have "actor_id act \<in> set (db_principals d)" using media_upload(1) by (simp add: actor_known_def)
  moreover have "\<not> quota_exceeded nid (length bytes) d"
    using u(2) quota_exceeded_iff [OF ok(2), of "length bytes" nid] a(5,6) by simp
  ultimately have "media_ok pu nfc sha256 e"
    unfolding e by (rule insert_attachment_ok(2) [OF assms(2-4) media_upload(2) u(3)])
  then show ?thesis by (simp add: e keeps_referenced_def)
next
  case (media_discard act nid aid)
  let ?p = "\<lambda>a. at_note a = nid \<and> at_id a = aid \<and> \<not> attachment_referenced d a"
  from media_discard have e: "e = d\<lparr>db_attachments := delete_where ?p (db_attachments d)\<rparr>"
    by (auto simp: delete_unused_note_attachment_def Let_def split: if_splits)
  show ?thesis unfolding e by (intro conjI delete_attachments_ok [OF assms(2)] keeps_referenced_delete) simp_all
next
  case (media_sweep cutoff n)
  let ?p = "\<lambda>a. at_created_at a < cutoff \<and> \<not> attachment_referenced d a"
  from media_sweep have e: "e = d\<lparr>db_attachments := delete_where ?p (db_attachments d)\<rparr>"
    by (auto simp: purge_unreferenced_note_attachments_before_def Let_def)
  show ?thesis unfolding e by (intro conjI delete_attachments_ok [OF assms(2)] keeps_referenced_delete) simp_all
qed

lemma media_steps_ok:
  assumes "media_steps pu nfc sha256 d e" "media_ok pu nfc sha256 d" "nfc_stable nfc" "\<forall>b. length (sha256 b) = 32"
  shows "media_ok pu nfc sha256 e \<and> keeps_referenced d e"
  using assms(1)
proof (induction rule: rtranclp_induct)
  case (step e f)
  then show ?case using media_step_ok [OF step(2) _ assms(3,4)] keeps_referenced_trans by blast
qed (simp add: assms(2))

end
