(* ===== verification/AttachmentSafety.thy ===== *)
theory AttachmentSafety
  imports AttachmentProps
begin

text \<open>
  The promises of attached images: quotas and consistency in every reachable database, uploads that read
  back, and the purge of deleted notes.
\<close>

section \<open>A concrete run\<close>

definition sample_bytes :: "u8 list" where
  "sample_bytes = png_signature @ [0, 0, 0, 13, 0x49, 0x48, 0x44, 0x52, 0, 0, 0, 1, 0, 0, 0, 1]"

definition sample_sha :: "u8 list \<Rightarrow> u8 list" where "sample_sha b = replicate 32 (of_nat (length b))"

definition sample_image :: attachment_draft where
  "sample_image = \<lparr>ad_file_name = lit ''a.png'', ad_media_type = Png, ad_bytes = sample_bytes\<rparr>"

definition image_links :: note_links where
  "image_links = \<lparr>nl_reference_targets = [], nl_cited_keys = [], nl_attachment_ids = [5]\<rparr>"

definition sample_with_image :: db where
  "sample_with_image = sample_db\<lparr>db_attachments := db_attachments sample_db
     @ [row_of_attachment (stored_of sample_sha sample_image 5 sample_note_id 1500 (sample_actor 1))]\<rparr>"

lemma dropWhile_clean: "(xs = [] \<or> \<not> P (hd xs)) \<Longrightarrow> dropWhile P xs = xs"
  by (cases xs) simp_all

lemma trim_idem: "trim (trim s) = trim s"
proof -
  let ?w = is_whitespace
  let ?t = "dropWhile ?w s"
  let ?u = "rev (dropWhile ?w (rev ?t))"
  obtain k where k: "?t = ?u @ k"
    by (metis append_take_drop_id dropWhile_eq_drop rev_append rev_rev_ident)
  have "?u = [] \<or> \<not> ?w (hd ?u)"
  proof (cases "?u = []")
    case False
    then have "hd ?u = hd ?t" by (subst k) simp
    moreover have "?t \<noteq> []" using False by (metis dropWhile.simps(1) rev.simps(1))
    then have "\<not> ?w (hd ?t)" by (rule hd_dropWhile)
    ultimately show ?thesis by simp
  qed simp
  then have "dropWhile ?w ?u = ?u" by (rule dropWhile_clean)
  then show ?thesis by (simp add: trim_def trim_start_def trim_end_def)
qed

lemma sample_nfc: "nfc_stable (\<lambda>s. s)"
  by (simp add: nfc_stable_def trim_idem)

lemma sample_sha_length: "\<forall>b. length (sample_sha b) = 32"
  by (simp add: sample_sha_def)

lemma sample_image_draft: "attachment_draft_new (\<lambda>s. s) (lit ''a.png'') sample_bytes = Inr sample_image"
  by (simp add: attachment_draft_new_def Let_def normalise_file_name_def trim_def trim_start_def trim_end_def
      is_whitespace_def file_name_rejected_def the_attachment_policy_def is_control_def sample_bytes_def
      png_signature_def media_type_detect_def is_png_def get_range_def starts_with_def sample_image_def ok_or.simps)

lemma sample_actor_known: "actor_known sample_parser sample_db (sample_actor 1)"
  using sample_identity_ok [of 1]
  by (simp add: actor_known_def sample_eval store_eval primary_identity_row_def row_identity_def)

lemma sample_editable: "note_is_editable sample_db (sample_actor 1) sample_note_id"
  by (simp add: note_is_editable_def sample_eval store_eval)

lemma sample_db_attachments: "db_attachments sample_db = []" "db_revision_attachments sample_db = []"
  by (simp_all add: sample_eval store_eval)

lemma sample_media_ok: "media_ok sample_parser (\<lambda>s. s) sample_sha sample_db"
  using sample_ok by (simp add: media_ok_def attachments_ok_def quotas_ok_def refs_ok_def sample_db_attachments
      note_attachment_rows_def total_bytes_def select_where_def)

lemma sample_upload:
  "upload_note_attachment sample_parser (\<lambda>s. s) sample_sha (sample_actor 1) sample_note_id sample_image 5 1500 sample_db
     = Inr (sa_metadata (stored_of sample_sha sample_image 5 sample_note_id 1500 (sample_actor 1)), sample_with_image)"
  using upload_cases [OF sample_media_ok sample_nfc sample_sha_length sample_actor_known sample_image_draft,
      of sample_note_id 5 1500] sample_editable
  by (simp add: sample_with_image_def sample_db_attachments note_attachment_rows_def select_where_def total_bytes_def
      sample_bytes_def png_signature_def)

lemma sample_with_image_reachable: "media_steps sample_parser (\<lambda>s. s) sample_sha empty_db sample_with_image"
proof -
  have "media_steps sample_parser (\<lambda>s. s) sample_sha empty_db sample_db"
    using sample_reachable by (rule rtranclp_mono [THEN predicate2D, rotated]) (blast intro: media_note)
  moreover have "media_step sample_parser (\<lambda>s. s) sample_sha sample_db sample_with_image"
    using media_upload [OF sample_actor_known sample_image_draft sample_upload] .
  ultimately show ?thesis by (rule rtranclp.rtrancl_into_rtrancl)
qed

lemma sample_image_media_ok: "media_ok sample_parser (\<lambda>s. s) sample_sha sample_with_image"
  using media_steps_ok [OF sample_with_image_reachable empty_media_ok sample_nfc sample_sha_length] by blast

text \<open>The note shows the image and is deleted.\<close>

lemma sample_shown:
  "\<exists>n e. update_visible_note sample_parser (sample_actor 1) sample_note_id 1 (sample_draft 1) image_links 2000
      sample_with_image = Inr (n, e)
    \<and> db_revision_attachments e = [(sample_note_id, 2, 5)] \<and> db_attachments e = db_attachments sample_with_image
    \<and> note_is_readable e (sample_actor 1) sample_note_id
    \<and> (\<exists>n f. soft_delete_visible_note sample_parser (sample_actor 1) sample_note_id 2 3000 e = Inr (n, f)
        \<and> map nr_deleted_at (db_notes f) = [Some 3000] \<and> map nr_id (db_notes f) = [sample_note_id]
        \<and> db_revision_attachments f = [(sample_note_id, 2, 5), (sample_note_id, 3, 5)])"
  by (simp add: sample_with_image_def stored_of_def row_of_attachment_def image_links_def note_is_readable_def
      has_access_rows mutation_eval sample_eval store_eval)

section \<open>Properties\<close>

text \<open>
  C31: in every database reachable by note transactions, uploads, discards and sweeps a note has at most 32
  attachments of at most 64 MiB together, every stored attachment is a recognised image with the digest of
  its content and an acceptable name, and every image a revision refers to is stored.
\<close>

theorem attachment_invariant:
  assumes "media_steps pu nfc sha256 empty_db d" "nfc_stable nfc" "\<forall>b. length (sha256 b) = 32"
  shows "store_ok pu d
    \<and> (\<forall>nid. length (note_attachment_rows nid d) \<le> 32 \<and> total_bytes nid d \<le> 64 * 1024 * 1024)
    \<and> (\<forall>a\<in>set (db_attachments d). attachment_row_check a \<and> content_ok nfc sha256 a)
    \<and> (\<forall>(n, v, x)\<in>set (db_revision_attachments d). \<exists>a\<in>set (db_attachments d). at_note a = n \<and> at_id a = x)"
proof -
  have "media_ok pu nfc sha256 d" using media_steps_ok [OF assms(1) empty_media_ok assms(2,3)] ..
  then have m: "store_ok pu d" "attachments_ok nfc sha256 d" "refs_ok d" by (simp_all add: media_ok_def)
  have "\<forall>(n, v, x)\<in>set (db_revision_attachments d). \<exists>a\<in>set (db_attachments d). at_note a = n \<and> at_id a = x"
    using m(3) by (auto simp: refs_ok_def)
  then show ?thesis using m(1,2) by (simp add: attachments_ok_def quotas_ok_def)
qed

lemma attachment_invariant_witness:
  "length (note_attachment_rows sample_note_id sample_with_image) = 1
   \<and> total_bytes sample_note_id sample_with_image \<le> 64 * 1024 * 1024"
  using attachment_invariant [OF sample_with_image_reachable sample_nfc sample_sha_length]
  by (simp add: note_attachment_rows_def select_where_def sample_with_image_def sample_db_attachments)

text \<open>
  C33: uploading an accepted image never panics.  It is refused as not found exactly when the actor cannot
  edit the note, as a conflict exactly when a quota would be exceeded, and fails on an id that is taken;
  otherwise whoever may read the note reads back exactly the uploaded bytes, name and format.
\<close>

theorem upload_outcome:
  assumes "media_ok pu nfc sha256 d" "nfc_stable nfc" "\<forall>b. length (sha256 b) = 32" "actor_known pu d act"
    and "attachment_draft_new nfc name bytes = Inr draft"
  shows "if \<not> note_is_editable d act nid
      then upload_note_attachment pu nfc sha256 act nid draft aid now d = Inl (UploadStorage StorageNotFound)
    else if 32 \<le> length (note_attachment_rows nid d) \<or> 64 * 1024 * 1024 < total_bytes nid d + int (length bytes)
      then upload_note_attachment pu nfc sha256 act nid draft aid now d = Inl (UploadStorage StorageConflict)
    else if \<exists>a\<in>set (db_attachments d). at_id a = aid
      then upload_note_attachment pu nfc sha256 act nid draft aid now d = Inl (UploadStorage StorageUnavailable)
    else \<exists>m e. upload_note_attachment pu nfc sha256 act nid draft aid now d = Inr (m, e)
      \<and> (\<forall>reader. note_is_readable d reader nid \<longrightarrow> (\<exists>s. note_attachment pu nfc sha256 reader nid aid e = Inr (Some s)
          \<and> sa_bytes s = bytes \<and> am_file_name (sa_metadata s) = nfc (trim name)
          \<and> media_type_detect bytes = Some (am_media_type (sa_metadata s))))"
proof -
  let ?up = "upload_note_attachment pu nfc sha256 act nid draft aid now d"
  let ?a = "row_of_attachment (stored_of sha256 draft aid nid now act)"
  let ?e = "d\<lparr>db_attachments := db_attachments d @ [?a]\<rparr>"
  note c = upload_cases [OF assms, of nid aid now] and a = accepted_draft [OF assms(2,5)]
  have reads: "\<exists>s. note_attachment pu nfc sha256 reader nid aid ?e = Inr (Some s)
          \<and> sa_bytes s = bytes \<and> am_file_name (sa_metadata s) = nfc (trim name)
          \<and> media_type_detect bytes = Some (am_media_type (sa_metadata s))"
    if up: "?up = Inr (m, ?e)" and reader: "note_is_readable d reader nid" for m reader
  proof -
    have "media_ok pu nfc sha256 ?e"
      using media_step_ok [OF media_upload [OF assms(4,5) up] assms(1-3)] by blast
    moreover have "note_is_readable ?e reader (at_note ?a)" using reader by (simp add: note_is_readable_def)
    ultimately obtain s where s: "note_attachment pu nfc sha256 reader nid aid ?e = Inr (Some s)" "row_of_attachment s = ?a"
      using note_attachment_reads [of pu nfc sha256 ?e ?a reader] by auto
    from s(2) have "sa_bytes s = ad_bytes draft" "am_file_name (sa_metadata s) = ad_file_name draft"
      "am_media_type (sa_metadata s) = ad_media_type draft"
      by (simp_all add: row_of_attachment_def stored_of_def)
    with s(1) a(6,7) assms(5) show ?thesis by (auto simp: attachment_draft_new_Inr)
  qed
  show ?thesis using c reads by simp
qed

lemma upload_outcome_witness:
  "\<exists>m e s. upload_note_attachment sample_parser (\<lambda>s. s) sample_sha (sample_actor 1) sample_note_id sample_image 5 1500
      sample_db = Inr (m, e)
    \<and> note_attachment sample_parser (\<lambda>s. s) sample_sha (sample_actor 1) sample_note_id 5 e = Inr (Some s)
    \<and> sa_bytes s = sample_bytes"
proof -
  have "note_is_readable sample_db (sample_actor 1) sample_note_id"
    by (simp add: note_is_readable_def has_access_rows sample_eval store_eval)
  then show ?thesis
    using upload_outcome [OF sample_media_ok sample_nfc sample_sha_length sample_actor_known sample_image_draft,
        of sample_note_id 5 1500] sample_editable
    by (simp add: sample_db_attachments note_attachment_rows_def select_where_def total_bytes_def
      sample_bytes_def png_signature_def) blast
qed

section \<open>Purging deleted notes\<close>

definition expired :: "int \<Rightarrow> note_row \<Rightarrow> bool" where
  "expired cutoff r \<longleftrightarrow> (\<exists>t. nr_deleted_at r = Some t \<and> t < cutoff)"

lemma expired_case: "(case nr_deleted_at r of None \<Rightarrow> False | Some t \<Rightarrow> t < cutoff) = expired cutoff r"
  by (simp add: expired_def split: option.split)

lemma rows_after_delete:
  "filter (\<lambda>x. f x = k) (delete_where (\<lambda>x. f x \<in> set ids) xs) = (if k \<in> set ids then [] else filter (\<lambda>x. f x = k) xs)"
  by (auto simp: delete_where_def filter_empty_conv intro: filter_cong)

lemma readable_after_delete:
  assumes "db_notes e = delete_where gone (db_notes d)" "db_acl e = delete_where (\<lambda>a. ar_note a \<in> ids) (db_acl d)"
    and "\<And>k. k \<in> ids \<longleftrightarrow> (\<exists>r. find_note d k = Some r \<and> gone r)"
    and "\<And>k. find_note e k = (case find_note d k of None \<Rightarrow> None | Some r \<Rightarrow> if gone r then None else Some r)"
    and key: "\<And>r. r \<in> set (db_notes d) \<Longrightarrow> find_note d (nr_id r) = Some r"
  shows "note_is_readable e act nid \<longleftrightarrow> find_note e nid \<noteq> None \<and> note_is_readable d act nid"
proof (cases "nid \<in> ids")
  case True
  then have "find_note e nid = None" using assms(3,4) by fastforce
  moreover have "\<not> (\<exists>r\<in>set (db_notes e). nr_id r = nid)"
    using True assms(1,3) key by (auto simp: set_delete_where)
  ultimately show ?thesis by (auto simp: note_is_readable_def exists_where_iff)
next
  case False
  have rows: "r \<in> set (db_notes e) \<longleftrightarrow> r \<in> set (db_notes d)" if "nr_id r = nid" for r
    using that False assms(1,3) key by (auto simp: set_delete_where)
  have "find_note e nid = find_note d nid" using False assms(3,4) by (auto split: option.split)
  moreover have "find_note d nid \<noteq> None" if "r \<in> set (db_notes d)" "nr_id r = nid" for r
    using key [OF that(1)] that(2) by simp
  moreover have "has_access e nid p = has_access d nid p" for p
    using False rows by (auto simp: has_access_rows assms(2) set_delete_where)
  ultimately show ?thesis using rows by (fastforce simp: note_is_readable_def exists_where_iff)
qed

text \<open>
  C34: the purge of deleted notes is all or nothing.  When some expired note ever showed an attached image
  the statement fails and nothing is removed; otherwise exactly the expired notes disappear, with every
  row that belongs to them, and nothing of the other notes.
\<close>

theorem purge_all_or_nothing:
  assumes "media_ok pu nfc sha256 d"
  shows "if \<exists>r\<in>set (db_notes d). expired cutoff r \<and> (\<exists>v x. (nr_id r, v, x) \<in> set (db_revision_attachments d))
    then purge_deleted_before cutoff d = Inl Database
    else \<exists>n e. purge_deleted_before cutoff d = Inr (n, e) \<and> n = length (filter (expired cutoff) (db_notes d))
      \<and> (\<forall>r\<in>set (db_notes d). find_note e (nr_id r) = (if expired cutoff r then None else Some r))
      \<and> (\<forall>nid. note_history e nid = (if find_note e nid = None then [] else note_history d nid)
          \<and> note_attachment_rows nid e = (if find_note e nid = None then [] else note_attachment_rows nid d))
      \<and> (\<forall>act nid. note_is_readable e act nid \<longleftrightarrow> find_note e nid \<noteq> None \<and> note_is_readable d act nid)"
proof -
  let ?gone = "expired cutoff"
  let ?ids = "map nr_id (select_where ?gone (db_notes d))"
  have ok: "store_ok pu d" "attachments_ok nfc sha256 d" "refs_ok d" using assms by (simp_all add: media_ok_def)
  have dist: "distinct (map nr_id (db_notes d))" using store_okD(2) [OF ok(1)] by (simp add: notes_ok_def)
  have blocked: "exists_where (\<lambda>a. at_note a \<in> set ?ids \<and> attachment_referenced d a) (db_attachments d)
      \<longleftrightarrow> (\<exists>r\<in>set (db_notes d). ?gone r \<and> (\<exists>v x. (nr_id r, v, x) \<in> set (db_revision_attachments d)))"
    using ok(3) by (fastforce simp: exists_where_iff attachment_referenced_def set_select_where refs_ok_def)
  have purge: "purge_deleted_before cutoff d = sql_delete_notes ?gone d"
    by (simp add: purge_deleted_before_def expired_case)
  show ?thesis
  proof (cases "\<exists>r\<in>set (db_notes d). ?gone r \<and> (\<exists>v x. (nr_id r, v, x) \<in> set (db_revision_attachments d))")
    case True
    then have "purge_deleted_before cutoff d = Inl Database"
      unfolding purge sql_delete_notes_def Let_def blocked by (rule if_P)
    with True show ?thesis by (simp only: if_True)
  next
    case False
    obtain n e where e: "purge_deleted_before cutoff d = Inr (n, e)" and n: "n = length ?ids"
      and tabs: "db_notes e = delete_where ?gone (db_notes d)"
        "db_revisions e = delete_where (\<lambda>h. hr_note h \<in> set ?ids) (db_revisions d)"
        "db_attachments e = delete_where (\<lambda>a. at_note a \<in> set ?ids) (db_attachments d)"
        "db_acl e = delete_where (\<lambda>a. ar_note a \<in> set ?ids) (db_acl d)"
      using False unfolding purge sql_delete_notes_def Let_def blocked by simp
    have found: "find_note e k = (case find_note d k of None \<Rightarrow> None | Some r \<Rightarrow> if ?gone r then None else Some r)" for k
      unfolding find_note_def tabs(1) using row_by_delete_where [OF dist] by simp
    have key: "find_note d (nr_id r) = Some r" if "r \<in> set (db_notes d)" for r
      using find_note_iff [OF store_okD(2) [OF ok(1)]] that by blast
    have ids: "k \<in> set ?ids \<longleftrightarrow> (\<exists>r. find_note d k = Some r \<and> ?gone r)" for k
      using find_note_iff [OF store_okD(2) [OF ok(1)]] by (auto simp: set_select_where)
    have none: "note_history d k = []" "note_attachment_rows k d = []" if "find_note d k = None" for k
      using that store_okD(4) [OF ok(1)] ok(2)
      by (auto simp: history_ok_def note_history_def attachments_ok_def note_attachment_rows_def select_where_def filter_empty_conv)
    have "note_history e k = (if find_note e k = None then [] else note_history d k)
        \<and> note_attachment_rows k e = (if find_note e k = None then [] else note_attachment_rows k d)" for k
      using none [of k] found [of k] ids [of k] rows_after_delete [where ids = "?ids" and k = k and xs = "db_revisions d" and f = hr_note]
        rows_after_delete [where ids = "?ids" and k = k and xs = "db_attachments d" and f = at_note]
      by (auto simp: note_history_def note_attachment_rows_def tabs select_where_def split: option.splits)
    moreover have "note_is_readable e act k \<longleftrightarrow> find_note e k \<noteq> None \<and> note_is_readable d act k" for act k
      using readable_after_delete [OF tabs(1,4) ids found key] .
    moreover have "\<forall>r\<in>set (db_notes d). find_note e (nr_id r) = (if ?gone r then None else Some r)"
      using key by (simp add: found)
    moreover have "n = length (filter ?gone (db_notes d))" by (simp add: n select_where_def)
    ultimately show ?thesis using False e by auto
  qed
qed

lemma purge_all_or_nothing_witness:
  "\<exists>n e m f. update_visible_note sample_parser (sample_actor 1) sample_note_id 1 (sample_draft 1) image_links 2000
      sample_with_image = Inr (n, e)
    \<and> soft_delete_visible_note sample_parser (sample_actor 1) sample_note_id 2 3000 e = Inr (m, f)
    \<and> purge_deleted_before 4000 f = Inl Database"
proof -
  obtain n e m f where e: "update_visible_note sample_parser (sample_actor 1) sample_note_id 1 (sample_draft 1) image_links
      2000 sample_with_image = Inr (n, e)"
    and f: "soft_delete_visible_note sample_parser (sample_actor 1) sample_note_id 2 3000 e = Inr (m, f)"
      "map nr_deleted_at (db_notes f) = [Some 3000]" "map nr_id (db_notes f) = [sample_note_id]"
      "db_revision_attachments f = [(sample_note_id, 2, 5), (sample_note_id, 3, 5)]"
    using sample_shown by (elim exE conjE) (rule that)
  have "media_steps sample_parser (\<lambda>s. s) sample_sha sample_with_image f"
    using media_note [OF step_update [OF e]] media_note [OF step_delete [OF f(1)]]
    by (meson r_into_rtranclp rtranclp.rtrancl_into_rtrancl)
  then have ok: "media_ok sample_parser (\<lambda>s. s) sample_sha f"
    using media_steps_ok [OF _ sample_image_media_ok sample_nfc sample_sha_length] by blast
  obtain r where "db_notes f = [r]" "nr_deleted_at r = Some 3000" "nr_id r = sample_note_id"
    using f(2,3) by (cases "db_notes f") auto
  then have "\<exists>r\<in>set (db_notes f). expired 4000 r \<and> (\<exists>v x. (nr_id r, v, x) \<in> set (db_revision_attachments f))"
    using f(4) by (auto simp: expired_def)
  then have "purge_deleted_before 4000 f = Inl Database"
    using purge_all_or_nothing [OF ok, of 4000] by (simp only: if_True)
  with e f(1) show ?thesis by blast
qed

end
