(* ===== verification/Scopes.thy ===== *)
theory Scopes
  imports Prelude
begin

text \<open>
  Space-separated lists of OAuth scopes as the stores keep them: \<open>join(" ")\<close>,
  \<open>split_whitespace\<close> and \<open>split_ascii_whitespace\<close> of Rust's \<open>str\<close>, and how they compose.
\<close>

definition is_ascii_whitespace :: "uchar \<Rightarrow> bool" where
  "is_ascii_whitespace c \<longleftrightarrow> c = 32 \<or> c = 9 \<or> c = 10 \<or> c = 12 \<or> c = 13"

fun split_by :: "('a \<Rightarrow> bool) \<Rightarrow> 'a list \<Rightarrow> 'a list list" where
  "split_by p [] = [[]]"
| "split_by p (x # xs) =
     (if p x then [] # split_by p xs
      else (case split_by p xs of [] \<Rightarrow> [[x]] | y # ys \<Rightarrow> (x # y) # ys))"

definition split_words :: "('a \<Rightarrow> bool) \<Rightarrow> 'a list \<Rightarrow> 'a list list" where
  "split_words p s = filter (\<lambda>w. w \<noteq> []) (split_by p s)"

definition split_whitespace :: "rstr \<Rightarrow> rstr list" where
  "split_whitespace s = split_words is_whitespace s"

definition split_ascii_whitespace :: "rstr \<Rightarrow> rstr list" where
  "split_ascii_whitespace s = split_words is_ascii_whitespace s"

definition join_spaces :: "rstr list \<Rightarrow> rstr" where
  "join_spaces xs = join_with 32 xs"

text \<open>A scope name the encoding is faithful for.\<close>

definition scope_name :: "rstr \<Rightarrow> bool" where
  "scope_name w \<longleftrightarrow> w \<noteq> [] \<and> list_all (\<lambda>c. \<not> is_whitespace c) w"

section \<open>Words\<close>

lemma split_by_not_Nil [simp]: "split_by p s \<noteq> []"
  by (cases s) (auto split: list.splits)

lemma split_by_append_sep: "p c \<Longrightarrow> split_by p (a @ c # b) = split_by p a @ split_by p b"
  by (induction a) (auto split: list.splits)

lemma split_words_append_sep: "p c \<Longrightarrow> split_words p (a @ c # b) = split_words p a @ split_words p b"
  by (simp add: split_words_def split_by_append_sep)

lemma split_words_Nil [simp]: "split_words p [] = []"
  by (simp add: split_words_def)

lemma split_by_clean: "list_all (\<lambda>c. \<not> p c) w \<Longrightarrow> split_by p w = [w]"
  by (induction w) auto

lemma split_words_clean: "list_all (\<lambda>c. \<not> p c) w \<Longrightarrow> w \<noteq> [] \<Longrightarrow> split_words p w = [w]"
  by (simp add: split_words_def split_by_clean)

lemma split_words_join: "p c \<Longrightarrow> split_words p (join_with c xs) = concat (map (split_words p) xs)"
  by (induction c xs rule: join_with.induct) (simp_all add: split_words_append_sep)

lemma split_by_clean_parts: "w \<in> set (split_by p s) \<Longrightarrow> list_all (\<lambda>c. \<not> p c) w"
  by (induction s arbitrary: w) (force split: if_splits list.splits)+

lemma split_words_parts: "w \<in> set (split_words p s) \<Longrightarrow> w \<noteq> [] \<and> list_all (\<lambda>c. \<not> p c) w"
  by (auto simp: split_words_def dest: split_by_clean_parts)

text \<open>Splitting at fewer separators first does not change the words.\<close>

lemma split_by_words:
  assumes "\<And>c. q c \<Longrightarrow> p c"
  shows "concat (map (split_words p) (split_by q s)) = split_words p s"
proof (induction s rule: length_induct)
  case (1 s)
  show ?case
  proof (cases "\<exists>c\<in>set s. q c")
    case False
    then show ?thesis by (simp add: split_by_clean list_all_iff)
  next
    case True
    then obtain a c b where s: "s = a @ c # b" "q c" "\<forall>x\<in>set a. \<not> q x"
      using split_list_first_prop [of s q] by metis
    then have "split_by q s = a # split_by q b"
      by (simp add: split_by_append_sep split_by_clean list_all_iff)
    moreover have "split_words p s = split_words p a @ split_words p b"
      using s assms by (simp add: split_words_append_sep)
    moreover have "concat (map (split_words p) (split_by q b)) = split_words p b"
      using 1 s(1) by simp
    ultimately show ?thesis by simp
  qed
qed

lemma concat_map_filter_Nil: "concat (map f (filter (\<lambda>w. w \<noteq> []) xs)) = concat (map f xs)"
  if "f [] = []" for xs :: "'a list list"
  using that by (induction xs) auto

lemma split_words_words:
  "(\<And>c. q c \<Longrightarrow> p c) \<Longrightarrow> concat (map (split_words p) (split_words q s)) = split_words p s"
  using split_by_words [of q p s]
  by (simp add: split_words_def [of q] concat_map_filter_Nil)

section \<open>Scope lists\<close>

lemma ascii_whitespace: "is_ascii_whitespace c \<Longrightarrow> is_whitespace c"
  by (auto simp: is_ascii_whitespace_def is_whitespace_def)

lemma split_join_spaces: "split_whitespace (join_spaces xs) = concat (map split_whitespace xs)"
  by (simp add: split_whitespace_def [abs_def] join_spaces_def split_words_join is_whitespace_def)

lemma split_ascii_words: "concat (map split_whitespace (split_ascii_whitespace s)) = split_whitespace s"
  using split_words_words [of is_ascii_whitespace is_whitespace s] ascii_whitespace
  by (simp add: split_whitespace_def [abs_def] split_ascii_whitespace_def)

lemma split_scope_name: "scope_name w \<Longrightarrow> split_whitespace w = [w]"
  by (simp add: scope_name_def split_whitespace_def split_words_clean)

lemma scope_list_roundtrip:
  assumes "list_all scope_name xs"
  shows "split_whitespace (join_spaces xs) = xs"
  using assms by (induction xs) (simp_all add: split_join_spaces split_scope_name)

text \<open>The two ways to split agree on a text whose ASCII words are scope names.\<close>

lemma split_whitespace_ascii:
  assumes "list_all scope_name (split_ascii_whitespace s)"
  shows "split_whitespace s = split_ascii_whitespace s"
proof -
  have "concat (map split_whitespace ws) = ws" if "list_all scope_name ws" for ws
    using that by (induction ws) (simp_all add: split_scope_name)
  with assms split_ascii_words [of s] show ?thesis by simp
qed

end
