(* ===== verification/AuthStore.thy ===== *)
theory AuthStore
  imports PrincipalStore Scopes "HOL-Library.List_Lexorder"
begin

text \<open>
  The tables of web sessions, pending logins and the MCP authorization server, and the statements on
  them (\<open>crates/marginalis-sqlite/src/schema.sql\<close>).  The values the authorization server crate passes
  in and out (clients, grants, exchanges, rotations) are records of the fields the store reads; that
  crate itself is not part of the repository.
\<close>

section \<open>Rows\<close>

datatype registration_method = Dynamic | MetadataDocument

record client_row =
  cl_id :: rstr
  cl_name :: rstr
  cl_redirects :: "rstr list"
  cl_method :: registration_method
  cl_registered_at :: int

record principal_ceiling_row =
  pc_principal :: int
  pc_scopes :: rstr
  pc_revision :: int
  pc_updated_at :: int

record client_ceiling_row =
  cc_principal :: int
  cc_client :: rstr
  cc_scopes :: rstr
  cc_revision :: int
  cc_updated_at :: int

record authorization_row =
  az_principal :: int
  az_client :: rstr
  az_granted :: rstr
  az_authorized_at :: int
  az_last_used_at :: "int option"
  az_revoked_at :: "int option"

record code_row =
  co_hash :: "u8 list"
  co_client :: rstr
  co_redirect :: rstr
  co_supplied :: bool
  co_resource :: rstr
  co_principal :: int
  co_identity :: int
  co_scopes :: rstr
  co_challenge :: rstr
  co_expires_at :: int
  co_consumed_at :: "int option"
  co_family :: "u8 list option"

record access_token_row =
  tk_hash :: "u8 list"
  tk_client :: rstr
  tk_resource :: rstr
  tk_principal :: int
  tk_identity :: int
  tk_scopes :: rstr
  tk_expires_at :: int
  tk_revoked_at :: "int option"
  tk_last_used_at :: "int option"
  tk_family :: "u8 list"

record refresh_token_row =
  rf_hash :: "u8 list"
  rf_client :: rstr
  rf_resource :: rstr
  rf_principal :: int
  rf_identity :: int
  rf_scopes :: rstr
  rf_expires_at :: int
  rf_rotated_at :: "int option"
  rf_revoked_at :: "int option"
  rf_family :: "u8 list"

record session_row =
  ss_hash :: "u8 list"
  ss_csrf :: "u8 list"
  ss_principal :: int
  ss_identity :: int
  ss_issued_at :: int
  ss_last_seen_at :: int
  ss_idle_expires_at :: int
  ss_absolute_expires_at :: int
  ss_revoked_at :: "int option"

record login_row =
  la_state :: "u8 list"
  la_nonce :: rstr
  la_verifier :: rstr
  la_expires_at :: int

record auth_db =
  au_db :: db
  au_sessions :: "session_row list"
  au_logins :: "login_row list"
  au_clients :: "client_row list"
  au_principal_ceilings :: "principal_ceiling_row list"
  au_client_ceilings :: "client_ceiling_row list"
  au_authorizations :: "authorization_row list"
  au_codes :: "code_row list"
  au_access :: "access_token_row list"
  au_refresh :: "refresh_token_row list"

definition empty_auth :: auth_db where
  "empty_auth = \<lparr>au_db = empty_db, au_sessions = [], au_logins = [], au_clients = [],
     au_principal_ceilings = [], au_client_ceilings = [], au_authorizations = [], au_codes = [],
     au_access = [], au_refresh = []\<rparr>"

section \<open>Constraints\<close>

definition known_client :: "auth_db \<Rightarrow> rstr \<Rightarrow> bool" where
  "known_client s c \<longleftrightarrow> exists_where (\<lambda>r. cl_id r = c) (au_clients s)"

text \<open>
  The foreign keys of a row owned by a principal and authenticated by one of its identities.
\<close>

definition owner_known :: "auth_db \<Rightarrow> int \<Rightarrow> int \<Rightarrow> bool" where
  "owner_known s p i \<longleftrightarrow> p \<in> set (db_principals (au_db s))
     \<and> exists_where (\<lambda>r. ir_identity_id r = i \<and> ir_principal r = p) (db_identities (au_db s))"

definition sql_insert_code :: "code_row \<Rightarrow> auth_db \<Rightarrow> store_error + auth_db" where
  "sql_insert_code r s =
     (if exists_where (\<lambda>x. co_hash x = co_hash r) (au_codes s) \<or> \<not> known_client s (co_client r)
         \<or> \<not> owner_known s (co_principal r) (co_identity r)
      then Inl Database else Inr (s\<lparr>au_codes := au_codes s @ [r]\<rparr>))"

definition sql_insert_access_token :: "access_token_row \<Rightarrow> auth_db \<Rightarrow> store_error + auth_db" where
  "sql_insert_access_token r s =
     (if exists_where (\<lambda>x. tk_hash x = tk_hash r) (au_access s) \<or> \<not> known_client s (tk_client r)
         \<or> \<not> owner_known s (tk_principal r) (tk_identity r) \<or> length (tk_family r) \<noteq> 32
      then Inl Database else Inr (s\<lparr>au_access := au_access s @ [r]\<rparr>))"

definition sql_insert_refresh_token :: "refresh_token_row \<Rightarrow> auth_db \<Rightarrow> store_error + auth_db" where
  "sql_insert_refresh_token r s =
     (if exists_where (\<lambda>x. rf_hash x = rf_hash r) (au_refresh s) \<or> \<not> known_client s (rf_client r)
         \<or> \<not> owner_known s (rf_principal r) (rf_identity r) \<or> length (rf_family r) \<noteq> 32
      then Inl Database else Inr (s\<lparr>au_refresh := au_refresh s @ [r]\<rparr>))"

definition sql_insert_session :: "session_row \<Rightarrow> auth_db \<Rightarrow> store_error + auth_db" where
  "sql_insert_session r s =
     (if exists_where (\<lambda>x. ss_hash x = ss_hash r) (au_sessions s)
         \<or> \<not> owner_known s (ss_principal r) (ss_identity r)
      then Inl Database else Inr (s\<lparr>au_sessions := au_sessions s @ [r]\<rparr>))"

text \<open>
  \<open>UPDATE ... SET revoked_at_ms = ? WHERE ... AND revoked_at_ms IS NULL\<close> on both token tables, by
  family or by principal and client.
\<close>

definition revoke_tokens ::
  "(access_token_row \<Rightarrow> bool) \<Rightarrow> (refresh_token_row \<Rightarrow> bool) \<Rightarrow> int \<Rightarrow> auth_db \<Rightarrow> auth_db" where
  "revoke_tokens pa pr now s =
     s\<lparr>au_access := update_where (\<lambda>r. pa r \<and> tk_revoked_at r = None)
         (\<lambda>r. r\<lparr>tk_revoked_at := Some now\<rparr>) (au_access s),
       au_refresh := update_where (\<lambda>r. pr r \<and> rf_revoked_at r = None)
         (\<lambda>r. r\<lparr>rf_revoked_at := Some now\<rparr>) (au_refresh s)\<rparr>"

definition revoke_family :: "u8 list \<Rightarrow> int \<Rightarrow> auth_db \<Rightarrow> auth_db" where
  "revoke_family fam now s = revoke_tokens (\<lambda>r. tk_family r = fam) (\<lambda>r. rf_family r = fam) now s"

end
