(* ===== verification/McpStore.thy ===== *)
theory McpStore
  imports AuthStore
begin

text \<open>
  The repository of the MCP authorization server, \<open>crates/marginalis-sqlite/src/mcp.rs\<close>: clients,
  authorization codes that can be exchanged once, access tokens, and refresh tokens that rotate.  All
  tokens that descend from one code form a family, and a replay revokes the family.
\<close>

section \<open>Values exchanged with the authorization server\<close>

record ext_principal =
  xp_issuer :: rstr
  xp_subject :: rstr

record mcp_client =
  mc_id :: rstr
  mc_name :: rstr
  mc_redirects :: "rstr list"

record registered_client =
  rc_client :: mcp_client
  rc_method :: registration_method

text \<open>Whether the authorization request named the redirect URI or left it to the only registered one.\<close>

datatype redirect_uri = Supplied rstr | Inferred rstr

fun redirect_text :: "redirect_uri \<Rightarrow> rstr" where
  "redirect_text (Supplied u) = u"
| "redirect_text (Inferred u) = u"

fun redirect_supplied :: "redirect_uri \<Rightarrow> bool" where
  "redirect_supplied (Supplied u) = True"
| "redirect_supplied (Inferred u) = False"

record grant =
  gr_principal :: ext_principal
  gr_client :: rstr
  gr_redirect :: redirect_uri
  gr_resource :: rstr
  gr_scopes :: "rstr list"

record code_exchange =
  ex_code :: rstr
  ex_client :: rstr
  ex_redirect :: "rstr option"
  ex_resource :: rstr
  ex_challenge :: rstr
  ex_access :: rstr
  ex_refresh :: rstr
  ex_access_expires_at :: int
  ex_refresh_expires_at :: int

record rotation =
  ro_refresh :: rstr
  ro_client :: rstr
  ro_resource :: rstr
  ro_requested :: "rstr list option"
  ro_new_access :: rstr
  ro_new_refresh :: rstr
  ro_access_expires_at :: int
  ro_refresh_expires_at :: int

datatype rotation_outcome = InvalidToken | InvalidScope | Rotated "rstr list"

record authenticated =
  an_principal :: ext_principal
  an_scopes :: "rstr list"

section \<open>Principals and clients\<close>

fun storage_to_store_error :: "storage_error \<Rightarrow> store_error" where
  "storage_to_store_error StorageCorruptData = CorruptData"
| "storage_to_store_error _ = Database"

definition resolve_mcp_principal ::
  "url_parser \<Rightarrow> ext_principal \<Rightarrow> db \<Rightarrow> store_error + ((actor \<times> int) \<times> db)" where
  "resolve_mcp_principal pu x d =
     rbind (map_err (\<lambda>_. CorruptData) (identity_new pu (xp_issuer x) (xp_subject x))) (\<lambda>i.
     map_err storage_to_store_error (resolve_or_create_in pu i d))"

definition principal_from_identity_id ::
  "url_parser \<Rightarrow> int \<Rightarrow> db \<Rightarrow> store_error + ext_principal" where
  "principal_from_identity_id pu iid d =
     rbind (ok_or CorruptData (row_by ir_identity_id iid (db_identities d))) (\<lambda>r.
     rbind (map_err (\<lambda>_. CorruptData) (identity_new pu (ir_issuer r) (ir_subject r))) (\<lambda>i.
     Inr \<lparr>xp_issuer = issuer i, xp_subject = subject i\<rparr>))"

text \<open>
  An existing client keeps its first registration time; it is refused when it was registered by the
  other method.
\<close>

definition upsert_client ::
  "mcp_client \<Rightarrow> registration_method \<Rightarrow> int \<Rightarrow> auth_db \<Rightarrow> store_error + auth_db" where
  "upsert_client c m now s =
     (case row_by cl_id (mc_id c) (au_clients s) of
        None \<Rightarrow> Inr (s\<lparr>au_clients := au_clients s @ [\<lparr>cl_id = mc_id c, cl_name = mc_name c,
                  cl_redirects = mc_redirects c, cl_method = m, cl_registered_at = now\<rparr>]\<rparr>)
      | Some r \<Rightarrow>
          if cl_method r \<noteq> m then Inl CorruptData
          else Inr (s\<lparr>au_clients := update_where (\<lambda>x. cl_id x = mc_id c)
                 (\<lambda>x. x\<lparr>cl_name := mc_name c, cl_redirects := mc_redirects c\<rparr>) (au_clients s)\<rparr>))"

definition register_client_bounded ::
  "mcp_client \<Rightarrow> int \<Rightarrow> int \<Rightarrow> auth_db \<Rightarrow> store_error + (bool \<times> auth_db)" where
  "register_client_bounded c now maximum s =
     (if int (count_where (\<lambda>r. cl_method r = Dynamic) (au_clients s)) < maximum
      then if known_client s (mc_id c) then Inl Database
           else Inr (True, s\<lparr>au_clients := au_clients s @ [\<lparr>cl_id = mc_id c, cl_name = mc_name c,
                  cl_redirects = mc_redirects c, cl_method = Dynamic, cl_registered_at = now\<rparr>]\<rparr>)
      else Inr (False, s))"

definition registered_mcp_client :: "rstr \<Rightarrow> auth_db \<Rightarrow> registered_client option" where
  "registered_mcp_client cid s = map_option (\<lambda>r.
     \<lparr>rc_client = \<lparr>mc_id = cl_id r, mc_name = cl_name r, mc_redirects = cl_redirects r\<rparr>,
      rc_method = cl_method r\<rparr>) (row_by cl_id cid (au_clients s))"

section \<open>Authorization codes\<close>

definition merge_scopes :: "rstr list \<Rightarrow> rstr list \<Rightarrow> rstr list" where
  "merge_scopes previous new =
     fold (\<lambda>sc acc. if sc \<in> set acc then acc else acc @ [sc]) new previous"

definition upsert_authorization :: "int \<Rightarrow> rstr \<Rightarrow> rstr \<Rightarrow> int \<Rightarrow> auth_db \<Rightarrow> store_error + auth_db" where
  "upsert_authorization p c scopes now s =
     (if \<not> known_client s c \<or> p \<notin> set (db_principals (au_db s)) then Inl Database
      else if exists_where (\<lambda>r. az_principal r = p \<and> az_client r = c) (au_authorizations s)
      then Inr (s\<lparr>au_authorizations := update_where (\<lambda>r. az_principal r = p \<and> az_client r = c)
             (\<lambda>r. r\<lparr>az_granted := scopes, az_authorized_at := now, az_revoked_at := None\<rparr>)
             (au_authorizations s)\<rparr>)
      else Inr (s\<lparr>au_authorizations := au_authorizations s @ [\<lparr>az_principal = p, az_client = c,
             az_granted = scopes, az_authorized_at = now, az_last_used_at = None,
             az_revoked_at = None\<rparr>]\<rparr>))"

definition find_authorization :: "int \<Rightarrow> rstr \<Rightarrow> auth_db \<Rightarrow> authorization_row option" where
  "find_authorization p c s = find (\<lambda>r. az_principal r = p \<and> az_client r = c) (au_authorizations s)"

definition issue_authorization_code ::
  "url_parser \<Rightarrow> token_hash \<Rightarrow> rstr \<Rightarrow> registered_client \<Rightarrow> grant \<Rightarrow> rstr \<Rightarrow> int \<Rightarrow> int \<Rightarrow> auth_db
   \<Rightarrow> store_error + auth_db" where
  "issue_authorization_code pu hash code rc g challenge expires now s =
     rbind (resolve_mcp_principal pu (gr_principal g) (au_db s)) (\<lambda>((a, iid), d).
     let p = actor_id a; cid = mc_id (rc_client rc) in
     rbind (upsert_client (rc_client rc) (rc_method rc) now (s\<lparr>au_db := d\<rparr>)) (\<lambda>s1.
     let previous = (case find_authorization p cid s1 of None \<Rightarrow> [] | Some r \<Rightarrow> az_granted r);
         granted = merge_scopes (split_ascii_whitespace previous) (gr_scopes g) in
     rbind (upsert_authorization p cid (join_spaces granted) now s1) (\<lambda>s2.
     sql_insert_code \<lparr>co_hash = hash code, co_client = cid, co_redirect = redirect_text (gr_redirect g),
        co_supplied = redirect_supplied (gr_redirect g), co_resource = gr_resource g, co_principal = p,
        co_identity = iid, co_scopes = join_spaces (gr_scopes g), co_challenge = challenge,
        co_expires_at = expires, co_consumed_at = None, co_family = None\<rparr> s2)))"

text \<open>
  The WHERE clauses of the exchange.  A redirect URI that was supplied must be repeated; an inferred
  one may be omitted.
\<close>

definition redirect_matches :: "code_row \<Rightarrow> rstr option \<Rightarrow> bool" where
  "redirect_matches r u \<longleftrightarrow>
     (if co_supplied r then u = Some (co_redirect r) else u = None \<or> u = Some (co_redirect r))"

definition code_matches :: "token_hash \<Rightarrow> code_exchange \<Rightarrow> code_row \<Rightarrow> bool" where
  "code_matches hash ex r \<longleftrightarrow> co_hash r = hash (ex_code ex) \<and> co_client r = ex_client ex
     \<and> redirect_matches r (ex_redirect ex) \<and> co_resource r = ex_resource ex
     \<and> co_challenge r = ex_challenge ex"

definition code_usable :: "int \<Rightarrow> code_row \<Rightarrow> bool" where
  "code_usable now r \<longleftrightarrow> co_consumed_at r = None \<and> now < co_expires_at r"

definition replayed_code_family :: "token_hash \<Rightarrow> code_exchange \<Rightarrow> auth_db \<Rightarrow> u8 list option" where
  "replayed_code_family hash ex s =
     Option.bind (find (\<lambda>r. code_matches hash ex r \<and> co_consumed_at r \<noteq> None \<and> co_family r \<noteq> None)
       (au_codes s)) co_family"

definition exchange_authorization_code ::
  "url_parser \<Rightarrow> token_hash \<Rightarrow> code_exchange \<Rightarrow> int \<Rightarrow> auth_db \<Rightarrow> store_error + (grant option \<times> auth_db)" where
  "exchange_authorization_code pu hash ex now s =
     (let usable = (\<lambda>r. code_matches hash ex r \<and> code_usable now r) in
      case find usable (au_codes s) of
        None \<Rightarrow> Inr (None, case replayed_code_family hash ex s of
                  None \<Rightarrow> s | Some fam \<Rightarrow> revoke_family fam now s)
      | Some row \<Rightarrow>
          let s1 = s\<lparr>au_codes := update_where usable (\<lambda>r. r\<lparr>co_consumed_at := Some now\<rparr>) (au_codes s)\<rparr> in
          rbind (principal_from_identity_id pu (co_identity row) (au_db s)) (\<lambda>principal.
          let g = \<lparr>gr_principal = principal, gr_client = ex_client ex,
                gr_redirect = (if co_supplied row then Supplied (co_redirect row) else Inferred (co_redirect row)),
                gr_resource = ex_resource ex, gr_scopes = split_whitespace (co_scopes row)\<rparr>;
              scopes = join_spaces (gr_scopes g); fam = hash (ex_refresh ex) in
          rbind (sql_insert_access_token \<lparr>tk_hash = hash (ex_access ex), tk_client = gr_client g,
              tk_resource = gr_resource g, tk_principal = co_principal row, tk_identity = co_identity row,
              tk_scopes = scopes, tk_expires_at = ex_access_expires_at ex, tk_revoked_at = None,
              tk_last_used_at = None, tk_family = fam\<rparr> s1) (\<lambda>s2.
          rbind (sql_insert_refresh_token \<lparr>rf_hash = hash (ex_refresh ex), rf_client = gr_client g,
              rf_resource = gr_resource g, rf_principal = co_principal row, rf_identity = co_identity row,
              rf_scopes = scopes, rf_expires_at = ex_refresh_expires_at ex, rf_rotated_at = None,
              rf_revoked_at = None, rf_family = fam\<rparr> s2) (\<lambda>s3.
          Inr (Some g, s3\<lparr>au_codes := update_where (\<lambda>r. co_hash r = hash (ex_code ex))
             (\<lambda>r. r\<lparr>co_family := Some fam\<rparr>) (au_codes s3)\<rparr>)))))"

section \<open>Tokens\<close>

definition access_usable :: "token_hash \<Rightarrow> rstr \<Rightarrow> rstr \<Rightarrow> int \<Rightarrow> access_token_row \<Rightarrow> bool" where
  "access_usable hash tok resource now r \<longleftrightarrow> tk_hash r = hash tok \<and> tk_resource r = resource
     \<and> tk_revoked_at r = None \<and> now < tk_expires_at r"

definition authenticate_access_token ::
  "url_parser \<Rightarrow> token_hash \<Rightarrow> rstr \<Rightarrow> rstr \<Rightarrow> int \<Rightarrow> auth_db
   \<Rightarrow> store_error + (authenticated option \<times> auth_db)" where
  "authenticate_access_token pu hash tok resource now s =
     (case find (access_usable hash tok resource now) (au_access s) of
        None \<Rightarrow> Inr (None, s)
      | Some row \<Rightarrow>
          let s1 = s\<lparr>au_access := update_where (access_usable hash tok resource now)
                (\<lambda>r. r\<lparr>tk_last_used_at := Some now\<rparr>) (au_access s),
                au_authorizations := update_where
                  (\<lambda>r. az_principal r = tk_principal row \<and> az_client r = tk_client row)
                  (\<lambda>r. r\<lparr>az_last_used_at := Some (max (case az_last_used_at r of None \<Rightarrow> now | Some t \<Rightarrow> t) now)\<rparr>)
                  (au_authorizations s)\<rparr> in
          rbind (principal_from_identity_id pu (tk_identity row) (au_db s)) (\<lambda>principal.
          Inr (Some \<lparr>an_principal = principal, an_scopes = split_whitespace (tk_scopes row)\<rparr>, s1)))"

definition refresh_matches :: "token_hash \<Rightarrow> rotation \<Rightarrow> refresh_token_row \<Rightarrow> bool" where
  "refresh_matches hash ro r \<longleftrightarrow> rf_hash r = hash (ro_refresh ro) \<and> rf_client r = ro_client ro
     \<and> rf_resource r = ro_resource ro"

definition refresh_usable :: "int \<Rightarrow> refresh_token_row \<Rightarrow> bool" where
  "refresh_usable now r \<longleftrightarrow> rf_rotated_at r = None \<and> rf_revoked_at r = None \<and> now < rf_expires_at r"

text \<open>A rejected scope rolls the rotation back, so the presented token stays usable.\<close>

definition rotate_refresh_token ::
  "token_hash \<Rightarrow> rotation \<Rightarrow> int \<Rightarrow> auth_db \<Rightarrow> store_error + (rotation_outcome \<times> auth_db)" where
  "rotate_refresh_token hash ro now s =
     (let usable = (\<lambda>r. refresh_matches hash ro r \<and> refresh_usable now r) in
      case find usable (au_refresh s) of
        None \<Rightarrow> Inr (InvalidToken,
          case find (\<lambda>r. refresh_matches hash ro r \<and> rf_rotated_at r \<noteq> None \<and> rf_revoked_at r = None) (au_refresh s) of
            None \<Rightarrow> s | Some r \<Rightarrow> revoke_family (rf_family r) now s)
      | Some row \<Rightarrow>
          let s1 = s\<lparr>au_refresh := update_where usable (\<lambda>r. r\<lparr>rf_rotated_at := Some now\<rparr>) (au_refresh s)\<rparr>;
              original = split_whitespace (rf_scopes row);
              access = (case ro_requested ro of None \<Rightarrow> original | Some xs \<Rightarrow> xs) in
          if \<not> list_all (\<lambda>sc. sc \<in> set original) access then Inr (InvalidScope, s)
          else
            rbind (sql_insert_access_token \<lparr>tk_hash = hash (ro_new_access ro), tk_client = ro_client ro,
                tk_resource = ro_resource ro, tk_principal = rf_principal row, tk_identity = rf_identity row,
                tk_scopes = join_spaces access, tk_expires_at = ro_access_expires_at ro,
                tk_revoked_at = None, tk_last_used_at = None, tk_family = rf_family row\<rparr> s1) (\<lambda>s2.
            rbind (sql_insert_refresh_token \<lparr>rf_hash = hash (ro_new_refresh ro), rf_client = ro_client ro,
                rf_resource = ro_resource ro, rf_principal = rf_principal row, rf_identity = rf_identity row,
                rf_scopes = join_spaces original, rf_expires_at = ro_refresh_expires_at ro,
                rf_rotated_at = None, rf_revoked_at = None, rf_family = rf_family row\<rparr> s2) (\<lambda>s3.
            Inr (Rotated access, s3))))"

section \<open>Revocation\<close>

definition revoke_client_tokens ::
  "url_parser \<Rightarrow> rstr \<Rightarrow> rstr \<Rightarrow> rstr \<Rightarrow> int \<Rightarrow> auth_db \<Rightarrow> store_error + auth_db" where
  "revoke_client_tokens pu iss sub cid now s =
     rbind (map_err (\<lambda>_. CorruptData) (identity_new pu iss sub)) (\<lambda>i.
     rbind (map_err storage_to_store_error (resolve_in pu i (au_db s))) (\<lambda>found.
     case found of
       None \<Rightarrow> Inr s
     | Some (a, _) \<Rightarrow>
         let p = actor_id a;
             s1 = revoke_tokens (\<lambda>r. tk_principal r = p \<and> tk_client r = cid)
                    (\<lambda>r. rf_principal r = p \<and> rf_client r = cid) now s in
         Inr (s1\<lparr>au_codes := delete_where
                (\<lambda>r. co_principal r = p \<and> co_client r = cid \<and> co_consumed_at r = None) (au_codes s1),
              au_authorizations := update_where (\<lambda>r. az_principal r = p \<and> az_client r = cid)
                (\<lambda>r. r\<lparr>az_revoked_at := Some now\<rparr>) (au_authorizations s1)\<rparr>)))"

text \<open>Access tokens are searched before refresh tokens; an unknown token is not an error.\<close>

definition revoke_token :: "token_hash \<Rightarrow> rstr \<Rightarrow> rstr \<Rightarrow> int \<Rightarrow> auth_db \<Rightarrow> auth_db" where
  "revoke_token hash tok cid now s =
     (let fams = map tk_family (select_where (\<lambda>r. tk_hash r = hash tok \<and> tk_client r = cid) (au_access s))
            @ map rf_family (select_where (\<lambda>r. rf_hash r = hash tok \<and> rf_client r = cid) (au_refresh s)) in
      case fams of [] \<Rightarrow> s | fam # _ \<Rightarrow> revoke_family fam now s)"

end
