(* ===== verification/ScopeCeilings.thy ===== *)
theory ScopeCeilings
  imports McpStore
begin

text \<open>
  The scope ceilings a user sets for all MCP clients or for one of them
  (\<open>crates/marginalis-sqlite/src/mcp_scope_ceiling_repository.rs\<close>) and what the application makes of
  them (\<open>crates/marginalis-application/src/mcp_oauth.rs\<close>).  Lowering a ceiling withdraws every code and
  token that exceeds it.
\<close>

record ceiling_setting =
  ce_scopes :: "rstr list"
  ce_revision :: int

record stored_ceilings =
  sc_principal :: "ceiling_setting option"
  sc_client :: "ceiling_setting option"

text \<open>The listing record, generic in how the ceiling is shown.\<close>

record 'c client_authorization =
  ca_client :: rstr
  ca_name :: rstr
  ca_method :: registration_method
  ca_granted :: "rstr list"
  ca_ceiling :: 'c
  ca_authorized_at :: unix_millis
  ca_last_used_at :: "unix_millis option"
  ca_active :: bool

section \<open>Reading\<close>

definition decode_setting :: "rstr \<Rightarrow> int \<Rightarrow> storage_error + ceiling_setting" where
  "decode_setting scopes rvn =
     (if rvn \<le> 0 then Inl StorageCorruptData
      else Inr \<lparr>ce_scopes = split_ascii_whitespace scopes, ce_revision = rvn\<rparr>)"

definition find_client_ceiling :: "int \<Rightarrow> rstr \<Rightarrow> auth_db \<Rightarrow> client_ceiling_row option" where
  "find_client_ceiling p c s = find (\<lambda>r. cc_principal r = p \<and> cc_client r = c) (au_client_ceilings s)"

definition principal_scope_ceiling :: "actor \<Rightarrow> auth_db \<Rightarrow> storage_error + ceiling_setting option" where
  "principal_scope_ceiling act s =
     (case row_by pc_principal (actor_id act) (au_principal_ceilings s) of
        None \<Rightarrow> Inr None
      | Some r \<Rightarrow> rbind (decode_setting (pc_scopes r) (pc_revision r)) (\<lambda>c. Inr (Some c)))"

definition scope_ceilings :: "actor \<Rightarrow> rstr \<Rightarrow> auth_db \<Rightarrow> storage_error + stored_ceilings" where
  "scope_ceilings act cid s =
     rbind (principal_scope_ceiling act s) (\<lambda>pc.
     rbind (case find_client_ceiling (actor_id act) cid s of
              None \<Rightarrow> Inr None
            | Some r \<Rightarrow> rbind (decode_setting (cc_scopes r) (cc_revision r)) (\<lambda>c. Inr (Some c))) (\<lambda>cc.
     Inr \<lparr>sc_principal = pc, sc_client = cc\<rparr>))"

text \<open>An authorization is active while it is not revoked and a code or token of it can still be used.\<close>

definition authorization_active :: "auth_db \<Rightarrow> int \<Rightarrow> authorization_row \<Rightarrow> bool" where
  "authorization_active s now a \<longleftrightarrow> az_revoked_at a = None
     \<and> (exists_where (\<lambda>r. co_principal r = az_principal a \<and> co_client r = az_client a
            \<and> co_consumed_at r = None \<and> now < co_expires_at r) (au_codes s)
       \<or> exists_where (\<lambda>r. tk_principal r = az_principal a \<and> tk_client r = az_client a
            \<and> tk_revoked_at r = None \<and> now < tk_expires_at r) (au_access s)
       \<or> exists_where (\<lambda>r. rf_principal r = az_principal a \<and> rf_client r = az_client a
            \<and> rf_rotated_at r = None \<and> rf_revoked_at r = None \<and> now < rf_expires_at r) (au_refresh s))"

definition decode_authorization ::
  "auth_db \<Rightarrow> int \<Rightarrow> client_row \<Rightarrow> authorization_row
   \<Rightarrow> storage_error + ceiling_setting option client_authorization" where
  "decode_authorization s now c a =
     rbind (case find_client_ceiling (az_principal a) (az_client a) s of
              None \<Rightarrow> Inr None
            | Some r \<Rightarrow> if 1 \<le> cc_revision r
                then Inr (Some \<lparr>ce_scopes = split_ascii_whitespace (cc_scopes r), ce_revision = cc_revision r\<rparr>)
                else Inl StorageCorruptData) (\<lambda>ceiling.
     Inr \<lparr>ca_client = cl_id c, ca_name = cl_name c, ca_method = cl_method c,
          ca_granted = split_ascii_whitespace (az_granted a), ca_ceiling = ceiling,
          ca_authorized_at = az_authorized_at a, ca_last_used_at = az_last_used_at a,
          ca_active = authorization_active s now a\<rparr>)"

text \<open>Most recently authorized first, equal times by client id.\<close>

definition stored_client_authorizations ::
  "actor \<Rightarrow> unix_millis \<Rightarrow> auth_db \<Rightarrow> storage_error + ceiling_setting option client_authorization list" where
  "stored_client_authorizations act now s =
     traverse (\<lambda>(a, c). decode_authorization s now c a)
       (sort_key (\<lambda>(a, c). - az_authorized_at a) (sort_key (\<lambda>(a, c). cl_id c)
         (List.map_filter (\<lambda>a. map_option (Pair a) (row_by cl_id (az_client a) (au_clients s)))
           (select_where (\<lambda>a. az_principal a = actor_id act) (au_authorizations s)))))"

section \<open>Withdrawing what exceeds a ceiling\<close>

definition scopes_fit :: "rstr \<Rightarrow> rstr list \<Rightarrow> bool" where
  "scopes_fit encoded allowed \<longleftrightarrow> list_all (\<lambda>sc. sc \<in> set allowed) (split_ascii_whitespace encoded)"

definition in_reach :: "int \<Rightarrow> rstr option \<Rightarrow> int \<Rightarrow> rstr \<Rightarrow> bool" where
  "in_reach p cid q c \<longleftrightarrow> q = p \<and> (case cid of None \<Rightarrow> True | Some x \<Rightarrow> c = x)"

definition excess_families :: "int \<Rightarrow> rstr option \<Rightarrow> auth_db \<Rightarrow> (u8 list \<times> rstr) list" where
  "excess_families p cid s = remdups
     (map (\<lambda>r. (tk_family r, tk_scopes r))
        (select_where (\<lambda>r. in_reach p cid (tk_principal r) (tk_client r) \<and> tk_revoked_at r = None) (au_access s))
      @ map (\<lambda>r. (rf_family r, rf_scopes r))
        (select_where (\<lambda>r. in_reach p cid (rf_principal r) (rf_client r) \<and> rf_revoked_at r = None) (au_refresh s)))"

definition invalidate_excess_grants ::
  "int \<Rightarrow> rstr option \<Rightarrow> rstr list \<Rightarrow> unix_millis \<Rightarrow> auth_db \<Rightarrow> auth_db" where
  "invalidate_excess_grants p cid allowed now s =
     (let codes = select_where (\<lambda>r. in_reach p cid (co_principal r) (co_client r) \<and> co_consumed_at r = None)
            (au_codes s);
          s1 = fold (\<lambda>c e. if scopes_fit (co_scopes c) allowed then e
                 else e\<lparr>au_codes := delete_where (\<lambda>r. co_hash r = co_hash c) (au_codes e)\<rparr>) codes s in
      fold (\<lambda>(fam, scopes) e. if scopes_fit scopes allowed then e else revoke_family fam now e)
        (excess_families p cid s1) s1)"

section \<open>Replacing and removing a ceiling\<close>

definition replace_principal_setting ::
  "actor \<Rightarrow> rstr list \<Rightarrow> int \<Rightarrow> unix_millis \<Rightarrow> auth_db \<Rightarrow> storage_error + (int \<times> auth_db)" where
  "replace_principal_setting act scopes expected now s =
     (let p = actor_id act; encoded = join_spaces scopes in
      if expected = 0 then
        if row_by pc_principal p (au_principal_ceilings s) \<noteq> None then Inl StorageConflict
        else if p \<notin> set (db_principals (au_db s)) then Inl StorageUnavailable
        else Inr (1, s\<lparr>au_principal_ceilings := au_principal_ceilings s @ [\<lparr>pc_principal = p,
               pc_scopes = encoded, pc_revision = 1, pc_updated_at = now\<rparr>]\<rparr>)
      else
        (case find (\<lambda>r. pc_principal r = p \<and> pc_revision r = expected) (au_principal_ceilings s) of
           None \<Rightarrow> Inl StorageConflict
         | Some r \<Rightarrow>
             if \<not> (0 < expected + 1 \<and> in_i64 (expected + 1)) then Inl StorageUnavailable
             else Inr (expected + 1, s\<lparr>au_principal_ceilings := update_where
               (\<lambda>r. pc_principal r = p \<and> pc_revision r = expected)
               (\<lambda>r. r\<lparr>pc_scopes := encoded, pc_revision := pc_revision r + 1, pc_updated_at := now\<rparr>)
               (au_principal_ceilings s)\<rparr>)))"

definition replace_client_setting ::
  "actor \<Rightarrow> rstr \<Rightarrow> rstr list \<Rightarrow> int \<Rightarrow> unix_millis \<Rightarrow> auth_db \<Rightarrow> storage_error + (int \<times> auth_db)" where
  "replace_client_setting act cid scopes expected now s =
     (let p = actor_id act; encoded = join_spaces scopes in
      if expected = 0 then
        if find_client_ceiling p cid s \<noteq> None then Inl StorageConflict
        else if p \<notin> set (db_principals (au_db s)) \<or> \<not> known_client s cid then Inl StorageUnavailable
        else Inr (1, s\<lparr>au_client_ceilings := au_client_ceilings s @ [\<lparr>cc_principal = p, cc_client = cid,
               cc_scopes = encoded, cc_revision = 1, cc_updated_at = now\<rparr>]\<rparr>)
      else
        (case find (\<lambda>r. cc_principal r = p \<and> cc_client r = cid \<and> cc_revision r = expected) (au_client_ceilings s) of
           None \<Rightarrow> Inl StorageConflict
         | Some r \<Rightarrow>
             if \<not> (0 < expected + 1 \<and> in_i64 (expected + 1)) then Inl StorageUnavailable
             else Inr (expected + 1, s\<lparr>au_client_ceilings := update_where
               (\<lambda>r. cc_principal r = p \<and> cc_client r = cid \<and> cc_revision r = expected)
               (\<lambda>r. r\<lparr>cc_scopes := encoded, cc_revision := cc_revision r + 1, cc_updated_at := now\<rparr>)
               (au_client_ceilings s)\<rparr>)))"

definition authorized_client :: "actor \<Rightarrow> rstr \<Rightarrow> auth_db \<Rightarrow> storage_error + unit" where
  "authorized_client act cid s =
     (case find_authorization (actor_id act) cid s of None \<Rightarrow> Inl StorageNotFound | Some _ \<Rightarrow> Inr ())"

definition replace_principal_scope_ceiling ::
  "actor \<Rightarrow> rstr list \<Rightarrow> int \<Rightarrow> unix_millis \<Rightarrow> auth_db \<Rightarrow> storage_error + (ceiling_setting \<times> auth_db)" where
  "replace_principal_scope_ceiling act scopes expected now s =
     rbind (replace_principal_setting act scopes expected now s) (\<lambda>(rvn, s1).
     Inr (\<lparr>ce_scopes = scopes, ce_revision = rvn\<rparr>,
       invalidate_excess_grants (actor_id act) None scopes now s1))"

definition replace_client_scope_ceiling ::
  "actor \<Rightarrow> rstr \<Rightarrow> rstr list \<Rightarrow> int \<Rightarrow> unix_millis \<Rightarrow> auth_db
   \<Rightarrow> storage_error + (ceiling_setting \<times> auth_db)" where
  "replace_client_scope_ceiling act cid scopes expected now s =
     (if \<not> known_client s cid then Inl StorageNotFound
      else rbind (authorized_client act cid s) (\<lambda>_.
        rbind (replace_client_setting act cid scopes expected now s) (\<lambda>(rvn, s1).
        Inr (\<lparr>ce_scopes = scopes, ce_revision = rvn\<rparr>,
          invalidate_excess_grants (actor_id act) (Some cid) scopes now s1))))"

definition delete_client_scope_ceiling ::
  "actor \<Rightarrow> rstr \<Rightarrow> int \<Rightarrow> auth_db \<Rightarrow> storage_error + auth_db" where
  "delete_client_scope_ceiling act cid expected s =
     rbind (authorized_client act cid s) (\<lambda>_.
     let gone = (\<lambda>r. cc_principal r = actor_id act \<and> cc_client r = cid \<and> cc_revision r = expected) in
     if count_where gone (au_client_ceilings s) \<noteq> 1 then Inl StorageConflict
     else Inr (s\<lparr>au_client_ceilings := delete_where gone (au_client_ceilings s)\<rparr>))"

section \<open>The application's view\<close>

record effective_ceiling =
  ec_configured :: bool
  ec_setting :: ceiling_setting

text \<open>An unset ceiling is the whole supported set; an empty one denies everything.\<close>

definition effective_scope_ceiling :: "rstr list \<Rightarrow> ceiling_setting option \<Rightarrow> effective_ceiling" where
  "effective_scope_ceiling supported stored =
     (case stored of
        Some setting \<Rightarrow> \<lparr>ec_configured = True, ec_setting = setting\<rparr>
      | None \<Rightarrow> \<lparr>ec_configured = False,
          ec_setting = \<lparr>ce_scopes = supported, ce_revision = 0\<rparr>\<rparr>)"

datatype ceiling_error = CeilingInvalid | CeilingConflict | ClientNotFound | CeilingUnavailable
  | CeilingCorruptData

fun ceiling_error_of :: "storage_error \<Rightarrow> ceiling_error" where
  "ceiling_error_of StorageConflict = CeilingConflict"
| "ceiling_error_of StorageCorruptData = CeilingCorruptData"
| "ceiling_error_of StorageNotFound = ClientNotFound"
| "ceiling_error_of StorageRetentionExpired = CeilingUnavailable"
| "ceiling_error_of StorageUnavailable = CeilingUnavailable"

text \<open>
  \<open>valid\<close> is the authorization server's check of a pair of ceilings (principal, client) against the
  scopes it supports.
\<close>

type_synonym ceiling_check = "rstr list \<Rightarrow> rstr list \<Rightarrow> bool"

definition app_replace_principal_scope_ceiling ::
  "rstr list \<Rightarrow> ceiling_check \<Rightarrow> actor \<Rightarrow> rstr list \<Rightarrow> int \<Rightarrow> unix_millis \<Rightarrow> auth_db
   \<Rightarrow> ceiling_error + (ceiling_setting \<times> auth_db)" where
  "app_replace_principal_scope_ceiling supported valid act scopes expected now s =
     (if expected < 0 then Inl CeilingInvalid
      else if \<not> valid scopes supported then Inl CeilingInvalid
      else map_err ceiling_error_of (replace_principal_scope_ceiling act scopes expected now s))"

definition app_replace_client_scope_ceiling ::
  "rstr list \<Rightarrow> ceiling_check \<Rightarrow> actor \<Rightarrow> rstr \<Rightarrow> rstr list \<Rightarrow> int \<Rightarrow> unix_millis \<Rightarrow> auth_db
   \<Rightarrow> ceiling_error + (ceiling_setting \<times> auth_db)" where
  "app_replace_client_scope_ceiling supported valid act cid scopes expected now s =
     (if expected < 0 then Inl CeilingInvalid
      else if \<not> valid supported scopes then Inl CeilingInvalid
      else map_err ceiling_error_of (replace_client_scope_ceiling act cid scopes expected now s))"

definition app_delete_client_scope_ceiling ::
  "actor \<Rightarrow> rstr \<Rightarrow> int \<Rightarrow> auth_db \<Rightarrow> ceiling_error + auth_db" where
  "app_delete_client_scope_ceiling act cid expected s =
     (if expected \<le> 0 then Inl CeilingInvalid
      else map_err ceiling_error_of (delete_client_scope_ceiling act cid expected s))"

definition app_principal_scope_ceiling ::
  "rstr list \<Rightarrow> actor \<Rightarrow> auth_db \<Rightarrow> ceiling_error + ceiling_setting" where
  "app_principal_scope_ceiling supported act s =
     rbind (map_err ceiling_error_of (principal_scope_ceiling act s)) (\<lambda>stored.
     Inr (ec_setting (effective_scope_ceiling supported stored)))"

definition app_client_authorizations ::
  "rstr list \<Rightarrow> actor \<Rightarrow> unix_millis \<Rightarrow> auth_db \<Rightarrow> ceiling_error + effective_ceiling client_authorization list" where
  "app_client_authorizations supported act now s =
     rbind (map_err ceiling_error_of (stored_client_authorizations act now s)) (\<lambda>xs.
     Inr (map (\<lambda>a. \<lparr>ca_client = ca_client a, ca_name = ca_name a, ca_method = ca_method a,
        ca_granted = ca_granted a, ca_ceiling = effective_scope_ceiling supported (ca_ceiling a),
        ca_authorized_at = ca_authorized_at a, ca_last_used_at = ca_last_used_at a,
        ca_active = ca_active a\<rparr>) xs))"

datatype mcp_use_case_error = McpUnavailable

text \<open>
  The ceilings an authorization is decided with; \<open>build\<close> is the authorization server's constructor of
  the pair, which may refuse it.
\<close>

definition resolved_scope_ceilings ::
  "rstr list \<Rightarrow> (rstr list \<Rightarrow> rstr list \<Rightarrow> 'c option) \<Rightarrow> actor \<Rightarrow> rstr \<Rightarrow> auth_db \<Rightarrow> mcp_use_case_error + 'c" where
  "resolved_scope_ceilings supported build act cid s =
     rbind (map_err (\<lambda>_. McpUnavailable) (scope_ceilings act cid s)) (\<lambda>stored.
     ok_or McpUnavailable (build (ce_scopes (ec_setting (effective_scope_ceiling supported (sc_principal stored))))
       (ce_scopes (ec_setting (effective_scope_ceiling supported (sc_client stored))))))"

record authenticated_actor =
  aa_actor :: actor
  aa_scopes :: "rstr list"

text \<open>
  \<open>McpOAuthApplication::authenticate\<close>, with the authorization server's own \<open>authenticate\<close> standing for
  the repository call it makes.
\<close>

definition app_authenticate ::
  "url_parser \<Rightarrow> authenticated option \<Rightarrow> db \<Rightarrow> mcp_use_case_error + authenticated_actor option" where
  "app_authenticate pu found d =
     (case found of
        None \<Rightarrow> Inr None
      | Some a \<Rightarrow>
          rbind (map_err (\<lambda>_. McpUnavailable)
            (identity_new pu (xp_issuer (an_principal a)) (xp_subject (an_principal a)))) (\<lambda>i.
          rbind (map_err (\<lambda>_. McpUnavailable) (resolve pu i d)) (\<lambda>found.
          rbind (ok_or McpUnavailable found) (\<lambda>act.
          Inr (Some \<lparr>aa_actor = act, aa_scopes = an_scopes a\<rparr>)))))"

end
