(* ===== verification/SessionStore.thy ===== *)
theory SessionStore
  imports McpStore
begin

text \<open>
  Web sessions and pending OIDC logins (\<open>crates/marginalis-sqlite/src/session.rs\<close>) and the completion
  of a login (\<open>crates/marginalis-application/src/identity.rs\<close>).  The digests of the session id and the
  CSRF token are computed by the session crate, which is not part of the repository; its check of a
  stored principal is the parameter \<open>mk\<close>.
\<close>

type_synonym principal_check = "rstr \<Rightarrow> rstr \<Rightarrow> ext_principal option"

record session_record =
  sn_digest :: "u8 list"
  sn_csrf :: "u8 list"
  sn_principal :: ext_principal
  sn_idle_expires_at :: int
  sn_absolute_expires_at :: int

record session_view =
  sv_principal :: ext_principal
  sv_idle_expires_at :: int
  sv_absolute_expires_at :: int

section \<open>Sessions\<close>

text \<open>
  The principal is resolved in a transaction of its own, which stays committed when the insertion
  fails.
\<close>

definition issue_session ::
  "url_parser \<Rightarrow> session_record \<Rightarrow> int \<Rightarrow> auth_db \<Rightarrow> (store_error + unit) \<times> auth_db" where
  "issue_session pu rec now s =
     (case resolve_mcp_principal pu (sn_principal rec) (au_db s) of
        Inl e \<Rightarrow> (Inl e, s)
      | Inr ((a, iid), d) \<Rightarrow>
          let s1 = s\<lparr>au_db := d\<rparr> in
          (case sql_insert_session \<lparr>ss_hash = sn_digest rec, ss_csrf = sn_csrf rec, ss_principal = actor_id a,
               ss_identity = iid, ss_issued_at = now, ss_last_seen_at = now,
               ss_idle_expires_at = sn_idle_expires_at rec,
               ss_absolute_expires_at = sn_absolute_expires_at rec, ss_revoked_at = None\<rparr> s1 of
             Inl e \<Rightarrow> (Inl e, s1)
           | Inr s2 \<Rightarrow> (Inr (), s2)))"

definition session_live :: "u8 list \<Rightarrow> int \<Rightarrow> session_row \<Rightarrow> bool" where
  "session_live digest now r \<longleftrightarrow> ss_hash r = digest \<and> ss_revoked_at r = None
     \<and> now < ss_idle_expires_at r \<and> now < ss_absolute_expires_at r"

definition session_principal :: "principal_check \<Rightarrow> int \<Rightarrow> db \<Rightarrow> store_error + ext_principal" where
  "session_principal mk iid d =
     rbind (ok_or CorruptData (row_by ir_identity_id iid (db_identities d))) (\<lambda>r.
     ok_or CorruptData (mk (ir_issuer r) (ir_subject r)))"

text \<open>
  One statement checks and extends; a row that has expired is marked as revoked so that it cannot be
  used before it is cleaned up.
\<close>

definition lookup_and_extend ::
  "principal_check \<Rightarrow> u8 list \<Rightarrow> int \<Rightarrow> nat \<Rightarrow> auth_db \<Rightarrow> store_error + (session_view option \<times> auth_db)" where
  "lookup_and_extend mk digest now idle_window_ms s =
     (let window = min i64_max (int idle_window_ms);
          next_idle = i64_saturating_add now window;
          extend = (\<lambda>r. r\<lparr>ss_last_seen_at := now,
                     ss_idle_expires_at := min (ss_absolute_expires_at r) next_idle\<rparr>) in
      case find (session_live digest now) (au_sessions s) of
        Some row \<Rightarrow>
          rbind (session_principal mk (ss_identity row) (au_db s)) (\<lambda>principal.
          Inr (Some \<lparr>sv_principal = principal, sv_idle_expires_at = ss_idle_expires_at (extend row),
                 sv_absolute_expires_at = ss_absolute_expires_at row\<rparr>,
               s\<lparr>au_sessions := update_where (session_live digest now) extend (au_sessions s)\<rparr>))
      | None \<Rightarrow>
          Inr (None, s\<lparr>au_sessions := update_where
             (\<lambda>r. ss_hash r = digest \<and> ss_revoked_at r = None
                \<and> (ss_idle_expires_at r \<le> now \<or> ss_absolute_expires_at r \<le> now))
             (\<lambda>r. r\<lparr>ss_revoked_at := Some now\<rparr>) (au_sessions s)\<rparr>))"

definition csrf_digest :: "u8 list \<Rightarrow> auth_db \<Rightarrow> store_error + u8 list option" where
  "csrf_digest digest s =
     (case find (\<lambda>r. ss_hash r = digest \<and> ss_revoked_at r = None) (au_sessions s) of
        None \<Rightarrow> Inr None
      | Some r \<Rightarrow> if length (ss_csrf r) = 32 then Inr (Some (ss_csrf r)) else Inl CorruptData)"

definition revoke_session :: "u8 list \<Rightarrow> int \<Rightarrow> auth_db \<Rightarrow> auth_db" where
  "revoke_session digest now s =
     s\<lparr>au_sessions := update_where (\<lambda>r. ss_hash r = digest \<and> ss_revoked_at r = None)
        (\<lambda>r. r\<lparr>ss_revoked_at := Some now\<rparr>) (au_sessions s)\<rparr>"

section \<open>Pending logins\<close>

definition max_pending_oidc_login_attempts :: int where
  "max_pending_oidc_login_attempts = 1024"

record login_attempt =
  lo_state :: rstr
  lo_nonce :: rstr
  lo_verifier :: rstr
  lo_expires_at :: unix_millis

datatype login_store_error = TooManyAttempts | LoginDatabase

definition issue_login_attempt ::
  "token_hash \<Rightarrow> login_attempt \<Rightarrow> unix_millis \<Rightarrow> auth_db \<Rightarrow> login_store_error + auth_db" where
  "issue_login_attempt hash a now s =
     (let live = delete_where (\<lambda>r. la_expires_at r \<le> now) (au_logins s) in
      if max_pending_oidc_login_attempts \<le> int (length live) then Inl TooManyAttempts
      else if exists_where (\<lambda>r. la_state r = hash (lo_state a)) live then Inl LoginDatabase
      else Inr (s\<lparr>au_logins := live @ [\<lparr>la_state = hash (lo_state a), la_nonce = lo_nonce a,
             la_verifier = lo_verifier a, la_expires_at = lo_expires_at a\<rparr>]\<rparr>))"

text \<open>The row is deleted even when it turns out to have expired.\<close>

definition consume_login_attempt ::
  "token_hash \<Rightarrow> rstr \<Rightarrow> unix_millis \<Rightarrow> auth_db \<Rightarrow> login_attempt option \<times> auth_db" where
  "consume_login_attempt hash state now s =
     (case row_by la_state (hash state) (au_logins s) of
        None \<Rightarrow> (None, s)
      | Some r \<Rightarrow>
          (if now < la_expires_at r
           then Some \<lparr>lo_state = state, lo_nonce = la_nonce r, lo_verifier = la_verifier r,
                  lo_expires_at = la_expires_at r\<rparr> else None,
           s\<lparr>au_logins := delete_where (\<lambda>x. la_state x = hash state) (au_logins s)\<rparr>))"

section \<open>Completing a login\<close>

record external_identity =
  xi_issuer :: rstr
  xi_subject :: rstr
  xi_groups :: "rstr list"

datatype provider_error = ProviderRejected | ProviderUnavailable
datatype authentication_error = Rejected | Unavailable

fun map_provider_error :: "provider_error \<Rightarrow> authentication_error" where
  "map_provider_error ProviderRejected = Rejected"
| "map_provider_error ProviderUnavailable = Unavailable"

text \<open>\<open>result\<close> is what the identity provider made of the code and state.\<close>

definition complete_login ::
  "url_parser \<Rightarrow> rstr list \<Rightarrow> provider_error + external_identity \<Rightarrow> db \<Rightarrow> authentication_error + (actor \<times> db)" where
  "complete_login pu allowed result d =
     rbind (map_err map_provider_error result) (\<lambda>x.
     if allowed \<noteq> [] \<and> \<not> list_ex (\<lambda>g. g \<in> set allowed) (xi_groups x) then Inl Rejected
     else
       rbind (map_err (\<lambda>_. Rejected) (identity_new pu (xi_issuer x) (xi_subject x))) (\<lambda>i.
       map_err (\<lambda>_. Unavailable) (resolve_or_create_verified pu i d)))"

end
