(* ===== verification/AuthPurge.thy ===== *)
theory AuthPurge
  imports ScopeCeilings SessionStore NoteSync
begin

text \<open>
  The periodic purge of expired authentication and synchronisation state,
  \<open>purge_expired_operational_state\<close> of \<open>crates/marginalis-sqlite/src/cleanup.rs\<close>, one definition per
  statement in the order of the transaction.  Webhook deliveries are not modelled: the parameter
  \<open>pending\<close> says which changes a delivery still refers to.
\<close>

definition purge_sessions :: "int \<Rightarrow> auth_db \<Rightarrow> auth_db" where
  "purge_sessions now s = s\<lparr>au_sessions := delete_where (\<lambda>r. ss_revoked_at r \<noteq> None
     \<or> ss_idle_expires_at r \<le> now \<or> ss_absolute_expires_at r \<le> now) (au_sessions s)\<rparr>"

definition purge_login_attempts :: "int \<Rightarrow> auth_db \<Rightarrow> auth_db" where
  "purge_login_attempts now s = s\<lparr>au_logins := delete_where (\<lambda>r. la_expires_at r \<le> now) (au_logins s)\<rparr>"

definition purge_access_tokens :: "int \<Rightarrow> auth_db \<Rightarrow> auth_db" where
  "purge_access_tokens now s = s\<lparr>au_access := delete_where
     (\<lambda>r. tk_expires_at r \<le> now \<or> tk_revoked_at r \<noteq> None) (au_access s)\<rparr>"

text \<open>
  A rotated or expired refresh token stays as long as its family has a usable one, so that a replay is
  still recognised.
\<close>

definition purge_refresh_tokens :: "int \<Rightarrow> auth_db \<Rightarrow> auth_db" where
  "purge_refresh_tokens now s = s\<lparr>au_refresh := delete_where
     (\<lambda>r. rf_revoked_at r \<noteq> None
        \<or> ((rf_expires_at r \<le> now \<or> rf_rotated_at r \<noteq> None)
           \<and> \<not> exists_where (\<lambda>x. rf_family x = rf_family r \<and> refresh_usable now x) (au_refresh s)))
     (au_refresh s)\<rparr>"

definition purge_authorization_codes :: "int \<Rightarrow> auth_db \<Rightarrow> auth_db" where
  "purge_authorization_codes now s = s\<lparr>au_codes := delete_where
     (\<lambda>r. co_expires_at r \<le> now
        \<and> (case co_family r of None \<Rightarrow> True
           | Some fam \<Rightarrow> \<not> exists_where (\<lambda>x. tk_family x = fam) (au_access s)
               \<and> \<not> exists_where (\<lambda>x. rf_family x = fam) (au_refresh s)))
     (au_codes s)\<rparr>"

definition purge_client_authorizations :: "int \<Rightarrow> auth_db \<Rightarrow> auth_db" where
  "purge_client_authorizations cutoff s = s\<lparr>au_authorizations := delete_where
     (\<lambda>a. (case az_last_used_at a of None \<Rightarrow> az_authorized_at a | Some t \<Rightarrow> t) < cutoff
        \<and> \<not> exists_where (\<lambda>r. co_principal r = az_principal a \<and> co_client r = az_client a) (au_codes s)
        \<and> \<not> exists_where (\<lambda>r. tk_principal r = az_principal a \<and> tk_client r = az_client a) (au_access s)
        \<and> \<not> exists_where (\<lambda>r. rf_principal r = az_principal a \<and> rf_client r = az_client a) (au_refresh s))
     (au_authorizations s)\<rparr>"

definition purge_clients :: "int \<Rightarrow> auth_db \<Rightarrow> auth_db" where
  "purge_clients cutoff s = s\<lparr>au_clients := delete_where
     (\<lambda>c. cl_registered_at c < cutoff
        \<and> \<not> exists_where (\<lambda>r. co_client r = cl_id c) (au_codes s)
        \<and> \<not> exists_where (\<lambda>r. tk_client r = cl_id c) (au_access s)
        \<and> \<not> exists_where (\<lambda>r. rf_client r = cl_id c) (au_refresh s)
        \<and> \<not> exists_where (\<lambda>r. cc_client r = cl_id c) (au_client_ceilings s)
        \<and> \<not> exists_where (\<lambda>r. az_client r = cl_id c) (au_authorizations s))
     (au_clients s)\<rparr>"

text \<open>Expired cursors stay for another retention period, to tell them from unknown ones.\<close>

definition purge_sync_cursors :: "int \<Rightarrow> db \<Rightarrow> db" where
  "purge_sync_cursors horizon d =
     d\<lparr>db_cursors := delete_where (\<lambda>c. cu_expires_at c \<le> horizon) (db_cursors d)\<rparr>"

definition purge_projection :: "int \<Rightarrow> db \<Rightarrow> db" where
  "purge_projection horizon d =
     d\<lparr>db_projection := delete_where (\<lambda>x. exists_where
         (\<lambda>c. ch_sequence c = pj_sequence x \<and> ch_occurred_at c \<le> horizon) (db_changes d))
       (db_projection d)\<rparr>"

definition purge_changes :: "(int \<Rightarrow> bool) \<Rightarrow> int \<Rightarrow> db \<Rightarrow> db" where
  "purge_changes pending horizon d =
     d\<lparr>db_changes := delete_where (\<lambda>c. ch_occurred_at c \<le> horizon
         \<and> \<not> exists_where (\<lambda>x. pj_sequence x = ch_sequence c) (db_projection d)
         \<and> \<not> pending (ch_sequence c)) (db_changes d)\<rparr>"

definition purge_sync_state :: "(int \<Rightarrow> bool) \<Rightarrow> int \<Rightarrow> db \<Rightarrow> db" where
  "purge_sync_state pending now d =
     (let horizon = i64_saturating_sub now note_sync_cursor_retention_ms in
      purge_changes pending horizon (purge_projection horizon (purge_sync_cursors horizon d)))"

text \<open>The MCP tables, in the order of the transaction.\<close>

definition purge_mcp_state :: "int \<Rightarrow> int \<Rightarrow> auth_db \<Rightarrow> auth_db" where
  "purge_mcp_state now cutoff s =
     purge_clients cutoff (purge_client_authorizations cutoff (purge_authorization_codes now
       (purge_refresh_tokens now (purge_access_tokens now s))))"

record purge_counts =
  pn_sessions :: nat
  pn_login_attempts :: nat
  pn_access_tokens :: nat
  pn_refresh_tokens :: nat
  pn_codes :: nat
  pn_authorizations :: nat
  pn_clients :: nat
  pn_cursors :: nat
  pn_projection :: nat

definition purge_counts_of :: "auth_db \<Rightarrow> auth_db \<Rightarrow> purge_counts" where
  "purge_counts_of s e =
     \<lparr>pn_sessions = length (au_sessions s) - length (au_sessions e),
      pn_login_attempts = length (au_logins s) - length (au_logins e),
      pn_access_tokens = length (au_access s) - length (au_access e),
      pn_refresh_tokens = length (au_refresh s) - length (au_refresh e),
      pn_codes = length (au_codes s) - length (au_codes e),
      pn_authorizations = length (au_authorizations s) - length (au_authorizations e),
      pn_clients = length (au_clients s) - length (au_clients e),
      pn_cursors = length (db_cursors (au_db s)) - length (db_cursors (au_db e)),
      pn_projection = length (db_projection (au_db s)) - length (db_projection (au_db e))\<rparr>"

definition purge_expired_operational_state ::
  "(int \<Rightarrow> bool) \<Rightarrow> int \<Rightarrow> int \<Rightarrow> auth_db \<Rightarrow> purge_counts \<times> auth_db" where
  "purge_expired_operational_state pending now unused_client_cutoff s =
     (let s1 = purge_mcp_state now unused_client_cutoff (purge_login_attempts now (purge_sessions now s));
          e = s1\<lparr>au_db := purge_sync_state pending now (au_db s1)\<rparr> in
      (purge_counts_of s e, e))"

end
