(* ===== verification/NoteSyncProps.thy ===== *)
theory NoteSyncProps
  imports NoteSync
begin

text \<open>
  The feed implements the change-log contract: what one page does to the replica of the client that applies
  it.  The bounds of a page, and to whom and how long a cursor is worth something.
\<close>

section \<open>The store as a change log\<close>

definition feed_step :: "url_parser \<Rightarrow> db \<Rightarrow> db \<Rightarrow> bool" where
  "feed_step pu d e \<longleftrightarrow> store_step pu d e \<or> (\<exists>row. insert_cursor row d = Inr e)"

definition log_mark :: "db \<Rightarrow> int \<Rightarrow> note_id \<Rightarrow> int option" where
  "log_mark d p n = map_option pj_sequence (proj_row d p n)"

lemma insert_cursor_Inr:
  assumes "insert_cursor row d = Inr e"
  shows "e = d\<lparr>db_cursors := db_cursors d @ [row]\<rparr>" "row_by cu_hash (cu_hash row) (db_cursors d) = None"
  using assms by (auto simp: insert_cursor_def split: if_splits)

lemma insert_cursor_frame:
  assumes "insert_cursor row d = Inr e"
  shows "store_ok pu e = store_ok pu d" "visible_details e p n = visible_details d p n"
    "visible_note pu e p n = visible_note pu d p n" "proj_row e = proj_row d"
    "db_next_sequence e = db_next_sequence d"
proof -
  note e = insert_cursor_Inr(1) [OF assms]
  have f: "find_note e = find_note d" by (rule find_note_cong) (simp add: e)
  have h: "has_access e = has_access d" by (rule has_access_cong) (simp_all add: e)
  have p: "primary_identity_row e = primary_identity_row d" by (rule primary_identity_row_cong) (simp add: e)
  show pr: "proj_row e = proj_row d" by (rule proj_row_cong) (simp add: e)
  show n: "db_next_sequence e = db_next_sequence d" by (simp add: e)
  have v: "visible e = visible d" by (intro ext) (simp add: visible_def f h)
  have fd: "fetch_details e m = fetch_details d m" for m by (rule fetch_details_cong) (use f in simp, simp add: e)
  show vd: "visible_details e p n = visible_details d p n" for p n by (simp add: visible_details_def v fd)
  show "visible_note pu e p n = visible_note pu d p n" by (simp add: visible_note_def vd)
  have "fetch_note pu m e = fetch_note pu m d" for m by (simp add: fetch_note_def fd)
  then have "notes_ok pu e = notes_ok pu d" by (simp add: notes_ok_def e)
  moreover have "principals_ok pu e = principals_ok pu d" by (rule principals_ok_cong) (simp_all add: e)
  moreover have "acl_ok e = acl_ok d" by (simp add: acl_ok_def f) (simp add: e)
  moreover have "history_ok e = history_ok d"
    unfolding history_ok_def note_history_def f by (simp add: e)
  moreover have "sync_ok e = sync_ok d" unfolding sync_ok_def v by (simp add: e)
  ultimately show "store_ok pu e = store_ok pu d" by (simp add: store_ok_def)
qed

interpretation feed: change_log "store_ok pu" "feed_step pu" "\<lambda>d. visible_note pu d p"
  "\<lambda>d. log_mark d p" db_next_sequence for pu :: url_parser and p :: int
proof unfold_locales
  fix d e :: db and k :: note_id and m :: int
  assume ok: "store_ok pu d"
  {
    assume "feed_step pu d e"
    then consider (step) "store_step pu d e" | (cursor) row where "insert_cursor row d = Inr e"
      by (auto simp: feed_step_def)
    then have "store_ok pu e \<and> tracks d e"
    proof cases
      case step
      then show ?thesis using store_step_ok ok by blast
    next
      case cursor
      then show ?thesis using ok insert_cursor_frame [OF cursor] by (simp add: tracks_def)
    qed
  }
  note eff = this
  show "feed_step pu d e \<Longrightarrow> store_ok pu e" using eff by blast
  show "feed_step pu d e \<Longrightarrow> db_next_sequence d \<le> db_next_sequence e" using eff by (simp add: tracks_def)
  show "feed_step pu d e \<Longrightarrow> (\<exists>m. log_mark e p k = Some m \<and> db_next_sequence d \<le> m)
      \<or> (log_mark e p k = log_mark d p k \<and> visible_note pu e p k = visible_note pu d p k)"
    using eff unfolding tracks_def log_mark_def visible_note_def by (metis option.simps(9))
  show "log_mark d p k = Some m \<Longrightarrow> m < db_next_sequence d"
    using store_okD(5) [OF ok] sync_okD(1,3,7) proj_row_iff
    by (fastforce simp: log_mark_def)
qed

section \<open>The client\<close>

type_synonym replica = "note_id \<Rightarrow> note_rec option"

fun entry_value :: "sync_entry \<Rightarrow> note_rec option" where
  "entry_value (SyncUpsert n) = Some n"
| "entry_value (SyncRemove _ _) = None"

definition apply_entries :: "sync_entry list \<Rightarrow> replica \<Rightarrow> replica" where
  "apply_entries es c = fold (\<lambda>x c. c(entry_note x := entry_value x)) es c"

lemma apply_entries_view:
  "(\<And>x. x \<in> set es \<Longrightarrow> entry_value x = v (entry_note x)) \<Longrightarrow>
   apply_entries es c k = (if k \<in> entry_note ` set es then v k else c k)"
  by (induction es arbitrary: c) (auto simp: apply_entries_def)

abbreviation loads :: "url_parser \<Rightarrow> int \<Rightarrow> db \<Rightarrow> int \<Rightarrow> note_id set \<Rightarrow> replica \<Rightarrow> bool" where
  "loads pu p \<equiv> change_log.loading (\<lambda>d. visible_note pu d p) (\<lambda>d. log_mark d p) db_next_sequence"

abbreviation follows :: "url_parser \<Rightarrow> int \<Rightarrow> db \<Rightarrow> int \<Rightarrow> replica \<Rightarrow> bool" where
  "follows pu p \<equiv> change_log.following (\<lambda>d. visible_note pu d p) (\<lambda>d. log_mark d p) db_next_sequence"

fun loaded :: "note_id option \<Rightarrow> note_id set" where
  "loaded None = {}"
| "loaded (Some a) = {k. k \<le> a}"

text \<open>What a cursor state says about the replica of its holder.\<close>

definition state_inv :: "url_parser \<Rightarrow> int \<Rightarrow> db \<Rightarrow> cursor_state \<Rightarrow> replica \<Rightarrow> bool" where
  "state_inv pu p d st c \<longleftrightarrow>
     (case cs_phase st of
        Snapshot \<Rightarrow> loads pu p d (cs_high_watermark st) (loaded (cs_after_note st)) c
      | Changes \<Rightarrow> follows pu p d (cs_after_sequence st) c)"

lemma state_inv_step:
  "store_ok pu d \<Longrightarrow> feed_step pu d e \<Longrightarrow> state_inv pu p d st c \<Longrightarrow> state_inv pu p e st c"
  using feed.loading_step feed.following_step by (auto simp: state_inv_def split: sync_phase.splits)

lemma snapshot_entry_view:
  assumes ok: "store_ok pu d" and nd: "nd \<in> set (visible_rows d p)" and x: "snapshot_entry pu nd = Inr x"
  shows "entry_note x = nr_id (nd_row nd) \<and> entry_value x = visible_note pu d p (nr_id (nd_row nd))
    \<and> x = SyncUpsert (the (entry_value x))"
proof -
  from x obtain n where n: "note_from_row pu nd = Inr n" "x = SyncUpsert n"
    by (auto simp: snapshot_entry_def rbind_Inr_iff sync_storage_def map_err_Inr_iff)
  have "visible_details d p (nr_id (nd_row nd)) = Some nd" using nd visible_rows_iff [OF ok] by blast
  from visible_note_row [OF this n(1)] n(2) show ?thesis by simp
qed

lemma change_entry_view:
  assumes ok: "store_ok pu d" and r: "r \<in> set (db_projection d)" "pj_principal r = p"
    and x: "change_entry pu d p r = Inr x"
  shows "entry_note x = pj_note r \<and> entry_value x = visible_note pu d p (pj_note r)"
proof (cases "pj_kind r")
  case PUpsert
  show ?thesis
  proof (cases "find (\<lambda>nd. nr_id (nd_row nd) = pj_note r) (visible_rows d p)")
    case None
    have "visible_details d p (pj_note r) = None"
    proof (rule ccontr)
      assume "visible_details d p (pj_note r) \<noteq> None"
      then obtain nd where nd: "visible_details d p (pj_note r) = Some nd" by blast
      then have "nr_id (nd_row nd) = pj_note r"
        using visible_note_row(2) visible_note_none [OF ok] note_from_row_Inr(1)
        by (metis (no_types, lifting) bind.bind_lunit option.distinct(1) sum.case_eq_if sum.collapse(2) visible_note_def)
      with nd None visible_rows_iff [OF ok, of nd p] show False by (auto simp: find_None_iff)
    qed
    then have "visible_note pu d p (pj_note r) = None" using visible_note_none [OF ok] by simp
    with x PUpsert None show ?thesis by (auto simp: change_entry_def)
  next
    case (Some nd)
    then have "nd \<in> set (visible_rows d p)" "nr_id (nd_row nd) = pj_note r" by (auto simp: find_Some_iff)
    with x PUpsert Some snapshot_entry_view [OF ok, of nd p x] show ?thesis
      by (auto simp: change_entry_def)
  qed
next
  case (PRemove reason)
  then have "\<not> visible d p (pj_note r)" using sync_okD(5) [OF store_okD(5) [OF ok] r(1)] r(2) by simp
  then have "visible_note pu d p (pj_note r) = None" by (simp add: visible_note_def visible_details_def)
  with x PRemove show ?thesis by (auto simp: change_entry_def)
qed

section \<open>A page advances the replica\<close>

lemma list_all2_image:
  assumes "list_all2 P xs ys" "y \<in> set ys"
  shows "\<exists>x\<in>set xs. P x y"
  using assms by (induction rule: list_all2_induct) auto

lemma list_all2_image2:
  assumes "list_all2 P xs ys" "x \<in> set xs"
  shows "\<exists>y\<in>set ys. P x y"
  using assms by (induction rule: list_all2_induct) auto

lemma sorted_take_le:
  assumes "sorted (map f xs)" "k \<le> length xs" "0 < k" "x \<in> set (take k xs)"
  shows "f x \<le> f (xs ! (k - 1))"
proof -
  from assms(4) obtain i where i: "i < k" "x = xs ! i" using assms(2) by (auto simp: in_set_conv_nth)
  show ?thesis using sorted_nth_mono [OF assms(1), of i "k - 1"] i assms(2,3) by simp
qed

lemma sorted_drop_ge:
  assumes "sorted (map f xs)" "k \<le> length xs" "0 < k" "y \<in> set (drop k xs)"
  shows "f (xs ! (k - 1)) \<le> f y"
proof -
  from assms(4) have "\<exists>j<length xs - k. y = xs ! (k + j)" by (auto simp: in_set_conv_nth)
  then obtain j where "j < length xs - k" "y = xs ! (k + j)" by blast
  then show ?thesis
    using sorted_nth_mono [OF assms(1), of "k - 1" "k + j"] assms(2,3) by simp
qed

lemma snapshot_rows_facts:
  assumes ok: "store_ok pu d"
  shows "nd \<in> set (snapshot_rows d p after) \<longleftrightarrow> nd \<in> set (visible_rows d p) \<and> nr_id (nd_row nd) \<notin> loaded after"
    "sorted (map (\<lambda>nd. nr_id (nd_row nd)) (snapshot_rows d p after))"
  by (cases after; auto simp: snapshot_rows_def)+

lemma visible_note_in_rows:
  assumes "store_ok pu d" "visible_note pu d p k \<noteq> None"
  obtains nd where "nd \<in> set (visible_rows d p)" "nr_id (nd_row nd) = k"
proof -
  from assms(2) obtain nd where nd0: "visible_details d p k = Some nd"
    by (cases "visible_details d p k") (auto simp: visible_note_def)
  moreover obtain x where "note_from_row pu nd = Inr x"
    using assms(2) nd0 by (cases "note_from_row pu nd") (auto simp: visible_note_def)
  ultimately have nd: "visible_details d p k = Some nd" "note_from_row pu nd = Inr x" by simp_all
  then have "nr_id (nd_row nd) = k" using visible_note_row(2) note_from_row_Inr(1) by metis
  with nd that visible_rows_iff [OF assms(1), of nd p] show thesis by simp
qed

lemma snapshot_page_inv:
  assumes ok: "store_ok pu d" and st: "cs_phase st = Snapshot" "state_inv pu (actor_id act) d st c"
    and page: "snapshot_page pu act limit st d = Inr (es, hm, nxt)" and limit: "1 \<le> limit"
  shows "state_inv pu (actor_id act) d nxt (apply_entries es c)"
proof -
  let ?p = "actor_id act"
  let ?S = "snapshot_rows d ?p (cs_after_note st)" and ?A = "loaded (cs_after_note st)"
  let ?w = "cs_high_watermark st" and ?c' = "apply_entries es c"
  let ?rows = "take (limit + 1) ?S" and ?id = "\<lambda>nd. nr_id (nd_row nd)"
  from page obtain t where col: "collect_entries (snapshot_entry pu) 0 [] (take limit ?rows) = Inr (es, t)"
    and hm: "hm \<longleftrightarrow> limit < length ?rows \<or> t"
    and nxt: "nxt = (if hm then st\<lparr>cs_after_note := last_upsert es\<rparr>
        else \<lparr>cs_phase = Changes, cs_after_note = None, cs_after_sequence = ?w, cs_high_watermark = ?w\<rparr>)"
    by (auto simp: snapshot_page_def Let_def rbind_Inr_iff)
  from col limit obtain k where k: "k \<le> length ?rows" "list_all2 (\<lambda>r x. snapshot_entry pu r = Inr x) (take k ?rows) es"
      "\<not> (limit < length ?rows \<or> t) \<longrightarrow> k = length ?rows" "?rows \<noteq> [] \<longrightarrow> es \<noteq> []"
      "length es = k" "k \<le> limit"
    by (rule collect_page)
  have tk: "take k ?rows = take k ?S" and kS: "k \<le> length ?S" using k(1,6) by simp_all
  note S = snapshot_rows_facts [OF ok]
  have view: "entry_value x = visible_note pu d ?p (entry_note x) \<and> (\<exists>nd\<in>set (take k ?S). ?id nd = entry_note x)"
    if x: "x \<in> set es" for x
  proof -
    from list_all2_image [OF k(2) x] obtain nd where nd: "nd \<in> set (take k ?S)" "snapshot_entry pu nd = Inr x"
      unfolding tk by blast
    then have "nd \<in> set (visible_rows d ?p)" using S(1) in_set_takeD by metis
    from snapshot_entry_view [OF ok this nd(2)] nd(1) show ?thesis by auto
  qed
  have c': "?c' m = (if m \<in> entry_note ` set es then visible_note pu d ?p m else c m)" for m
    by (rule apply_entries_view) (use view in blast)
  have listed: "m \<in> entry_note ` set es" if nd: "nd \<in> set (take k ?S)" "?id nd = m" for nd m
  proof -
    from list_all2_image2 [OF k(2)] nd(1) obtain x where x: "x \<in> set es" "snapshot_entry pu nd = Inr x"
      unfolding tk by blast
    have "nd \<in> set (visible_rows d ?p)" using S(1) nd(1) in_set_takeD by metis
    from snapshot_entry_view [OF ok this x(2)] x(1) nd(2) show ?thesis by force
  qed
  have notA: "m \<notin> ?A" if "m \<in> entry_note ` set es" for m
  proof -
    from that obtain x where x: "x \<in> set es" "entry_note x = m" by blast
    then obtain nd where "nd \<in> set (take k ?S)" "?id nd = m" using view by blast
    then show ?thesis using S(1) in_set_takeD by metis
  qed
  have load: "loads pu ?p d ?w ?A c" using st by (simp add: state_inv_def)
  then have none: "c m = None" if "m \<notin> ?A" for m using that by (simp add: feed.loading_def)
  show ?thesis
  proof (cases hm)
    case False
    then have "length ?S \<le> limit" "k = length ?S" using hm k(3) by auto
    then have all: "take k ?S = ?S" by simp
    have "loads pu ?p d ?w (?A \<union> UNIV) ?c'"
    proof (rule feed.loading_deliver [OF load])
      fix m assume m: "m \<notin> ?A"
      show "?c' m = visible_note pu d ?p m"
      proof (cases "m \<in> entry_note ` set es")
        case out: False
        have "visible_note pu d ?p m = None"
        proof (rule ccontr)
          assume "visible_note pu d ?p m \<noteq> None"
          then obtain nd where "nd \<in> set (visible_rows d ?p)" "?id nd = m"
            using visible_note_in_rows [OF ok] by blast
          then have "nd \<in> set (take k ?S)" using S(1) m all by simp
          then show False using listed \<open>?id nd = m\<close> out by blast
        qed
        then show ?thesis using c' out none [OF m] by simp
      qed (simp add: c')
    qed (use c' notA in auto)
    then have "follows pu ?p d ?w ?c'" using feed.loading_done by simp
    then show ?thesis using nxt False by (simp add: state_inv_def)
  next
    case True
    have ne: "es \<noteq> []"
    proof (cases "?rows = []")
      case True
      with hm \<open>hm\<close> col show ?thesis by simp
    qed (use k(4) in blast)
    then have k0: "0 < k" using k(5) by auto
    let ?last = "?S ! (k - 1)"
    have "snapshot_entry pu ?last = Inr (last es)"
    proof -
      have "list_all2 (\<lambda>r x. snapshot_entry pu r = Inr x) (take k ?S) es" using k(2) tk by simp
      from list_all2_nthD2 [OF this, of "k - 1"] k0 k(5) show ?thesis by (simp add: last_conv_nth ne)
    qed
    moreover have lastin: "?last \<in> set (take k ?S)" using k0 kS by (auto simp: in_set_conv_nth intro!: exI [of _ "k - 1"])
    moreover have "?last \<in> set (visible_rows d ?p)" using lastin S(1) in_set_takeD by metis
    ultimately have lv: "last_upsert es = Some (?id ?last)"
      using snapshot_entry_view [OF ok, of ?last ?p "last es"] ne
      by (cases "last es") (auto simp: last_upsert_def)
    let ?B = "{m. m \<le> ?id ?last}"
    have below: "m \<in> ?B" if "m \<in> entry_note ` set es" for m
    proof -
      from that view obtain nd where nd: "nd \<in> set (take k ?S)" "?id nd = m" by blast
      have "?id nd \<le> ?id ?last" by (rule sorted_take_le [OF S(2) kS k0 nd(1)])
      with nd(2) show ?thesis by simp
    qed
    have "loads pu ?p d ?w (?A \<union> ?B) ?c'"
    proof (rule feed.loading_deliver [OF load])
      fix m assume m: "m \<in> ?B" "m \<notin> ?A"
      show "?c' m = visible_note pu d ?p m"
      proof (cases "m \<in> entry_note ` set es")
        case out: False
        have "visible_note pu d ?p m = None"
        proof (rule ccontr)
          assume "visible_note pu d ?p m \<noteq> None"
          then obtain nd where nd: "nd \<in> set (visible_rows d ?p)" "?id nd = m"
            using visible_note_in_rows [OF ok] by blast
          then have "nd \<in> set ?S" using S(1) m by simp
          then have "nd \<in> set (take k ?S) \<or> nd \<in> set (drop k ?S)"
            by (metis Un_iff append_take_drop_id set_append)
          then show False
          proof
            assume "nd \<in> set (take k ?S)"
            then show False using listed nd(2) out by blast
          next
            assume "nd \<in> set (drop k ?S)"
            then have "?id ?last \<le> m"
              using sorted_drop_ge [OF S(2) kS k0] nd(2) by blast
            then have "m = ?id ?last" using m(1) by simp
            then show False using listed [OF lastin refl] out by simp
          qed
        qed
        then show ?thesis using c' out none [OF m(2)] by simp
      qed (simp add: c')
    qed (use c' notA below in auto)
    moreover have "?A \<union> ?B = loaded (last_upsert es)"
    proof -
      have "?id ?last \<notin> ?A" using notA listed [OF lastin refl] by blast
      then show ?thesis unfolding lv by (cases "cs_after_note st") auto
    qed
    ultimately show ?thesis using nxt True st(1) by (simp add: state_inv_def)
  qed
qed

lemma log_mark_iff:
  assumes "store_ok pu d"
  shows "log_mark d p k = Some m \<longleftrightarrow>
    (\<exists>r\<in>set (db_projection d). pj_principal r = p \<and> pj_note r = k \<and> pj_sequence r = m)"
  using proj_row_iff [OF sync_okD(1) [OF store_okD(5) [OF assms]], of p k]
  by (auto simp: log_mark_def)

lemma changes_page_inv:
  assumes ok: "store_ok pu d" and st: "cs_phase st = Changes" "state_inv pu (actor_id act) d st c"
    and page: "changes_page pu act limit st d = Inr (es, hm, nxt)" and limit: "1 \<le> limit"
  shows "state_inv pu (actor_id act) d nxt (apply_entries es c)
    \<and> (\<not> hm \<longrightarrow> apply_entries es c = visible_note pu d (actor_id act)
      \<and> (\<forall>r\<in>set (db_projection d). pj_principal r = actor_id act \<longrightarrow> pj_sequence r \<le> cs_after_sequence nxt))
    \<and> cs_phase nxt = Changes \<and> cs_after_sequence st \<le> cs_after_sequence nxt"
proof -
  let ?p = "actor_id act" and ?s = "cs_after_sequence st"
  let ?R = "change_rows d ?p ?s" and ?c' = "apply_entries es c"
  let ?rows = "take (limit + 1) ?R"
  obtain es' t where col': "collect_entries (change_entry pu d ?p) 0 [] (take limit ?rows) = Inr (es', t)"
    using page by (auto simp: changes_page_def Let_def rbind_Inr_iff)
  have out: "Inr (es, hm, nxt) = (Inr (es', limit < length ?rows \<or> t,
      st\<lparr>cs_after_sequence := (if es' = [] then ?s else pj_sequence (?rows ! (length es' - 1)))\<rparr>)
      :: sync_error + (sync_entry list \<times> bool \<times> cursor_state))"
    using page col' unfolding changes_page_def Let_def by (simp only: rbind.simps prod.case)
  then have hm: "hm \<longleftrightarrow> limit < length ?rows \<or> t" by blast
  from out have nxt: "nxt = st\<lparr>cs_after_sequence := (if es = [] then ?s else pj_sequence (?rows ! (length es - 1)))\<rparr>"
    by blast
  from out col' have col: "collect_entries (change_entry pu d ?p) 0 [] (take limit ?rows) = Inr (es, t)"
    by blast
  from col limit obtain k where k: "k \<le> length ?rows" "list_all2 (\<lambda>r x. change_entry pu d ?p r = Inr x) (take k ?rows) es"
      "\<not> (limit < length ?rows \<or> t) \<longrightarrow> k = length ?rows" "?rows \<noteq> [] \<longrightarrow> es \<noteq> []"
      "length es = k" "k \<le> limit"
    by (rule collect_page)
  have tk: "take k ?rows = take k ?R" and kR: "k \<le> length ?R" using k(1,6) by simp_all
  note sok = store_okD(5) [OF ok]
  have R: "r \<in> set ?R \<longleftrightarrow> r \<in> set (db_projection d) \<and> pj_principal r = ?p \<and> ?s < pj_sequence r" for r
    by (auto simp: change_rows_def)
  have srt: "sorted (map pj_sequence ?R)" by (simp add: change_rows_def)
  have view: "entry_value x = visible_note pu d ?p (entry_note x) \<and> (\<exists>r\<in>set (take k ?R). pj_note r = entry_note x)"
    if x: "x \<in> set es" for x
  proof -
    from list_all2_image [OF k(2) x] obtain r where r: "r \<in> set (take k ?R)" "change_entry pu d ?p r = Inr x"
      unfolding tk by blast
    then have "r \<in> set (db_projection d)" "pj_principal r = ?p" using R in_set_takeD by metis+
    from change_entry_view [OF ok this r(2)] r(1) show ?thesis by auto
  qed
  have c': "?c' m = (if m \<in> entry_note ` set es then visible_note pu d ?p m else c m)" for m
    by (rule apply_entries_view) (use view in blast)
  have listed: "pj_note r \<in> entry_note ` set es" if r: "r \<in> set (take k ?R)" for r
  proof -
    from list_all2_image2 [OF k(2)] r obtain x where x: "x \<in> set es" "change_entry pu d ?p r = Inr x"
      unfolding tk by blast
    have "r \<in> set (db_projection d)" "pj_principal r = ?p" using R r in_set_takeD by metis+
    from change_entry_view [OF ok this x(2)] x(1) show ?thesis by force
  qed
  have fol: "follows pu ?p d ?s c" using st by (simp add: state_inv_def)
  define s' where "s' = cs_after_sequence nxt"
  have s': "s' = (if es = [] then ?s else pj_sequence (?R ! (k - 1)))"
    using nxt k(5,6) kR k(1) by (auto simp: s'_def)
  have lastin: "?R ! (k - 1) \<in> set (take k ?R)" if "es \<noteq> []"
    using that k(5) kR by (auto simp: in_set_conv_nth intro!: exI [of _ "k - 1"])
  have lastR: "?R ! (k - 1) \<in> set (db_projection d) \<and> pj_principal (?R ! (k - 1)) = ?p \<and> ?s < pj_sequence (?R ! (k - 1))"
    if "es \<noteq> []" using lastin [OF that] R in_set_takeD by metis
  have covered: "r \<in> set (take k ?R) \<or> pj_note r \<in> entry_note ` set es"
    if r: "r \<in> set ?R" "pj_sequence r \<le> s'" for r
  proof (cases "r \<in> set (take k ?R)")
    case False
    then have dr: "r \<in> set (drop k ?R)" using r(1) by (metis Un_iff append_take_drop_id set_append)
    have ne: "es \<noteq> []" using r R s' by auto
    then have k0: "0 < k" using k(5) by auto
    have "pj_sequence (?R ! (k - 1)) \<le> pj_sequence r" by (rule sorted_drop_ge [OF srt kR k0 dr])
    then have "pj_sequence r = pj_sequence (?R ! (k - 1))" using r(2) s' ne by simp
    then have "pj_note r = pj_note (?R ! (k - 1))"
      using sync_okD(4) [OF sok] R r(1) lastR [OF ne] by blast
    then show ?thesis using listed [OF lastin [OF ne]] by simp
  qed simp
  have fol': "follows pu ?p d s' ?c'"
  proof (rule feed.following_deliver [OF fol])
    show "?s \<le> s'" using s' lastR by auto
    show "s' < db_next_sequence d"
    proof (cases "es = []")
      case True
      then show ?thesis using s' fol by (simp add: feed.following_def)
    next
      case False
      then show ?thesis using s' lastR [OF False] sync_okD(3,7) [OF sok] by force
    qed
    fix n m
    assume "log_mark d ?p n = Some m" "?s < m" "m \<le> s'"
    then obtain r where "r \<in> set ?R" "pj_note r = n" "pj_sequence r \<le> s'"
      using log_mark_iff [OF ok] R by auto
    then have "n \<in> entry_note ` set es" using covered listed by blast
    then show "?c' n = visible_note pu d ?p n" using c' by simp
  next
    fix n assume none: "\<And>m. log_mark d ?p n = Some m \<Longrightarrow> \<not> (?s < m \<and> m \<le> s')"
    have "n \<notin> entry_note ` set es"
    proof
      assume "n \<in> entry_note ` set es"
      then obtain x r where x: "x \<in> set es" "r \<in> set (take k ?R)" "pj_note r = n" using view by blast
      have ne: "es \<noteq> []" using x(1) by auto
      have "r \<in> set ?R" using x(2) in_set_takeD by metis
      moreover have "pj_sequence r \<le> s'"
        using sorted_take_le [OF srt kR _ x(2)] s' ne k(5) by (simp add: length_greater_0_conv [symmetric])
      ultimately show False using none log_mark_iff [OF ok] R x(3) by blast
    qed
    then show "?c' n = c n" using c' by simp
  qed
  have read: "pj_sequence r \<le> s'" if "\<not> hm" and r: "r \<in> set (db_projection d)" "pj_principal r = ?p" for r
  proof -
    from that(1) have "length ?R \<le> limit" "k = length ?R" using hm k(3) by auto
    then have all: "take k ?R = ?R" by simp
    show ?thesis
    proof (cases "?s < pj_sequence r")
      case True
      then have "r \<in> set (take k ?R)" using r R all by simp
      moreover from this have ne: "es \<noteq> []" using k(5) by auto
      moreover have "0 < k" using ne k(5) by auto
      ultimately show ?thesis using sorted_take_le [OF srt kR, of r] s' by simp
    next
      case False
      then show ?thesis using s' lastR by fastforce
    qed
  qed
  have "?c' = visible_note pu d ?p" if "\<not> hm"
    by (rule feed.following_complete [OF fol']) (use log_mark_iff [OF ok] read [OF that] in auto)
  moreover have "?s \<le> s'" using s' lastR by auto
  ultimately show ?thesis using fol' nxt st(1) read by (simp add: state_inv_def s'_def)
qed

section \<open>Cursors stay\<close>

lemma store_step_cursors:
  assumes "store_step pu d e" "store_ok pu d"
  shows "db_cursors e = db_cursors d"
  using assms(1)
proof cases
  case (step_register i a)
  have cur: "db_cursors y = db_cursors x" if "insert_principal i x = (pid, iid, y)" for x y pid iid
    using that by (auto simp: insert_principal_def Let_def)
  from store_okD(1) [OF assms(2)] show ?thesis
  proof (cases rule: resolve_or_create_in_cases [of pu d i, case_names found new])
    case found
    then show ?thesis using step_register by (simp add: resolve_or_create_verified_def)
  next
    case (new pid iid e')
    then show ?thesis using step_register cur by (simp add: resolve_or_create_verified_def)
  qed
next
  case (step_create act nid draft now via links)
  from step_create(2) obtain d1 where "sql_insert_note (row_of_new_note (new_note nid act draft now via)) d = Inr d1"
      "same_core d1 e" by (rule create_note_Inr)
  then show ?thesis using same_core_fields(9) by (auto simp: sql_insert_note_def split: if_splits)
next
  case step_update
  then show ?thesis
    using update_visible_note_with_kind_Inr same_core_fields(9) unfolding update_visible_note_def
    by (fastforce simp: guarded_update_def committed_def)
next
  case step_rewind
  then show ?thesis
    using update_visible_note_with_kind_Inr same_core_fields(9) unfolding restore_visible_note_revision_def
    by (fastforce simp: guarded_update_def committed_def)
next
  case step_delete
  then show ?thesis
    using soft_delete_visible_note_Inr same_core_fields(9) by (fastforce simp: guarded_update_def committed_def)
next
  case step_restore
  then show ?thesis
    using restore_owned_deleted_note_Inr same_core_fields(9) by (fastforce simp: guarded_update_def committed_def)
next
  case (step_acl act nid entries expected now n)
  from step_acl obtain old d2 where
    ins: "insert_acl_entries nid entries (sql_delete_acl nid (row_updated old (acl_update now old) d)) = Inr d2"
    and com: "committed pu nid (actor_id act) KAclUpdated d2 n e"
    by (rule replace_note_acl_Inr)
  have "db_cursors y = db_cursors x" if "insert_acl_entries nid es x = Inr y" for es x y
    using that by (induction es arbitrary: x) (auto simp: rbind_Inr_iff dest: sql_insert_acl_frame(8))
  from this [OF ins] show ?thesis using com same_core_fields(9) [of d2 e] by (simp add: committed_def)
next
  case step_review
  then show ?thesis
    using mark_owned_note_reviewed_Inr same_core_fields(9) by (fastforce simp: guarded_update_def committed_def)
qed

lemma feed_step_cursor:
  assumes "feed_step pu d e" "store_ok pu d" "cursor_by_token hash tok d = Some r"
  shows "cursor_by_token hash tok e = Some r"
  using assms(1) unfolding feed_step_def
proof
  assume "store_step pu d e"
  then show ?thesis using store_step_cursors assms(2,3) by (simp add: cursor_by_token_def)
next
  assume "\<exists>row. insert_cursor row d = Inr e"
  then obtain row where "insert_cursor row d = Inr e" by blast
  from insert_cursor_Inr(1) [OF this] show ?thesis
    using assms(3) by (simp add: cursor_by_token_def row_by_append_new)
qed

definition sample_hash :: token_hash where
  "sample_hash tok = replicate 31 0 @ [of_nat (sum_list tok)]"

lemmas sync_eval = sync_notes_page_def load_cursor_def snapshot_page_def changes_page_def snapshot_rows_def
  visible_rows_def change_rows_def insert_cursor_def snapshot_entry_def change_entry_def
  sync_storage_def last_upsert_def note_estimate_def max_response_bytes_def entry_estimate_def
  cursor_by_token_def sample_hash_def i64_saturating_add_def note_sync_cursor_retention_ms_def

lemma sample_sync:
  "\<exists>p1 e1 p2 e2. sync_notes_page sample_parser sample_hash (sample_actor 1) None 50 [1] 2000 sample_db = Inr (p1, e1)
     \<and> sync_notes_page sample_parser sample_hash (sample_actor 1) (Some [1]) 50 [2] 3000 e1 = Inr (p2, e2)
     \<and> sp_phase p2 = Changes \<and> \<not> sp_has_more p2"
  by (simp add: sync_eval mutation_eval sample_eval store_eval)

section \<open>Bounds, progress and the owner of a cursor\<close>

lemma collect_entries_budget:
  assumes "collect_entries read bytes acc rs = Inr (es, t)"
    and "sum_list (map entry_estimate acc) = bytes" "bytes \<le> max_response_bytes \<or> length acc \<le> 1"
  shows "sum_list (map entry_estimate es) \<le> max_response_bytes \<or> length es \<le> 1"
  using assms
proof (induction read bytes acc rs rule: collect_entries.induct)
  case (2 read bytes acc r rs)
  from "2.prems"(1) obtain x where x: "read r = Inr x"
    and rest: "(if acc \<noteq> [] \<and> max_response_bytes < bytes + entry_estimate x then Inr (acc, True)
      else collect_entries read (bytes + entry_estimate x) (acc @ [x]) rs) = Inr (es, t)"
    by (auto simp: rbind_Inr_iff)
  show ?case
  proof (cases "acc \<noteq> [] \<and> max_response_bytes < bytes + entry_estimate x")
    case True
    with rest "2.prems" show ?thesis by auto
  next
    case False
    with rest have "collect_entries read (bytes + entry_estimate x) (acc @ [x]) rs = Inr (es, t)" by simp
    from "2.IH" [OF False this] "2.prems"(2) False show ?thesis by (cases acc) auto
  qed
qed auto

lemma collected_facts:
  assumes "collect_entries read 0 [] (take limit rows) = Inr (es, t)" "1 \<le> limit"
    and "hm \<longrightarrow> limit < length rows \<or> t"
  shows "length es \<le> limit
    \<and> (sum_list (map entry_estimate es) \<le> max_response_bytes \<or> length es \<le> 1) \<and> (hm \<longrightarrow> es \<noteq> [])"
proof -
  have "t \<longrightarrow> es \<noteq> []" using collect_entries_Inr [OF assms(1)] by blast
  moreover from collect_page [OF assms(1,2)] obtain k where "rows \<noteq> [] \<longrightarrow> es \<noteq> []"
      "length es = k" "k \<le> limit"
    by metis
  moreover have "sum_list (map entry_estimate es) \<le> max_response_bytes \<or> length es \<le> 1"
    using collect_entries_budget [OF assms(1)] by simp
  ultimately show ?thesis using assms(3) by auto
qed

lemma page_facts:
  assumes "sync_notes_page pu hash act cur limit tok now d = Inr (page, e)" "1 \<le> limit"
  shows "length (sp_entries page) \<le> limit
    \<and> (sum_list (map entry_estimate (sp_entries page)) \<le> max_response_bytes \<or> length (sp_entries page) \<le> 1)
    \<and> (sp_has_more page \<longrightarrow> sp_entries page \<noteq> [])"
proof -
  from assms(1) obtain st es hm nxt where
    body: "(case cs_phase st of Snapshot \<Rightarrow> snapshot_page pu act limit st d
        | Changes \<Rightarrow> changes_page pu act limit st d) = Inr (es, hm, nxt)"
    and pg: "sp_entries page = es" "sp_has_more page = hm"
    by (auto simp: sync_notes_page_def Let_def rbind_Inr_iff)
  show ?thesis unfolding pg
  proof (cases "cs_phase st")
    case Snapshot
    then have "snapshot_page pu act limit st d = Inr (es, hm, nxt)" using body by simp
    then obtain t where "collect_entries (snapshot_entry pu) 0 [] (take limit (take (limit + 1)
        (snapshot_rows d (actor_id act) (cs_after_note st)))) = Inr (es, t)"
      "hm \<longrightarrow> limit < length (take (limit + 1) (snapshot_rows d (actor_id act) (cs_after_note st))) \<or> t"
      by (auto simp: snapshot_page_def Let_def rbind_Inr_iff)
    from collected_facts [OF this(1) assms(2) this(2)]
    show "length es \<le> limit \<and> (sum_list (map entry_estimate es) \<le> max_response_bytes \<or> length es \<le> 1)
      \<and> (hm \<longrightarrow> es \<noteq> [])" .
  next
    case Changes
    then have "changes_page pu act limit st d = Inr (es, hm, nxt)" using body by simp
    then obtain t where "collect_entries (change_entry pu d (actor_id act)) 0 [] (take limit (take (limit + 1)
        (change_rows d (actor_id act) (cs_after_sequence st)))) = Inr (es, t)"
      "hm \<longrightarrow> limit < length (take (limit + 1) (change_rows d (actor_id act) (cs_after_sequence st))) \<or> t"
      by (fastforce simp: changes_page_def Let_def rbind_Inr_iff)
    from collected_facts [OF this(1) assms(2) this(2)]
    show "length es \<le> limit \<and> (sum_list (map entry_estimate es) \<le> max_response_bytes \<or> length es \<le> 1)
      \<and> (hm \<longrightarrow> es \<noteq> [])" .
  qed
qed

text \<open>
  C13: a page the application returns holds at most 100 entries, and its estimated size is within the
  four-megabyte budget unless it is a single entry; a page that announces more is never empty, so a
  client always makes progress.
\<close>

theorem sync_page_bounds:
  assumes "sync_notes pu hash act cur limit tok now d = Inr (page, e)"
  shows "length (sp_entries page) \<le> 100
    \<and> (sum_list (map entry_estimate (sp_entries page)) \<le> 4194304 \<or> length (sp_entries page) \<le> 1)
    \<and> \<not> (sp_has_more page \<and> sp_entries page = [])"
proof -
  define l where "l = (case limit of None \<Rightarrow> note_sync_default_page_size | Some l \<Rightarrow> l)"
  have l: "1 \<le> l" "l \<le> 100" "sync_notes_page pu hash act cur l tok now d = Inr (page, e)"
    using assms by (auto simp: sync_notes_def Let_def l_def [symmetric] note_sync_max_page_size_def
        map_err_Inr_iff split: if_splits)
  from page_facts [OF l(3,1)] l(2) show ?thesis by (auto simp: max_response_bytes_def)
qed

lemma sync_page_bounds_witness:
  "\<exists>page e. sync_notes sample_parser sample_hash (sample_actor 1) None None [1] 2000 sample_db = Inr (page, e)
     \<and> length (sp_entries page) \<le> 100"
proof -
  have "\<exists>page e. sync_notes sample_parser sample_hash (sample_actor 1) None None [1] 2000 sample_db = Inr (page, e)"
    by (simp add: sync_notes_def note_sync_default_page_size_def note_sync_max_page_size_def
        sync_eval mutation_eval sample_eval store_eval)
  with sync_page_bounds show ?thesis by blast
qed

text \<open>
  C14: a cursor is worth something only to the principal it was issued to and only for 35 days: at any
  later time every other principal gets \<open>InvalidCursor\<close> for it, and its own principal gets
  \<open>CursorExpired\<close> once the retention period is over.
\<close>

theorem cursor_bound_to_principal:
  assumes "store_ok pu d"
    and "sync_notes_page pu hash act cur limit tok now d = Inr (page, e)"
    and "(feed_step pu)\<^sup>*\<^sup>* e e'"
  shows "sync_notes_page pu hash act' (Some tok) limit' tok' now' e' =
    (if actor_id act' \<noteq> actor_id act then Inl InvalidCursor
     else if i64_saturating_add now note_sync_cursor_retention_ms \<le> now' then Inl CursorExpired
     else sync_notes_page pu hash act' (Some tok) limit' tok' now' e')"
proof -
  from assms(2) obtain r where ins: "insert_cursor r d = Inr e" and r: "cu_hash r = hash tok"
      "cu_principal r = actor_id act" "cu_expires_at r = i64_saturating_add now note_sync_cursor_retention_ms"
    by (auto simp: sync_notes_page_def Let_def rbind_Inr_iff)
  have "cursor_by_token hash tok e = Some r"
    using insert_cursor_Inr [OF ins] r(1) by (simp add: cursor_by_token_def row_by_append_new)
  moreover have "store_ok pu e" using insert_cursor_frame(1) [OF ins] assms(1) by simp
  ultimately have start: "cursor_by_token hash tok e = Some r \<and> store_ok pu e" by simp
  from assms(3) have "cursor_by_token hash tok e' = Some r \<and> store_ok pu e'"
  proof (induction rule: rtranclp_induct)
    case (step x y)
    then show ?case using feed_step_cursor feed.step_ok by blast
  qed (rule start)
  then show ?thesis using r by (auto simp: sync_notes_page_def load_cursor_def)
qed

lemma cursor_bound_to_principal_witness:
  "\<exists>page e. sync_notes_page sample_parser sample_hash (sample_actor 1) None 50 [1] 2000 sample_db = Inr (page, e)
     \<and> sync_notes_page sample_parser sample_hash (sample_actor 2) (Some [1]) 50 [2] 3000 e = Inl InvalidCursor"
proof -
  from sample_sync obtain page e where
    p: "sync_notes_page sample_parser sample_hash (sample_actor 1) None 50 [1] 2000 sample_db = Inr (page, e)"
    by blast
  have "actor_id (sample_actor 2) \<noteq> actor_id (sample_actor 1)" by (simp add: sample_actor_def actor_for_single_identity_def)
  then show ?thesis
    using cursor_bound_to_principal [OF sample_ok p rtranclp.rtrancl_refl, of "sample_actor 2" 50 "[2]" 3000] p by auto
qed

end
