(* ===== verification/StoreClock.thy ===== *)
theory StoreClock
  imports AttachmentSafety AuthPurge NoteSyncProps
begin

text \<open>
  The transactions on the tables of notes with the clock they read, the purges included: what each of them
  keeps, and the times and sequence numbers of the changes it records.
  The purges of deleted notes and of synchronisation state: what each removes and what it leaves, and that
  every transaction on the tables of notes keeps the store invariant.
\<close>

section \<open>Note transactions at a time\<close>

inductive store_step_at :: "url_parser \<Rightarrow> unix_millis \<Rightarrow> db \<Rightarrow> db \<Rightarrow> bool" for pu :: url_parser and now :: unix_millis where
  at_register: "identity_ok pu i \<Longrightarrow> resolve_or_create_verified pu i d = Inr (a, e) \<Longrightarrow> store_step_at pu now d e"
| at_create: "actor_known pu d act \<Longrightarrow> create_note (new_note nid act draft now via) links d = Inr e
    \<Longrightarrow> store_step_at pu now d e"
| at_update: "update_visible_note pu act nid expected draft links now d = Inr (n, e) \<Longrightarrow> store_step_at pu now d e"
| at_rewind: "restore_visible_note_revision pu act nid expected draft links now d = Inr (n, e)
    \<Longrightarrow> store_step_at pu now d e"
| at_delete: "soft_delete_visible_note pu act nid expected now d = Inr (n, e) \<Longrightarrow> store_step_at pu now d e"
| at_restore: "restore_owned_deleted_note pu act nid expected now d = Inr (n, e) \<Longrightarrow> store_step_at pu now d e"
| at_acl: "replace_note_acl pu act nid entries expected now d = Inr (n, e) \<Longrightarrow> store_step_at pu now d e"
| at_review: "mark_owned_note_reviewed pu act nid expected now d = Inr (n, e) \<Longrightarrow> store_step_at pu now d e"

lemma store_step_at_step: "store_step_at pu now d e \<Longrightarrow> store_step pu d e"
  by (induction rule: store_step_at.induct) (blast intro: store_step.intros)+

text \<open>Every change recorded between \<open>d\<close> and \<open>e\<close> bears the time and a new sequence number.\<close>

definition logged_at :: "unix_millis \<Rightarrow> db \<Rightarrow> db \<Rightarrow> bool" where
  "logged_at now d e \<longleftrightarrow> db_next_sequence d \<le> db_next_sequence e
     \<and> (\<exists>cs. db_changes e = db_changes d @ cs \<and> (\<forall>c\<in>set cs. ch_occurred_at c = now
          \<and> db_next_sequence d \<le> ch_sequence c \<and> ch_sequence c < db_next_sequence e))"

lemma logged_at_same: "db_changes e = db_changes d \<Longrightarrow> db_next_sequence e = db_next_sequence d \<Longrightarrow> logged_at now d e"
  by (simp add: logged_at_def)

lemma logged_at_trans:
  assumes "logged_at now a b" "logged_at now b c"
  shows "logged_at now a c"
proof -
  from assms obtain cs cs' where "db_changes b = db_changes a @ cs" "db_changes c = db_changes b @ cs'"
    and "\<forall>x\<in>set cs. ch_occurred_at x = now \<and> db_next_sequence a \<le> ch_sequence x \<and> ch_sequence x < db_next_sequence b"
    and "\<forall>x\<in>set cs'. ch_occurred_at x = now \<and> db_next_sequence b \<le> ch_sequence x \<and> ch_sequence x < db_next_sequence c"
    and "db_next_sequence a \<le> db_next_sequence b" "db_next_sequence b \<le> db_next_sequence c"
    by (auto simp: logged_at_def)
  then show ?thesis unfolding logged_at_def by (intro conjI exI [of _ "cs @ cs'"]) force+
qed

lemma logged_at_core: "logged_at now d e \<Longrightarrow> same_core e f \<Longrightarrow> logged_at now d f"
  by (simp add: logged_at_def same_core_def)

lemma logged_at_records:
  "nr_updated_at r = now \<Longrightarrow> logged_at now d (record_note_change k r d)"
  "nr_updated_at r = now \<Longrightarrow> logged_at now d (record_access_change k r p d)"
  by (simp_all add: logged_at_def record_note_change_def record_access_change_def project_note_change_def
      project_access_change_def append_change_def)

lemma logged_at_row_updated:
  assumes "nr_updated_at new = now"
  shows "logged_at now d (row_updated old new d)"
  by (rule logged_at_trans [OF logged_at_same [of "put_note new d"] logged_at_records(1) [OF assms]]) simp_all

lemma guarded_update_logged:
  assumes "guarded_update pu nid cb kind g f d n e" "\<And>r. nr_updated_at (f r) = now"
  shows "logged_at now d e"
  using assms logged_at_core [OF logged_at_row_updated] by (fastforce simp: guarded_update_def committed_def)

lemma revoke_all_logged:
  "(\<And>a r. a \<in> set as \<Longrightarrow> find_note d (ar_note a) = Some r \<Longrightarrow> nr_updated_at r = now) \<Longrightarrow> logged_at now d (revoke_all as d)"
proof (induction as arbitrary: d)
  case Nil
  then show ?case by (simp add: logged_at_same)
next
  case (Cons a as)
  show ?case
  proof (cases "find_note d (ar_note a)")
    case None
    have "logged_at now d (revoke_all as d)" by (rule Cons.IH) (use Cons.prems in auto)
    then show ?thesis using None by simp
  next
    case (Some r)
    let ?d = "record_access_change CAccessRevoked r (ar_principal a) d"
    have f: "find_note ?d = find_note d" by (rule find_note_cong) simp
    have "nr_updated_at r = now" by (rule Cons.prems [of a]) (simp_all add: Some)
    then have "logged_at now d ?d" by (rule logged_at_records)
    moreover have "logged_at now ?d (revoke_all as ?d)" by (rule Cons.IH) (use Cons.prems in \<open>auto simp: f\<close>)
    ultimately show ?thesis using Some logged_at_trans by simp
  qed
qed

lemma sql_delete_acl_logged:
  assumes "find_note d nid = Some r" "nr_updated_at r = now"
  shows "logged_at now d (sql_delete_acl nid d)"
proof -
  let ?d = "d\<lparr>db_acl := delete_where (\<lambda>a. ar_note a = nid) (db_acl d)\<rparr>"
  have f: "find_note ?d = find_note d" by (rule find_note_cong) simp
  have "logged_at now ?d (revoke_all (select_where (\<lambda>a. ar_note a = nid) (db_acl d)) ?d)"
    by (rule revoke_all_logged) (use assms f in \<open>auto simp: set_select_where\<close>)
  then show ?thesis unfolding sql_delete_acl_alt by (rule logged_at_trans [rotated]) (simp add: logged_at_same)
qed

lemma insert_acl_entries_logged:
  assumes "insert_acl_entries nid es d = Inr e" "find_note d nid = Some r" "nr_updated_at r = now"
  shows "logged_at now d e"
  using assms(1,2)
proof (induction es arbitrary: d)
  case Nil
  then show ?case by (simp add: logged_at_same)
next
  case (Cons x es)
  let ?a = "\<lparr>ar_note = nid, ar_principal = pref_id (acl_principal x), ar_permission = acl_permission x\<rparr>"
  from Cons.prems obtain d1 where d1: "sql_insert_acl ?a d = Inr d1" "insert_acl_entries nid es d1 = Inr e"
    by (auto simp: rbind_Inr_iff)
  have d: "d1 = record_access_change CAccessGranted r (ar_principal ?a) (d\<lparr>db_acl := db_acl d @ [?a]\<rparr>)"
    using d1(1) Cons.prems(2) by (simp add: sql_insert_acl_Inr_iff)
  have "logged_at now d d1" unfolding d
    by (rule logged_at_trans [OF _ logged_at_records(2) [OF assms(3)]]) (simp add: logged_at_same)
  moreover have "find_note d1 nid = Some r"
    using Cons.prems(2) find_note_cong [of d1 d] by (simp add: d)
  ultimately show ?case using Cons.IH [OF d1(2)] logged_at_trans by blast
qed

lemma register_logged:
  assumes "resolve_or_create_verified pu i d = Inr (a, e)" "store_ok pu d"
  shows "logged_at now d e"
proof -
  have "db_changes y = db_changes x \<and> db_next_sequence y = db_next_sequence x" if "insert_principal i x = (pid, iid, y)" for x y pid iid
    using that by (auto simp: insert_principal_def Let_def)
  with assms(1) show ?thesis
    by (cases rule: resolve_or_create_in_cases [OF store_okD(1) [OF assms(2)], of i])
      (auto simp: resolve_or_create_verified_def intro: logged_at_same)
qed

lemma store_step_at_logged:
  assumes "store_step_at pu now d e" "store_ok pu d"
  shows "logged_at now d e"
  using assms(1)
proof cases
  case (at_register i a)
  then show ?thesis using register_logged assms(2) by blast
next
  case (at_create act nid draft via links)
  from at_create(2) obtain d1 where ins: "sql_insert_note (row_of_new_note (new_note nid act draft now via)) d = Inr d1"
      and core: "same_core d1 e" by (rule create_note_Inr)
  let ?r = "row_of_new_note (new_note nid act draft now via)"
  have d1: "d1 = record_note_change CNoteCreated ?r (d\<lparr>db_notes := db_notes d @ [?r]\<rparr>)"
    using ins by (auto simp: sql_insert_note_def split: if_splits)
  have "nr_updated_at ?r = now" by (simp add: row_of_new_note_def new_note_def note_create_def)
  then have "logged_at now (d\<lparr>db_notes := db_notes d @ [?r]\<rparr>) d1" unfolding d1 by (rule logged_at_records)
  then have "logged_at now d d1" by (rule logged_at_trans [rotated]) (simp add: logged_at_same)
  then show ?thesis using core by (rule logged_at_core)
next
  case at_update
  then show ?thesis unfolding update_visible_note_def
    by (rule guarded_update_logged [OF update_visible_note_with_kind_Inr]) (simp add: row_updates)
next
  case at_rewind
  then show ?thesis unfolding restore_visible_note_revision_def
    by (rule guarded_update_logged [OF update_visible_note_with_kind_Inr]) (simp add: row_updates)
next
  case at_delete
  then show ?thesis by (rule guarded_update_logged [OF soft_delete_visible_note_Inr]) (simp add: row_updates)
next
  case at_restore
  then show ?thesis by (rule guarded_update_logged [OF restore_owned_deleted_note_Inr]) (simp add: row_updates)
next
  case (at_acl act nid entries expected n)
  then obtain old d2 where *: "find_note d nid = Some old"
      "insert_acl_entries nid entries (sql_delete_acl nid (row_updated old (acl_update now old) d)) = Inr d2"
      "committed pu nid (actor_id act) KAclUpdated d2 n e"
    by (rule replace_note_acl_Inr)
  let ?new = "acl_update now old" and ?d1 = "row_updated old (acl_update now old) d"
  have u: "nr_updated_at ?new = now" by (simp add: acl_update_def)
  have id: "nr_id ?new = nid" using find_note_Some [OF *(1)] by (simp add: acl_update_def)
  have f1: "find_note ?d1 nid = Some ?new"
    using find_note_cong [of ?d1 "put_note ?new d"] find_note_put [of ?new d nid] *(1) id by simp
  then have f2: "find_note (sql_delete_acl nid ?d1) nid = Some ?new"
    using find_note_cong [of "sql_delete_acl nid ?d1" ?d1] by simp
  have "logged_at now d ?d1" by (rule logged_at_row_updated [OF u])
  moreover have "logged_at now ?d1 (sql_delete_acl nid ?d1)" by (rule sql_delete_acl_logged [OF f1 u])
  moreover have "logged_at now (sql_delete_acl nid ?d1) d2" by (rule insert_acl_entries_logged [OF *(2) f2 u])
  ultimately have "logged_at now d d2" by (blast intro: logged_at_trans)
  then show ?thesis using *(3) logged_at_core by (auto simp: committed_def)
next
  case at_review
  then show ?thesis by (rule guarded_update_logged [OF mark_owned_note_reviewed_Inr]) (simp add: row_updates)
qed

section \<open>All transactions on these tables\<close>

text \<open>
  Beside the note transactions: uploads, discards and the sweep of images, the pages of the feed, which store
  a cursor, the items of a library, which append to the same change log, and the purge of deleted notes.
\<close>

inductive work_step :: "url_parser \<Rightarrow> (rstr \<Rightarrow> rstr) \<Rightarrow> (u8 list \<Rightarrow> u8 list) \<Rightarrow> unix_millis \<Rightarrow> db \<Rightarrow> db \<Rightarrow> bool"
  for pu :: url_parser and nfc :: "rstr \<Rightarrow> rstr" and sha256 :: "u8 list \<Rightarrow> u8 list" and now :: unix_millis where
  work_note: "store_step_at pu now d e \<Longrightarrow> work_step pu nfc sha256 now d e"
| work_upload: "actor_known pu d act \<Longrightarrow> attachment_draft_new nfc name bytes = Inr draft
    \<Longrightarrow> upload_note_attachment pu nfc sha256 act nid draft aid now d = Inr (m, e) \<Longrightarrow> work_step pu nfc sha256 now d e"
| work_discard: "delete_unused_note_attachment act nid aid d = Inr e \<Longrightarrow> work_step pu nfc sha256 now d e"
| work_sweep: "purge_unreferenced_note_attachments_before cutoff d = (k, e) \<Longrightarrow> work_step pu nfc sha256 now d e"
| work_cursor: "insert_cursor row d = Inr e \<Longrightarrow> work_step pu nfc sha256 now d e"
| work_item: "kind \<in> {CItemCreated, CItemUpdated, CItemDeleted}
    \<Longrightarrow> e = append_change owner None kind iid rvn occurred d \<Longrightarrow> work_step pu nfc sha256 now d e"
| work_purge: "purge_deleted_before cutoff d = Inr (k, e) \<Longrightarrow> work_step pu nfc sha256 now d e"

text \<open>With the periodic purge of synchronisation state; \<open>pending\<close> says which changes a webhook still needs.\<close>

inductive db_step :: "url_parser \<Rightarrow> (rstr \<Rightarrow> rstr) \<Rightarrow> (u8 list \<Rightarrow> u8 list) \<Rightarrow> db \<Rightarrow> db \<Rightarrow> bool"
  for pu :: url_parser and nfc :: "rstr \<Rightarrow> rstr" and sha256 :: "u8 list \<Rightarrow> u8 list" where
  db_work: "work_step pu nfc sha256 now d e \<Longrightarrow> db_step pu nfc sha256 d e"
| db_purge: "db_step pu nfc sha256 d (purge_sync_state pending now d)"

abbreviation db_steps :: "url_parser \<Rightarrow> (rstr \<Rightarrow> rstr) \<Rightarrow> (u8 list \<Rightarrow> u8 list) \<Rightarrow> db \<Rightarrow> db \<Rightarrow> bool" where
  "db_steps pu nfc sha256 \<equiv> (db_step pu nfc sha256)\<^sup>*\<^sup>*"

lemma upload_attachments:
  assumes "upload_note_attachment pu nfc sha256 act nid draft aid now d = Inr (m, e)"
  shows "\<exists>as. e = d\<lparr>db_attachments := as\<rparr>"
proof -
  from assms obtain found :: "accessible_note_rec option" where found: "(case found of
      None \<Rightarrow> Inl (UploadStorage StorageNotFound)
    | Some an \<Rightarrow>
        if \<not> note_access_allows (an_access an) AEdit \<or> n_deleted_at (an_note an) \<noteq> None
        then Inl (UploadStorage StorageNotFound)
        else (case attachment_into_stored nfc sha256 draft aid nid now (actor_principal act) of
            None \<Rightarrow> Inl UploadPanic
          | Some s \<Rightarrow> rbind (map_err (UploadStorage \<circ> storage_error_of) (create_note_attachment act s d))
              (\<lambda>e. Inr (sa_metadata s, e)))) = Inr (m, e)"
    unfolding upload_note_attachment_def rbind_Inr_iff by blast
  then have "\<exists>s. create_note_attachment act s d = Inr e"
    by (cases found; cases "attachment_into_stored nfc sha256 draft aid nid now (actor_principal act)")
      (auto simp: rbind_Inr_iff map_err_Inr_iff split: if_split_asm)
  then obtain s where "create_note_attachment act s d = Inr e" by blast
  then have "sql_insert_attachment (row_of_attachment s) d = Inr e"
    by (auto simp: create_note_attachment_def Let_def split: if_splits)
  then show ?thesis by (auto simp: sql_insert_attachment_def split: if_splits)
qed

lemma discard_attachments:
  "delete_unused_note_attachment act nid aid d = Inr e \<Longrightarrow> \<exists>as. e = d\<lparr>db_attachments := as\<rparr>"
  by (auto simp: delete_unused_note_attachment_def Let_def split: if_splits)

lemma sweep_attachments:
  "purge_unreferenced_note_attachments_before cutoff d = (k, e) \<Longrightarrow> \<exists>as. e = d\<lparr>db_attachments := as\<rparr>"
  by (auto simp: purge_unreferenced_note_attachments_before_def Let_def)

section \<open>The purge of deleted notes\<close>

lemma purge_deleted_Inr:
  assumes "purge_deleted_before cutoff d = Inr (k, e)"
  defines "ids \<equiv> nr_id ` {r \<in> set (db_notes d). expired cutoff r}"
  shows "e = d\<lparr>
        db_notes := delete_where (expired cutoff) (db_notes d),
        db_acl := delete_where (\<lambda>a. ar_note a \<in> ids) (db_acl d),
        db_citations := delete_where (\<lambda>c. fst c \<in> ids) (db_citations d),
        db_references := delete_where (\<lambda>c. fst c \<in> ids) (db_references d),
        db_attachments := delete_where (\<lambda>a. at_note a \<in> ids) (db_attachments d),
        db_revisions := delete_where (\<lambda>h. hr_note h \<in> ids) (db_revisions d),
        db_revision_attachments := delete_where (\<lambda>(n, v, x). n \<in> ids) (db_revision_attachments d)\<rparr>"
    and "\<forall>a\<in>set (db_attachments d). at_note a \<in> ids \<longrightarrow> \<not> attachment_referenced d a"
proof -
  have "set (map nr_id (select_where (expired cutoff) (db_notes d))) = ids"
    by (simp add: ids_def set_select_where)
  with assms(1) show "e = d\<lparr>
        db_notes := delete_where (expired cutoff) (db_notes d),
        db_acl := delete_where (\<lambda>a. ar_note a \<in> ids) (db_acl d),
        db_citations := delete_where (\<lambda>c. fst c \<in> ids) (db_citations d),
        db_references := delete_where (\<lambda>c. fst c \<in> ids) (db_references d),
        db_attachments := delete_where (\<lambda>a. at_note a \<in> ids) (db_attachments d),
        db_revisions := delete_where (\<lambda>h. hr_note h \<in> ids) (db_revisions d),
        db_revision_attachments := delete_where (\<lambda>(n, v, x). n \<in> ids) (db_revision_attachments d)\<rparr>"
    and "\<forall>a\<in>set (db_attachments d). at_note a \<in> ids \<longrightarrow> \<not> attachment_referenced d a"
    by (auto simp: purge_deleted_before_def expired_case sql_delete_notes_def Let_def exists_where_iff split: if_splits)
qed

lemma purge_deleted_frame:
  assumes "purge_deleted_before cutoff d = Inr (k, e)"
  shows "db_principals e = db_principals d" "db_identities e = db_identities d" "db_changes e = db_changes d"
    "db_next_sequence e = db_next_sequence d" "db_latest_change e = db_latest_change d"
    "db_projection e = db_projection d" "db_cursors e = db_cursors d"
  by (subst purge_deleted_Inr(1) [OF assms], simp)+

lemma find_note_purged:
  assumes "purge_deleted_before cutoff d = Inr (k, e)" "notes_ok pu d"
  shows "find_note e n = (case find_note d n of None \<Rightarrow> None | Some r \<Rightarrow> if expired cutoff r then None else Some r)"
proof -
  have "distinct (map nr_id (db_notes d))" using assms(2) by (simp add: notes_ok_def)
  moreover have "db_notes e = delete_where (expired cutoff) (db_notes d)" by (subst purge_deleted_Inr(1) [OF assms(1)], simp)
  ultimately show ?thesis using row_by_delete_where by (simp add: find_note_def)
qed

lemma purged_ids:
  assumes "notes_ok pu d" "find_note d n = Some r"
  shows "n \<in> nr_id ` {r \<in> set (db_notes d). expired cutoff r} \<longleftrightarrow> expired cutoff r"
proof
  assume "n \<in> nr_id ` {r \<in> set (db_notes d). expired cutoff r}"
  then obtain x where x: "x \<in> set (db_notes d)" "expired cutoff x" "nr_id x = n" by blast
  then have "find_note d n = Some x" using find_note_iff [OF assms(1)] by blast
  with x(2) assms(2) show "expired cutoff r" by simp
next
  assume "expired cutoff r"
  moreover have "r \<in> set (db_notes d)" "nr_id r = n" using find_note_iff [OF assms(1)] assms(2) by blast+
  ultimately show "n \<in> nr_id ` {r \<in> set (db_notes d). expired cutoff r}" by blast
qed

text \<open>A note that is still there has all its rows.\<close>

lemma purge_deleted_keeps:
  assumes "purge_deleted_before cutoff d = Inr (k, e)" "notes_ok pu d" "find_note e n = Some r"
  shows "find_note d n = Some r" "n \<notin> nr_id ` {r \<in> set (db_notes d). expired cutoff r}"
    "note_history e n = note_history d n" "has_access e n p = has_access d n p"
proof -
  let ?ids = "nr_id ` {r \<in> set (db_notes d). expired cutoff r}"
  note e = purge_deleted_Inr(1) [OF assms(1)]
  show d: "find_note d n = Some r"
    using assms(3) find_note_purged [OF assms(1,2), of n] by (simp split: option.splits if_splits)
  have "\<not> expired cutoff r"
    using assms(3) d find_note_purged [OF assms(1,2), of n] by (auto split: if_splits)
  then show n: "n \<notin> ?ids" using purged_ids [OF assms(2) d] by simp
  show "note_history e n = note_history d n"
    using n by (subst e) (auto simp: note_history_def delete_where_def intro: filter_cong)
  have rows: "x \<in> set (db_notes e) \<longleftrightarrow> x \<in> set (db_notes d)" if "nr_id x = n" for x
    using n that by (subst e) (auto simp: set_delete_where)
  have acl: "x \<in> set (db_acl e) \<longleftrightarrow> x \<in> set (db_acl d)" if "ar_note x = n" for x
    using n that by (subst e) (auto simp: set_delete_where)
  show "has_access e n p = has_access d n p" using rows acl by (auto simp: has_access_rows)
qed

lemma purge_deleted_visible:
  assumes "purge_deleted_before cutoff d = Inr (k, e)" "notes_ok pu d"
  shows "visible e p n = visible d p n" "visible_details e p n = visible_details d p n"
proof -
  show v: "visible e p n = visible d p n"
  proof (cases "find_note e n")
    case None
    then have "\<not> (\<exists>r. find_note d n = Some r \<and> nr_deleted_at r = None)"
      using find_note_purged [OF assms, of n] by (auto simp: expired_def split: option.splits if_splits)
    with None show ?thesis by (auto simp: visible_def)
  next
    case (Some r)
    with purge_deleted_keeps [OF assms Some] show ?thesis by (simp add: visible_def)
  qed
  show "visible_details e p n = visible_details d p n"
  proof (cases "find_note e n")
    case None
    then have "\<not> visible e p n" by (auto simp: visible_def)
    with v show ?thesis by (simp add: visible_details_def)
  next
    case (Some r)
    with purge_deleted_keeps(1) [OF assms Some] have "find_note e n = find_note d n" by simp
    from fetch_details_cong [OF this purge_deleted_frame(2) [OF assms(1)]] v show ?thesis
      by (simp add: visible_details_def)
  qed
qed

lemma purge_deleted_ok:
  assumes "purge_deleted_before cutoff d = Inr (k, e)" "store_ok pu d"
  shows "store_ok pu e"
proof -
  note ok = store_okD [OF assms(2)] and fr = purge_deleted_frame [OF assms(1)] and e = purge_deleted_Inr(1) [OF assms(1)]
  note keep = purge_deleted_keeps [OF assms(1) ok(2)]
  let ?ids = "nr_id ` {r \<in> set (db_notes d). expired cutoff r}"
  have rows: "db_notes e = delete_where (expired cutoff) (db_notes d)" by (subst e, simp)
  have dist: "distinct (map nr_id (db_notes e))"
    using ok(2) unfolding rows by (simp add: notes_ok_def distinct_map_delete_where)
  have found: "r \<in> set (db_notes e) \<Longrightarrow> find_note e (nr_id r) = Some r" for r
    using row_by_Some_iff [OF dist, of "nr_id r" r] by (simp add: find_note_def)
  have rest: "find_note e n \<noteq> None" if "find_note d n \<noteq> None" "n \<notin> ?ids" for n
    using that find_note_purged [OF assms(1) ok(2), of n] purged_ids [OF ok(2), of n _ cutoff]
    by (cases "find_note d n") auto
  have "notes_ok pu e"
    unfolding notes_ok_def
  proof (intro conjI ballI)
    fix r assume r: "r \<in> set (db_notes e)"
    note kr = keep(1) [OF found [OF r]]
    have "fetch_note pu (nr_id r) e = fetch_note pu (nr_id r) d"
      by (rule fetch_note_cong) (use kr found [OF r] fr(2) in simp_all)
    with notes_okD(1,2,4) [OF ok(2) kr] fr(1)
    show "note_row_check r" "nr_creator r \<in> set (db_principals e)" "\<exists>x. fetch_note pu (nr_id r) e = Inr x" by simp_all
  qed (rule dist)
  moreover have "principals_ok pu e" using ok(1) principals_ok_cong [of e d pu] fr by simp
  moreover have "acl_ok e"
  proof -
    have acl: "db_acl e = delete_where (\<lambda>a. ar_note a \<in> ?ids) (db_acl d)" by (subst e, simp)
    have "\<exists>r. find_note e (ar_note a) = Some r \<and> nr_creator r \<noteq> ar_principal a"
      if a: "a \<in> set (db_acl d)" "ar_note a \<notin> ?ids" for a
    proof -
      obtain r where r: "find_note d (ar_note a) = Some r" "nr_creator r \<noteq> ar_principal a"
        using ok(3) a(1) by (auto simp: acl_ok_def)
      with rest [of "ar_note a"] a(2) obtain r' where "find_note e (ar_note a) = Some r'" by auto
      with keep(1) [OF this] r show ?thesis by simp
    qed
    then show ?thesis using ok(3) fr(1) unfolding acl_ok_def acl
      by (simp add: distinct_map_delete_where set_delete_where)
  qed
  moreover have "history_ok e"
    unfolding history_ok_def
  proof (intro conjI ballI)
    fix h assume "h \<in> set (db_revisions e)"
    then have "h \<in> set (db_revisions d)" "hr_note h \<notin> ?ids" by (subst (asm) e, simp add: set_delete_where)+
    then show "find_note e (hr_note h) \<noteq> None" using ok(4) rest by (simp add: history_ok_def)
  next
    fix r assume r: "r \<in> set (db_notes e)"
    have "r \<in> set (db_notes d)" using keep(1) [OF found [OF r]] find_note_iff [OF ok(2)] by blast
    then show "map hr_revision (note_history e (nr_id r)) = map int [1..<nat (nr_revision r) + 1]"
      "\<exists>cb kind. last (note_history e (nr_id r)) = history_row cb kind r \<and> cb \<in> set (db_principals e)"
      using ok(4) fr(1) unfolding keep(3) [OF found [OF r]] history_ok_def by simp_all
  qed
  moreover have "sync_ok e"
  proof -
    have v: "visible e = visible d" by (intro ext) (rule purge_deleted_visible(1) [OF assms(1) ok(2)])
    show ?thesis using ok(5) unfolding sync_ok_def fr v .
  qed
  ultimately show ?thesis by (simp add: store_ok_def)
qed

section \<open>The purge of synchronisation state\<close>

definition sync_horizon :: "unix_millis \<Rightarrow> int" where
  "sync_horizon now = i64_saturating_sub now note_sync_cursor_retention_ms"

text \<open>A change old enough to be purged at this horizon carries the sequence number.\<close>

definition stale :: "db \<Rightarrow> int \<Rightarrow> int \<Rightarrow> bool" where
  "stale d horizon s \<longleftrightarrow> (\<exists>c\<in>set (db_changes d). ch_sequence c = s \<and> ch_occurred_at c \<le> horizon)"

lemma purge_sync_frame [simp]:
  "db_principals (purge_sync_state pending now d) = db_principals d"
  "db_identities (purge_sync_state pending now d) = db_identities d"
  "db_notes (purge_sync_state pending now d) = db_notes d" "db_acl (purge_sync_state pending now d) = db_acl d"
  "db_revisions (purge_sync_state pending now d) = db_revisions d"
  "db_attachments (purge_sync_state pending now d) = db_attachments d"
  "db_revision_attachments (purge_sync_state pending now d) = db_revision_attachments d"
  "db_next_sequence (purge_sync_state pending now d) = db_next_sequence d"
  "db_latest_change (purge_sync_state pending now d) = db_latest_change d"
  by (simp_all add: purge_sync_state_def Let_def purge_changes_def purge_projection_def purge_sync_cursors_def)

lemma purge_sync_tables:
  "db_projection (purge_sync_state pending now d) = delete_where (\<lambda>x. stale d (sync_horizon now) (pj_sequence x)) (db_projection d)"
  "db_cursors (purge_sync_state pending now d) = delete_where (\<lambda>c. cu_expires_at c \<le> sync_horizon now) (db_cursors d)"
  "set (db_changes (purge_sync_state pending now d)) \<subseteq> set (db_changes d)"
  by (auto simp: purge_sync_state_def Let_def purge_changes_def purge_projection_def purge_sync_cursors_def stale_def
      sync_horizon_def exists_where_iff set_delete_where)

lemma visible_cong:
  assumes "db_notes e = db_notes d" "db_acl e = db_acl d"
  shows "find_note e = find_note d" "has_access e = has_access d" "visible e = visible d"
proof -
  show f: "find_note e = find_note d" using assms(1) by (rule find_note_cong)
  show h: "has_access e = has_access d" by (rule has_access_cong) (simp_all add: assms)
  show "visible e = visible d" by (intro ext) (simp add: visible_def f h)
qed

lemma store_ok_frame:
  assumes "store_ok pu d" "db_notes e = db_notes d" "db_acl e = db_acl d" "db_principals e = db_principals d"
    "db_identities e = db_identities d" "db_revisions e = db_revisions d" "sync_ok e"
  shows "store_ok pu e"
proof -
  note v = visible_cong [OF assms(2,3)]
  have "fetch_note pu m e = fetch_note pu m d" for m by (rule fetch_note_cong) (simp_all add: v assms)
  then have "notes_ok pu e = notes_ok pu d" by (simp add: notes_ok_def assms)
  moreover have "principals_ok pu e = principals_ok pu d" by (rule principals_ok_cong) (simp_all add: assms)
  moreover have "acl_ok e = acl_ok d" "history_ok e = history_ok d"
    by (simp_all add: acl_ok_def history_ok_def note_history_def v assms)
  ultimately show ?thesis using assms(1,7) by (simp add: store_ok_def)
qed

lemma visible_details_frame:
  assumes "db_notes e = db_notes d" "db_acl e = db_acl d" "db_identities e = db_identities d"
  shows "visible_details e = visible_details d"
proof (intro ext)
  fix p n
  note v = visible_cong [OF assms(1,2)]
  have "fetch_details e n = fetch_details d n" by (rule fetch_details_cong) (simp_all add: v assms)
  then show "visible_details e p n = visible_details d p n" by (simp add: visible_details_def v)
qed

lemma purge_sync_ok:
  assumes "store_ok pu d"
  shows "store_ok pu (purge_sync_state pending now d)"
proof (rule store_ok_frame [OF assms])
  let ?e = "purge_sync_state pending now d"
  have v: "visible ?e = visible d" by (rule visible_cong(3)) simp_all
  note ok = sync_okD [OF store_okD(5) [OF assms]]
  have sub: "x \<in> set (db_projection ?e) \<Longrightarrow> x \<in> set (db_projection d)" for x
    by (simp add: purge_sync_tables set_delete_where)
  show "sync_ok ?e"
  proof (rule sync_okI)
    show "distinct (map pj_key (db_projection ?e))"
      using ok(1) by (simp add: purge_sync_tables distinct_map_delete_where)
    show "pj_note x = pj_note y" if "x \<in> set (db_projection ?e)" "y \<in> set (db_projection ?e)" "pj_sequence x = pj_sequence y" for x y
      using ok(4) [OF sub sub that(3)] that(1,2) .
    show "\<not> visible ?e (pj_principal x) (pj_note x)" if "x \<in> set (db_projection ?e)" "pj_kind x \<noteq> PUpsert" for x
      using ok(5) [OF sub that(2)] that(1) unfolding v .
    show "0 < pj_sequence x \<and> pj_sequence x \<le> db_latest_change ?e" if "x \<in> set (db_projection ?e)" for x
      using ok(2,3) [OF sub [OF that]] by simp
  qed (use ok(6,7) in simp_all)
qed simp_all

section \<open>Every step\<close>

lemma insert_cursor_ok:
  assumes "insert_cursor row d = Inr e" "store_ok pu d"
  shows "store_ok pu e"
  using insert_cursor_frame(1) [OF assms(1)] assms(2) by simp

lemma append_change_ok:
  assumes "store_ok pu d"
  shows "store_ok pu (append_change a b c i f g d)"
proof (rule store_ok_frame [OF assms])
  let ?e = "append_change a b c i f g d"
  have v: "visible ?e = visible d" by (rule visible_cong(3)) simp_all
  have latest: "db_latest_change ?e = db_latest_change d" by (simp add: append_change_def)
  show "sync_ok ?e"
    using store_okD(5) [OF assms] unfolding sync_ok_def latest append_change_frame v by (elim conjE) (intro conjI; (assumption | linarith))
qed simp_all

lemma work_step_ok:
  assumes "work_step pu nfc sha256 now d e" "store_ok pu d"
  shows "store_ok pu e"
  using assms(1)
proof cases
  case work_note
  then show ?thesis using store_step_ok [OF store_step_at_step] assms(2) by blast
next
  case work_upload
  then show ?thesis using upload_attachments assms(2) by fastforce
next
  case work_discard
  then show ?thesis using discard_attachments assms(2) by fastforce
next
  case work_sweep
  then show ?thesis using sweep_attachments assms(2) by fastforce
next
  case work_cursor
  then show ?thesis using insert_cursor_ok assms(2) by blast
next
  case work_item
  then show ?thesis using append_change_ok assms(2) by blast
next
  case work_purge
  then show ?thesis using purge_deleted_ok assms(2) by blast
qed

lemma db_step_ok:
  assumes "db_step pu nfc sha256 d e" "store_ok pu d"
  shows "store_ok pu e"
  using assms(1)
proof cases
  case db_work
  then show ?thesis using work_step_ok assms(2) by blast
next
  case db_purge
  then show ?thesis using purge_sync_ok assms(2) by blast
qed

end
