(* ===== verification/StoreLife.thy ===== *)
theory StoreLife
  imports StoreClock
begin

text \<open>
  What survives every transaction on the tables of notes, the purges included: the history of a note as long
  as the note itself is not purged, and the images that committed revisions show.
\<close>

section \<open>The life of a note\<close>

text \<open>The history of the note grows at its end, and the note keeps its identity and its origin.\<close>

definition continues :: "note_id \<Rightarrow> db \<Rightarrow> db \<Rightarrow> bool" where
  "continues nid d e \<longleftrightarrow> set (note_history d nid) \<subseteq> set (note_history e nid)
     \<and> (\<forall>p\<in>set (db_principals d). p \<in> set (db_principals e)
          \<and> primary_identity_row e p = primary_identity_row d p)
     \<and> (\<forall>r. find_note d nid = Some r \<longrightarrow> (\<exists>r'. find_note e nid = Some r' \<and> nr_creator r' = nr_creator r
          \<and> nr_created_at r' = nr_created_at r \<and> nr_created_via r' = nr_created_via r))"

lemma continues_refl [simp]: "continues nid d d"
  by (simp add: continues_def)

lemma continues_trans: "continues nid a b \<Longrightarrow> continues nid b c \<Longrightarrow> continues nid a c"
  unfolding continues_def by (smt (verit) order_trans)

lemma continues_frame:
  assumes "db_notes e = db_notes d" "db_principals e = db_principals d" "db_identities e = db_identities d"
    "db_revisions e = db_revisions d"
  shows "continues nid d e"
  using find_note_cong [OF assms(1)] primary_identity_row_cong [OF assms(3)] assms
  by (simp add: continues_def note_history_def)

lemma db_step_continues:
  assumes "db_step pu nfc sha256 d e" "store_ok pu d" "find_note e nid \<noteq> None"
  shows "continues nid d e"
  using assms(1)
proof cases
  case (db_work now)
  then show ?thesis
  proof cases
    case work_note
    then have "extends d e" using store_step_extends [OF store_step_at_step] assms(2) by blast
    then show ?thesis by (fastforce simp: extends_def continues_def note_history_def)
  next
    case work_upload
    then obtain as where "e = d\<lparr>db_attachments := as\<rparr>" using upload_attachments by blast
    then show ?thesis by (intro continues_frame) simp_all
  next
    case work_discard
    then obtain as where "e = d\<lparr>db_attachments := as\<rparr>" using discard_attachments by blast
    then show ?thesis by (intro continues_frame) simp_all
  next
    case work_sweep
    then obtain as where "e = d\<lparr>db_attachments := as\<rparr>" using sweep_attachments by blast
    then show ?thesis by (intro continues_frame) simp_all
  next
    case (work_cursor row)
    then show ?thesis by (intro continues_frame) (auto dest: insert_cursor_Inr(1))
  next
    case work_item
    then show ?thesis by (intro continues_frame) simp_all
  next
    case (work_purge cutoff k)
    note ok = store_okD(2) [OF assms(2)]
    obtain r where r: "find_note e nid = Some r" using assms(3) by blast
    note keep = purge_deleted_keeps [OF work_purge ok r]
    have "primary_identity_row e = primary_identity_row d"
      by (rule primary_identity_row_cong) (rule purge_deleted_frame(2) [OF work_purge])
    then show ?thesis using keep(1,3) r purge_deleted_frame(1) [OF work_purge] by (simp add: continues_def)
  qed
next
  case db_purge
  then show ?thesis by (intro continues_frame) simp_all
qed

lemma continued:
  assumes "(\<lambda>x y. db_step pu nfc sha256 x y \<and> find_note y nid \<noteq> None)\<^sup>*\<^sup>* d e" "store_ok pu d"
  shows "store_ok pu e \<and> continues nid d e"
  using assms(1)
proof (induction rule: rtranclp_induct)
  case (step x y)
  then show ?case using db_step_ok db_step_continues continues_trans by blast
qed (simp add: assms(2))

text \<open>
  C4: every revision a note has ever had stays readable until the note itself is purged: whoever may read the
  history of the note gets for a revision number exactly the note as it was committed under that number,
  however many transactions and purges came after it.
\<close>

theorem committed_revision_reads_back:
  assumes "store_ok pu e" and "fetch_note pu nid e = Inr n"
    and "(\<lambda>x y. db_step pu nfc sha256 x y \<and> find_note y nid \<noteq> None)\<^sup>*\<^sup>* e e'"
    and "find_note e' nid = Some cur" "history_readable e' act cur"
  shows "\<exists>v. note_revision pu act nid (n_revision n) e' = Inr (Some v) \<and> rs_note (rw_revision v) = n"
proof -
  have ok': "store_ok pu e'" and ext: "continues nid e e'" using continued [OF assms(3,1)] by simp_all
  note okd = store_okD [OF assms(1)] and okd' = store_okD [OF ok']
  obtain nd where nd: "fetch_details e nid = Some nd" "note_from_row pu nd = Inr n"
    using assms(2) by (auto simp: fetch_note_def rbind_Inr_iff ok_or_Inr_iff)
  let ?r = "nd_row nd"
  have r: "find_note e nid = Some ?r" and cols: "note_details_of e ?r = Some nd"
    using nd(1) by (auto simp: fetch_details_def note_details_of_def Let_def bind_eq_Some_conv)
  note rr = notes_okD [OF okd(2) r]
  have rev: "n_revision n = nr_revision ?r" using note_from_row_Inr [OF nd(2)] by simp
  from okd(4) rr(5) obtain cb kind where last: "last (note_history e nid) = history_row cb kind ?r"
    and cb: "cb \<in> set (db_principals e)"
    and "map hr_revision (note_history e nid) = map int [1..<nat (nr_revision ?r) + 1]"
    unfolding history_ok_def using rr(3) by blast
  then have "length (note_history e nid) = nat (nr_revision ?r)"
    by (metis add_diff_cancel_right' length_map length_upt)
  then have "note_history e nid \<noteq> []" using rr(6) by auto
  then have "history_row cb kind ?r \<in> set (note_history e nid)" using last by (metis last_in_set)
  then have h: "history_row cb kind ?r \<in> set (db_revisions e')"
    using ext by (auto simp: continues_def note_history_def)
  from ext r have cur: "nr_creator cur = nr_creator ?r" "nr_created_at cur = nr_created_at ?r"
      "nr_created_via cur = nr_created_via ?r"
    using assms(4) unfolding continues_def by (metis option.inject)+
  have curid: "nr_id cur = nid" "cur \<in> set (db_notes e')" using notes_okD [OF okd'(2) assms(4)] by simp_all
  have found: "row_by (\<lambda>h. (hr_note h, hr_revision h)) (nid, n_revision n) (db_revisions e')
      = Some (history_row cb kind ?r)"
    using history_row_found [OF okd'(4) curid(2) h] curid(1) rr(3) rev by (simp add: history_row_def)
  have same: "primary_identity_row e' p = primary_identity_row e p" if "p \<in> set (db_principals e)" for p
    using ext that by (simp add: continues_def)
  from cb ext have "cb \<in> set (db_principals e')" by (simp add: continues_def)
  then obtain prim where by_prim: "primary_identity_row e' cb = Some prim" "identity_ok pu (row_identity prim)" "0 < cb"
    using okd'(1) by (auto simp: principals_ok_def)
  have rvw: "Option.bind (nr_reviewer ?r) (primary_identity_row e') = Option.bind (nr_reviewer ?r) (primary_identity_row e)"
    using rr(1,2) same by (auto simp: note_row_check_def)
  have own: "primary_identity_row e' (nr_creator cur) = primary_identity_row e (nr_creator ?r)"
    using same rr(2) cur(1) by simp
  have "\<exists>x. history_details_of e' cur (history_row cb kind ?r) = Some x
      \<and> hd_row x = history_row cb kind ?r \<and> hd_current x = cur
      \<and> hd_creator_issuer x = nd_creator_issuer nd \<and> hd_creator_subject x = nd_creator_subject nd
      \<and> hd_reviewer_issuer x = nd_reviewer_issuer nd \<and> hd_reviewer_subject x = nd_reviewer_subject nd
      \<and> hd_changed_issuer x = ir_issuer prim \<and> hd_changed_subject x = ir_subject prim"
    using note_details_of_Some [OF cols] own by_prim(1) rvw
    by (auto simp: history_details_of_def Let_def history_row_def)
  then obtain x where x: "history_details_of e' cur (history_row cb kind ?r) = Some x"
      "hd_row x = history_row cb kind ?r" "hd_current x = cur"
      "hd_creator_issuer x = nd_creator_issuer nd" "hd_creator_subject x = nd_creator_subject nd"
      "hd_reviewer_issuer x = nd_reviewer_issuer nd" "hd_reviewer_subject x = nd_reviewer_subject nd"
      "hd_changed_issuer x = ir_issuer prim" "hd_changed_subject x = ir_subject prim"
    by blast
  have "principal_from_columns pu cb (hd_changed_issuer x) (hd_changed_subject x)
      = Inr \<lparr>pref_id = cb, primary_identity = row_identity prim\<rparr>"
    using by_prim x by (simp add: principal_from_columns_def principal_id_new_def corrupt_def)
  from revision_from_row_of_note [OF nd(2) x(2) _ _ _ x(4-7) this] x(3) cur
  have snap: "revision_from_row pu x = Inr \<lparr>rs_note = n, rs_changed_by = \<lparr>pref_id = cb, primary_identity = row_identity prim\<rparr>,
      rs_kind = kind\<rparr>"
    by simp
  have "\<exists>l a. (if nr_deleted_at cur \<noteq> None then Some 3 else access_row e' nid (actor_id act)) = Some l
      \<and> access_from_level l = Inr a"
  proof (cases "nr_deleted_at cur")
    case None
    then obtain l where "access_row e' nid (actor_id act) = Some l"
      using assms(5) curid(1) by (auto simp: history_readable_def)
    then show ?thesis using access_row_level None by auto
  next
    case (Some del)
    then show ?thesis by (simp add: access_from_level_def)
  qed
  then show ?thesis
    using assms(4,5) found x(1) snap by (auto simp: note_revision_def)
qed

lemma committed_revision_reads_back_witness:
  "\<exists>n e v. update_visible_note sample_parser (sample_actor 1) sample_note_id 1 (sample_draft 1) no_links 2000
       sample_db = Inr (n, e)
     \<and> note_revision sample_parser (sample_actor 1) sample_note_id 1 (purge_sync_state (\<lambda>_. False) 9000 e) = Inr (Some v)
     \<and> rs_note (rw_revision v) = new_note sample_note_id (sample_actor 1) (sample_draft 0) 1000 Web"
proof -
  obtain n e cur where u: "update_visible_note sample_parser (sample_actor 1) sample_note_id 1 (sample_draft 1)
      no_links 2000 sample_db = Inr (n, e)" "find_note e sample_note_id = Some cur" "history_readable e (sample_actor 1) cur"
    by (simp add: mutation_eval sample_eval store_eval history_readable_def access_row_def)
  let ?f = "purge_sync_state (\<lambda>_. False) 9000 e"
  have f: "find_note ?f = find_note e" by (rule visible_cong) simp_all
  have "access_row ?f = access_row e" by (intro ext) (simp add: access_row_def note_access_def)
  then have r: "history_readable ?f (sample_actor 1) cur" using u(3) by (simp add: history_readable_def)
  let ?step = "\<lambda>x y. db_step sample_parser (\<lambda>s. s) (\<lambda>b. b) x y \<and> find_note y sample_note_id \<noteq> None"
  have "?step sample_db e" "?step e ?f"
    using db_work [OF work_note [OF at_update [OF u(1)]]] db_purge u(2) f by simp_all
  then have steps: "?step\<^sup>*\<^sup>* sample_db ?f" by (rule rtranclp.rtrancl_into_rtrancl [OF r_into_rtranclp])
  have "fetch_note sample_parser sample_note_id sample_db =
      Inr (new_note sample_note_id (sample_actor 1) (sample_draft 0) 1000 Web)"
    by (simp add: mutation_eval sample_eval store_eval)
  from committed_revision_reads_back [OF sample_ok this steps _ r] u(1,2) f show ?thesis by simp
qed

section \<open>The life of an image\<close>

lemma media_ok_frame:
  assumes "media_ok pu nfc sha256 d" "store_ok pu e" "db_notes e = db_notes d" "db_principals e = db_principals d"
    "db_attachments e = db_attachments d" "db_revision_attachments e = db_revision_attachments d"
    "db_revisions e = db_revisions d"
  shows "media_ok pu nfc sha256 e \<and> keeps_referenced d e"
proof -
  have "quotas_ok e = quotas_ok d"
    by (simp add: quotas_ok_def total_bytes_def note_rows_cong [OF assms(5)])
  then have "attachments_ok nfc sha256 e = attachments_ok nfc sha256 d"
    using find_note_cong [OF assms(3)] by (simp add: attachments_ok_def assms)
  moreover have "refs_ok e = refs_ok d" by (simp add: refs_ok_def assms)
  ultimately show ?thesis
    using assms(1,2) by (simp add: media_ok_def keeps_referenced_def attachment_referenced_def assms)
qed

lemma purge_deleted_media:
  assumes "purge_deleted_before cutoff d = Inr (k, e)" "media_ok pu nfc sha256 d"
  shows "media_ok pu nfc sha256 e \<and> keeps_referenced d e"
proof
  have ok: "store_ok pu d" "attachments_ok nfc sha256 d" "refs_ok d" using assms(2) by (simp_all add: media_ok_def)
  note e = purge_deleted_Inr(1) [OF assms(1)] and free = purge_deleted_Inr(2) [OF assms(1)]
  let ?ids = "nr_id ` {r \<in> set (db_notes d). expired cutoff r}"
  let ?d = "d\<lparr>db_attachments := delete_where (\<lambda>a. at_note a \<in> ?ids) (db_attachments d)\<rparr>"
  have att: "db_attachments e = db_attachments ?d" by (subst e, simp)
  have refs: "db_revision_attachments e = delete_where (\<lambda>(n, v, x). n \<in> ?ids) (db_revision_attachments d)" by (subst e, simp)
  have revs: "db_revisions e = delete_where (\<lambda>h. hr_note h \<in> ?ids) (db_revisions d)" by (subst e, simp)
  have "media_ok pu nfc sha256 ?d" by (rule delete_attachments_ok [OF assms(2)]) (use free in auto)
  then have ok': "attachments_ok nfc sha256 ?d" by (simp add: media_ok_def)
  have "quotas_ok e = quotas_ok ?d" by (simp add: quotas_ok_def total_bytes_def note_rows_cong [OF att])
  moreover have "find_note e (at_note a) \<noteq> None" if "a \<in> set (db_attachments e)" for a
  proof -
    have "a \<in> set (db_attachments d)" "at_note a \<notin> ?ids" using that unfolding att by (auto simp: set_delete_where)
    then have "find_note d (at_note a) \<noteq> None" using ok(2) by (simp add: attachments_ok_def)
    then show ?thesis
      using \<open>at_note a \<notin> ?ids\<close> find_note_purged [OF assms(1) store_okD(2) [OF ok(1)], of "at_note a"]
        purged_ids [OF store_okD(2) [OF ok(1)], of "at_note a" _ cutoff]
      by (cases "find_note d (at_note a)") auto
  qed
  ultimately have "attachments_ok nfc sha256 e"
    using ok' att purge_deleted_frame(1) [OF assms(1)] by (simp add: attachments_ok_def)
  moreover have "refs_ok e"
    unfolding refs_ok_def
  proof clarify
    fix n v x
    assume "(n, v, x) \<in> set (db_revision_attachments e)"
    then have nvx: "(n, v, x) \<in> set (db_revision_attachments d)" "n \<notin> ?ids"
      unfolding refs by (simp_all add: set_delete_where)
    from ok(3) nvx(1) obtain h a where "h \<in> set (db_revisions d)" "hr_note h = n" "hr_revision h = v"
        "a \<in> set (db_attachments d)" "at_note a = n" "at_id a = x"
      unfolding refs_ok_def by blast
    with nvx(2) show "(\<exists>h\<in>set (db_revisions e). hr_note h = n \<and> hr_revision h = v)
        \<and> (\<exists>a\<in>set (db_attachments e). at_note a = n \<and> at_id a = x)"
      unfolding revs att by (intro conjI bexI [of _ h] bexI [of _ a]) (simp_all add: set_delete_where)
  qed
  ultimately show "media_ok pu nfc sha256 e" using purge_deleted_ok [OF assms(1) ok(1)] by (simp add: media_ok_def)
  show "keeps_referenced d e"
    using free unfolding keeps_referenced_def attachment_referenced_def exists_where_iff att refs
    by (fastforce simp: set_delete_where)
qed

lemma db_step_media:
  assumes "db_step pu nfc sha256 d e" "media_ok pu nfc sha256 d" "nfc_stable nfc" "\<forall>b. length (sha256 b) = 32"
  shows "media_ok pu nfc sha256 e \<and> keeps_referenced d e"
  using assms(1)
proof cases
  case (db_work now)
  have ok: "store_ok pu d" using assms(2) by (simp add: media_ok_def)
  from db_work show ?thesis
  proof cases
    case work_note
    then show ?thesis using media_step_ok [OF media_note [OF store_step_at_step] assms(2-4)] by blast
  next
    case work_upload
    then show ?thesis using media_step_ok [OF media_upload assms(2-4)] by blast
  next
    case work_discard
    then show ?thesis using media_step_ok [OF media_discard assms(2-4)] by blast
  next
    case work_sweep
    then show ?thesis using media_step_ok [OF media_sweep assms(2-4)] by blast
  next
    case (work_cursor row)
    then show ?thesis using insert_cursor_Inr(1) [OF work_cursor] insert_cursor_ok [OF work_cursor ok]
      by (intro media_ok_frame [OF assms(2)]) simp_all
  next
    case work_item
    then show ?thesis using append_change_ok [OF ok] by (intro media_ok_frame [OF assms(2)]) simp_all
  next
    case work_purge
    then show ?thesis using purge_deleted_media assms(2) by blast
  qed
next
  case db_purge
  then show ?thesis using purge_sync_ok assms(2)
    by (intro media_ok_frame [OF assms(2)]) (simp_all add: media_ok_def)
qed

lemma db_steps_media:
  assumes "db_steps pu nfc sha256 d e" "media_ok pu nfc sha256 d" "nfc_stable nfc" "\<forall>b. length (sha256 b) = 32"
  shows "media_ok pu nfc sha256 e \<and> keeps_referenced d e"
  using assms(1)
proof (induction rule: rtranclp_induct)
  case (step e f)
  then show ?case using db_step_media [OF step(2) _ assms(3,4)] keeps_referenced_trans by blast
qed (simp add: assms(2))

text \<open>
  C32: an image that a committed revision refers to never disappears and never changes: after any sequence of
  transactions, the discards, the sweeps and every purge included, its note is still stored, and whoever may
  then read the note reads the same row.  The purge of deleted notes, which is meant to remove such images
  with their notes, fails instead.
\<close>

theorem referenced_image_stays:
  assumes "media_ok pu nfc sha256 d" "nfc_stable nfc" "\<forall>b. length (sha256 b) = 32"
    and "a \<in> set (db_attachments d)" "attachment_referenced d a" "db_steps pu nfc sha256 d e"
  shows "a \<in> set (db_attachments e) \<and> find_note e (at_note a) \<noteq> None
    \<and> (\<forall>act. note_is_readable e act (at_note a) \<longrightarrow>
        (\<exists>s. note_attachment pu nfc sha256 act (at_note a) (at_id a) e = Inr (Some s) \<and> row_of_attachment s = a))"
proof -
  have ok: "media_ok pu nfc sha256 e" "a \<in> set (db_attachments e)"
    using db_steps_media [OF assms(6,1-3)] assms(4,5) by (auto simp: keeps_referenced_def)
  then have "find_note e (at_note a) \<noteq> None" by (simp add: media_ok_def attachments_ok_def)
  with ok note_attachment_reads [OF ok] show ?thesis by blast
qed

lemma referenced_image_stays_witness:
  "\<exists>n e s. update_visible_note sample_parser (sample_actor 1) sample_note_id 1 (sample_draft 1) image_links 2000
      sample_with_image = Inr (n, e)
    \<and> note_attachment sample_parser (\<lambda>s. s) sample_sha (sample_actor 1) sample_note_id 5
        (purge_sync_state (\<lambda>_. False) 9000 (snd (purge_unreferenced_note_attachments_before 9000 e))) = Inr (Some s)"
proof -
  obtain n e where e: "update_visible_note sample_parser (sample_actor 1) sample_note_id 1 (sample_draft 1) image_links
      2000 sample_with_image = Inr (n, e)" "db_revision_attachments e = [(sample_note_id, 2, 5)]"
    "db_attachments e = db_attachments sample_with_image" "note_is_readable e (sample_actor 1) sample_note_id"
    using sample_shown by blast
  let ?a = "row_of_attachment (stored_of sample_sha sample_image 5 sample_note_id 1500 (sample_actor 1))"
  let ?f = "snd (purge_unreferenced_note_attachments_before 9000 e)" and ?g = "\<lambda>f. purge_sync_state (\<lambda>_. False) 9000 f"
  let ?step = "db_step sample_parser (\<lambda>s. s) sample_sha"
  have ok: "media_ok sample_parser (\<lambda>s. s) sample_sha e"
    using db_step_media [OF db_work [OF work_note [OF at_update [OF e(1)]]] sample_image_media_ok sample_nfc sample_sha_length]
    by blast
  have a: "?a \<in> set (db_attachments e)" "attachment_referenced e ?a"
    using e(2,3) by (simp_all add: sample_with_image_def attachment_referenced_def exists_where_def)
  have "?step e ?f" "?step ?f (?g ?f)"
    by (rule db_work [OF work_sweep], rule prod.collapse [symmetric], rule db_purge)
  then have steps: "?step\<^sup>*\<^sup>* e (?g ?f)" by (rule rtranclp.rtrancl_into_rtrancl [OF r_into_rtranclp])
  have f: "db_notes ?f = db_notes e" "db_acl ?f = db_acl e"
    by (simp_all add: purge_unreferenced_note_attachments_before_def Let_def)
  have "has_access (?g ?f) = has_access e" by (rule visible_cong(2)) (simp_all add: f)
  then have "note_is_readable (?g ?f) (sample_actor 1) (at_note ?a)"
    using e(4) by (simp add: note_is_readable_def f)
  with referenced_image_stays [OF ok sample_nfc sample_sha_length a steps] e(1) show ?thesis by fastforce
qed

end
