(* ===== verification/SyncSession.thy ===== *)
theory SyncSession
  imports StoreLife
begin

text \<open>
  A client that follows its cursors ends up with exactly the notes it can see, whatever transactions run
  between its requests, as long as it reaches the last page at least once in the retention period; and what
  the purge of synchronisation state does to a client that is slower.
\<close>

section \<open>What a step leaves in the change log\<close>

lemma tracks_frame:
  assumes "db_notes e = db_notes d" "db_acl e = db_acl d" "db_identities e = db_identities d"
    "db_projection e = db_projection d" "db_next_sequence d \<le> db_next_sequence e"
  shows "tracks d e"
  using visible_details_frame [OF assms(1-3)] proj_row_cong [OF assms(4)] assms(5) by (simp add: tracks_def)

definition log_grows :: "unix_millis \<Rightarrow> db \<Rightarrow> db \<Rightarrow> bool" where
  "log_grows now d e \<longleftrightarrow> (\<forall>c\<in>set (db_changes e). c \<in> set (db_changes d)
     \<or> db_next_sequence d \<le> ch_sequence c \<and> ch_sequence c < db_next_sequence e
       \<and> (ch_occurred_at c = now \<or> db_projection e = db_projection d))"

lemma log_grows_same: "db_changes e = db_changes d \<Longrightarrow> log_grows now d e"
  by (simp add: log_grows_def)

lemma work_step_log:
  assumes "work_step pu nfc sha256 now d e" "store_ok pu d"
  shows "tracks d e \<and> log_grows now d e
    \<and> (\<forall>hash tok r. cursor_by_token hash tok d = Some r \<longrightarrow> cursor_by_token hash tok e = Some r)"
  using assms(1)
proof cases
  case work_note
  have "db_cursors e = db_cursors d" using store_step_cursors [OF store_step_at_step [OF work_note] assms(2)] .
  moreover have "log_grows now d e" using store_step_at_logged [OF work_note assms(2)]
    by (auto simp: logged_at_def log_grows_def)
  ultimately show ?thesis using store_step_ok [OF store_step_at_step [OF work_note] assms(2)]
    by (simp add: cursor_by_token_def)
next
  case work_upload
  then obtain as where "e = d\<lparr>db_attachments := as\<rparr>" using upload_attachments by blast
  then show ?thesis by (simp add: tracks_frame log_grows_same cursor_by_token_def)
next
  case work_discard
  then obtain as where "e = d\<lparr>db_attachments := as\<rparr>" using discard_attachments by blast
  then show ?thesis by (simp add: tracks_frame log_grows_same cursor_by_token_def)
next
  case work_sweep
  then obtain as where "e = d\<lparr>db_attachments := as\<rparr>" using sweep_attachments by blast
  then show ?thesis by (simp add: tracks_frame log_grows_same cursor_by_token_def)
next
  case (work_cursor row)
  note e = insert_cursor_Inr(1) [OF work_cursor]
  show ?thesis by (simp add: e tracks_frame log_grows_same cursor_by_token_def row_by_append_new)
next
  case work_item
  then show ?thesis
    by (intro conjI tracks_frame) (auto simp: log_grows_def cursor_by_token_def append_change_def)
next
  case work_purge
  note fr = purge_deleted_frame [OF work_purge]
  have "tracks d e"
    using purge_deleted_visible(2) [OF work_purge store_okD(2) [OF assms(2)]] proj_row_cong [OF fr(6)] fr(4)
    by (simp add: tracks_def)
  then show ?thesis using fr by (simp add: log_grows_same cursor_by_token_def)
qed

interpretation work: change_log "store_ok pu" "\<lambda>d e. \<exists>now. work_step pu nfc sha256 now d e" "\<lambda>d. visible_note pu d p"
  "\<lambda>d. log_mark d p" db_next_sequence
  for pu :: url_parser and nfc :: "rstr \<Rightarrow> rstr" and sha256 :: "u8 list \<Rightarrow> u8 list" and p :: int
proof unfold_locales
  fix d e :: db and k :: note_id
  assume ok: "store_ok pu d" and "\<exists>now. work_step pu nfc sha256 now d e"
  then obtain now where step: "work_step pu nfc sha256 now d e" by blast
  have t: "tracks d e" using work_step_log [OF step ok] by blast
  show "store_ok pu e" by (rule work_step_ok [OF step ok])
  show "db_next_sequence d \<le> db_next_sequence e" using t by (simp add: tracks_def)
  show "(\<exists>m. log_mark e p k = Some m \<and> db_next_sequence d \<le> m)
      \<or> (log_mark e p k = log_mark d p k \<and> visible_note pu e p k = visible_note pu d p k)"
    using t unfolding tracks_def log_mark_def visible_note_def by (metis option.simps(9))
next
  fix d :: db and k :: note_id and m :: int
  show "store_ok pu d \<Longrightarrow> log_mark d p k = Some m \<Longrightarrow> m < db_next_sequence d" by (rule feed.mark_bound)
qed

section \<open>Changes a client still has to read\<close>

definition sequences_ok :: "db \<Rightarrow> bool" where
  "sequences_ok d \<longleftrightarrow> (\<forall>c\<in>set (db_changes d). ch_sequence c < db_next_sequence d)"

lemma work_step_sequences:
  assumes "work_step pu nfc sha256 now d e" "store_ok pu d" "sequences_ok d"
  shows "sequences_ok e"
  using work_step_log [OF assms(1,2)] assms(3) by (fastforce simp: sequences_ok_def log_grows_def tracks_def)

lemma purge_sync_sequences: "sequences_ok d \<Longrightarrow> sequences_ok (purge_sync_state pending now d)"
  using purge_sync_tables(3) [of pending now d] by (auto simp: sequences_ok_def)

lemma db_steps_sequences:
  assumes "db_steps pu nfc sha256 empty_db d"
  shows "store_ok pu d \<and> sequences_ok d"
  using assms
proof (induction rule: rtranclp_induct)
  case base
  have "sequences_ok empty_db" by (simp add: sequences_ok_def empty_db_def)
  then show ?case using empty_store_ok by blast
next
  case (step d e)
  have "sequences_ok e"
    using step(2)
  proof cases
    case db_work
    then show ?thesis using work_step_sequences step.IH by blast
  next
    case db_purge
    then show ?thesis using purge_sync_sequences step.IH by blast
  qed
  then show ?case using db_step_ok step.IH step.hyps(2) by blast
qed

text \<open>Every change behind an entry beyond \<open>s\<close> is not older than \<open>since\<close>.\<close>

definition recent :: "int \<Rightarrow> unix_millis \<Rightarrow> int \<Rightarrow> db \<Rightarrow> bool" where
  "recent p since s d \<longleftrightarrow> (\<forall>x\<in>set (db_projection d). pj_principal x = p \<and> s < pj_sequence x \<longrightarrow>
     (\<forall>c\<in>set (db_changes d). ch_sequence c = pj_sequence x \<longrightarrow> since \<le> ch_occurred_at c))"

lemma recent_step:
  assumes "recent p since s d" "work_step pu nfc sha256 now d e" "store_ok pu d" "sequences_ok d" "since \<le> now"
  shows "recent p since s e"
  unfolding recent_def
proof (intro ballI impI)
  fix x c
  assume x: "x \<in> set (db_projection e)" "pj_principal x = p \<and> s < pj_sequence x"
    and c: "c \<in> set (db_changes e)" "ch_sequence c = pj_sequence x"
  note log = work_step_log [OF assms(2,3)] and ok = sync_okD [OF store_okD(5) [OF assms(3)]]
  note oke = sync_okD [OF store_okD(5) [OF work_step_ok [OF assms(2,3)]]]
  have old: "pj_sequence y < db_next_sequence d" if "y \<in> set (db_projection d)" for y
    using ok(3) [OF that] ok(7) by simp
  have "proj_row e p (pj_note x) = Some x" using proj_row_iff [OF oke(1)] x by blast
  then have or: "db_next_sequence d \<le> pj_sequence x \<or> x \<in> set (db_projection d)"
    using log proj_row_iff [OF ok(1)] unfolding tracks_def by (metis option.inject)
  show "since \<le> ch_occurred_at c"
  proof (cases "c \<in> set (db_changes d)")
    case True
    then have "ch_sequence c < db_next_sequence d" using assms(4) by (simp add: sequences_ok_def)
    then have "x \<in> set (db_projection d)" using or c(2) by simp
    then show ?thesis using assms(1) x(2) c(2) True unfolding recent_def by blast
  next
    case False
    then have new: "db_next_sequence d \<le> ch_sequence c" "ch_occurred_at c = now \<or> db_projection e = db_projection d"
      using log c(1) by (auto simp: log_grows_def)
    have "x \<notin> set (db_projection d)" using old new(1) c(2) by fastforce
    then show ?thesis using new(2) x(1) assms(5) by auto
  qed
qed

lemma recent_purge: "recent p since s d \<Longrightarrow> recent p since s (purge_sync_state pending now d)"
  using purge_sync_tables(3) [of pending now d] unfolding recent_def purge_sync_tables(1)
  by (auto simp: set_delete_where)

lemma recent_mono: "recent p since s d \<Longrightarrow> s \<le> s' \<Longrightarrow> recent p since s' d"
  by (fastforce simp: recent_def)

lemma recent_cong:
  "db_projection e = db_projection d \<Longrightarrow> db_changes e = db_changes d \<Longrightarrow> recent p since s e = recent p since s d"
  by (simp add: recent_def)

text \<open>Up to where a cursor has read.\<close>

definition read_up_to :: "cursor_state \<Rightarrow> int" where
  "read_up_to st = (case cs_phase st of Snapshot \<Rightarrow> cs_high_watermark st | Changes \<Rightarrow> cs_after_sequence st)"

lemma state_inv_purge:
  assumes ok: "store_ok pu d" and inv: "state_inv pu p d st c"
    and rec: "recent p since (read_up_to st) d" "sync_horizon now < since"
  shows "state_inv pu p (purge_sync_state pending now d) st c"
proof -
  let ?e = "purge_sync_state pending now d" and ?s = "read_up_to st"
  note ok' = purge_sync_ok [OF ok, of pending now]
  have view: "visible_note pu ?e p = visible_note pu d p"
  proof -
    have "visible_details ?e = visible_details d" by (rule visible_details_frame) simp_all
    then show ?thesis by (intro ext) (simp add: visible_note_def)
  qed
  have mark: "log_mark ?e p k = Some m" if marked: "log_mark d p k = Some m" "?s < m" for k m
  proof -
    obtain r where r: "r \<in> set (db_projection d)" "pj_principal r = p" "pj_note r = k" "pj_sequence r = m"
      using marked(1) log_mark_iff [OF ok] by blast
    have "\<not> stale d (sync_horizon now) m"
    proof
      assume "stale d (sync_horizon now) m"
      then obtain x where "x \<in> set (db_changes d)" "ch_sequence x = m" "ch_occurred_at x \<le> sync_horizon now"
        by (auto simp: stale_def)
      moreover have "since \<le> ch_occurred_at x"
        using rec(1) r marked(2) calculation unfolding recent_def by blast
      ultimately show False using rec(2) by simp
    qed
    then have "r \<in> set (db_projection ?e)" using r(1,4) by (simp add: purge_sync_tables set_delete_where)
    then show ?thesis using r unfolding log_mark_iff [OF ok'] by blast
  qed
  let ?sync = "change_log.in_sync (\<lambda>d. visible_note pu d p) (\<lambda>d. log_mark d p)"
  have sync: "?sync ?e ?s c k" if "?sync d ?s c k" for k
  proof -
    from that consider "c k = visible_note pu d p k" | m where "log_mark d p k = Some m" "?s < m"
      unfolding feed.in_sync_def by blast
    then show ?thesis
    proof cases
      case 1
      then show ?thesis unfolding feed.in_sync_def view by (rule disjI1)
    next
      case 2
      then show ?thesis unfolding feed.in_sync_def using mark by blast
    qed
  qed
  show ?thesis
  proof (cases "cs_phase st")
    case Snapshot
    then have "?s = cs_high_watermark st" by (simp add: read_up_to_def)
    then show ?thesis using inv Snapshot sync by (simp add: state_inv_def feed.loading_def)
  next
    case Changes
    then have "?s = cs_after_sequence st" by (simp add: read_up_to_def)
    then show ?thesis using inv Changes sync by (simp add: state_inv_def feed.following_def)
  qed
qed

section \<open>A client session\<close>

text \<open>
  The history of a client: when it last knew everything (\<open>since\<close>), the clock, the database, its cursor and its
  replica.  It starts without a cursor and an empty replica, applies each page it receives and continues with
  the cursor of the page.  Between its requests any transaction runs at any later time; the purge of
  synchronisation state runs while its horizon has not reached the moment the client last knew everything.
\<close>

inductive syncing ::
  "url_parser \<Rightarrow> (rstr \<Rightarrow> rstr) \<Rightarrow> (u8 list \<Rightarrow> u8 list) \<Rightarrow> token_hash \<Rightarrow> actor
   \<Rightarrow> unix_millis \<Rightarrow> unix_millis \<Rightarrow> db \<Rightarrow> rstr option \<Rightarrow> replica \<Rightarrow> bool"
  for pu :: url_parser and nfc :: "rstr \<Rightarrow> rstr" and sha256 :: "u8 list \<Rightarrow> u8 list" and hash :: token_hash and act :: actor
  where
  sync_start: "db_steps pu nfc sha256 empty_db d \<Longrightarrow> syncing pu nfc sha256 hash act now now d None (\<lambda>_. None)"
| sync_work: "syncing pu nfc sha256 hash act since t d cur c \<Longrightarrow> t \<le> now \<Longrightarrow> work_step pu nfc sha256 now d e
    \<Longrightarrow> syncing pu nfc sha256 hash act since now e cur c"
| sync_purge: "syncing pu nfc sha256 hash act since t d cur c \<Longrightarrow> t \<le> now \<Longrightarrow> cur = None \<or> sync_horizon now < since
    \<Longrightarrow> syncing pu nfc sha256 hash act since now (purge_sync_state pending now d) cur c"
| sync_page: "syncing pu nfc sha256 hash act since t d cur c \<Longrightarrow> t \<le> now \<Longrightarrow> in_i64 now \<Longrightarrow> 1 \<le> limit
    \<Longrightarrow> sync_notes_page pu hash act cur limit tok now d = Inr (page, e)
    \<Longrightarrow> known = (if cur = None \<or> sp_phase page = Changes \<and> \<not> sp_has_more page then now else since)
    \<Longrightarrow> syncing pu nfc sha256 hash act known now e (Some tok) (apply_entries (sp_entries page) c)"

lemma row_by_kept: "row_by k v t = Some r \<Longrightarrow> \<not> p r \<Longrightarrow> row_by k v (delete_where p t) = Some r"
  by (induction t) (auto simp: row_by_def delete_where_def split: if_splits)

definition row_state :: "cursor_row \<Rightarrow> cursor_state" where
  "row_state r = \<lparr>cs_phase = cu_phase r, cs_after_note = cu_after_note r,
     cs_after_sequence = cu_after_sequence r, cs_high_watermark = cu_high_watermark r\<rparr>"

definition session_inv :: "url_parser \<Rightarrow> token_hash \<Rightarrow> actor \<Rightarrow> unix_millis \<Rightarrow> unix_millis \<Rightarrow> db \<Rightarrow> rstr option \<Rightarrow> replica \<Rightarrow> bool" where
  "session_inv pu hash act since now d cur c \<longleftrightarrow> store_ok pu d \<and> sequences_ok d \<and> since \<le> now \<and>
     (case cur of None \<Rightarrow> c = (\<lambda>_. None)
      | Some tok \<Rightarrow> (\<exists>r. cursor_by_token hash tok d = Some r \<and> since \<le> cu_expires_at r
          \<and> state_inv pu (actor_id act) d (row_state r) c
          \<and> recent (actor_id act) since (read_up_to (row_state r)) d))"

lemma session_work:
  assumes "session_inv pu hash act since t d cur c" "t \<le> now" "work_step pu nfc sha256 now d e"
  shows "session_inv pu hash act since now e cur c"
proof -
  have d: "store_ok pu d" "sequences_ok d" "since \<le> t" using assms(1) by (simp_all add: session_inv_def)
  have e: "store_ok pu e" "sequences_ok e" "since \<le> now"
    using work_step_ok [OF assms(3) d(1)] work_step_sequences [OF assms(3) d(1,2)] d(3) assms(2) by simp_all
  have some: "\<exists>now. work_step pu nfc sha256 now d e" using assms(3) by blast
  have inv: "state_inv pu p e st c" if "state_inv pu p d st c" for p st
    using that work.loading_step [OF d(1) some] work.following_step [OF d(1) some]
    by (auto simp: state_inv_def split: sync_phase.splits)
  show ?thesis
  proof (cases cur)
    case None
    then show ?thesis using assms(1) e by (simp add: session_inv_def)
  next
    case (Some tok)
    with assms(1) obtain r where "cursor_by_token hash tok d = Some r" "since \<le> cu_expires_at r"
        "state_inv pu (actor_id act) d (row_state r) c" "recent (actor_id act) since (read_up_to (row_state r)) d"
      by (auto simp: session_inv_def)
    then have "cursor_by_token hash tok e = Some r" "since \<le> cu_expires_at r" "state_inv pu (actor_id act) e (row_state r) c"
        "recent (actor_id act) since (read_up_to (row_state r)) e"
      using work_step_log [OF assms(3) d(1)] inv recent_step [OF _ assms(3) d(1,2) e(3)] by blast+
    then show ?thesis using e Some by (simp add: session_inv_def)
  qed
qed

lemma session_purge:
  assumes "session_inv pu hash act since t d cur c" "t \<le> now" "cur = None \<or> sync_horizon now < since"
  shows "session_inv pu hash act since now (purge_sync_state pending now d) cur c"
proof -
  let ?e = "purge_sync_state pending now d"
  have d: "store_ok pu d" "sequences_ok d" "since \<le> t" using assms(1) by (simp_all add: session_inv_def)
  have e: "store_ok pu ?e" "sequences_ok ?e" "since \<le> now"
    using purge_sync_ok [OF d(1)] purge_sync_sequences [OF d(2)] d(3) assms(2) by simp_all
  show ?thesis
  proof (cases cur)
    case None
    then show ?thesis using assms(1) e by (simp add: session_inv_def)
  next
    case (Some tok)
    with assms(1) obtain r where r: "cursor_by_token hash tok d = Some r" "since \<le> cu_expires_at r"
        "state_inv pu (actor_id act) d (row_state r) c" "recent (actor_id act) since (read_up_to (row_state r)) d"
      by (auto simp: session_inv_def)
    have old: "sync_horizon now < since" using assms(3) Some by simp
    have "cursor_by_token hash tok ?e = Some r"
      using r(1,2) old unfolding cursor_by_token_def purge_sync_tables(2) by (intro row_by_kept) simp_all
    then show ?thesis
      using r(2) state_inv_purge [OF d(1) r(3,4) old] recent_purge [OF r(4)] e Some by (auto simp: session_inv_def)
  qed
qed

lemma snapshot_reads_up_to:
  assumes "cs_phase st = Snapshot" "snapshot_page pu act limit st d = Inr (es, hm, nxt)"
  shows "read_up_to nxt = read_up_to st"
  using assms by (auto simp: snapshot_page_def Let_def rbind_Inr_iff read_up_to_def split: if_splits)

text \<open>What one page does to the session.\<close>

lemma page_inv:
  assumes inv: "session_inv pu hash act since t d cur c" and load: "load_cursor hash act cur now d = Inr st"
    and body: "(case cs_phase st of Snapshot \<Rightarrow> snapshot_page pu act limit st d
        | Changes \<Rightarrow> changes_page pu act limit st d) = Inr (es, hm, nxt)" and limit: "1 \<le> limit"
  defines "known \<equiv> (if cur = None \<or> cs_phase st = Changes \<and> \<not> hm then now else since)"
  shows "state_inv pu (actor_id act) d nxt (apply_entries es c)" "recent (actor_id act) known (read_up_to nxt) d"
    "cs_phase st = Changes \<and> \<not> hm \<Longrightarrow> apply_entries es c = visible_note pu d (actor_id act)"
proof -
  let ?p = "actor_id act"
  have ok: "store_ok pu d" using inv by (simp add: session_inv_def)
  have "state_inv pu ?p d st c \<and> recent ?p (if cur = None then now else since) (read_up_to st) d"
  proof (cases cur)
    case None
    have "loads pu ?p d (db_latest_change d) {} (\<lambda>_. None)"
      by (rule feed.loading_start) (rule sync_okD(7) [OF store_okD(5) [OF ok]])
    moreover have "recent ?p now (db_latest_change d) d"
      using sync_okD(3) [OF store_okD(5) [OF ok]] by (fastforce simp: recent_def)
    ultimately show ?thesis using load inv None
      by (auto simp: load_cursor_def state_inv_def session_inv_def read_up_to_def)
  next
    case (Some tok)
    then show ?thesis using load inv by (auto simp: load_cursor_def session_inv_def row_state_def split: if_splits)
  qed
  then have st: "state_inv pu ?p d st c" and rec: "recent ?p (if cur = None then now else since) (read_up_to st) d" by simp_all
  have "state_inv pu ?p d nxt (apply_entries es c) \<and> recent ?p known (read_up_to nxt) d
    \<and> (cs_phase st = Changes \<and> \<not> hm \<longrightarrow> apply_entries es c = visible_note pu d ?p)"
  proof (cases "cs_phase st")
    case Snapshot
    with body have page: "snapshot_page pu act limit st d = Inr (es, hm, nxt)" by simp
    from snapshot_page_inv [OF ok Snapshot st page limit] snapshot_reads_up_to [OF Snapshot page] rec Snapshot
    show ?thesis by (simp add: known_def)
  next
    case Changes
    with body have page: "changes_page pu act limit st d = Inr (es, hm, nxt)" by simp
    note pg = changes_page_inv [OF ok Changes st page limit]
    have "read_up_to st \<le> read_up_to nxt" using pg Changes by (simp add: read_up_to_def)
    then have "recent ?p (if cur = None then now else since) (read_up_to nxt) d" by (rule recent_mono [OF rec])
    moreover have "recent ?p now (read_up_to nxt) d" if "\<not> hm"
      using pg that by (fastforce simp: recent_def read_up_to_def)
    ultimately show ?thesis using pg Changes by (cases cur; cases hm) (simp_all add: known_def)
  qed
  then show "state_inv pu ?p d nxt (apply_entries es c)" "recent ?p known (read_up_to nxt) d"
    "cs_phase st = Changes \<and> \<not> hm \<Longrightarrow> apply_entries es c = visible_note pu d ?p" by simp_all
qed

lemma session_page:
  assumes inv: "session_inv pu hash act since t d cur c" and clock: "t \<le> now" "in_i64 now" and limit: "1 \<le> limit"
    and page: "sync_notes_page pu hash act cur limit tok now d = Inr (page, e)"
    and known: "known = (if cur = None \<or> sp_phase page = Changes \<and> \<not> sp_has_more page then now else since)"
  shows "session_inv pu hash act known now e (Some tok) (apply_entries (sp_entries page) c)"
    and "sp_phase page = Changes \<and> \<not> sp_has_more page \<Longrightarrow>
      apply_entries (sp_entries page) c = visible_note pu d (actor_id act)"
proof -
  let ?p = "actor_id act"
  have d: "store_ok pu d" "sequences_ok d" "since \<le> t" using inv by (simp_all add: session_inv_def)
  from page obtain st es hm nxt where load: "load_cursor hash act cur now d = Inr st"
    and body: "(case cs_phase st of Snapshot \<Rightarrow> snapshot_page pu act limit st d
        | Changes \<Rightarrow> changes_page pu act limit st d) = Inr (es, hm, nxt)"
    and ins: "insert_cursor \<lparr>cu_hash = hash tok, cu_principal = ?p, cu_phase = cs_phase nxt,
        cu_after_note = cs_after_note nxt, cu_after_sequence = cs_after_sequence nxt,
        cu_high_watermark = cs_high_watermark nxt,
        cu_expires_at = i64_saturating_add now note_sync_cursor_retention_ms\<rparr> d = Inr e"
    and pg: "sp_phase page = cs_phase st" "sp_entries page = es" "sp_has_more page = hm"
    by (auto simp: sync_notes_page_def Let_def rbind_Inr_iff)
  note pi = page_inv [OF inv load body limit]
  show "sp_phase page = Changes \<and> \<not> sp_has_more page \<Longrightarrow>
      apply_entries (sp_entries page) c = visible_note pu d (actor_id act)"
    using pi(3) pg by simp
  let ?row = "\<lparr>cu_hash = hash tok, cu_principal = ?p, cu_phase = cs_phase nxt,
        cu_after_note = cs_after_note nxt, cu_after_sequence = cs_after_sequence nxt,
        cu_high_watermark = cs_high_watermark nxt,
        cu_expires_at = i64_saturating_add now note_sync_cursor_retention_ms\<rparr>"
  note e = insert_cursor_Inr [OF ins]
  have nxt: "row_state ?row = nxt" by (simp add: row_state_def)
  have fs: "feed_step pu d e" using ins by (auto simp: feed_step_def)
  have "cursor_by_token hash tok e = Some ?row"
    using e(2) by (simp add: cursor_by_token_def e(1) row_by_append_new)
  moreover have "state_inv pu ?p e nxt (apply_entries es c)" using state_inv_step [OF d(1) fs] pi(1) by blast
  moreover have "recent ?p known (read_up_to nxt) e"
    using pi(2) pg known recent_cong [of e d] by (simp add: e(1))
  moreover have "known \<le> now" using known d(3) clock(1) by simp
  moreover have "known \<le> i64_saturating_add now note_sync_cursor_retention_ms"
    using \<open>known \<le> now\<close> clock(2) by (simp add: i64_saturating_add_def note_sync_cursor_retention_ms_def in_i64_def)
  moreover have "store_ok pu e" "sequences_ok e"
    using insert_cursor_ok [OF ins d(1)] d(2) by (simp_all add: sequences_ok_def e(1))
  ultimately show "session_inv pu hash act known now e (Some tok) (apply_entries (sp_entries page) c)"
    unfolding session_inv_def pg(2) option.case by (intro conjI exI [of _ ?row]) (simp_all only: nxt cursor_row.select_convs)
qed

lemma syncing_inv: "syncing pu nfc sha256 hash act since now d cur c \<Longrightarrow> session_inv pu hash act since now d cur c"
proof (induction rule: syncing.induct)
  case (sync_start d now)
  then show ?case using db_steps_sequences by (simp add: session_inv_def)
next
  case (sync_work since t d cur c now e)
  then show ?case using session_work by blast
next
  case (sync_purge since t d cur c now pending)
  then show ?case using session_purge by blast
next
  case (sync_page since t d cur c now limit tok page e known)
  then show ?case using session_page(1) by blast
qed

text \<open>
  C3: a client that starts without a cursor, applies every page and follows the returned cursors
  holds exactly the notes its principal can see at the moment it receives a page of changes that has
  no more entries, whatever transactions, its own or others', and whatever purges ran between its
  requests and however the pages were cut by the entry limit and the byte budget.  The clock never runs
  back, and the client is not slower than the purge: it takes its first page or a page of changes without
  further entries at least once in every 35 days.
\<close>

theorem sync_converges:
  assumes "syncing pu nfc sha256 hash act since t d cur c" and "t \<le> now" "in_i64 now" "1 \<le> limit"
    and "sync_notes_page pu hash act cur limit tok now d = Inr (page, e)"
    and "sp_phase page = Changes" "\<not> sp_has_more page"
  shows "apply_entries (sp_entries page) c nid = visible_note pu d (actor_id act) nid"
  using session_page(2) [OF syncing_inv [OF assms(1)] assms(2-5) refl] assms(6,7) by simp

lemma store_step_some_time: "store_step pu d e \<Longrightarrow> \<exists>now. store_step_at pu now d e"
  by (induction rule: store_step.induct) (blast intro: store_step_at.intros)+

lemma store_steps_db: "store_steps pu d e \<Longrightarrow> db_steps pu nfc sha256 d e"
proof (induction rule: rtranclp_induct)
  case (step e f)
  then show ?case using store_step_some_time db_work [OF work_note] by (meson rtranclp.rtrancl_into_rtrancl)
qed simp

lemma sync_converges_witness:
  "\<exists>p1 e1 p2 e2. sync_notes_page sample_parser sample_hash (sample_actor 1) None 50 [1] 2000 sample_db = Inr (p1, e1)
     \<and> sync_notes_page sample_parser sample_hash (sample_actor 1) (Some [1]) 50 [2] 3000 e1 = Inr (p2, e2)
     \<and> apply_entries (sp_entries p2) (apply_entries (sp_entries p1) (\<lambda>_. None)) sample_note_id
         = visible_note sample_parser e1 1 sample_note_id"
proof -
  from sample_sync obtain p1 e1 p2 e2 where
    p: "sync_notes_page sample_parser sample_hash (sample_actor 1) None 50 [1] 2000 sample_db = Inr (p1, e1)"
      "sync_notes_page sample_parser sample_hash (sample_actor 1) (Some [1]) 50 [2] 3000 e1 = Inr (p2, e2)"
      "sp_phase p2 = Changes" "\<not> sp_has_more p2"
    by blast
  let ?syncing = "syncing sample_parser (\<lambda>s. s) (\<lambda>b. b) sample_hash (sample_actor 1)"
  have "?syncing 1000 1000 sample_db None (\<lambda>_. None)"
    by (rule sync_start) (rule store_steps_db [OF sample_reachable])
  from sync_page [OF this _ _ _ p(1) refl]
  have "?syncing 2000 2000 e1 (Some [1]) (apply_entries (sp_entries p1) (\<lambda>_. None))"
    by (simp add: in_i64_def i64_min_def i64_max_def)
  from sync_converges [OF this _ _ _ p(2-4), of sample_note_id] p(1,2) show ?thesis
    by (simp add: sample_actor_def actor_for_single_identity_def in_i64_def i64_min_def i64_max_def)
qed

section \<open>A slow reader\<close>

definition sample_two :: db where
  "sample_two = ok_state (create_note (new_note 8 (sample_actor 1) (sample_draft 0) 1000 Web) no_links sample_db)"

lemmas purge_eval = purge_sync_state_def purge_changes_def purge_projection_def purge_sync_cursors_def
  i64_saturating_sub_def

lemmas view_eval = apply_entries_def visible_note_def visible_details_def visible_def has_access_def fetch_details_def
  note_details_of_def

text \<open>
  Without the bound on the client's pace the replica stays stale although every cursor was valid.  Two notes
  are read one by one, and the first changes after it was read.  The client finishes the snapshot and asks for
  the changes within the 35 days of that cursor but more than 35 days after the change: the purge has dropped
  the change by then, and the last page announces nothing more.
\<close>

theorem slow_reader_misses_change:
  "\<exists>p1 d1 n d2 p2 d3 p3 d4.
    sync_notes_page sample_parser sample_hash (sample_actor 1) None 1 [1] 2000 sample_two = Inr (p1, d1)
    \<and> update_visible_note sample_parser (sample_actor 1) sample_note_id 1 (sample_draft 1) no_links 3000 d1 = Inr (n, d2)
    \<and> sync_notes_page sample_parser sample_hash (sample_actor 1) (Some [1]) 1 [2] 4000 d2 = Inr (p2, d3)
    \<and> sync_notes_page sample_parser sample_hash (sample_actor 1) (Some [2]) 1 [3] 3024003600
        (purge_sync_state (\<lambda>_. False) 3024003500 d3) = Inr (p3, d4)
    \<and> sp_phase p3 = Changes \<and> \<not> sp_has_more p3
    \<and> apply_entries (sp_entries p3) (apply_entries (sp_entries p2) (apply_entries (sp_entries p1) (\<lambda>_. None))) sample_note_id
      \<noteq> visible_note sample_parser d4 1 sample_note_id"
  by (simp add: sample_two_def sync_eval purge_eval view_eval mutation_eval sample_eval store_eval)

end
