(* ===== verification/NotePolicy.thy ===== *)
theory NotePolicy
  imports Prelude
begin

text \<open>
  The input limits of \<open>crates/marginalis-domain/src/policy.rs\<close>: the single record of bounds that the
  patch application, the graph view and the note profile read.
\<close>

record note_policy =
  max_title_characters :: nat
  max_source_bytes :: nat
  max_patch_bytes :: nat
  max_patch_hunks :: nat
  max_tags :: nat
  max_tag_characters :: nat
  max_output_bytes :: nat
  allowed_source_languages :: "rstr list"
  allowed_math_languages :: "rstr list"
  allowed_mathematical_block_roles :: "rstr list"
  allowed_url_schemes :: "rstr list"
  allowed_document_attributes :: "rstr list"
  allowed_citation_styles :: "rstr list"

definition tags_document_attribute :: rstr where
  "tags_document_attribute = lit ''marginalis-tags''"

definition citation_style_document_attribute :: rstr where
  "citation_style_document_attribute = lit ''marginalis-citation-style''"

text \<open>The template tag is the six katakana letters U+30C6 to U+30C8 of the source constant.\<close>

definition note_template_tag :: rstr where
  "note_template_tag = [12486, 12531, 12503, 12524, 12540, 12488]"

definition max_graph_depth :: nat where "max_graph_depth = 5"

definition the_note_policy :: note_policy where
  "the_note_policy =
     \<lparr>max_title_characters = 200,
      max_source_bytes = 512 * 1024,
      max_patch_bytes = 512 * 1024,
      max_patch_hunks = 100,
      max_tags = 50,
      max_tag_characters = 64,
      max_output_bytes = 50 * 1024 * 1024,
      allowed_source_languages =
        [lit ''rust'', lit ''python'', lit ''typescript'', lit ''javascript'', lit ''json'',
         lit ''yaml'', lit ''toml'', lit ''bash'', lit ''sql'', lit ''text''],
      allowed_math_languages = [lit ''latexmath''],
      allowed_mathematical_block_roles =
        [lit ''definition'', lit ''proposition'', lit ''lemma'', lit ''theorem'', lit ''corollary'',
         lit ''proof''],
      allowed_url_schemes = [lit ''http'', lit ''https''],
      allowed_document_attributes =
        [tags_document_attribute, citation_style_document_attribute, lit ''sectnums'', lit ''toc'',
         lit ''toclevels'', lit ''stem'', lit ''source-language''],
      allowed_citation_styles = [lit ''author-year'', lit ''numeric'']\<rparr>"

lemma note_policy_patch [simp]:
  "max_patch_bytes the_note_policy = 524288" "max_patch_hunks the_note_policy = 100"
  by (simp_all add: the_note_policy_def)

end
