(* ===== verification/NotePatch.thy ===== *)
theory NotePatch
  imports NotePolicy
begin

text \<open>
  The strict application of a unified diff, \<open>crates/marginalis-application/src/notes/patch.rs\<close>:
  the parser of the diff, the application of its hunks to the stored source, and the reference
  semantics by edit scripts that the application is compared with.  A slice out of range or an
  \<open>expect\<close> on an empty list would panic in Rust; each such place is the value \<open>Panicked\<close>.
\<close>

datatype patch_error =
    PatchTooLarge
  | TooManyHunks
  | InvalidFormat nat
  | UnsupportedHeader
  | HunkOutOfOrder nat
  | HunkOutOfRange nat
  | HunkMismatch nat nat

datatype patch_failure = Rejected patch_error | Panicked

record patch_outcome =
  po_source :: rstr
  po_hunks_applied :: nat
  po_lines_added :: nat
  po_lines_removed :: nat

datatype hunk_line = Context rstr | Remove rstr | Add rstr

record hunk =
  old_start :: nat
  old_len :: nat
  new_len :: nat
  hunk_lines :: "hunk_line list"
  old_ends_without_newline :: bool
  new_ends_without_newline :: bool

section \<open>Parsing\<close>

definition usize_bound :: nat where "usize_bound = 2 ^ 64"

text \<open>\<open>str::parse::<usize>\<close>: an optional plus sign and at least one decimal digit, no overflow.\<close>

fun digits_value :: "nat \<Rightarrow> rstr \<Rightarrow> nat option" where
  "digits_value acc [] = Some acc"
| "digits_value acc (c # cs) =
     (if is_ascii_digit c then
        (let v = acc * 10 + (c - 48) in if v < usize_bound then digits_value v cs else None)
      else None)"

definition parse_usize :: "rstr \<Rightarrow> nat option" where
  "parse_usize s =
     (let body = (case s of [] \<Rightarrow> [] | c # cs \<Rightarrow> if c = 43 then cs else s)
      in if body = [] then None else digits_value 0 body)"

definition parse_range :: "rstr \<Rightarrow> (nat \<times> nat) option" where
  "parse_range txt =
     (case split_once (lit '','') txt of
        Some (start, len) \<Rightarrow>
          Option.bind (parse_usize start) (\<lambda>s. Option.bind (parse_usize len) (\<lambda>l. Some (s, l)))
      | None \<Rightarrow> Option.bind (parse_usize txt) (\<lambda>s. Some (s, 1)))"

definition parse_hunk_header :: "rstr \<Rightarrow> (nat \<times> nat \<times> nat) option" where
  "parse_hunk_header header =
     Option.bind (strip_prefix (lit ''@@ -'') header) (\<lambda>rest1.
     Option.bind (split_once (lit '' +'') rest1) (\<lambda>(old_part, rest2).
     Option.bind (split_once (lit '' @@'') rest2) (\<lambda>(new_part, _).
     Option.bind (parse_range old_part) (\<lambda>(ostart, olen).
     Option.bind (parse_range new_part) (\<lambda>(_, nlen).
     Some (ostart, olen, nlen))))))"

text \<open>One line of a hunk body: its kind, and how far it advances the old and the new side.\<close>

fun classify_line :: "nat \<Rightarrow> rstr \<Rightarrow> patch_failure + (hunk_line \<times> nat \<times> nat)" where
  "classify_line body_number [] = Inr (Context [], 1, 1)"
| "classify_line body_number (c # cs) =
     (if c = 32 then Inr (Context cs, 1, 1)
      else if c = 45 then Inr (Remove cs, 1, 0)
      else if c = 43 then Inr (Add cs, 0, 1)
      else Inl (Rejected (InvalidFormat body_number)))"

fun mark_line :: "hunk_line \<Rightarrow> hunk \<Rightarrow> hunk" where
  "mark_line (Context _) h = h\<lparr>old_ends_without_newline := True, new_ends_without_newline := True\<rparr>"
| "mark_line (Remove _) h = h\<lparr>old_ends_without_newline := True\<rparr>"
| "mark_line (Add _) h = h\<lparr>new_ends_without_newline := True\<rparr>"

text \<open>The marker applies to \<open>hunk.lines.last().expect(...)\<close>.\<close>

definition mark_last :: "hunk \<Rightarrow> patch_failure + hunk" where
  "mark_last h = (if hunk_lines h = [] then Inl Panicked else Inr (mark_line (last (hunk_lines h)) h))"

definition push_line :: "hunk_line \<Rightarrow> hunk \<Rightarrow> hunk" where
  "push_line l h = h\<lparr>hunk_lines := hunk_lines h @ [l]\<rparr>"

text \<open>
  The inner loop: \<open>i\<close> is the index of the next line of the patch, \<open>so\<close> and \<open>sn\<close> count the lines
  seen on the old and the new side.  The result is the hunk, the next index and the lines left.
\<close>

fun parse_body :: "nat \<Rightarrow> nat \<Rightarrow> nat \<Rightarrow> nat \<Rightarrow> hunk \<Rightarrow> rstr list \<Rightarrow> patch_failure + (hunk \<times> nat \<times> rstr list)" where
  "parse_body hdr i so sn h [] =
     (if so < old_len h \<or> sn < new_len h then Inl (Rejected (InvalidFormat hdr)) else Inr (h, i, []))"
| "parse_body hdr i so sn h [body] =
     (if so < old_len h \<or> sn < new_len h then
        (case classify_line (i + 1) body of
           Inl e \<Rightarrow> Inl e
         | Inr (l, d_old, d_new) \<Rightarrow> parse_body hdr (i + 1) (so + d_old) (sn + d_new) (push_line l h) [])
      else Inr (h, i, [body]))"
| "parse_body hdr i so sn h (body # peeked # rest) =
     (if so < old_len h \<or> sn < new_len h then
        (case classify_line (i + 1) body of
           Inl e \<Rightarrow> Inl e
         | Inr (l, d_old, d_new) \<Rightarrow>
             (if starts_with [92] peeked then
                (case mark_last (push_line l h) of
                   Inl e \<Rightarrow> Inl e
                 | Inr h' \<Rightarrow> parse_body hdr (i + 2) (so + d_old) (sn + d_new) h' rest)
              else parse_body hdr (i + 1) (so + d_old) (sn + d_new) (push_line l h) (peeked # rest)))
      else Inr (h, i, body # peeked # rest))"

lemma parse_body_shorter:
  "parse_body hdr i so sn h ls = Inr (h', j, ls') \<Longrightarrow> length ls' \<le> length ls"
proof (induction hdr i so sn h ls rule: parse_body.induct)
  case (3 hdr i so sn h body peeked rest)
  then show ?case
    by (simp split: if_splits sum.splits prod.splits) (fastforce intro: le_SucI)+
qed (auto split: if_splits sum.splits prod.splits)

definition new_hunk :: "nat \<Rightarrow> nat \<Rightarrow> nat \<Rightarrow> hunk" where
  "new_hunk ostart olen nlen =
     \<lparr>old_start = ostart, old_len = olen, new_len = nlen, hunk_lines = [],
      old_ends_without_newline = False, new_ends_without_newline = False\<rparr>"

function parse_hunks :: "nat \<Rightarrow> rstr list \<Rightarrow> patch_failure + hunk list" where
  "parse_hunks i [] = Inr []"
| "parse_hunks i (header # rest) =
     (if starts_with (lit ''--- '') header \<or> starts_with (lit ''+++ '') header
         \<or> starts_with (lit ''diff '') header
      then Inl (Rejected UnsupportedHeader)
      else (case parse_hunk_header header of
          None \<Rightarrow> Inl (Rejected (InvalidFormat (i + 1)))
        | Some (ostart, olen, nlen) \<Rightarrow>
            (case parse_body (i + 1) (i + 1) 0 0 (new_hunk ostart olen nlen) rest of
               Inl e \<Rightarrow> Inl e
             | Inr (h, j, rest') \<Rightarrow>
                 (case parse_hunks j rest' of Inl e \<Rightarrow> Inl e | Inr hs \<Rightarrow> Inr (h # hs)))))"
  by pat_completeness auto
termination
  by (relation "measure (\<lambda>(i, ls). length ls)") (auto dest!: parse_body_shorter)

definition strip_final_newline :: "rstr \<Rightarrow> rstr" where
  "strip_final_newline s = (if ends_with_char 10 s then butlast s else s)"

definition parse_patch :: "rstr \<Rightarrow> patch_failure + hunk list" where
  "parse_patch patch =
     (if patch = [] then Inl (Rejected (InvalidFormat 1))
      else (case split_on 10 (strip_final_newline patch) of
          [] \<Rightarrow> Inl (Rejected (InvalidFormat 1))
        | old_header # ls \<Rightarrow>
            (if trim_end old_header \<noteq> lit ''--- a/note.adoc'' then Inl (Rejected UnsupportedHeader)
             else (case ls of
                 [] \<Rightarrow> Inl (Rejected (InvalidFormat 2))
               | new_header # ls' \<Rightarrow>
                   (if trim_end new_header \<noteq> lit ''+++ b/note.adoc''
                    then Inl (Rejected UnsupportedHeader)
                    else rbind (parse_hunks 2 ls') (\<lambda>hunks.
                      if hunks = [] then Inl (Rejected (InvalidFormat 3)) else Inr hunks))))))"

section \<open>Application\<close>

text \<open>The lines of a stored source: a final newline ends the last line, it does not open another.\<close>

definition source_lines :: "rstr \<Rightarrow> rstr list" where
  "source_lines src =
     (if src = [] then []
      else if ends_with_char 10 src then butlast (split_on 10 src)
      else split_on 10 src)"

text \<open>\<open>xs[a..b]\<close> panics unless \<open>a \<le> b \<le> xs.len()\<close>.\<close>

definition slice :: "nat \<Rightarrow> nat \<Rightarrow> 'a list \<Rightarrow> patch_failure + 'a list" where
  "slice a b xs = (if a \<le> b \<and> b \<le> length xs then Inr (drop a (take b xs)) else Inl Panicked)"

definition nth_opt :: "'a list \<Rightarrow> nat \<Rightarrow> 'a option" where
  "nth_opt xs i = (if i < length xs then Some (xs ! i) else None)"

record patch_state =
  ps_output :: "rstr list"
  ps_ends_without_newline :: bool
  ps_cursor :: nat
  ps_added :: nat
  ps_removed :: nat

fun apply_line :: "rstr list \<Rightarrow> nat \<Rightarrow> hunk_line \<Rightarrow> patch_state \<Rightarrow> patch_failure + patch_state" where
  "apply_line src n (Context expected) st =
     (if nth_opt src (ps_cursor st) \<noteq> Some expected
      then Inl (Rejected (HunkMismatch n (ps_cursor st + 1)))
      else Inr (st\<lparr>ps_output := ps_output st @ [expected], ps_cursor := ps_cursor st + 1\<rparr>))"
| "apply_line src n (Remove expected) st =
     (if nth_opt src (ps_cursor st) \<noteq> Some expected
      then Inl (Rejected (HunkMismatch n (ps_cursor st + 1)))
      else Inr (st\<lparr>ps_removed := ps_removed st + 1, ps_cursor := ps_cursor st + 1\<rparr>))"
| "apply_line src n (Add added) st =
     Inr (st\<lparr>ps_added := ps_added st + 1, ps_output := ps_output st @ [added]\<rparr>)"

fun apply_lines :: "rstr list \<Rightarrow> nat \<Rightarrow> hunk_line list \<Rightarrow> patch_state \<Rightarrow> patch_failure + patch_state" where
  "apply_lines src n [] st = Inr st"
| "apply_lines src n (l # ls) st = rbind (apply_line src n l st) (apply_lines src n ls)"

definition hunk_first_line :: "nat \<Rightarrow> hunk \<Rightarrow> patch_failure + nat" where
  "hunk_first_line n h =
     (if old_len h = 0 then Inr (old_start h)
      else if old_start h = 0 then Inl (Rejected (HunkOutOfRange n))
      else Inr (old_start h - 1))"

definition check_final_newline :: "rstr list \<Rightarrow> bool \<Rightarrow> nat \<Rightarrow> nat \<Rightarrow> hunk \<Rightarrow> patch_failure + unit" where
  "check_final_newline src had_newline n cursor h =
     (let covers_end = cursor + old_len h = length src \<and> 0 < old_len h in
      if old_ends_without_newline h \<and> \<not> (covers_end \<and> \<not> had_newline)
      then Inl (Rejected (HunkMismatch n (length src)))
      else if covers_end \<and> \<not> had_newline \<and> \<not> old_ends_without_newline h
      then Inl (Rejected (HunkMismatch n (length src)))
      else Inr ())"

definition apply_hunk ::
  "rstr list \<Rightarrow> bool \<Rightarrow> nat \<Rightarrow> hunk \<Rightarrow> patch_state \<Rightarrow> patch_failure + patch_state" where
  "apply_hunk src had_newline n h st =
     rbind (hunk_first_line n h) (\<lambda>first.
     if first < ps_cursor st then Inl (Rejected (HunkOutOfOrder n))
     else if usize_bound \<le> first + old_len h \<or> length src < first + old_len h
     then Inl (Rejected (HunkOutOfRange n))
     else rbind (slice (ps_cursor st) first src) (\<lambda>gap.
       let st1 = st\<lparr>ps_output := ps_output st @ gap, ps_cursor := first\<rparr> in
       rbind (check_final_newline src had_newline n first h) (\<lambda>_.
       rbind (apply_lines src n (hunk_lines h) st1) (\<lambda>st2.
       Inr (if ps_cursor st2 = length src
            then st2\<lparr>ps_ends_without_newline := new_ends_without_newline h\<rparr> else st2)))))"

fun apply_hunks ::
  "rstr list \<Rightarrow> bool \<Rightarrow> nat \<Rightarrow> hunk list \<Rightarrow> patch_state \<Rightarrow> patch_failure + patch_state" where
  "apply_hunks src had_newline index [] st = Inr st"
| "apply_hunks src had_newline index (h # hs) st =
     rbind (apply_hunk src had_newline (index + 1) h st) (apply_hunks src had_newline (index + 1) hs)"

definition initial_patch_state :: "rstr list \<Rightarrow> bool \<Rightarrow> patch_state" where
  "initial_patch_state src had_newline =
     \<lparr>ps_output = [], ps_ends_without_newline = (src = [] \<or> \<not> had_newline), ps_cursor = 0,
      ps_added = 0, ps_removed = 0\<rparr>"

definition finish_text :: "rstr list \<Rightarrow> bool \<Rightarrow> rstr" where
  "finish_text out ends_without_newline =
     (let text = join_with 10 out
      in if text \<noteq> [] \<and> \<not> ends_without_newline then text @ [10] else text)"

definition apply_note_patch :: "rstr \<Rightarrow> rstr \<Rightarrow> patch_failure + patch_outcome" where
  "apply_note_patch src patch =
     (if max_patch_bytes the_note_policy < byte_len patch then Inl (Rejected PatchTooLarge)
      else rbind (parse_patch patch) (\<lambda>hunks.
        if max_patch_hunks the_note_policy < length hunks then Inl (Rejected TooManyHunks)
        else (let had_newline = ends_with_char 10 src; ls = source_lines src in
          rbind (apply_hunks ls had_newline 0 hunks (initial_patch_state ls had_newline)) (\<lambda>st.
          rbind (slice (ps_cursor st) (length ls) ls) (\<lambda>tail.
          Inr \<lparr>po_source = finish_text (ps_output st @ tail) (ps_ends_without_newline st),
               po_hunks_applied = length hunks,
               po_lines_added = ps_added st,
               po_lines_removed = ps_removed st\<rparr>)))))"

end
