(* ===== verification/NotePatchCorrect.thy ===== *)
theory NotePatchCorrect
  imports NotePatch
begin

text \<open>
  Correctness of the patch application.  The reference semantics of a diff is the edit script it
  describes: the lines of the hunks at their recorded positions, the untouched lines of the source
  as context between them.  Application succeeds exactly for well-placed hunks and then returns the
  new side of that script; a rendered diff parses back to its hunks.
\<close>

section \<open>Edit scripts\<close>

fun old_side :: "hunk_line list \<Rightarrow> rstr list" where
  "old_side [] = []"
| "old_side (Context l # ls) = l # old_side ls"
| "old_side (Remove l # ls) = l # old_side ls"
| "old_side (Add l # ls) = old_side ls"

fun new_side :: "hunk_line list \<Rightarrow> rstr list" where
  "new_side [] = []"
| "new_side (Context l # ls) = l # new_side ls"
| "new_side (Remove l # ls) = new_side ls"
| "new_side (Add l # ls) = l # new_side ls"

fun count_added :: "hunk_line list \<Rightarrow> nat" where
  "count_added [] = 0"
| "count_added (Add l # ls) = Suc (count_added ls)"
| "count_added (_ # ls) = count_added ls"

fun count_removed :: "hunk_line list \<Rightarrow> nat" where
  "count_removed [] = 0"
| "count_removed (Remove l # ls) = Suc (count_removed ls)"
| "count_removed (_ # ls) = count_removed ls"

definition hunk_pos :: "hunk \<Rightarrow> nat" where
  "hunk_pos h = (if old_len h = 0 then old_start h else old_start h - 1)"

definition hunk_end :: "hunk \<Rightarrow> nat" where
  "hunk_end h = hunk_pos h + length (old_side (hunk_lines h))"

text \<open>The edit script of a list of hunks over a source, from line \<open>cur\<close> on.\<close>

fun weave :: "rstr list \<Rightarrow> nat \<Rightarrow> hunk list \<Rightarrow> hunk_line list" where
  "weave src cur [] = map Context (drop cur src)"
| "weave src cur (h # hs) =
     map Context (drop cur (take (hunk_pos h) src)) @ hunk_lines h @ weave src (hunk_end h) hs"

definition matches_at :: "rstr list \<Rightarrow> nat \<Rightarrow> rstr list \<Rightarrow> bool" where
  "matches_at src c ls \<longleftrightarrow> take (length ls) (drop c src) = ls"

text \<open>A hunk whose position exists and whose old side is found there; in order, without overlap.\<close>

definition hunk_fits :: "rstr list \<Rightarrow> bool \<Rightarrow> nat \<Rightarrow> hunk \<Rightarrow> bool" where
  "hunk_fits src had_newline cur h \<longleftrightarrow>
     (old_len h = 0 \<or> 0 < old_start h)
     \<and> cur \<le> hunk_pos h \<and> hunk_pos h + old_len h \<le> length src \<and> hunk_pos h + old_len h < usize_bound
     \<and> (old_ends_without_newline h \<longleftrightarrow>
          \<not> had_newline \<and> 0 < old_len h \<and> hunk_pos h + old_len h = length src)
     \<and> matches_at src (hunk_pos h) (old_side (hunk_lines h))"

fun placed :: "rstr list \<Rightarrow> bool \<Rightarrow> nat \<Rightarrow> hunk list \<Rightarrow> bool" where
  "placed src had_newline cur [] \<longleftrightarrow> True"
| "placed src had_newline cur (h # hs) \<longleftrightarrow>
     hunk_fits src had_newline cur h \<and> placed src had_newline (hunk_end h) hs"

text \<open>The final-newline flag after the hunks: the last hunk that reaches the end decides.\<close>

fun final_flag :: "rstr list \<Rightarrow> bool \<Rightarrow> hunk list \<Rightarrow> bool" where
  "final_flag src flag [] = flag"
| "final_flag src flag (h # hs) =
     final_flag src (if hunk_end h = length src then new_ends_without_newline h else flag) hs"

fun last_end :: "nat \<Rightarrow> hunk list \<Rightarrow> nat" where
  "last_end cur [] = cur"
| "last_end cur (h # hs) = last_end (hunk_end h) hs"

lemma old_side_append [simp]: "old_side (xs @ ys) = old_side xs @ old_side ys"
  by (induction xs rule: old_side.induct) auto

lemma new_side_append [simp]: "new_side (xs @ ys) = new_side xs @ new_side ys"
  by (induction xs rule: new_side.induct) auto

lemma old_side_context [simp]: "old_side (map Context xs) = xs"
  by (induction xs) auto

lemma new_side_context [simp]: "new_side (map Context xs) = xs"
  by (induction xs) auto

lemma count_added_append [simp]: "count_added (xs @ ys) = count_added xs + count_added ys"
  by (induction xs rule: count_added.induct) auto

lemma count_removed_append [simp]: "count_removed (xs @ ys) = count_removed xs + count_removed ys"
  by (induction xs rule: count_removed.induct) auto

lemma count_context [simp]: "count_added (map Context xs) = 0" "count_removed (map Context xs) = 0"
  by (induction xs) auto

lemma side_lengths: "length (new_side E) + count_removed E = length (old_side E) + count_added E"
  by (induction E rule: old_side.induct) auto

section \<open>Applying the lines of one hunk\<close>

lemma matches_at_Nil [simp]: "matches_at src c []"
  by (simp add: matches_at_def)

lemma matches_at_Cons:
  "matches_at src c (l # ls) \<longleftrightarrow> nth_opt src c = Some l \<and> matches_at src (Suc c) ls"
proof (cases "c < length src")
  case True
  then have "drop c src = src ! c # drop (Suc c) src" by (simp add: Cons_nth_drop_Suc)
  with True show ?thesis by (auto simp: matches_at_def nth_opt_def)
next
  case False
  then show ?thesis by (simp add: matches_at_def nth_opt_def)
qed

definition advance :: "hunk_line list \<Rightarrow> patch_state \<Rightarrow> patch_state" where
  "advance ls st = st\<lparr>ps_output := ps_output st @ new_side ls,
     ps_cursor := ps_cursor st + length (old_side ls),
     ps_added := ps_added st + count_added ls,
     ps_removed := ps_removed st + count_removed ls\<rparr>"

lemma advance_Nil [simp]: "advance [] st = st"
  by (simp add: advance_def)

lemma apply_line_Inr_iff:
  "apply_line src n l st = Inr st' \<longleftrightarrow>
     matches_at src (ps_cursor st) (old_side [l]) \<and> st' = advance [l] st"
  by (cases l) (auto simp: matches_at_Cons advance_def)

lemma apply_lines_Inr_iff:
  "apply_lines src n ls st = Inr st' \<longleftrightarrow>
     matches_at src (ps_cursor st) (old_side ls) \<and> st' = advance ls st"
proof (induction ls arbitrary: st)
  case (Cons l ls)
  show ?case
    by (cases l) (auto simp: result_simps Cons.IH matches_at_Cons advance_def)
qed auto

lemma matches_at_bound: "matches_at src c ls \<Longrightarrow> c \<le> length src \<Longrightarrow> c + length ls \<le> length src"
  by (auto simp: matches_at_def dest!: arg_cong [where f = length])

lemma apply_line_no_panic: "apply_line src n l st \<noteq> Inl Panicked"
  by (cases l) auto

lemma apply_lines_no_panic: "apply_lines src n ls st \<noteq> Inl Panicked"
  by (induction ls arbitrary: st) (auto simp: result_simps apply_line_no_panic)

section \<open>Applying the hunks\<close>

lemma hunk_first_line_Inr [result_simps]:
  "hunk_first_line n h = Inr p \<longleftrightarrow> (old_len h = 0 \<or> 0 < old_start h) \<and> p = hunk_pos h"
  by (auto simp: hunk_first_line_def hunk_pos_def)

lemma check_final_newline_Inr [result_simps]:
  "check_final_newline src had n c h = Inr u \<longleftrightarrow>
     (old_ends_without_newline h \<longleftrightarrow> \<not> had \<and> 0 < old_len h \<and> c + old_len h = length src)"
  by (auto simp: check_final_newline_def Let_def)

text \<open>What one hunk does to the state: the gap is copied, the lines are applied, the flag is set.\<close>

definition after_hunk :: "rstr list \<Rightarrow> hunk \<Rightarrow> patch_state \<Rightarrow> patch_state" where
  "after_hunk src h st =
     (let st1 = advance (map Context (drop (ps_cursor st) (take (hunk_pos h) src)) @ hunk_lines h) st in
      if ps_cursor st1 = length src
      then st1\<lparr>ps_ends_without_newline := new_ends_without_newline h\<rparr> else st1)"

lemma apply_hunk_Inr_iff:
  assumes "ps_cursor st \<le> length src"
  shows "apply_hunk src had n h st = Inr st' \<longleftrightarrow>
     hunk_fits src had (ps_cursor st) h \<and> st' = after_hunk src h st"
  using assms
  by (auto simp: apply_hunk_def result_simps slice_def apply_lines_Inr_iff hunk_fits_def after_hunk_def
      advance_def Let_def min_absorb2 min_absorb1)

lemma after_hunk_cursor:
  assumes "hunk_fits src had (ps_cursor st) h" "ps_cursor st \<le> length src"
  shows "ps_cursor (after_hunk src h st) = hunk_end h" "hunk_end h \<le> length src"
proof -
  have pos: "hunk_pos h \<le> length src" "ps_cursor st \<le> hunk_pos h"
    and m: "matches_at src (hunk_pos h) (old_side (hunk_lines h))"
    using assms by (auto simp: hunk_fits_def)
  then show "hunk_end h \<le> length src"
    by (auto simp: hunk_end_def dest: matches_at_bound)
  show "ps_cursor (after_hunk src h st) = hunk_end h"
    using pos by (auto simp: after_hunk_def advance_def hunk_end_def Let_def min_absorb1 min_absorb2)
qed

lemma apply_hunk_no_panic:
  "ps_cursor st \<le> length src \<Longrightarrow> apply_hunk src had n h st \<noteq> Inl Panicked"
  by (auto simp: apply_hunk_def result_simps slice_def apply_lines_no_panic hunk_first_line_def
      check_final_newline_def Let_def split: if_splits)

text \<open>The script of a list of hunks up to the end of the last one, without the tail.\<close>

fun weave_part :: "rstr list \<Rightarrow> nat \<Rightarrow> hunk list \<Rightarrow> hunk_line list" where
  "weave_part src cur [] = []"
| "weave_part src cur (h # hs) =
     map Context (drop cur (take (hunk_pos h) src)) @ hunk_lines h @ weave_part src (hunk_end h) hs"

lemma weave_split: "weave src cur hs = weave_part src cur hs @ map Context (drop (last_end cur hs) src)"
  by (induction hs arbitrary: cur) auto

lemma advance_advance: "advance ys (advance xs st) = advance (xs @ ys) st"
  by (simp add: advance_def)

lemma after_hunk_parts:
  "ps_output (after_hunk src h st) = ps_output st
     @ new_side (map Context (drop (ps_cursor st) (take (hunk_pos h) src)) @ hunk_lines h)"
  "ps_added (after_hunk src h st) = ps_added st + count_added (hunk_lines h)"
  "ps_removed (after_hunk src h st) = ps_removed st + count_removed (hunk_lines h)"
  by (auto simp: after_hunk_def advance_def Let_def)

lemma after_hunk_flag:
  assumes "hunk_fits src had (ps_cursor st) h" "ps_cursor st \<le> length src"
  shows "ps_ends_without_newline (after_hunk src h st) =
    (if hunk_end h = length src then new_ends_without_newline h else ps_ends_without_newline st)"
  using after_hunk_cursor [OF assms] by (auto simp: after_hunk_def advance_def Let_def split: if_splits)

lemma apply_hunks_Inr_iff:
  assumes "ps_cursor st \<le> length src"
  shows "apply_hunks src had n hs st = Inr st' \<longleftrightarrow>
     placed src had (ps_cursor st) hs
     \<and> ps_output st' = ps_output st @ new_side (weave_part src (ps_cursor st) hs)
     \<and> ps_cursor st' = last_end (ps_cursor st) hs
     \<and> ps_added st' = ps_added st + count_added (weave_part src (ps_cursor st) hs)
     \<and> ps_removed st' = ps_removed st + count_removed (weave_part src (ps_cursor st) hs)
     \<and> ps_ends_without_newline st' = final_flag src (ps_ends_without_newline st) hs"
  using assms
proof (induction hs arbitrary: n st)
  case Nil
  then show ?case by (auto intro: patch_state.equality)
next
  case (Cons h hs)
  show ?case
  proof (cases "hunk_fits src had (ps_cursor st) h")
    case True
    note cur = after_hunk_cursor [OF True Cons.prems]
    have "apply_hunk src had (n + 1) h st = Inr (after_hunk src h st)"
      using True Cons.prems by (simp add: apply_hunk_Inr_iff)
    then have "apply_hunks src had n (h # hs) st = apply_hunks src had (n + 1) hs (after_hunk src h st)"
      by simp
    then show ?thesis
      using True Cons.IH [of "after_hunk src h st" "n + 1"] cur Cons.prems
      by (simp add: after_hunk_parts after_hunk_flag [OF True Cons.prems] add.assoc)
  next
    case False
    then have "\<And>x. apply_hunk src had (n + 1) h st \<noteq> Inr x"
      using Cons.prems by (simp add: apply_hunk_Inr_iff)
    then show ?thesis using False by (auto simp: result_simps)
  qed
qed

lemma placed_last_end:
  "placed src had cur hs \<Longrightarrow> cur \<le> length src \<Longrightarrow> last_end cur hs \<le> length src"
proof (induction hs arbitrary: cur)
  case (Cons h hs)
  then have "hunk_end h \<le> length src"
    by (auto simp: hunk_fits_def hunk_end_def dest: matches_at_bound)
  with Cons show ?case by simp
qed simp

lemma apply_hunks_no_panic:
  "ps_cursor st \<le> length src \<Longrightarrow> apply_hunks src had n hs st \<noteq> Inl Panicked"
proof (induction hs arbitrary: n st)
  case (Cons h hs)
  show ?case
  proof (cases "apply_hunk src had (n + 1) h st")
    case (Inl e)
    then show ?thesis using apply_hunk_no_panic [OF Cons.prems, of had "n + 1" h] by auto
  next
    case (Inr st')
    then have "ps_cursor st' \<le> length src"
      using Cons.prems after_hunk_cursor [of src had st h] by (auto simp: apply_hunk_Inr_iff)
    then show ?thesis using Inr Cons.IH by simp
  qed
qed simp

lemma old_side_weave:
  "placed src had cur hs \<Longrightarrow> cur \<le> length src \<Longrightarrow> old_side (weave src cur hs) = drop cur src"
proof (induction hs arbitrary: cur)
  case (Cons h hs)
  then have fits: "cur \<le> hunk_pos h" "hunk_pos h \<le> length src"
      "matches_at src (hunk_pos h) (old_side (hunk_lines h))"
    by (auto simp: hunk_fits_def)
  then have "hunk_end h \<le> length src" by (auto simp: hunk_end_def dest: matches_at_bound)
  with Cons have IH: "old_side (weave src (hunk_end h) hs) = drop (hunk_end h) src" by simp
  have "drop (hunk_pos h) src = old_side (hunk_lines h) @ drop (hunk_end h) src"
    using fits(3) by (metis append_take_drop_id drop_drop add.commute hunk_end_def matches_at_def)
  moreover have "drop cur src = drop cur (take (hunk_pos h) src) @ drop (hunk_pos h) src"
    using fits by (metis append_take_drop_id drop_append drop_drop diff_is_0_eq drop_0 length_take min.absorb2)
  ultimately show ?case by (simp add: IH)
qed simp

section \<open>The whole application\<close>

text \<open>
  Splitting a source into lines and joining them again gives it back, but for the text that is a
  single newline: its one line is empty, and an empty joined text gets no final newline.
\<close>

lemma source_lines_text:
  assumes "src \<noteq> [10]"
  shows "finish_text (source_lines src) (src = [] \<or> \<not> ends_with_char 10 src) = src"
proof (cases "src = [] \<or> \<not> ends_with_char 10 src")
  case True
  then show ?thesis by (auto simp: finish_text_def source_lines_def Let_def)
next
  case False
  then obtain body where src: "src = body @ [10]"
    by (metis append_butlast_last_id ends_with_char_def)
  have "split_on 10 (body @ [10::nat]) = split_on 10 body @ [[]]"
  proof (induction body)
    case (Cons x xs)
    then show ?case by (cases "split_on 10 xs") auto
  qed simp
  then have "source_lines src = split_on 10 body"
    by (simp add: src source_lines_def ends_with_char_def)
  with False src assms show ?thesis
    by (cases "body = []") (auto simp: finish_text_def Let_def)
qed

lemma initial_state_simps [simp]:
  "ps_cursor (initial_patch_state ls had) = 0" "ps_output (initial_patch_state ls had) = []"
  "ps_added (initial_patch_state ls had) = 0" "ps_removed (initial_patch_state ls had) = 0"
  "ps_ends_without_newline (initial_patch_state ls had) = (ls = [] \<or> \<not> had)"
  by (simp_all add: initial_patch_state_def)

text \<open>The outcome that the edit script of the parsed hunks stands for.\<close>

definition script_outcome :: "rstr \<Rightarrow> hunk list \<Rightarrow> patch_outcome" where
  "script_outcome src hunks =
     (let ls = source_lines src; had = ends_with_char 10 src; E = weave ls 0 hunks in
      \<lparr>po_source = finish_text (new_side E) (final_flag ls (ls = [] \<or> \<not> had) hunks),
       po_hunks_applied = length hunks,
       po_lines_added = count_added E,
       po_lines_removed = count_removed E\<rparr>)"

lemma apply_note_patch_Inr_iff:
  "apply_note_patch src patch = Inr out \<longleftrightarrow>
     byte_len patch \<le> 524288 \<and>
     (\<exists>hunks. parse_patch patch = Inr hunks \<and> length hunks \<le> 100
        \<and> placed (source_lines src) (ends_with_char 10 src) 0 hunks
        \<and> out = script_outcome src hunks)"
proof (cases "parse_patch patch")
  case (Inr hunks)
  let ?ls = "source_lines src" and ?had = "ends_with_char 10 src"
  let ?run = "apply_hunks ?ls ?had 0 hunks (initial_patch_state ?ls ?had)"
  note parsed = Inr
  have run_iff: "?run = Inr st \<longleftrightarrow> placed ?ls ?had 0 hunks
      \<and> ps_output st = new_side (weave_part ?ls 0 hunks) \<and> ps_cursor st = last_end 0 hunks
      \<and> ps_added st = count_added (weave_part ?ls 0 hunks)
      \<and> ps_removed st = count_removed (weave_part ?ls 0 hunks)
      \<and> ps_ends_without_newline st = final_flag ?ls (?ls = [] \<or> \<not> ?had) hunks" for st
    by (simp add: apply_hunks_Inr_iff)
  show ?thesis
  proof (cases "?run")
    case (Inl e)
    have "\<not> placed ?ls ?had 0 hunks"
    proof
      assume "placed ?ls ?had 0 hunks"
      then have "\<exists>st. ?run = Inr st"
        by (intro exI [of _ "\<lparr>ps_output = new_side (weave_part ?ls 0 hunks),
          ps_ends_without_newline = final_flag ?ls (?ls = [] \<or> \<not> ?had) hunks,
          ps_cursor = last_end 0 hunks, ps_added = count_added (weave_part ?ls 0 hunks),
          ps_removed = count_removed (weave_part ?ls 0 hunks)\<rparr>"]) (simp add: run_iff)
      with Inl show False by simp
    qed
    with parsed Inl show ?thesis by (simp add: apply_note_patch_def Let_def)
  next
    case (Inr st)
    then have st: "placed ?ls ?had 0 hunks" and "ps_cursor st \<le> length ?ls"
      using run_iff placed_last_end [of ?ls ?had 0 hunks] by auto
    then show ?thesis
      using parsed Inr run_iff [of st]
      by (auto simp: apply_note_patch_def Let_def script_outcome_def slice_def weave_split)
  qed
qed (simp add: apply_note_patch_def)

lemma classify_line_no_panic: "classify_line n l \<noteq> Inl Panicked"
  by (cases l) auto

lemma mark_last_push: "mark_last (push_line l h) = Inr (mark_line l (push_line l h))"
  by (simp add: mark_last_def push_line_def)

lemma parse_body_no_panic: "parse_body hdr i so sn h ls \<noteq> Inl Panicked"
  by (induction hdr i so sn h ls rule: parse_body.induct)
    (auto simp: classify_line_no_panic mark_last_push split: sum.splits prod.splits
      dest: classify_line_no_panic [THEN notE])

lemma parse_hunks_no_panic: "parse_hunks i ls \<noteq> Inl Panicked"
  by (induction i ls rule: parse_hunks.induct)
    (auto split: sum.splits prod.splits option.splits dest: parse_body_no_panic [THEN notE])

lemma parse_patch_no_panic: "parse_patch patch \<noteq> Inl Panicked"
  by (auto simp: parse_patch_def result_simps parse_hunks_no_panic split: list.splits)

lemma apply_note_patch_no_panic: "apply_note_patch src patch \<noteq> Inl Panicked"
proof
  let ?ls = "source_lines src" and ?had = "ends_with_char 10 src"
  assume "apply_note_patch src patch = Inl Panicked"
  then obtain hunks st where "apply_hunks ?ls ?had 0 hunks (initial_patch_state ?ls ?had) = Inr st"
      "\<not> ps_cursor st \<le> length ?ls"
    by (auto simp: apply_note_patch_def Let_def result_simps parse_patch_no_panic apply_hunks_no_panic
        slice_def split: if_splits)
  then show False
    by (auto simp: apply_hunks_Inr_iff dest: placed_last_end)
qed

end
