(* ===== verification/NotePatchRender.thy ===== *)
theory NotePatchRender
  imports NotePatchCorrect
begin

text \<open>
  A unified diff as a diff tool prints it, and the proof that the parser reads it back.  A text is a
  list of lines, the last of which may lack its newline; a diff between two texts is an edit script
  cut into hunks, and each line of a hunk without a newline is followed by the marker
  "\ No newline at end of file".  Printed and applied to the first text such a diff gives the second:
  the hunks lie where the application looks for them, their script is the diff's script, and the final
  newline of the result is that of the second text.
\<close>

section \<open>Texts and the diffs between them\<close>

text \<open>A line of a text, with True when no newline ends it.\<close>

type_synonym text_line = "rstr \<times> bool"

fun print_text :: "text_line list \<Rightarrow> rstr" where
  "print_text [] = []"
| "print_text ((l, open_end) # ls) = l @ (if open_end then [] else [10]) @ print_text ls"

definition has_lines :: "rstr \<Rightarrow> text_line list \<Rightarrow> bool" where
  "has_lines txt ls \<longleftrightarrow> txt = print_text ls
     \<and> (\<forall>l\<in>set ls. 10 \<notin> set (fst l) \<and> (snd l \<longrightarrow> fst l \<noteq> [])) \<and> (\<forall>l\<in>set (butlast ls). \<not> snd l)"

text \<open>The two sides of an edit script over such lines.\<close>

fun marked_old :: "(hunk_line \<times> bool) list \<Rightarrow> text_line list" where
  "marked_old [] = []"
| "marked_old ((Context l, b) # es) = (l, b) # marked_old es"
| "marked_old ((Remove l, b) # es) = (l, b) # marked_old es"
| "marked_old ((Add l, b) # es) = marked_old es"

fun marked_new :: "(hunk_line \<times> bool) list \<Rightarrow> text_line list" where
  "marked_new [] = []"
| "marked_new ((Context l, b) # es) = (l, b) # marked_new es"
| "marked_new ((Remove l, b) # es) = marked_new es"
| "marked_new ((Add l, b) # es) = (l, b) # marked_new es"

definition unchanged :: "text_line list \<Rightarrow> (hunk_line \<times> bool) list" where
  "unchanged ls = map (\<lambda>(l, b). (Context l, b)) ls"

text \<open>A hunk with the unchanged lines since the previous one, and the text after its header.\<close>

record diff_hunk =
  dh_gap :: "text_line list"
  dh_heading :: rstr
  dh_lines :: "(hunk_line \<times> bool) list"

fun diff_script :: "diff_hunk list \<Rightarrow> text_line list \<Rightarrow> (hunk_line \<times> bool) list" where
  "diff_script [] rest = unchanged rest"
| "diff_script (d # ds) rest = unchanged (dh_gap d) @ dh_lines d @ diff_script ds rest"

text \<open>
  The hunks of a diff from one text to another: their script, with the unchanged lines around them,
  has the one text on its old side and the other on its new side.  No hunk is empty, and unchanged
  lines separate two hunks.
\<close>

definition diff_between :: "rstr \<Rightarrow> rstr \<Rightarrow> diff_hunk list \<Rightarrow> text_line list \<Rightarrow> bool" where
  "diff_between src tgt ds rest \<longleftrightarrow>
     has_lines src (marked_old (diff_script ds rest)) \<and> has_lines tgt (marked_new (diff_script ds rest))
     \<and> ds \<noteq> [] \<and> (\<forall>d\<in>set ds. dh_lines d \<noteq> [] \<and> 10 \<notin> set (dh_heading d))
     \<and> (\<forall>d\<in>set (tl ds). dh_gap d \<noteq> [])"

section \<open>Printing numbers, lines and hunks\<close>

fun nat_digits :: "nat \<Rightarrow> rstr" where
  "nat_digits n = (if n < 10 then [48 + n] else nat_digits (n div 10) @ [48 + n mod 10])"

declare nat_digits.simps [simp del]

fun render_line :: "hunk_line \<Rightarrow> rstr" where
  "render_line (Context l) = 32 # l"
| "render_line (Remove l) = 45 # l"
| "render_line (Add l) = 43 # l"

definition print_line :: "hunk_line \<times> bool \<Rightarrow> rstr list" where
  "print_line p = render_line (fst p) # (if snd p then [92 # lit '' No newline at end of file''] else [])"

text \<open>A count of one is left out.\<close>

definition print_range :: "nat \<Rightarrow> nat \<Rightarrow> rstr" where
  "print_range start len = nat_digits start @ (if len = 1 then [] else 44 # nat_digits len)"

text \<open>The recorded start is the first line of the side, or the line before when the side is empty.\<close>

definition side_start :: "nat \<Rightarrow> nat \<Rightarrow> nat" where
  "side_start before len = (if len = 0 then before else before + 1)"

definition print_header :: "nat \<Rightarrow> nat \<Rightarrow> diff_hunk \<Rightarrow> rstr" where
  "print_header old_before new_before d =
     (let ol = length (marked_old (dh_lines d)); nl = length (marked_new (dh_lines d)) in
      lit ''@@ -'' @ print_range (side_start old_before ol) ol
      @ lit '' +'' @ print_range (side_start new_before nl) nl @ lit '' @@'' @ dh_heading d)"

fun print_hunks :: "nat \<Rightarrow> nat \<Rightarrow> diff_hunk list \<Rightarrow> rstr list" where
  "print_hunks old_before new_before [] = []"
| "print_hunks old_before new_before (d # ds) =
     (let ob = old_before + length (dh_gap d); nb = new_before + length (dh_gap d) in
      print_header ob nb d # concat (map print_line (dh_lines d))
      @ print_hunks (ob + length (marked_old (dh_lines d))) (nb + length (marked_new (dh_lines d))) ds)"

definition print_diff :: "diff_hunk list \<Rightarrow> rstr" where
  "print_diff ds = join_with 10
     (lit ''--- a/note.adoc'' # lit ''+++ b/note.adoc'' # print_hunks 0 0 ds) @ [10]"

section \<open>Numbers\<close>

lemma digits_value_append:
  "digits_value acc (xs @ ys) = Option.bind (digits_value acc xs) (\<lambda>a. digits_value a ys)"
  by (induction xs arbitrary: acc) (auto simp: Let_def)

lemma nat_digits_ne [simp]: "nat_digits n \<noteq> []"
  by (subst nat_digits.simps) simp

lemma nat_digits_range: "c \<in> set (nat_digits n) \<Longrightarrow> 48 \<le> c \<and> c \<le> 57"
proof (induction n rule: nat_digits.induct)
  case (1 n)
  show ?case
  proof (cases "n < 10")
    case True
    with "1.prems" show ?thesis by (subst (asm) nat_digits.simps) auto
  next
    case False
    have "n mod 10 < 10" by simp
    with False 1 show ?thesis by (subst (asm) nat_digits.simps) auto
  qed
qed

lemma digits_value_nat_digits: "n < usize_bound \<Longrightarrow> digits_value 0 (nat_digits n) = Some n"
proof (induction n rule: nat_digits.induct)
  case (1 n)
  show ?case
  proof (cases "n < 10")
    case True
    with "1.prems" show ?thesis
      by (subst nat_digits.simps) (simp add: is_ascii_digit_def Let_def)
  next
    case False
    have "n div 10 < usize_bound" using "1.prems" by simp
    with False 1 have IH: "digits_value 0 (nat_digits (n div 10)) = Some (n div 10)" by simp
    have "n mod 10 < 10" by simp
    then have "is_ascii_digit (48 + n mod 10)" by (simp add: is_ascii_digit_def)
    with False IH "1.prems" show ?thesis
      by (subst nat_digits.simps) (simp add: digits_value_append Let_def)
  qed
qed

lemma parse_usize_digits: "n < usize_bound \<Longrightarrow> parse_usize (nat_digits n) = Some n"
proof -
  assume n: "n < usize_bound"
  obtain c cs where cs: "nat_digits n = c # cs" by (cases "nat_digits n") auto
  then have "c \<noteq> 43" using nat_digits_range [of c n] by auto
  with n cs digits_value_nat_digits [of n] show ?thesis by (simp add: parse_usize_def Let_def)
qed

section \<open>Headers\<close>

lemma strip_prefix_append [simp]: "strip_prefix p (p @ s) = Some s"
  by (simp add: strip_prefix_Some_iff)

lemma split_once_at: "p0 \<notin> set a \<Longrightarrow> split_once (p0 # ps) (a @ (p0 # ps) @ b) = Some (a, b)"
proof (induction a)
  case Nil
  have "strip_prefix (p0 # ps) ((p0 # ps) @ b) = Some b" by (rule strip_prefix_append)
  then show ?case by simp
qed (auto split: option.splits)

lemma split_once_None: "p0 \<notin> set a \<Longrightarrow> split_once (p0 # ps) a = None"
proof (induction a)
  case (Cons x xs)
  then have "strip_prefix (p0 # ps) (x # xs) = None" by simp
  with Cons show ?case by simp
qed simp

lemma parse_range_print:
  assumes "a < usize_bound" "b < usize_bound"
  shows "parse_range (print_range a b) = Some (a, b)"
proof -
  have "split_once (lit '','') (nat_digits a @ lit '','' @ nat_digits b) = Some (nat_digits a, nat_digits b)"
    using split_once_at [of 44 "nat_digits a" "[]" "nat_digits b"] nat_digits_range [of 44 a] by auto
  moreover have "split_once (lit '','') (nat_digits a) = None"
    using split_once_None [of 44 "nat_digits a" "[]"] nat_digits_range [of 44 a] by auto
  ultimately show ?thesis using assms
    by (auto simp: parse_range_def print_range_def parse_usize_digits)
qed

lemma print_range_chars: "c \<in> set (print_range a b) \<Longrightarrow> c = 44 \<or> (48 \<le> c \<and> c \<le> 57)"
  by (auto simp: print_range_def dest: nat_digits_range split: if_splits)

lemma parse_header_print:
  assumes "side_start ob ol < usize_bound" "side_start nb nl < usize_bound"
    and "ol = length (marked_old (dh_lines d))" "nl = length (marked_new (dh_lines d))"
    and "ol < usize_bound" "nl < usize_bound"
  shows "parse_hunk_header (print_header ob nb d) = Some (side_start ob ol, ol, nl)"
proof -
  let ?o = "print_range (side_start ob ol) ol" and ?n = "print_range (side_start nb nl) nl"
  have plus: "split_once (lit '' +'') (?o @ lit '' +'' @ ?n @ lit '' @@'' @ dh_heading d)
      = Some (?o, ?n @ lit '' @@'' @ dh_heading d)"
    using split_once_at [of 32 ?o "[43]" "?n @ lit '' @@'' @ dh_heading d"] print_range_chars [of 32]
    by fastforce
  have at: "split_once (lit '' @@'') (?n @ lit '' @@'' @ dh_heading d) = Some (?n, dh_heading d)"
    using split_once_at [of 32 ?n "[64, 64]" "dh_heading d"] print_range_chars [of 32] by fastforce
  have header: "print_header ob nb d
      = lit ''@@ -'' @ ?o @ lit '' +'' @ ?n @ lit '' @@'' @ dh_heading d"
    by (simp only: print_header_def Let_def assms(3,4))
  show ?thesis
    by (simp only: parse_hunk_header_def header strip_prefix_append bind.simps plus at
        prod.case parse_range_print [OF assms(1,5)] parse_range_print [OF assms(2,6)])
qed

lemma print_header_plain:
  "\<not> starts_with [45, 45, 45, 32] (print_header ob nb d)"
  "\<not> starts_with [43, 43, 43, 32] (print_header ob nb d)"
  "\<not> starts_with [100, 105, 102, 102, 32] (print_header ob nb d)"
  "\<not> starts_with [92] (print_header ob nb d)"
  by (simp_all add: print_header_def starts_with_def Let_def)

section \<open>Hunk bodies\<close>

text \<open>What the parser makes of one printed line, and of a printed hunk.\<close>

definition absorb :: "hunk_line \<times> bool \<Rightarrow> hunk \<Rightarrow> hunk" where
  "absorb p h = (if snd p then mark_line (fst p) (push_line (fst p) h) else push_line (fst p) h)"

definition read_hunk :: "nat \<Rightarrow> diff_hunk \<Rightarrow> hunk" where
  "read_hunk ob d = (let ol = length (marked_old (dh_lines d)); nl = length (marked_new (dh_lines d)) in
     fold absorb (dh_lines d) (new_hunk (side_start ob ol) ol nl))"

fun read_hunks :: "nat \<Rightarrow> diff_hunk list \<Rightarrow> hunk list" where
  "read_hunks ob [] = []"
| "read_hunks ob (d # ds) = read_hunk (ob + length (dh_gap d)) d
     # read_hunks (ob + length (dh_gap d) + length (marked_old (dh_lines d))) ds"

lemma classify_render:
  "classify_line n (render_line l) = Inr (l, length (marked_old [(l, b)]), length (marked_new [(l, b)]))"
  by (cases l) auto

lemma mark_line_fields [simp]:
  "old_start (mark_line l h) = old_start h" "old_len (mark_line l h) = old_len h"
  "new_len (mark_line l h) = new_len h" "hunk_lines (mark_line l h) = hunk_lines h"
  by (cases l; simp)+

lemma absorb_fields [simp]:
  "old_start (absorb p h) = old_start h" "old_len (absorb p h) = old_len h"
  "new_len (absorb p h) = new_len h" "hunk_lines (absorb p h) = hunk_lines h @ [fst p]"
  by (simp_all add: absorb_def push_line_def)

lemma absorb_old_flag:
  "old_ends_without_newline (absorb p h)
   \<longleftrightarrow> old_ends_without_newline h \<or> (\<exists>l. (l, True) \<in> set (marked_old [p]))"
  by (cases p; cases "fst p") (auto simp: absorb_def push_line_def)

lemma absorb_new_flag:
  "new_ends_without_newline (absorb p h)
   \<longleftrightarrow> new_ends_without_newline h \<or> (\<exists>l. (l, True) \<in> set (marked_new [p]))"
  by (cases p; cases "fst p") (auto simp: absorb_def push_line_def)

lemma marked_append [simp]:
  "marked_old (xs @ ys) = marked_old xs @ marked_old ys" "marked_new (xs @ ys) = marked_new xs @ marked_new ys"
  by (induction xs rule: marked_old.induct) auto

lemma marked_old_Cons: "marked_old (p # es) = marked_old [p] @ marked_old es"
  by (cases p; cases "fst p") auto

lemma marked_new_Cons: "marked_new (p # es) = marked_new [p] @ marked_new es"
  by (cases p; cases "fst p") auto

lemma fold_absorb:
  "old_start (fold absorb ls h) = old_start h" "old_len (fold absorb ls h) = old_len h"
  "new_len (fold absorb ls h) = new_len h" "hunk_lines (fold absorb ls h) = hunk_lines h @ map fst ls"
  "old_ends_without_newline (fold absorb ls h)
   \<longleftrightarrow> old_ends_without_newline h \<or> (\<exists>l. (l, True) \<in> set (marked_old ls))"
  "new_ends_without_newline (fold absorb ls h)
   \<longleftrightarrow> new_ends_without_newline h \<or> (\<exists>l. (l, True) \<in> set (marked_new ls))"
proof (induction ls arbitrary: h)
  case (Cons p ls)
  have old: "set (marked_old (p # ls)) = set (marked_old [p]) \<union> set (marked_old ls)"
    by (subst marked_old_Cons) simp
  have new: "set (marked_new (p # ls)) = set (marked_new [p]) \<union> set (marked_new ls)"
    by (subst marked_new_Cons) simp
  {
    case 1 show ?case by (simp add: Cons.IH)
  next
    case 2 show ?case by (simp add: Cons.IH)
  next
    case 3 show ?case by (simp add: Cons.IH)
  next
    case 4 show ?case by (simp add: Cons.IH)
  next
    case 5 show ?case unfolding old by (simp add: Cons.IH absorb_old_flag) blast
  next
    case 6 show ?case unfolding new by (simp add: Cons.IH absorb_new_flag) blast
  }
qed simp_all

lemma marked_sides: "map fst (marked_old ls) = old_side (map fst ls)"
    "map fst (marked_new ls) = new_side (map fst ls)"
  by (induction ls rule: marked_old.induct) auto

lemma read_hunk_fields:
  "old_len (read_hunk ob d) = length (marked_old (dh_lines d))"
  "hunk_lines (read_hunk ob d) = map fst (dh_lines d)"
  "old_start (read_hunk ob d) = side_start ob (length (marked_old (dh_lines d)))"
  "old_ends_without_newline (read_hunk ob d) \<longleftrightarrow> (\<exists>l. (l, True) \<in> set (marked_old (dh_lines d)))"
  "new_ends_without_newline (read_hunk ob d) \<longleftrightarrow> (\<exists>l. (l, True) \<in> set (marked_new (dh_lines d)))"
  by (simp_all add: read_hunk_def Let_def fold_absorb new_hunk_def)

definition no_marker :: "rstr list \<Rightarrow> bool" where
  "no_marker rest \<longleftrightarrow> (case rest of [] \<Rightarrow> True | r # _ \<Rightarrow> \<not> starts_with [92] r)"

lemma no_marker_lines:
  assumes "no_marker rest"
  shows "no_marker (concat (map print_line ls) @ rest)"
proof (cases ls)
  case (Cons p ps)
  then show ?thesis by (cases "fst p") (auto simp: no_marker_def print_line_def starts_with_def)
qed (use assms in simp)

lemma parse_body_step:
  assumes "so < old_len h \<or> sn < new_len h" "no_marker rest"
  shows "parse_body hdr i so sn h (print_line (l, b) @ rest)
    = parse_body hdr (i + length (print_line (l, b))) (so + length (marked_old [(l, b)]))
        (sn + length (marked_new [(l, b)])) (absorb (l, b) h) rest"
proof (cases b)
  case True
  then show ?thesis using assms(1)
    by (simp add: print_line_def classify_render [of _ _ b] mark_last_push absorb_def starts_with_def
        del: marked_old.simps marked_new.simps)
next
  case False
  then show ?thesis using assms
    by (cases rest) (simp_all add: print_line_def classify_render [of _ _ b] absorb_def no_marker_def
        del: marked_old.simps marked_new.simps)
qed

lemma parse_body_print:
  "so + length (marked_old ls) = old_len h \<Longrightarrow> sn + length (marked_new ls) = new_len h \<Longrightarrow> no_marker rest
   \<Longrightarrow> parse_body hdr i so sn h (concat (map print_line ls) @ rest)
     = Inr (fold absorb ls h, i + length (concat (map print_line ls)), rest)"
proof (induction ls arbitrary: i so sn h)
  case Nil
  then show ?case by (cases rest; cases "tl rest") auto
next
  case (Cons p ls)
  obtain l b where p: "p = (l, b)" by (cases p)
  have lens: "length (marked_old (p # ls)) = length (marked_old [p]) + length (marked_old ls)"
      "length (marked_new (p # ls)) = length (marked_new [p]) + length (marked_new ls)"
    by (subst marked_old_Cons marked_new_Cons, simp)+
  have "so < old_len h \<or> sn < new_len h"
    using Cons.prems(1,2) by (cases l) (auto simp: p)
  then have "parse_body hdr i so sn h (print_line p @ (concat (map print_line ls) @ rest))
    = parse_body hdr (i + length (print_line p)) (so + length (marked_old [p]))
        (sn + length (marked_new [p])) (absorb p h) (concat (map print_line ls) @ rest)"
    unfolding p by (rule parse_body_step) (rule no_marker_lines [OF Cons.prems(3)])
  also have "\<dots> = Inr (fold absorb ls (absorb p h),
      i + length (print_line p) + length (concat (map print_line ls)), rest)"
    by (rule Cons.IH) (use Cons.prems lens in simp_all)
  finally show ?case by simp
qed

section \<open>Whole diffs\<close>

text \<open>The numbers of the headers fit a \<open>usize\<close>.\<close>

fun in_usize :: "nat \<Rightarrow> nat \<Rightarrow> diff_hunk list \<Rightarrow> bool" where
  "in_usize ob nb [] \<longleftrightarrow> True"
| "in_usize ob nb (d # ds) \<longleftrightarrow>
     (let o' = ob + length (dh_gap d) + length (marked_old (dh_lines d));
          n' = nb + length (dh_gap d) + length (marked_new (dh_lines d)) in
      o' < usize_bound \<and> n' < usize_bound \<and> in_usize o' n' ds)"

lemma side_start_le: "side_start b len \<le> b + len"
  by (simp add: side_start_def)

lemma parse_hunks_print:
  "in_usize ob nb ds \<Longrightarrow> parse_hunks i (print_hunks ob nb ds) = Inr (read_hunks ob ds)"
proof (induction ds arbitrary: i ob nb)
  case (Cons d ds)
  let ?ol = "length (marked_old (dh_lines d))" and ?nl = "length (marked_new (dh_lines d))"
  let ?o = "ob + length (dh_gap d)" and ?n = "nb + length (dh_gap d)"
  let ?body = "concat (map print_line (dh_lines d))" and ?rest = "print_hunks (?o + ?ol) (?n + ?nl) ds"
  have fits: "?o + ?ol < usize_bound" "?n + ?nl < usize_bound" "in_usize (?o + ?ol) (?n + ?nl) ds"
    using Cons.prems by (simp_all add: Let_def)
  have header: "parse_hunk_header (print_header ?o ?n d) = Some (side_start ?o ?ol, ?ol, ?nl)"
    by (rule parse_header_print)
      (use fits le_less_trans [OF side_start_le] in \<open>auto intro: le_less_trans [OF side_start_le]\<close>)
  have "no_marker ?rest"
    by (cases ds) (auto simp: no_marker_def print_header_plain Let_def)
  then have "parse_body (i + 1) (i + 1) 0 0 (new_hunk (side_start ?o ?ol) ?ol ?nl) (?body @ ?rest)
      = Inr (read_hunk ?o d, i + 1 + length ?body, ?rest)"
    by (subst parse_body_print) (simp_all add: new_hunk_def read_hunk_def Let_def)
  then show ?case
    using Cons.IH [OF fits(3), of "i + 1 + length ?body"] header
    by (simp add: print_header_plain Let_def)
qed simp

lemma print_header_clean: "10 \<notin> set (dh_heading d) \<Longrightarrow> 10 \<notin> set (print_header ob nb d)"
  using print_range_chars [of 10] by (fastforce simp: print_header_def Let_def)

lemma print_hunks_clean:
  "\<forall>d\<in>set ds. 10 \<notin> set (dh_heading d) \<and> (\<forall>p\<in>set (dh_lines d). 10 \<notin> set (render_line (fst p)))
   \<Longrightarrow> l \<in> set (print_hunks ob nb ds) \<Longrightarrow> 10 \<notin> set l"
proof (induction ds arbitrary: ob nb)
  case (Cons d ds)
  have "10 \<notin> set (print_header o' n' d)" for o' n'
    using Cons.prems(1) by (intro print_header_clean) simp
  moreover have "10 \<notin> set l" if "p \<in> set (dh_lines d)" "l \<in> set (print_line p)" for p
    using Cons.prems(1) that by (auto simp: print_line_def split: if_splits)
  ultimately show ?case using Cons by (auto simp: Let_def)
qed simp

text \<open>The round trip: a printed diff parses back to its hunks.\<close>

lemma parse_print_diff:
  assumes "\<forall>d\<in>set ds. 10 \<notin> set (dh_heading d) \<and> (\<forall>p\<in>set (dh_lines d). 10 \<notin> set (render_line (fst p)))"
    and "in_usize 0 0 ds" "ds \<noteq> []"
  shows "parse_patch (print_diff ds) = Inr (read_hunks 0 ds)"
proof -
  let ?ls = "lit ''--- a/note.adoc'' # lit ''+++ b/note.adoc'' # print_hunks 0 0 ds"
  have "\<forall>l\<in>set ?ls. 10 \<notin> set l"
    using print_hunks_clean [OF assms(1)] by auto
  then have "split_on 10 (join_with 10 ?ls) = ?ls" by (intro split_join_with) auto
  moreover have "strip_final_newline (print_diff ds) = join_with 10 ?ls"
    by (simp add: strip_final_newline_def ends_with_char_def print_diff_def)
  moreover have "trim_end (lit ''--- a/note.adoc'') = lit ''--- a/note.adoc''"
      "trim_end (lit ''+++ b/note.adoc'') = lit ''+++ b/note.adoc''"
    by (simp_all add: trim_end_def is_whitespace_def)
  moreover have "print_diff ds \<noteq> []" by (simp add: print_diff_def)
  moreover have "read_hunks 0 ds \<noteq> []" using assms(3) by (cases ds) auto
  ultimately show ?thesis
    using parse_hunks_print [OF assms(2)] by (simp only: parse_patch_def) simp
qed

section \<open>Texts and their lines\<close>

lemma print_text_append: "print_text (xs @ ys) = print_text xs @ print_text ys"
  by (induction xs rule: print_text.induct) auto

definition open_end :: "text_line list \<Rightarrow> bool" where
  "open_end ls \<longleftrightarrow> ls \<noteq> [] \<and> snd (last ls)"

lemma print_text_closed: "\<forall>l\<in>set ls. \<not> snd l \<Longrightarrow> print_text ls = concat (map (\<lambda>l. fst l @ [10]) ls)"
  by (induction ls rule: print_text.induct) auto

lemma print_text_join:
  assumes "\<forall>l\<in>set (butlast ls). \<not> snd l" "ls \<noteq> []"
  shows "print_text ls = join_with 10 (map fst ls) @ (if open_end ls then [] else [10])"
  using assms
proof (induction ls rule: print_text.induct)
  case (2 l b ls)
  show ?case
  proof (cases ls)
    case (Cons x xs)
    with 2 show ?thesis by (cases "map fst ls") (auto simp: open_end_def)
  qed (simp add: open_end_def)
qed simp

lemma source_lines_open: "10 \<notin> set l \<Longrightarrow> l \<noteq> [] \<Longrightarrow> \<forall>x\<in>set xs. 10 \<notin> set x
    \<Longrightarrow> source_lines (join_with 10 (xs @ [l])) = xs @ [l] \<and> \<not> ends_with_char 10 (join_with 10 (xs @ [l]))"
proof -
  assume l: "10 \<notin> set l" "l \<noteq> []" and xs: "\<forall>x\<in>set xs. 10 \<notin> set x"
  have "\<exists>p. join_with 10 (xs @ [l]) = p @ l"
    by (cases "xs = []") (auto simp: join_with_append)
  then obtain p where p: "join_with 10 (xs @ [l]) = p @ l" ..
  have "\<not> ends_with_char 10 (p @ l)"
    using l by (simp add: ends_with_char_def) (metis last_in_set)
  moreover have "split_on 10 (join_with 10 (xs @ [l])) = xs @ [l]"
    by (rule split_join_with) (use l xs in auto)
  ultimately show ?thesis using p l by (simp add: source_lines_def)
qed

lemma split_on_final: "split_on c (body @ [c]) = split_on c body @ [[]]"
proof (induction body)
  case (Cons x xs)
  then show ?case by (cases "split_on c xs") auto
qed simp

lemma has_lines_source:
  assumes "has_lines txt ls"
  shows "source_lines txt = map fst ls" "ends_with_char 10 txt \<longleftrightarrow> ls \<noteq> [] \<and> \<not> open_end ls"
proof -
  have shape: "txt = print_text ls" and clean: "\<forall>l\<in>set (map fst ls). 10 \<notin> set l"
    and last: "\<forall>l\<in>set ls. snd l \<longrightarrow> fst l \<noteq> []" and closed: "\<forall>l\<in>set (butlast ls). \<not> snd l"
    using assms by (auto simp: has_lines_def)
  have "source_lines txt = map fst ls \<and> (ends_with_char 10 txt \<longleftrightarrow> ls \<noteq> [] \<and> \<not> open_end ls)"
  proof (cases "ls = []")
    case True
    then show ?thesis by (simp add: shape source_lines_def ends_with_char_def)
  next
    case False
    note join = print_text_join [OF closed False]
    show ?thesis
    proof (cases "open_end ls")
      case True
      have "map fst ls = map fst (butlast ls) @ [fst (last ls)]"
        using False by (metis append_butlast_last_id last_map map_butlast Nil_is_map_conv)
      moreover have "fst (last ls) \<noteq> []" "10 \<notin> set (fst (last ls))"
        using True False last clean by (auto simp: open_end_def)
      moreover have "\<forall>x\<in>set (map fst (butlast ls)). 10 \<notin> set x"
        using clean by (auto dest: in_set_butlastD)
      ultimately show ?thesis
        using source_lines_open [of "fst (last ls)" "map fst (butlast ls)"] join True False shape by simp
    next
      case closed_end: False
      then have shape': "txt = join_with 10 (map fst ls) @ [10]" using join shape by simp
      have "split_on 10 (join_with 10 (map fst ls)) = map fst ls"
        by (rule split_join_with) (use False clean in auto)
      then show ?thesis
        using False closed_end by (simp add: shape' source_lines_def ends_with_char_def split_on_final)
    qed
  qed
  then show "source_lines txt = map fst ls" "ends_with_char 10 txt \<longleftrightarrow> ls \<noteq> [] \<and> \<not> open_end ls" by auto
qed

lemma has_lines_finish:
  assumes "has_lines txt ls" "ls \<noteq> [] \<longrightarrow> flag = open_end ls"
  shows "finish_text (map fst ls) flag = (if txt = [10] then [] else txt)"
proof (cases "ls = []")
  case True
  with assms show ?thesis by (simp add: has_lines_def finish_text_def)
next
  case False
  have closed: "\<forall>l\<in>set (butlast ls). \<not> snd l"
    and wf: "\<forall>l\<in>set ls. 10 \<notin> set (fst l) \<and> (snd l \<longrightarrow> fst l \<noteq> [])" and shape: "txt = print_text ls"
    using assms(1) by (auto simp: has_lines_def)
  note join = print_text_join [OF closed False]
  show ?thesis
  proof (cases "open_end ls")
    case True
    have "txt \<noteq> [10]"
    proof
      assume nl: "txt = [10]"
      have "ends_with_char 10 txt" using nl by (simp add: ends_with_char_def)
      with has_lines_source(2) [OF assms(1)] True show False by simp
    qed
    with True False assms(2) join shape show ?thesis by (simp add: finish_text_def)
  next
    case open_no: False
    with False assms(2) join shape show ?thesis by (auto simp: finish_text_def Let_def)
  qed
qed

lemma has_lines_length: "has_lines txt ls \<Longrightarrow> length ls \<le> length txt"
proof -
  assume "has_lines txt ls"
  then have "txt = print_text ls" "\<forall>l\<in>set ls. snd l \<longrightarrow> fst l \<noteq> []" by (auto simp: has_lines_def)
  moreover have "\<forall>l\<in>set xs. snd l \<longrightarrow> fst l \<noteq> [] \<Longrightarrow> length xs \<le> length (print_text xs)" for xs
  proof (induction xs rule: print_text.induct)
    case (2 l b xs)
    then have "length xs \<le> length (print_text xs)" by simp
    moreover have "b \<longrightarrow> 0 < length l" using "2.prems" by simp
    ultimately show ?case by (cases b; cases l) simp_all
  qed simp
  ultimately show ?thesis by simp
qed

section \<open>Where the hunks lie\<close>

lemma marked_unchanged [simp]: "marked_old (unchanged ls) = ls" "marked_new (unchanged ls) = ls"
    "map fst (unchanged ls) = map Context (map fst ls)"
  by (induction ls) (auto simp: unchanged_def)

lemma unchanged_append [simp]: "unchanged (xs @ ys) = unchanged xs @ unchanged ys"
  by (simp add: unchanged_def)

text \<open>Only the last line of a text may be open: a part of it has an open line only at the end.\<close>

lemma open_part:
  assumes "\<forall>l\<in>set (butlast (A @ B @ C)). \<not> snd l"
  shows "(\<exists>l. (l, True) \<in> set B) \<longleftrightarrow> B \<noteq> [] \<and> C = [] \<and> open_end (A @ B @ C)"
proof (cases "C = [] \<and> B \<noteq> []")
  case True
  then have "B = butlast B @ [last B]" by simp
  then have "set B = insert (last B) (set (butlast B))" by (metis Un_insert_right list.simps(15) set_append sup_bot_right list.set(1))
  moreover have "\<forall>l\<in>set (butlast B). \<not> snd l" using assms True by (simp add: butlast_append)
  ultimately show ?thesis using True by (cases "last B") (auto simp: open_end_def)
next
  case False
  have "\<not> snd l" if "l \<in> set B" for l
    using that assms False by (auto simp: butlast_append split: if_splits)
  with False show ?thesis by fastforce
qed

lemma hunk_pos_read: "hunk_pos (read_hunk ob d) = ob"
  by (simp add: hunk_pos_def read_hunk_fields side_start_def)

lemma hunk_end_read: "hunk_end (read_hunk ob d) = ob + length (marked_old (dh_lines d))"
  by (simp add: hunk_end_def hunk_pos_read read_hunk_fields flip: marked_sides)

lemma weave_read:
  "L = A @ marked_old (diff_script ds rest)
   \<Longrightarrow> weave (map fst L) (length A) (read_hunks (length A) ds) = map fst (diff_script ds rest)"
proof (induction ds arbitrary: A)
  case (Cons d ds)
  let ?A = "A @ dh_gap d @ marked_old (dh_lines d)"
  have "L = ?A @ marked_old (diff_script ds rest)" using Cons.prems by simp
  from Cons.IH [OF this] Cons.prems show ?case
    by (simp add: hunk_pos_read hunk_end_read read_hunk_fields add.assoc)
qed simp

lemma placed_read:
  assumes "L = A @ marked_old (diff_script ds rest)" "\<forall>l\<in>set (butlast L). \<not> snd l"
    and "length L < usize_bound" "had \<longleftrightarrow> L \<noteq> [] \<and> \<not> open_end L"
  shows "placed (map fst L) had (length A) (read_hunks (length A) ds)"
  using assms
proof (induction ds arbitrary: A)
  case (Cons d ds)
  let ?old = "marked_old (dh_lines d)" and ?post = "marked_old (diff_script ds rest)"
  let ?A = "A @ dh_gap d @ ?old"
  have L: "L = (A @ dh_gap d) @ ?old @ ?post" using Cons.prems(1) by simp
  have IH: "placed (map fst L) had (length ?A) (read_hunks (length ?A) ds)"
    using Cons.IH [of ?A] Cons.prems by simp
  have flag: "(\<exists>l. (l, True) \<in> set ?old) \<longleftrightarrow> ?old \<noteq> [] \<and> ?post = [] \<and> open_end L"
    using open_part [of "A @ dh_gap d" ?old ?post] Cons.prems(2) L by simp
  have end_iff: "length A + length (dh_gap d) + length ?old = length L \<longleftrightarrow> ?post = []"
    by (simp add: L)
  have "matches_at (map fst L) (length A + length (dh_gap d)) (map fst ?old)"
    by (simp add: matches_at_def L)
  then have "hunk_fits (map fst L) had (length A) (read_hunk (length A + length (dh_gap d)) d)"
    unfolding hunk_fits_def hunk_pos_read read_hunk_fields flag length_map marked_sides [symmetric] end_iff
    using Cons.prems(3,4) L by (auto simp: side_start_def)
  with IH show ?case by (simp add: hunk_end_read add.assoc)
qed simp

text \<open>The flag at the end is that of the second text.\<close>

lemma final_flag_read:
  assumes "L = A @ marked_old (diff_script ds rest)" "\<forall>l\<in>set (butlast L). \<not> snd l"
    and "N = M @ marked_new (diff_script ds rest)" "\<forall>l\<in>set (butlast N). \<not> snd l" "N \<noteq> []"
    and "ds \<noteq> []" "\<forall>d\<in>set ds. dh_lines d \<noteq> []" "\<forall>d\<in>set (tl ds). dh_gap d \<noteq> []"
    and "M = [] \<or> dh_gap (hd ds) \<noteq> []" "L \<noteq> [] \<longrightarrow> flag = open_end L"
  shows "final_flag (map fst L) flag (read_hunks (length A) ds) = open_end N"
  using assms
proof (induction ds arbitrary: A M)
  case (Cons d ds)
  let ?old = "marked_old (dh_lines d)" and ?new = "marked_new (dh_lines d)"
  let ?h = "read_hunk (length A + length (dh_gap d)) d"
  show ?case
  proof (cases ds)
    case Nil
    have L: "L = A @ dh_gap d @ ?old @ rest" and N: "N = (M @ dh_gap d) @ ?new @ rest"
      using Cons.prems(1,3) Nil by simp_all
    have at_end: "hunk_end ?h = length (map fst L) \<longleftrightarrow> rest = []"
      by (simp add: hunk_end_read L)
    have "(if rest = [] then new_ends_without_newline ?h else flag) = open_end N"
    proof (cases "rest = []")
      case False
      then have "open_end L = open_end N" "L \<noteq> []" using L N by (simp_all add: open_end_def)
      with False Cons.prems(10) show ?thesis by simp
    next
      case rest: True
      have part: "(\<exists>l. (l, True) \<in> set ?new) \<longleftrightarrow> ?new \<noteq> [] \<and> rest = [] \<and> open_end N"
        using open_part [of "M @ dh_gap d" ?new rest] Cons.prems(4) N by simp
      show ?thesis
      proof (cases "?new = []")
        case False
        with part rest show ?thesis by (simp add: read_hunk_fields)
      next
        case none: True
        have "?old \<noteq> []"
        proof -
          obtain l b es where "dh_lines d = (l, b) # es"
            using Cons.prems(7) by (cases "dh_lines d") auto
          with none show ?thesis by (cases l) auto
        qed
        moreover have "dh_gap d \<noteq> []" using Cons.prems(5,9) N none rest by auto
        ultimately have "last N = last (dh_gap d)" "last (dh_gap d) \<in> set (butlast L)"
          using N L none rest by (auto simp: butlast_append)
        with Cons.prems(2) none rest show ?thesis by (simp add: read_hunk_fields open_end_def)
      qed
    qed
    with Nil at_end show ?thesis by simp
  next
    case (Cons d' ds')
    let ?A = "A @ dh_gap d @ ?old" and ?M = "M @ dh_gap d @ ?new"
    have gap: "dh_gap d' \<noteq> []" using Cons.prems(8) Cons by simp
    have L: "L = ?A @ marked_old (diff_script ds rest)" and N: "N = ?M @ marked_new (diff_script ds rest)"
      using Cons.prems(1,3) by simp_all
    have "hunk_end ?h \<noteq> length (map fst L)"
      using gap by (simp add: hunk_end_read L Cons)
    moreover have "final_flag (map fst L) flag (read_hunks (length ?A) ds) = open_end N"
      by (rule Cons.IH [OF L Cons.prems(2) N Cons.prems(4,5)]) (use Cons.prems Cons gap in auto)
    ultimately show ?thesis by (simp add: add.assoc)
  qed
qed simp

section \<open>The numbers and the characters of a printed diff\<close>

lemma in_usize_print:
  assumes "a + length (marked_old (diff_script ds rest)) < usize_bound"
    and "b + length (marked_new (diff_script ds rest)) < usize_bound"
  shows "in_usize a b ds"
  using assms by (induction ds arbitrary: a b) (simp_all add: Let_def add.assoc)

lemma hunk_line_in_side:
  "(l, b) \<in> set es \<Longrightarrow> \<exists>t. render_line l \<in> {32 # t, 45 # t, 43 # t} \<and> (t, b) \<in> set (marked_old es) \<union> set (marked_new es)"
proof (induction es)
  case (Cons e es)
  then show ?case
    by (cases e; cases "fst e") auto
qed simp

lemma diff_between_clean:
  assumes "diff_between src tgt ds rest" "d \<in> set ds" "p \<in> set (dh_lines d)"
  shows "10 \<notin> set (render_line (fst p))"
proof -
  obtain l b where p: "p = (l, b)" by (cases p)
  have mem: "set (marked_old (dh_lines d)) \<subseteq> set (marked_old (diff_script ds rest))"
      "set (marked_new (dh_lines d)) \<subseteq> set (marked_new (diff_script ds rest))"
    using assms(2) by (induction ds) auto
  obtain t where t: "render_line l \<in> {32 # t, 45 # t, 43 # t}"
      "(t, b) \<in> set (marked_old (dh_lines d)) \<union> set (marked_new (dh_lines d))"
    using hunk_line_in_side assms(3) p by blast
  have "10 \<notin> set t"
    using t(2) mem assms(1) by (fastforce simp: diff_between_def has_lines_def)
  with t(1) p show ?thesis by auto
qed

text \<open>What the script of a diff adds and removes is in its hunks.\<close>

lemma count_diff_script:
  "count_added (map fst (diff_script ds rest)) = count_added (map fst (concat (map dh_lines ds)))"
  "count_removed (map fst (diff_script ds rest)) = count_removed (map fst (concat (map dh_lines ds)))"
  by (induction ds) (simp_all del: map_map)

lemma length_read_hunks [simp]: "length (read_hunks ob ds) = length ds"
  by (induction ds arbitrary: ob) simp_all

text \<open>A printed diff, applied to its first text.\<close>

lemma apply_printed_diff:
  assumes "diff_between src tgt ds rest" "length ds \<le> 100" "byte_len (print_diff ds) \<le> 524288"
    and "length src < usize_bound" "length tgt < usize_bound"
  shows "apply_note_patch src (print_diff ds) = Inr
    \<lparr>po_source = (if tgt = [10] then [] else tgt), po_hunks_applied = length ds,
     po_lines_added = count_added (map fst (concat (map dh_lines ds))),
     po_lines_removed = count_removed (map fst (concat (map dh_lines ds)))\<rparr>"
proof -
  let ?L = "marked_old (diff_script ds rest)" and ?N = "marked_new (diff_script ds rest)"
  have old: "has_lines src ?L" and new: "has_lines tgt ?N" and ne: "ds \<noteq> []"
    and lines: "\<forall>d\<in>set ds. dh_lines d \<noteq> [] \<and> 10 \<notin> set (dh_heading d)"
    and gaps: "\<forall>d\<in>set (tl ds). dh_gap d \<noteq> []"
    using assms(1) by (auto simp: diff_between_def)
  have closed: "\<forall>l\<in>set (butlast ?L). \<not> snd l" "\<forall>l\<in>set (butlast ?N). \<not> snd l"
    using old new by (auto simp: has_lines_def)
  note src = has_lines_source [OF old]
  have bounds: "length ?L < usize_bound" "length ?N < usize_bound"
    using has_lines_length [OF old] has_lines_length [OF new] assms(4,5) by simp_all
  have parsed: "parse_patch (print_diff ds) = Inr (read_hunks 0 ds)"
    by (rule parse_print_diff) (use lines ne bounds diff_between_clean [OF assms(1)] in
      \<open>auto intro: in_usize_print\<close>)
  have placed: "placed (source_lines src) (ends_with_char 10 src) 0 (read_hunks 0 ds)"
    using placed_read [of ?L "[]" ds rest] closed bounds src by simp
  have weave: "weave (source_lines src) 0 (read_hunks 0 ds) = map fst (diff_script ds rest)"
    using weave_read [of ?L "[]" ds rest] src by simp
  have flag: "final_flag (source_lines src) (source_lines src = [] \<or> \<not> ends_with_char 10 src)
      (read_hunks 0 ds) = open_end ?N" if "?N \<noteq> []"
    unfolding src
    using final_flag_read [of ?L "[]" ds rest ?N "[]"] closed that ne lines gaps by (auto simp: open_end_def)
  have "finish_text (new_side (map fst (diff_script ds rest))) (final_flag (source_lines src)
      (source_lines src = [] \<or> \<not> ends_with_char 10 src) (read_hunks 0 ds)) = (if tgt = [10] then [] else tgt)"
    unfolding marked_sides [symmetric] by (rule has_lines_finish [OF new]) (use flag in blast)
  with parsed placed weave assms(2,3) show ?thesis
    by (simp add: apply_note_patch_Inr_iff script_outcome_def Let_def count_diff_script)
qed

end
