(* ===== verification/NotePatchProps.thy ===== *)
theory NotePatchProps
  imports NotePatchRender
begin

text \<open>
  What \<open>apply_note_patch\<close> promises its callers: the exact condition for success and the resulting
  text, the absence of panics, and that a printed diff between two texts turns the one into the other.
\<close>

lemmas patch_eval = apply_note_patch_def parse_patch_def strip_final_newline_def ends_with_char_def
  trim_end_def is_whitespace_def starts_with_def parse_hunk_header_def parse_range_def parse_usize_def
  is_ascii_digit_def usize_bound_def new_hunk_def push_line_def mark_last_def source_lines_def slice_def
  nth_opt_def apply_hunk_def hunk_first_line_def check_final_newline_def initial_patch_state_def
  finish_text_def byte_len_def utf8_width_def Let_def

text \<open>
  C5: applying a diff succeeds exactly when the diff is at most 512 KiB, parses to at most 100 hunks
  and every hunk lies in order at its recorded position with its old side found there.  The result is
  then the new side of the edit script those hunks describe, whose old side is the whole source, and
  the reported counts are the added and removed lines of that script.
\<close>

theorem apply_note_patch_succeeds_iff:
  "apply_note_patch src patch = Inr out \<longleftrightarrow>
     byte_len patch \<le> 524288 \<and>
     (\<exists>hunks. parse_patch patch = Inr hunks \<and> length hunks \<le> 100
        \<and> placed (source_lines src) (ends_with_char 10 src) 0 hunks
        \<and> old_side (weave (source_lines src) 0 hunks) = source_lines src
        \<and> out = script_outcome src hunks)"
  unfolding apply_note_patch_Inr_iff using old_side_weave by fastforce

text \<open>
  C6: applying a diff never panics, whatever the source and the diff: no slice, index or
  \<open>expect\<close> of the parser and of the application is out of range.
\<close>

theorem apply_note_patch_never_panics:
  "apply_note_patch src patch \<noteq> Inl Panicked"
  by (rule apply_note_patch_no_panic)

text \<open>
  C7: a diff between two texts, printed the way a diff tool prints it, turns the first text into the
  second.  The hunks may lie anywhere with any amount of context, the texts may or may not end in a
  newline (the printed diff then carries the markers "\ No newline at end of file"), and the result
  and the reported counts are exact.  The diff has at most 100 hunks and 512 KiB, none of its hunks is
  empty, unchanged lines lie between two hunks, and both texts are shorter than \<open>usize::MAX\<close> allows.
  One text is missed: where the second text is a single newline, the result is the empty text.
\<close>

theorem rendered_diff_applies:
  assumes "diff_between src tgt ds rest" "length ds \<le> 100" "byte_len (print_diff ds) \<le> 524288"
    and "length src < usize_bound" "length tgt < usize_bound"
  shows "apply_note_patch src (print_diff ds) = Inr
    \<lparr>po_source = (if tgt = [10] then [] else tgt), po_hunks_applied = length ds,
     po_lines_added = count_added (map fst (concat (map dh_lines ds))),
     po_lines_removed = count_removed (map fst (concat (map dh_lines ds)))\<rparr>"
  by (rule apply_printed_diff [OF assms])

text \<open>Two hunks, the second at the end of two texts without a final newline.\<close>

lemma rendered_diff_applies_witness:
  "apply_note_patch [97, 10, 98, 10, 99] (print_diff
      [\<lparr>dh_gap = [], dh_heading = [], dh_lines = [(Add [120], False)]\<rparr>,
       \<lparr>dh_gap = [([97], False)], dh_heading = lit '' s'',
        dh_lines = [(Context [98], False), (Remove [99], True), (Add [100], False), (Add [101], True)]\<rparr>])
   = Inr \<lparr>po_source = [120, 10, 97, 10, 98, 10, 100, 10, 101], po_hunks_applied = 2,
          po_lines_added = 3, po_lines_removed = 1\<rparr>"
  by (subst rendered_diff_applies [where rest = "[]" and tgt = "[120, 10, 97, 10, 98, 10, 100, 10, 101]"])
    (simp_all add: diff_between_def has_lines_def unchanged_def print_diff_def print_header_def
      print_range_def print_line_def side_start_def nat_digits.simps byte_len_def utf8_width_def
      usize_bound_def Let_def)

text \<open>The counts of a hunk header are minima only: one context line too many is taken for new text.\<close>

lemma hunk_counts_not_enforced:
  "apply_note_patch (lit ''a'' @ [10] @ lit ''b'') (lit ''--- a/note.adoc'' @ [10]
      @ lit ''+++ b/note.adoc'' @ [10] @ lit ''@@ -1,1 +1,2 @@'' @ [10] @ lit '' a'' @ [10] @ lit '' b'' @ [10])
   = Inr \<lparr>po_source = [97, 10, 98, 10], po_hunks_applied = 1, po_lines_added = 0, po_lines_removed = 0\<rparr>"
  by (simp add: patch_eval)

text \<open>An empty hunk at the end of a source without a final newline adds the newline.\<close>

lemma empty_hunk_adds_newline:
  "apply_note_patch (lit ''a'' @ [10] @ lit ''b'') (lit ''--- a/note.adoc'' @ [10]
      @ lit ''+++ b/note.adoc'' @ [10] @ lit ''@@ -2,0 +2,0 @@'' @ [10])
   = Inr \<lparr>po_source = [97, 10, 98, 10], po_hunks_applied = 1, po_lines_added = 0, po_lines_removed = 0\<rparr>"
  by (simp add: patch_eval)

text \<open>A diff that leaves one empty line produces the empty text instead.\<close>

lemma single_newline_lost:
  "apply_note_patch (lit ''a'' @ [10] @ [10]) (lit ''--- a/note.adoc'' @ [10]
      @ lit ''+++ b/note.adoc'' @ [10] @ lit ''@@ -1,2 +1 @@'' @ [10] @ lit ''-a'' @ [10] @ lit '' '' @ [10])
   = Inr \<lparr>po_source = [], po_hunks_applied = 1, po_lines_added = 0, po_lines_removed = 1\<rparr>"
  by (simp add: patch_eval)

end
