(* ===== verification/McpMachine.thy ===== *)
theory McpMachine
  imports AuthPurge
begin

text \<open>
  The authorization server's store as a state machine: every transaction on its tables is a step, the
  random tokens a step stores are fresh, and \<open>later\<close> says what every step keeps about the codes and
  tokens already stored.
\<close>

section \<open>Steps\<close>

text \<open>
  The first component of a state is the list of all token and session digests handed out so far; that the random
  generator never repeats one is the premise of the steps that store a token.  \<open>may p g\<close> restricts the
  grants principal \<open>p\<close> consents to.
\<close>

type_synonym mcp_state = "u8 list list \<times> auth_db"

inductive mcp_step ::
  "url_parser \<Rightarrow> token_hash \<Rightarrow> (int \<Rightarrow> grant \<Rightarrow> bool) \<Rightarrow> mcp_state \<Rightarrow> mcp_state \<Rightarrow> bool"
  for pu :: url_parser and hash :: token_hash and may :: "int \<Rightarrow> grant \<Rightarrow> bool" where
  step_issue: "issue_authorization_code pu hash code rc g challenge expires now s = Inr e
     \<Longrightarrow> resolve_mcp_principal pu (gr_principal g) (au_db s) = Inr ((a, iid), d) \<Longrightarrow> may (actor_id a) g
     \<Longrightarrow> hash code \<notin> set u \<Longrightarrow> mcp_step pu hash may (u, s) (hash code # u, e)"
| step_exchange: "exchange_authorization_code pu hash ex now s = Inr (res, e)
     \<Longrightarrow> hash (ex_access ex) \<notin> set u \<Longrightarrow> hash (ex_refresh ex) \<notin> set u
     \<Longrightarrow> mcp_step pu hash may (u, s) (hash (ex_access ex) # hash (ex_refresh ex) # u, e)"
| step_authenticate: "authenticate_access_token pu hash tok resource now s = Inr (res, e)
     \<Longrightarrow> mcp_step pu hash may (u, s) (u, e)"
| step_rotate: "rotate_refresh_token hash ro now s = Inr (out, e)
     \<Longrightarrow> hash (ro_new_access ro) \<notin> set u \<Longrightarrow> hash (ro_new_refresh ro) \<notin> set u
     \<Longrightarrow> mcp_step pu hash may (u, s) (hash (ro_new_access ro) # hash (ro_new_refresh ro) # u, e)"
| step_revoke_client: "revoke_client_tokens pu iss sub cid now s = Inr e
     \<Longrightarrow> mcp_step pu hash may (u, s) (u, e)"
| step_revoke_token: "mcp_step pu hash may (u, s) (u, revoke_token hash tok cid now s)"
| step_principal_ceiling: "replace_principal_scope_ceiling act scopes expected now s = Inr (c, e)
     \<Longrightarrow> mcp_step pu hash may (u, s) (u, e)"
| step_client_ceiling: "replace_client_scope_ceiling act cid scopes expected now s = Inr (c, e)
     \<Longrightarrow> mcp_step pu hash may (u, s) (u, e)"
| step_delete_ceiling: "delete_client_scope_ceiling act cid expected s = Inr e
     \<Longrightarrow> mcp_step pu hash may (u, s) (u, e)"
| step_register: "register_client_bounded c now maximum s = Inr (b, e)
     \<Longrightarrow> mcp_step pu hash may (u, s) (u, e)"
| step_purge: "mcp_step pu hash may (u, s)
     (u, snd (purge_expired_operational_state pending now cutoff s))"
| step_session: "sn_digest rec \<notin> set u
     \<Longrightarrow> mcp_step pu hash may (u, s) (sn_digest rec # u, snd (issue_session pu rec now s))"
| step_extend: "lookup_and_extend mk digest now window s = Inr (view, e)
     \<Longrightarrow> mcp_step pu hash may (u, s) (u, e)"
| step_revoke_session: "mcp_step pu hash may (u, s) (u, revoke_session digest now s)"
| step_login_attempt: "issue_login_attempt hash att now s = Inr e \<Longrightarrow> mcp_step pu hash may (u, s) (u, e)"
| step_consume: "mcp_step pu hash may (u, s) (u, snd (consume_login_attempt hash state now s))"
| step_notes: "store_step pu (au_db s) d \<Longrightarrow> mcp_step pu hash may (u, s) (u, s\<lparr>au_db := d\<rparr>)"

abbreviation mcp_steps ::
  "url_parser \<Rightarrow> token_hash \<Rightarrow> (int \<Rightarrow> grant \<Rightarrow> bool) \<Rightarrow> mcp_state \<Rightarrow> mcp_state \<Rightarrow> bool" where
  "mcp_steps pu hash may \<equiv> (mcp_step pu hash may)\<^sup>*\<^sup>*"

abbreviation any_grant :: "int \<Rightarrow> grant \<Rightarrow> bool" where
  "any_grant \<equiv> \<lambda>p g. True"

section \<open>What a step does to the tables\<close>

definition same_tokens :: "auth_db \<Rightarrow> auth_db \<Rightarrow> bool" where
  "same_tokens s e \<longleftrightarrow> au_codes e = au_codes s \<and> au_access e = au_access s \<and> au_refresh e = au_refresh s
     \<and> au_authorizations e = au_authorizations s"

lemma revoke_tokens_simps [simp]:
  "au_codes (revoke_tokens pa pr now s) = au_codes s"
  "au_authorizations (revoke_tokens pa pr now s) = au_authorizations s"
  "au_db (revoke_tokens pa pr now s) = au_db s"
  "au_clients (revoke_tokens pa pr now s) = au_clients s"
  by (simp_all add: revoke_tokens_def)

lemma revoke_family_simps [simp]:
  "au_codes (revoke_family fam now s) = au_codes s"
  "au_authorizations (revoke_family fam now s) = au_authorizations s"
  "au_db (revoke_family fam now s) = au_db s"
  "au_clients (revoke_family fam now s) = au_clients s"
  by (simp_all add: revoke_family_def)

lemma sql_insert_code_Inr:
  "sql_insert_code r s = Inr e \<longleftrightarrow> (\<forall>x\<in>set (au_codes s). co_hash x \<noteq> co_hash r)
     \<and> known_client s (co_client r) \<and> owner_known s (co_principal r) (co_identity r)
     \<and> e = s\<lparr>au_codes := au_codes s @ [r]\<rparr>"
  by (auto simp: sql_insert_code_def exists_where_iff)

lemma sql_insert_access_token_Inr:
  "sql_insert_access_token r s = Inr e \<longleftrightarrow> (\<forall>x\<in>set (au_access s). tk_hash x \<noteq> tk_hash r)
     \<and> known_client s (tk_client r) \<and> owner_known s (tk_principal r) (tk_identity r)
     \<and> length (tk_family r) = 32 \<and> e = s\<lparr>au_access := au_access s @ [r]\<rparr>"
  by (auto simp: sql_insert_access_token_def exists_where_iff)

lemma sql_insert_refresh_token_Inr:
  "sql_insert_refresh_token r s = Inr e \<longleftrightarrow> (\<forall>x\<in>set (au_refresh s). rf_hash x \<noteq> rf_hash r)
     \<and> known_client s (rf_client r) \<and> owner_known s (rf_principal r) (rf_identity r)
     \<and> length (rf_family r) = 32 \<and> e = s\<lparr>au_refresh := au_refresh s @ [r]\<rparr>"
  by (auto simp: sql_insert_refresh_token_def exists_where_iff)

lemmas sql_insert_Inr = sql_insert_code_Inr sql_insert_access_token_Inr sql_insert_refresh_token_Inr

lemma upsert_client_Inr:
  assumes "upsert_client c m now s = Inr e"
  shows "same_tokens s e" "au_db e = au_db s"
  using assms by (auto simp: upsert_client_def same_tokens_def split: option.splits if_splits)

lemma find_authorization_update:
  "(\<And>r. az_principal (f r) = az_principal r \<and> az_client (f r) = az_client r) \<Longrightarrow>
     find (\<lambda>r. az_principal r = q \<and> az_client r = b) (update_where (\<lambda>r. az_principal r = p \<and> az_client r = c) f t)
       = map_option (\<lambda>r. if q = p \<and> b = c then f r else r) (find (\<lambda>r. az_principal r = q \<and> az_client r = b) t)"
  by (induction t) (auto simp: update_where_def)

lemma key_update_where:
  "(\<And>r. k (f r) = k r) \<Longrightarrow> (\<forall>x\<in>set (update_where p f t). k x \<noteq> v) \<longleftrightarrow> (\<forall>x\<in>set t. k x \<noteq> v)"
proof (induction t)
  case (Cons x t)
  then show ?case by (cases "p x") (simp_all add: update_where_def)
qed (simp add: update_where_def)

lemma upsert_authorization_Inr:
  assumes "upsert_authorization p c scopes now s = Inr e"
  shows "au_codes e = au_codes s" "au_access e = au_access s" "au_refresh e = au_refresh s"
    "au_db e = au_db s" "au_clients e = au_clients s"
    "find_authorization q b e = (if q = p \<and> b = c
       then Some (case find_authorization p c s of
           None \<Rightarrow> \<lparr>az_principal = p, az_client = c, az_granted = scopes, az_authorized_at = now,
               az_last_used_at = None, az_revoked_at = None\<rparr>
         | Some z \<Rightarrow> z\<lparr>az_granted := scopes, az_authorized_at := now, az_revoked_at := None\<rparr>)
       else find_authorization q b s)"
proof -
  show "au_codes e = au_codes s" "au_access e = au_access s" "au_refresh e = au_refresh s"
    "au_db e = au_db s" "au_clients e = au_clients s"
    using assms by (auto simp: upsert_authorization_def split: if_splits)
  show "find_authorization q b e = (if q = p \<and> b = c
       then Some (case find_authorization p c s of
           None \<Rightarrow> \<lparr>az_principal = p, az_client = c, az_granted = scopes, az_authorized_at = now,
               az_last_used_at = None, az_revoked_at = None\<rparr>
         | Some z \<Rightarrow> z\<lparr>az_granted := scopes, az_authorized_at := now, az_revoked_at := None\<rparr>)
       else find_authorization q b s)"
  proof (cases "exists_where (\<lambda>r. az_principal r = p \<and> az_client r = c) (au_authorizations s)")
    case True
    then have "find_authorization p c s \<noteq> None"
      by (auto simp: find_authorization_def find_None_iff exists_where_iff)
    with True assms show ?thesis
      by (auto simp: upsert_authorization_def find_authorization_def find_authorization_update option.map_ident split: if_splits)
  next
    case False
    then have "find_authorization p c s = None"
      by (auto simp: find_authorization_def find_None_iff exists_where_iff)
    with False assms show ?thesis
      by (auto simp: upsert_authorization_def find_authorization_def find_append split: if_splits option.splits)
  qed
qed

text \<open>The three transactions that store a code or a token, with their effect spelled out.\<close>

lemma issue_Inr:
  assumes "issue_authorization_code pu hash code rc g challenge expires now s = Inr e"
  obtains a iid d s2 where
    "resolve_mcp_principal pu (gr_principal g) (au_db s) = Inr ((a, iid), d)"
    "upsert_authorization (actor_id a) (mc_id (rc_client rc))
       (join_spaces (merge_scopes (split_ascii_whitespace (case find_authorization (actor_id a) (mc_id (rc_client rc)) s
          of None \<Rightarrow> [] | Some r \<Rightarrow> az_granted r)) (gr_scopes g))) now s2 = Inr (e\<lparr>au_codes := au_codes s\<rparr>)"
    "same_tokens s s2" "\<forall>x\<in>set (au_codes s). co_hash x \<noteq> hash code" "au_db e = d"
    "au_codes e = au_codes s @ [\<lparr>co_hash = hash code, co_client = mc_id (rc_client rc),
       co_redirect = redirect_text (gr_redirect g), co_supplied = redirect_supplied (gr_redirect g),
       co_resource = gr_resource g, co_principal = actor_id a, co_identity = iid,
       co_scopes = join_spaces (gr_scopes g), co_challenge = challenge, co_expires_at = expires,
       co_consumed_at = None, co_family = None\<rparr>]"
    "au_access e = au_access s" "au_refresh e = au_refresh s"
proof -
  from assms obtain a iid d s2 s3 where
    r: "resolve_mcp_principal pu (gr_principal g) (au_db s) = Inr ((a, iid), d)"
    and up: "upsert_client (rc_client rc) (rc_method rc) now (s\<lparr>au_db := d\<rparr>) = Inr s2"
    and az: "upsert_authorization (actor_id a) (mc_id (rc_client rc))
       (join_spaces (merge_scopes (split_ascii_whitespace (case find_authorization (actor_id a) (mc_id (rc_client rc)) s2
          of None \<Rightarrow> [] | Some r \<Rightarrow> az_granted r)) (gr_scopes g))) now s2 = Inr s3"
    and ins: "sql_insert_code \<lparr>co_hash = hash code, co_client = mc_id (rc_client rc),
       co_redirect = redirect_text (gr_redirect g), co_supplied = redirect_supplied (gr_redirect g),
       co_resource = gr_resource g, co_principal = actor_id a, co_identity = iid,
       co_scopes = join_spaces (gr_scopes g), co_challenge = challenge, co_expires_at = expires,
       co_consumed_at = None, co_family = None\<rparr> s3 = Inr e"
    by (auto simp: issue_authorization_code_def Let_def rbind_Inr_iff)
  note u = upsert_client_Inr [OF up]
  note z = upsert_authorization_Inr [OF az]
  have "find_authorization p c s2 = find_authorization p c s" for p c
    using u(1) by (simp add: same_tokens_def find_authorization_def)
  with az ins u z r show thesis
    by (intro that [of a iid d s2]) (auto simp: same_tokens_def sql_insert_code_Inr)
qed

lemma exchange_cases:
  assumes "exchange_authorization_code pu hash ex now s = Inr (res, e)"
  obtains (refused) "res = None" "\<forall>r\<in>set (au_codes s). \<not> (code_matches hash ex r \<and> code_usable now r)"
      "e = (case replayed_code_family hash ex s of None \<Rightarrow> s | Some fam \<Rightarrow> revoke_family fam now s)"
  | (granted) row g principal where "res = Some g"
      "find (\<lambda>r. code_matches hash ex r \<and> code_usable now r) (au_codes s) = Some row"
      "row \<in> set (au_codes s)" "code_matches hash ex row" "code_usable now row"
      "principal_from_identity_id pu (co_identity row) (au_db s) = Inr principal"
      "gr_principal g = principal" "gr_scopes g = split_whitespace (co_scopes row)"
      "\<forall>x\<in>set (au_access s). tk_hash x \<noteq> hash (ex_access ex)"
      "\<forall>x\<in>set (au_refresh s). rf_hash x \<noteq> hash (ex_refresh ex)"
      "au_access e = au_access s @ [\<lparr>tk_hash = hash (ex_access ex), tk_client = ex_client ex,
          tk_resource = ex_resource ex, tk_principal = co_principal row, tk_identity = co_identity row,
          tk_scopes = join_spaces (split_whitespace (co_scopes row)), tk_expires_at = ex_access_expires_at ex,
          tk_revoked_at = None, tk_last_used_at = None, tk_family = hash (ex_refresh ex)\<rparr>]"
      "au_refresh e = au_refresh s @ [\<lparr>rf_hash = hash (ex_refresh ex), rf_client = ex_client ex,
          rf_resource = ex_resource ex, rf_principal = co_principal row, rf_identity = co_identity row,
          rf_scopes = join_spaces (split_whitespace (co_scopes row)), rf_expires_at = ex_refresh_expires_at ex,
          rf_rotated_at = None, rf_revoked_at = None, rf_family = hash (ex_refresh ex)\<rparr>]"
      "au_codes e = update_where (\<lambda>r. co_hash r = hash (ex_code ex)) (\<lambda>r. r\<lparr>co_family := Some (hash (ex_refresh ex))\<rparr>)
         (update_where (\<lambda>r. code_matches hash ex r \<and> code_usable now r) (\<lambda>r. r\<lparr>co_consumed_at := Some now\<rparr>) (au_codes s))"
      "au_authorizations e = au_authorizations s" "au_db e = au_db s"
proof (cases "find (\<lambda>r. code_matches hash ex r \<and> code_usable now r) (au_codes s)")
  case None
  with assms show thesis
    by (intro refused) (auto simp: exchange_authorization_code_def Let_def find_None_iff)
next
  case (Some row)
  then have row: "row \<in> set (au_codes s)" "code_matches hash ex row" "code_usable now row"
    by (auto simp: find_Some_iff)
  from Some assms show thesis
    by (auto simp: exchange_authorization_code_def Let_def rbind_Inr_iff sql_insert_Inr row
        intro!: granted [OF _ Some row])
qed

lemma rotate_cases:
  assumes "rotate_refresh_token hash ro now s = Inr (out, e)"
  obtains (refused) "out = InvalidToken" "\<forall>r\<in>set (au_refresh s). \<not> (refresh_matches hash ro r \<and> refresh_usable now r)"
      "e = (case find (\<lambda>r. refresh_matches hash ro r \<and> rf_rotated_at r \<noteq> None \<and> rf_revoked_at r = None) (au_refresh s) of
            None \<Rightarrow> s | Some r \<Rightarrow> revoke_family (rf_family r) now s)"
  | (scope) "out = InvalidScope" "e = s"
  | (rotated) row access where "out = Rotated access"
      "row \<in> set (au_refresh s)" "refresh_matches hash ro row" "refresh_usable now row"
      "set access \<subseteq> set (split_whitespace (rf_scopes row))"
      "\<forall>x\<in>set (au_access s). tk_hash x \<noteq> hash (ro_new_access ro)"
      "\<forall>x\<in>set (au_refresh s). rf_hash x \<noteq> hash (ro_new_refresh ro)"
      "au_access e = au_access s @ [\<lparr>tk_hash = hash (ro_new_access ro), tk_client = ro_client ro,
          tk_resource = ro_resource ro, tk_principal = rf_principal row, tk_identity = rf_identity row,
          tk_scopes = join_spaces access, tk_expires_at = ro_access_expires_at ro,
          tk_revoked_at = None, tk_last_used_at = None, tk_family = rf_family row\<rparr>]"
      "au_refresh e = update_where (\<lambda>r. refresh_matches hash ro r \<and> refresh_usable now r)
          (\<lambda>r. r\<lparr>rf_rotated_at := Some now\<rparr>) (au_refresh s) @ [\<lparr>rf_hash = hash (ro_new_refresh ro),
          rf_client = ro_client ro, rf_resource = ro_resource ro, rf_principal = rf_principal row,
          rf_identity = rf_identity row, rf_scopes = join_spaces (split_whitespace (rf_scopes row)),
          rf_expires_at = ro_refresh_expires_at ro, rf_rotated_at = None, rf_revoked_at = None,
          rf_family = rf_family row\<rparr>]"
      "au_codes e = au_codes s" "au_authorizations e = au_authorizations s" "au_db e = au_db s"
proof (cases "find (\<lambda>r. refresh_matches hash ro r \<and> refresh_usable now r) (au_refresh s)")
  case None
  with assms show thesis
    by (intro refused) (auto simp: rotate_refresh_token_def Let_def find_None_iff)
next
  case (Some row)
  then have row: "row \<in> set (au_refresh s)" "refresh_matches hash ro row" "refresh_usable now row"
    by (auto simp: find_Some_iff)
  show thesis
  proof (cases "list_all (\<lambda>sc. sc \<in> set (split_whitespace (rf_scopes row)))
      (case ro_requested ro of None \<Rightarrow> split_whitespace (rf_scopes row) | Some xs \<Rightarrow> xs)")
    case False
    with Some assms show thesis by (intro scope) (simp_all add: rotate_refresh_token_def Let_def)
  next
    case True
    with Some assms row show thesis
      by (intro rotated [where row = row and access = "case ro_requested ro of None \<Rightarrow> split_whitespace (rf_scopes row) | Some xs \<Rightarrow> xs"])
        (auto simp: rotate_refresh_token_def Let_def rbind_Inr_iff sql_insert_Inr list_all_iff key_update_where
          split: option.splits)
  qed
qed

lemma authenticate_cases:
  assumes "authenticate_access_token pu hash tok resource now s = Inr (res, e)"
  obtains (refused) "res = None" "e = s"
  | (accepted) row principal where "row \<in> set (au_access s)" "access_usable hash tok resource now row"
      "principal_from_identity_id pu (tk_identity row) (au_db s) = Inr principal"
      "res = Some \<lparr>an_principal = principal, an_scopes = split_whitespace (tk_scopes row)\<rparr>"
      "e = s\<lparr>au_access := update_where (access_usable hash tok resource now)
            (\<lambda>r. r\<lparr>tk_last_used_at := Some now\<rparr>) (au_access s), au_authorizations := update_where
            (\<lambda>r. az_principal r = tk_principal row \<and> az_client r = tk_client row)
            (\<lambda>r. r\<lparr>az_last_used_at := Some (max (case az_last_used_at r of None \<Rightarrow> now | Some t \<Rightarrow> t) now)\<rparr>)
            (au_authorizations s)\<rparr>"
proof (cases "find (access_usable hash tok resource now) (au_access s)")
  case None
  with assms show thesis by (intro refused) (simp_all add: authenticate_access_token_def)
next
  case (Some row)
  then have "row \<in> set (au_access s)" "access_usable hash tok resource now row" by (auto simp: find_Some_iff)
  with Some assms show thesis
    by (auto simp: authenticate_access_token_def Let_def rbind_Inr_iff intro!: accepted [of row])
qed

lemma revoke_client_cases:
  assumes "revoke_client_tokens pu iss sub cid now s = Inr e"
  obtains (unknown) "e = s"
  | (revoked) a iid i where "identity_new pu iss sub = Inr i" "resolve_in pu i (au_db s) = Inr (Some (a, iid))"
      "e = (revoke_tokens (\<lambda>r. tk_principal r = actor_id a \<and> tk_client r = cid)
          (\<lambda>r. rf_principal r = actor_id a \<and> rf_client r = cid) now s)
        \<lparr>au_codes := delete_where (\<lambda>r. co_principal r = actor_id a \<and> co_client r = cid \<and> co_consumed_at r = None) (au_codes s),
         au_authorizations := update_where (\<lambda>r. az_principal r = actor_id a \<and> az_client r = cid)
           (\<lambda>r. r\<lparr>az_revoked_at := Some now\<rparr>) (au_authorizations s)\<rparr>"
proof -
  from assms obtain i found where i: "identity_new pu iss sub = Inr i" "resolve_in pu i (au_db s) = Inr found"
    by (auto simp: revoke_client_tokens_def rbind_Inr_iff map_err_Inr_iff)
  show thesis
  proof (cases found)
    case None
    with i assms show thesis by (intro unknown) (simp add: revoke_client_tokens_def)
  next
    case (Some ai)
    obtain a iid where ai: "ai = (a, iid)" by (cases ai)
    with Some i assms show thesis
      by (intro revoked [of i a iid]) (simp_all add: revoke_client_tokens_def Let_def)
  qed
qed

end
