(* ===== verification/McpInv.thy ===== *)
theory McpInv
  imports McpMachine
begin

text \<open>
  What every step keeps: digests are unique and accounted for, a stored code or token only ever loses
  power (\<open>later\<close>), and no step but a new authorization widens what is granted (\<open>narrower\<close>).
\<close>

section \<open>Unique digests\<close>

definition keys_ok :: "u8 list list \<Rightarrow> auth_db \<Rightarrow> bool" where
  "keys_ok u s \<longleftrightarrow> distinct (map co_hash (au_codes s)) \<and> distinct (map tk_hash (au_access s))
     \<and> distinct (map rf_hash (au_refresh s))
     \<and> (\<forall>r\<in>set (au_codes s). co_hash r \<in> set u
          \<and> (\<forall>fam. co_family r = Some fam \<longrightarrow> fam \<in> set u \<and> co_consumed_at r \<noteq> None))
     \<and> (\<forall>r\<in>set (au_access s). tk_hash r \<in> set u \<and> tk_family r \<in> set u)
     \<and> (\<forall>r\<in>set (au_refresh s). rf_hash r \<in> set u \<and> rf_family r \<in> set u)"

lemma keys_okD:
  assumes "keys_ok u s"
  shows "distinct (map co_hash (au_codes s))" "distinct (map tk_hash (au_access s))"
    "distinct (map rf_hash (au_refresh s))"
    "r \<in> set (au_codes s) \<Longrightarrow> co_hash r \<in> set u"
    "r \<in> set (au_codes s) \<Longrightarrow> co_family r = Some fam \<Longrightarrow> fam \<in> set u \<and> co_consumed_at r \<noteq> None"
    "x \<in> set (au_access s) \<Longrightarrow> tk_hash x \<in> set u \<and> tk_family x \<in> set u"
    "y \<in> set (au_refresh s) \<Longrightarrow> rf_hash y \<in> set u \<and> rf_family y \<in> set u"
  using assms by (auto simp: keys_ok_def)

lemma keys_ok_mono: "keys_ok u s \<Longrightarrow> set u \<subseteq> set v \<Longrightarrow> keys_ok v s"
  by (fastforce simp: keys_ok_def)

section \<open>Codes and tokens only lose power\<close>

definition token_in :: "auth_db \<Rightarrow> u8 list \<Rightarrow> bool" where
  "token_in s fam \<longleftrightarrow> exists_where (\<lambda>r. tk_family r = fam) (au_access s)
     \<or> exists_where (\<lambda>r. rf_family r = fam) (au_refresh s)"

text \<open>A family that may still get new tokens: it is new, or holds a refresh token that is not revoked.\<close>

definition growing :: "u8 list list \<Rightarrow> auth_db \<Rightarrow> u8 list \<Rightarrow> bool" where
  "growing u s fam \<longleftrightarrow> fam \<notin> set u
     \<or> exists_where (\<lambda>x. rf_family x = fam \<and> rf_revoked_at x = None) (au_refresh s)"

definition later :: "u8 list list \<Rightarrow> auth_db \<Rightarrow> auth_db \<Rightarrow> bool" where
  "later u s e \<longleftrightarrow>
     (\<forall>r\<in>set (au_codes e). co_hash r \<in> set u \<longrightarrow>
        (\<exists>x\<in>set (au_codes s). co_hash x = co_hash r \<and> (co_consumed_at x \<noteq> None \<longrightarrow> r = x)))
     \<and> (\<forall>r\<in>set (au_access e).
          (\<exists>x\<in>set (au_access s). tk_hash x = tk_hash r \<and> tk_family x = tk_family r
             \<and> (tk_revoked_at x \<noteq> None \<longrightarrow> tk_revoked_at r \<noteq> None))
          \<or> (tk_hash r \<notin> set u \<and> growing u s (tk_family r)))
     \<and> (\<forall>r\<in>set (au_refresh e).
          (\<exists>x\<in>set (au_refresh s). rf_hash x = rf_hash r \<and> rf_family x = rf_family r
             \<and> rf_client x = rf_client r \<and> rf_resource x = rf_resource r \<and> (rf_revoked_at x \<noteq> None \<longrightarrow> rf_revoked_at r \<noteq> None)
             \<and> (rf_rotated_at x \<noteq> None \<longrightarrow> rf_rotated_at r \<noteq> None))
          \<or> (rf_hash r \<notin> set u \<and> growing u s (rf_family r)))
     \<and> (\<forall>r\<in>set (au_codes s). \<forall>fam. co_consumed_at r \<noteq> None \<and> co_family r = Some fam \<longrightarrow>
          r \<in> set (au_codes e) \<or> \<not> token_in e fam)"

lemma laterD:
  assumes "later u s e"
  shows "r \<in> set (au_codes e) \<Longrightarrow> co_hash r \<in> set u \<Longrightarrow>
      \<exists>x\<in>set (au_codes s). co_hash x = co_hash r \<and> (co_consumed_at x \<noteq> None \<longrightarrow> r = x)"
    "a \<in> set (au_access e) \<Longrightarrow> (\<exists>x\<in>set (au_access s). tk_hash x = tk_hash a \<and> tk_family x = tk_family a
        \<and> (tk_revoked_at x \<noteq> None \<longrightarrow> tk_revoked_at a \<noteq> None)) \<or> (tk_hash a \<notin> set u \<and> growing u s (tk_family a))"
    "b \<in> set (au_refresh e) \<Longrightarrow> (\<exists>x\<in>set (au_refresh s). rf_hash x = rf_hash b \<and> rf_family x = rf_family b
        \<and> rf_client x = rf_client b \<and> rf_resource x = rf_resource b \<and> (rf_revoked_at x \<noteq> None \<longrightarrow> rf_revoked_at b \<noteq> None) \<and> (rf_rotated_at x \<noteq> None \<longrightarrow> rf_rotated_at b \<noteq> None))
      \<or> (rf_hash b \<notin> set u \<and> growing u s (rf_family b))"
    "q \<in> set (au_codes s) \<Longrightarrow> co_consumed_at q \<noteq> None \<Longrightarrow> co_family q = Some fam \<Longrightarrow>
      q \<in> set (au_codes e) \<or> \<not> token_in e fam"
  using assms unfolding later_def by blast+

lemma later_refl [simp]: "later u s s"
  by (auto simp: later_def)

lemma later_mono: "later v s e \<Longrightarrow> set u \<subseteq> set v \<Longrightarrow> later u s e"
  unfolding later_def growing_def by blast

lemma growing_later:
  assumes "later u s e" "growing u e fam"
  shows "growing u s fam"
proof (cases "fam \<in> set u")
  case True
  with assms(2) obtain x where x: "x \<in> set (au_refresh e)" "rf_family x = fam" "rf_revoked_at x = None"
    by (auto simp: growing_def exists_where_iff)
  from laterD(3) [OF assms(1) x(1)] x(2,3) True show ?thesis
    by (auto simp: growing_def exists_where_iff)
qed (simp add: growing_def)

lemma token_in_later:
  assumes "later u s e" "token_in e fam" "fam \<in> set u"
  shows "token_in s fam"
proof -
  have g: "growing u s fam \<Longrightarrow> token_in s fam"
    using assms(3) by (auto simp: growing_def token_in_def exists_where_iff)
  from assms(2) consider a where "a \<in> set (au_access e)" "tk_family a = fam"
    | b where "b \<in> set (au_refresh e)" "rf_family b = fam"
    by (auto simp: token_in_def exists_where_iff)
  then show ?thesis
  proof cases
    case (1 a)
    from laterD(2) [OF assms(1) 1(1)] show ?thesis
      unfolding 1(2) using g by (auto simp: token_in_def exists_where_iff)
  next
    case (2 b)
    from laterD(3) [OF assms(1) 2(1)] show ?thesis
      unfolding 2(2) using g by (auto simp: token_in_def exists_where_iff)
  qed
qed

lemma later_trans:
  assumes "keys_ok u s" "later u s e" "later u e f"
  shows "later u s f"
  unfolding later_def
proof (intro conjI ballI allI impI)
  fix r assume "r \<in> set (au_codes f)" "co_hash r \<in> set u"
  then obtain x where "x \<in> set (au_codes e)" "co_hash x = co_hash r" "co_consumed_at x \<noteq> None \<longrightarrow> r = x"
    using laterD(1) [OF assms(3)] by blast
  moreover with \<open>co_hash r \<in> set u\<close> obtain y where "y \<in> set (au_codes s)" "co_hash y = co_hash x"
      "co_consumed_at y \<noteq> None \<longrightarrow> x = y"
    using laterD(1) [OF assms(2), of x] by auto
  ultimately show "\<exists>x\<in>set (au_codes s). co_hash x = co_hash r \<and> (co_consumed_at x \<noteq> None \<longrightarrow> r = x)"
    by metis
next
  fix r assume "r \<in> set (au_access f)"
  with laterD(2) [OF assms(3)] consider
    x where "x \<in> set (au_access e)" "tk_hash x = tk_hash r" "tk_family x = tk_family r"
      "tk_revoked_at x \<noteq> None \<longrightarrow> tk_revoked_at r \<noteq> None"
    | "tk_hash r \<notin> set u" "growing u e (tk_family r)"
    by blast
  then show "(\<exists>x\<in>set (au_access s). tk_hash x = tk_hash r \<and> tk_family x = tk_family r
      \<and> (tk_revoked_at x \<noteq> None \<longrightarrow> tk_revoked_at r \<noteq> None)) \<or> (tk_hash r \<notin> set u \<and> growing u s (tk_family r))"
  proof cases
    case 1
    with laterD(2) [OF assms(2) 1(1)] show ?thesis by metis
  qed (use growing_later [OF assms(2)] in blast)
next
  fix r assume "r \<in> set (au_refresh f)"
  with laterD(3) [OF assms(3)] consider
    x where "x \<in> set (au_refresh e)" "rf_hash x = rf_hash r" "rf_family x = rf_family r"
      "rf_client x = rf_client r" "rf_resource x = rf_resource r"
      "rf_revoked_at x \<noteq> None \<longrightarrow> rf_revoked_at r \<noteq> None" "rf_rotated_at x \<noteq> None \<longrightarrow> rf_rotated_at r \<noteq> None"
    | "rf_hash r \<notin> set u" "growing u e (rf_family r)"
    by blast
  then show "(\<exists>x\<in>set (au_refresh s). rf_hash x = rf_hash r \<and> rf_family x = rf_family r
      \<and> rf_client x = rf_client r \<and> rf_resource x = rf_resource r \<and> (rf_revoked_at x \<noteq> None \<longrightarrow> rf_revoked_at r \<noteq> None) \<and> (rf_rotated_at x \<noteq> None \<longrightarrow> rf_rotated_at r \<noteq> None))
    \<or> (rf_hash r \<notin> set u \<and> growing u s (rf_family r))"
  proof cases
    case 1
    with laterD(3) [OF assms(2) 1(1)] show ?thesis by metis
  qed (use growing_later [OF assms(2)] in blast)
next
  fix r fam assume r: "r \<in> set (au_codes s)" and f: "co_consumed_at r \<noteq> None \<and> co_family r = Some fam"
  then have "fam \<in> set u" using keys_okD(5) [OF assms(1)] by blast
  with r f laterD(4) [OF assms(2)] laterD(4) [OF assms(3)] token_in_later [OF assms(3)]
  show "r \<in> set (au_codes f) \<or> \<not> token_in f fam" by blast
qed

section \<open>Statements that only withdraw\<close>

definition withdraws :: "auth_db \<Rightarrow> auth_db \<Rightarrow> bool" where
  "withdraws s e \<longleftrightarrow> (\<forall>u. keys_ok u s \<longrightarrow> keys_ok u e \<and> later u s e)"

lemma withdraws_refl [simp]: "withdraws s s"
  by (simp add: withdraws_def)

lemma withdraws_trans [trans]: "withdraws s e \<Longrightarrow> withdraws e f \<Longrightarrow> withdraws s f"
  unfolding withdraws_def using later_trans by blast

lemma withdraws_frame:
  "au_codes e = au_codes s \<Longrightarrow> au_access e = au_access s \<Longrightarrow> au_refresh e = au_refresh s \<Longrightarrow> withdraws s e"
  by (auto simp: withdraws_def keys_ok_def later_def growing_def token_in_def)

lemma withdraws_same: "same_tokens s e \<Longrightarrow> withdraws s e"
  by (simp add: same_tokens_def withdraws_frame)

lemma exists_where_update:
  "(\<And>r. Q (f r) = Q r) \<Longrightarrow> exists_where Q (update_where p f t) = exists_where Q t"
proof (induction t)
  case (Cons x t)
  then show ?case by (cases "p x") (simp_all add: update_where_def exists_where_def)
qed (simp add: update_where_def)

lemma list_all_update_where: "list_all Q (update_where p f t) = list_all (\<lambda>r. Q (if p r then f r else r)) t"
  by (simp add: update_where_def list.pred_map o_def)

lemma image_update_where: "(\<And>r. k (f r) = k r) \<Longrightarrow> k ` set (update_where p f t) = k ` set t"
  using distinct_map_update_where [of k f p t] by (metis set_map)

lemma token_in_revoke [simp]: "token_in (revoke_tokens pa pr now s) fam \<longleftrightarrow> token_in s fam"
  by (simp add: token_in_def revoke_tokens_def exists_where_update)

lemma withdraws_revoke: "withdraws s (revoke_tokens pa pr now s)"
proof -
  have "keys_ok u (revoke_tokens pa pr now s)" if "keys_ok u s" for u
    using that by (auto simp: keys_ok_def revoke_tokens_def distinct_map_update_where set_update_where)
  moreover have "later u s (revoke_tokens pa pr now s)" for u
    unfolding later_def by (auto simp: revoke_tokens_def set_update_where)
  ultimately show ?thesis by (simp add: withdraws_def)
qed

lemma withdraws_revoke_family: "withdraws s (revoke_family fam now s)"
  unfolding revoke_family_def by (rule withdraws_revoke)

lemma withdraws_delete_codes:
  assumes "\<And>r. r \<in> set (au_codes s) \<Longrightarrow> P r \<Longrightarrow> co_consumed_at r = None"
  shows "withdraws s (s\<lparr>au_codes := delete_where P (au_codes s)\<rparr>)"
  using assms by (fastforce simp: withdraws_def keys_ok_def later_def token_in_def set_delete_where
      distinct_map_delete_where)

lemma fold_withdraws:
  "(\<And>x e. x \<in> set xs \<Longrightarrow> R e \<Longrightarrow> withdraws e (f x e) \<and> R (f x e)) \<Longrightarrow> R s \<Longrightarrow> withdraws s (fold f xs s) \<and> R (fold f xs s)"
proof (induction xs arbitrary: s)
  case (Cons x xs)
  from Cons.prems(1) [of x s] Cons.prems(2) have x: "withdraws s (f x s)" "R (f x s)" by simp_all
  have "withdraws (f x s) (fold f xs (f x s)) \<and> R (fold f xs (f x s))"
    by (rule Cons.IH) (use Cons.prems(1) x(2) in auto)
  with x(1) withdraws_trans show ?case by auto
qed simp

end
