(* ===== verification/McpLater.thy ===== *)
theory McpLater
  imports McpInv
begin

text \<open>Every step of the authorization store is \<open>later\<close>; the two theorems on replayed codes and tokens.\<close>

section \<open>Withdrawing operations\<close>

lemma withdraws_invalidate: "withdraws s (invalidate_excess_grants p cid allowed now s)"
proof (cases "distinct (map co_hash (au_codes s))")
  case False
  then show ?thesis by (simp add: withdraws_def keys_ok_def)
next
  case d: True
  let ?codes = "select_where (\<lambda>r. in_reach p cid (co_principal r) (co_client r) \<and> co_consumed_at r = None) (au_codes s)"
  let ?f = "\<lambda>c (e :: auth_db). if scopes_fit (co_scopes c) allowed then e
      else e\<lparr>au_codes := delete_where (\<lambda>r. co_hash r = co_hash c) (au_codes e)\<rparr>"
  let ?R = "\<lambda>e :: auth_db. set (au_codes e) \<subseteq> set (au_codes s)"
  have "withdraws s (fold ?f ?codes s) \<and> ?R (fold ?f ?codes s)"
  proof (rule fold_withdraws [where R = ?R])
    fix c e assume c: "c \<in> set ?codes" and R: "?R e"
    have "co_consumed_at r = None" if "r \<in> set (au_codes e)" "co_hash r = co_hash c" for r
    proof -
      have "r = c" using that R c d by (auto simp: set_select_where inj_on_def distinct_map)
      with c show ?thesis by (simp add: set_select_where)
    qed
    then show "withdraws e (?f c e) \<and> ?R (?f c e)"
      using R by (auto simp: set_delete_where intro!: withdraws_delete_codes)
  qed simp
  moreover have "withdraws s1 (fold (\<lambda>(fam, scopes) e. if scopes_fit scopes allowed then e
      else revoke_family fam now e) xs s1)" for xs s1
    using fold_withdraws [where R = "\<lambda>_. True" and xs = xs
        and f = "\<lambda>(fam, scopes) e. if scopes_fit scopes allowed then e else revoke_family fam now e"]
    by (auto simp: withdraws_revoke_family split_beta)
  ultimately show ?thesis
    unfolding invalidate_excess_grants_def Let_def using withdraws_trans by blast
qed

lemma withdraws_authenticate:
  assumes "authenticate_access_token pu hash tok resource now s = Inr (res, e)"
  shows "withdraws s e"
proof -
  have "withdraws s (s\<lparr>au_access := update_where P (\<lambda>r. r\<lparr>tk_last_used_at := Some now\<rparr>) (au_access s),
      au_authorizations := az\<rparr>)" for P az
  proof -
    have "exists_where (\<lambda>r. tk_family r = fam) (update_where P (\<lambda>r. r\<lparr>tk_last_used_at := Some now\<rparr>) (au_access s))
        = exists_where (\<lambda>r. tk_family r = fam) (au_access s)" for fam
      by (rule exists_where_update) simp
    then show ?thesis
      by (auto simp: withdraws_def keys_ok_def later_def token_in_def distinct_map_update_where set_update_where)
  qed
  with assms show ?thesis
    by (auto simp: authenticate_access_token_def Let_def rbind_Inr_iff split: option.splits)
qed

lemma withdraws_revoke_client:
  assumes "revoke_client_tokens pu iss sub cid now s = Inr e"
  shows "withdraws s e"
proof -
  have "withdraws s (s1\<lparr>au_codes := delete_where
        (\<lambda>r. co_principal r = p \<and> co_client r = cid \<and> co_consumed_at r = None) (au_codes s1),
      au_authorizations := az\<rparr>)"
    if "s1 = revoke_tokens pa pr now s" for s1 p az pa pr
  proof -
    have "withdraws s s1" using that by (simp add: withdraws_revoke)
    also have "withdraws s1 (s1\<lparr>au_codes := delete_where
        (\<lambda>r. co_principal r = p \<and> co_client r = cid \<and> co_consumed_at r = None) (au_codes s1)\<rparr>)"
      by (rule withdraws_delete_codes) simp
    also have "withdraws \<dots> (\<dots>\<lparr>au_authorizations := az\<rparr>)"
      by (rule withdraws_frame) simp_all
    finally show ?thesis by simp
  qed
  note w = this
  from assms show ?thesis
    by (cases rule: revoke_client_cases) (use w in \<open>simp_all\<close>)
qed

lemma withdraws_revoke_token: "withdraws s (revoke_token hash tok cid now s)"
  by (simp add: revoke_token_def Let_def withdraws_revoke_family split: list.splits)

lemma withdraws_ceilings:
  "replace_principal_scope_ceiling act scopes expected now s = Inr (c, e) \<Longrightarrow> withdraws s e"
  "replace_client_scope_ceiling act cid scopes expected now s = Inr (c, e) \<Longrightarrow> withdraws s e"
  "delete_client_scope_ceiling act cid expected s = Inr e \<Longrightarrow> withdraws s e"
proof -
  have 1: "replace_principal_setting act scopes expected now s = Inr (rvn, e) \<Longrightarrow> same_tokens s e" for rvn e
    by (auto simp: replace_principal_setting_def Let_def same_tokens_def split: if_splits option.splits)
  have 2: "replace_client_setting act cid scopes expected now s = Inr (rvn, e) \<Longrightarrow> same_tokens s e" for rvn e
    by (auto simp: replace_client_setting_def Let_def same_tokens_def split: if_splits option.splits)
  show "replace_principal_scope_ceiling act scopes expected now s = Inr (c, e) \<Longrightarrow> withdraws s e"
    using withdraws_trans [OF withdraws_same withdraws_invalidate] 1
    by (fastforce simp: replace_principal_scope_ceiling_def rbind_Inr_iff)
  show "replace_client_scope_ceiling act cid scopes expected now s = Inr (c, e) \<Longrightarrow> withdraws s e"
    using withdraws_trans [OF withdraws_same withdraws_invalidate] 2
    by (fastforce simp: replace_client_scope_ceiling_def rbind_Inr_iff split: if_splits)
  show "delete_client_scope_ceiling act cid expected s = Inr e \<Longrightarrow> withdraws s e"
    by (rule withdraws_same)
      (auto simp: delete_client_scope_ceiling_def rbind_Inr_iff Let_def same_tokens_def split: if_splits)
qed

lemma withdraws_purge: "withdraws s (purge_mcp_state now cutoff s)"
proof -
  define s1 where "s1 = purge_refresh_tokens now (purge_access_tokens now s)"
  have s1: "withdraws s s1"
    by (auto simp: s1_def withdraws_def keys_ok_def later_def token_in_def purge_refresh_tokens_def
        purge_access_tokens_def set_delete_where distinct_map_delete_where)
  have "withdraws s1 (purge_authorization_codes now s1)"
    unfolding withdraws_def
  proof (intro allI impI conjI)
    fix u assume k: "keys_ok u s1"
    then show "keys_ok u (purge_authorization_codes now s1)"
      by (auto simp: keys_ok_def purge_authorization_codes_def set_delete_where distinct_map_delete_where)
    show "later u s1 (purge_authorization_codes now s1)"
      by (auto simp: later_def purge_authorization_codes_def set_delete_where token_in_def split: option.splits)
  qed
  also have "withdraws (purge_authorization_codes now s1) (purge_client_authorizations cutoff (purge_authorization_codes now s1))"
    by (auto simp: withdraws_def keys_ok_def later_def growing_def token_in_def purge_client_authorizations_def)
  also have "withdraws \<dots> (purge_clients cutoff \<dots>)"
    by (rule withdraws_same) (simp add: same_tokens_def purge_clients_def)
  finally show ?thesis using withdraws_trans [OF s1] by (simp add: purge_mcp_state_def s1_def)
qed

section \<open>Every step\<close>

lemma step_exchange_later:
  assumes ex: "exchange_authorization_code pu hash ex now s = Inr (res, e)" and k: "keys_ok u s"
    and fresh: "hash (ex_access ex) \<notin> set u" "hash (ex_refresh ex) \<notin> set u"
  shows "keys_ok (hash (ex_access ex) # hash (ex_refresh ex) # u) e \<and> later u s e"
  using ex
proof (cases rule: exchange_cases)
  case refused
  then have "withdraws s e" by (cases "replayed_code_family hash ex s") (simp_all add: withdraws_revoke_family)
  with k have "keys_ok u e" "later u s e" by (auto simp: withdraws_def)
  then show ?thesis by (auto elim!: keys_ok_mono)
next
  case (granted row g principal)
  let ?fam = "hash (ex_refresh ex)"
  have row_only: "r = row" if "r \<in> set (au_codes s)" "co_hash r = hash (ex_code ex)" for r
  proof -
    have "co_hash row = hash (ex_code ex)" using granted(4) by (simp add: code_matches_def)
    with that granted(3) keys_okD(1) [OF k] show ?thesis by (auto simp: distinct_map inj_on_def)
  qed
  have uncons: "co_consumed_at row = None" using granted(5) by (simp add: code_usable_def)
  have codes: "\<exists>x\<in>set (au_codes s). co_hash x = co_hash r \<and> (co_consumed_at x \<noteq> None \<longrightarrow> r = x)
      \<and> (r \<noteq> x \<longrightarrow> co_consumed_at r \<noteq> None \<and> co_family r = Some ?fam)"
    if "r \<in> set (au_codes e)" for r
  proof -
    from that granted(13) obtain x where x: "x \<in> set (au_codes s)" and
      r: "r = (let y = (if code_matches hash ex x \<and> code_usable now x then x\<lparr>co_consumed_at := Some now\<rparr> else x) in
         if co_hash y = hash (ex_code ex) then y\<lparr>co_family := Some ?fam\<rparr> else y)"
      by (auto simp: update_where_def Let_def)
    show ?thesis
    proof (cases "x = row")
      case True
      with r granted(4,5) have "co_hash r = co_hash x" "co_consumed_at r = Some now" "co_family r = Some ?fam"
        by (auto simp: Let_def code_matches_def)
      with x True uncons show ?thesis by auto
    next
      case False
      with row_only [OF x] have "co_hash x \<noteq> hash (ex_code ex)" by blast
      with r have "r = x" by (auto simp: Let_def code_matches_def)
      with x show ?thesis by auto
    qed
  qed
  have cons: "r \<in> set (au_codes e)" if "r \<in> set (au_codes s)" "co_consumed_at r \<noteq> None" for r
  proof -
    have "co_hash r \<noteq> hash (ex_code ex)" using row_only [OF that(1)] that(2) uncons by auto
    with that granted(13) show ?thesis by (auto simp: update_where_def code_usable_def image_iff intro!: bexI [of _ r])
  qed
  have "map co_hash (au_codes e) = map co_hash (au_codes s)"
    unfolding granted(13) by (subst distinct_map_update_where; simp add: distinct_map_update_where)
  then have "distinct (map co_hash (au_codes e))" using keys_okD(1) [OF k] by simp
  moreover have "\<forall>r\<in>set (au_codes e). co_hash r \<in> set (hash (ex_access ex) # ?fam # u)
      \<and> (\<forall>fam. co_family r = Some fam \<longrightarrow> fam \<in> set (hash (ex_access ex) # ?fam # u) \<and> co_consumed_at r \<noteq> None)"
    using codes keys_okD(4,5) [OF k] by (metis list.set_intros option.inject)
  ultimately have "keys_ok (hash (ex_access ex) # ?fam # u) e"
    using k granted(9-12) unfolding keys_ok_def by auto
  moreover have "later u s e"
    unfolding later_def
  proof (intro conjI)
    show "\<forall>r\<in>set (au_codes e). co_hash r \<in> set u \<longrightarrow>
        (\<exists>x\<in>set (au_codes s). co_hash x = co_hash r \<and> (co_consumed_at x \<noteq> None \<longrightarrow> r = x))"
      using codes by blast
  qed (use cons granted(11,12) fresh in \<open>auto simp: growing_def\<close>)
  ultimately show ?thesis by blast
qed

lemma step_rotate_later:
  assumes ro: "rotate_refresh_token hash ro now s = Inr (out, e)" and k: "keys_ok u s"
    and fresh: "hash (ro_new_access ro) \<notin> set u" "hash (ro_new_refresh ro) \<notin> set u"
  shows "keys_ok (hash (ro_new_access ro) # hash (ro_new_refresh ro) # u) e \<and> later u s e"
  using ro
proof (cases rule: rotate_cases)
  case refused
  then have "withdraws s e" by (auto simp: withdraws_revoke_family split: option.splits)
  with k have "keys_ok u e" "later u s e" by (auto simp: withdraws_def)
  then show ?thesis by (auto elim!: keys_ok_mono)
next
  case scope
  with k show ?thesis by (auto elim!: keys_ok_mono)
next
  case (rotated row access)
  let ?p = "\<lambda>r. refresh_matches hash ro r \<and> refresh_usable now r"
  have grow: "growing u s (rf_family row)"
    using rotated(2,4) by (auto simp: growing_def exists_where_iff refresh_usable_def)
  have "rf_family row \<in> set u" using keys_okD(7) [OF k rotated(2)] by blast
  moreover have "distinct (map rf_hash (au_refresh e))"
    using rotated(7,9) keys_okD(3) [OF k] by (auto simp add: distinct_map_update_where)
  ultimately have "keys_ok (hash (ro_new_access ro) # hash (ro_new_refresh ro) # u) e"
    using k rotated(6-10) unfolding keys_ok_def by (auto simp: set_update_where)
  moreover have "token_in e fam = token_in s fam" if "fam \<noteq> rf_family row" for fam
  proof -
    have "exists_where (\<lambda>r. rf_family r = fam) (update_where ?p (\<lambda>r. r\<lparr>rf_rotated_at := Some now\<rparr>) (au_refresh s))
        = exists_where (\<lambda>r. rf_family r = fam) (au_refresh s)"
      by (rule exists_where_update) simp
    with that show ?thesis
      unfolding token_in_def rotated(8,9) by (auto simp: exists_where_def)
  qed
  moreover have "later u s e"
    unfolding later_def using rotated(8,9,10) fresh grow by (auto simp: set_update_where)
  ultimately show ?thesis by blast
qed

lemma same_tokens_rest:
  "same_tokens s (snd (issue_session pu rec now s))"
  "lookup_and_extend mk digest now window s = Inr (view, e) \<Longrightarrow> same_tokens s e"
  "same_tokens s (revoke_session digest now s)"
  "issue_login_attempt hash att now s = Inr e \<Longrightarrow> same_tokens s e"
  "same_tokens s (snd (consume_login_attempt hash state now s))"
  "same_tokens s (s\<lparr>au_db := d\<rparr>)"
  "register_client_bounded c now maximum s = Inr (b, e) \<Longrightarrow> same_tokens s e"
  by (auto simp: same_tokens_def issue_session_def sql_insert_session_def lookup_and_extend_def
      revoke_session_def issue_login_attempt_def consume_login_attempt_def register_client_bounded_def
      Let_def rbind_Inr_iff split: sum.splits option.splits if_splits)

lemma purge_all_same:
  "same_tokens (purge_mcp_state now cutoff (purge_login_attempts now (purge_sessions now s)))
     (snd (purge_expired_operational_state pending now cutoff s))"
  "same_tokens s (purge_login_attempts now (purge_sessions now s))"
  by (simp_all add: same_tokens_def purge_expired_operational_state_def Let_def purge_login_attempts_def
      purge_sessions_def)

lemma withdraws_purge_all: "withdraws s (snd (purge_expired_operational_state pending now cutoff s))"
  using withdraws_trans [OF withdraws_trans [OF withdraws_same withdraws_purge] withdraws_same]
    purge_all_same by blast

lemma mcp_step_later:
  assumes "mcp_step pu hash may (u, s) (v, e)" "keys_ok u s"
  shows "keys_ok v e \<and> later u s e \<and> set u \<subseteq> set v"
proof -
  have w: "withdraws s e \<Longrightarrow> v = u \<Longrightarrow> ?thesis" using assms(2) by (auto simp: withdraws_def)
  from assms(1) show ?thesis
  proof cases
    case (step_issue code rc g challenge expires now a iid d)
    from step_issue(2) show ?thesis
      by (rule issue_Inr) (use assms(2) step_issue(1,5) in
          \<open>auto simp: keys_ok_def later_def token_in_def\<close>)
  next
    case (step_exchange ex now res)
    then show ?thesis using step_exchange_later [OF step_exchange(2) assms(2)] by auto
  next
    case (step_rotate ro now out)
    then show ?thesis using step_rotate_later [OF step_rotate(2) assms(2)] by auto
  next
    case (step_session rec now)
    then have "withdraws s e" by (simp add: withdraws_same same_tokens_rest)
    with assms(2) have "keys_ok u e" "later u s e" by (auto simp: withdraws_def)
    with step_session(1) show ?thesis by (auto elim!: keys_ok_mono)
  qed (rule w; auto intro: withdraws_authenticate withdraws_revoke_client withdraws_revoke_token withdraws_ceilings
      withdraws_purge_all withdraws_same same_tokens_rest)+
qed

lemma mcp_steps_later:
  assumes "mcp_steps pu hash may (u, s) (v, e)" "keys_ok u s"
  shows "keys_ok v e \<and> later u s e \<and> set u \<subseteq> set v"
  using assms(1)
proof (induction "(v, e)" arbitrary: v e rule: rtranclp_induct)
  case base
  with assms(2) show ?case by simp
next
  case (step y)
  obtain w f where y: "y = (w, f)" by (cases y)
  from step(3) y have 1: "keys_ok w f" "later u s f" "set u \<subseteq> set w" by auto
  from mcp_step_later [OF step(2)[unfolded y] 1(1)] have 2: "keys_ok v e" "later w f e" "set w \<subseteq> set v" by auto
  from later_trans [OF assms(2) 1(2) later_mono [OF 2(2) 1(3)]] 1 2 show ?case by auto
qed

lemma empty_keys_ok: "keys_ok [] empty_auth"
  by (simp add: keys_ok_def empty_auth_def)

end
