(* ===== verification/McpReplay.thy ===== *)
theory McpReplay
  imports McpLater
begin

text \<open>
  Token families: all tokens of a family share principal, client and fate; a replayed code or refresh
  token ends the whole family for good.
\<close>

section \<open>Families share their fate\<close>

definition family_views :: "auth_db \<Rightarrow> (u8 list \<times> int \<times> rstr \<times> bool) set" where
  "family_views s =
     (\<lambda>r. (tk_family r, tk_principal r, tk_client r, tk_revoked_at r = None)) ` set (au_access s)
     \<union> (\<lambda>r. (rf_family r, rf_principal r, rf_client r, rf_revoked_at r = None)) ` set (au_refresh s)"

definition families_ok :: "auth_db \<Rightarrow> bool" where
  "families_ok s \<longleftrightarrow> (\<forall>x\<in>family_views s. \<forall>y\<in>family_views s. fst x = fst y \<longrightarrow> x = y)"

lemma families_ok_subset: "families_ok s \<Longrightarrow> family_views e \<subseteq> family_views s \<Longrightarrow> families_ok e"
  by (auto simp: families_ok_def)

lemma family_views_revoke:
  assumes "\<And>r. pa r = P (tk_family r) (tk_principal r) (tk_client r)"
    and "\<And>r. pr r = P (rf_family r) (rf_principal r) (rf_client r)"
  shows "family_views (revoke_tokens pa pr now s) = (\<lambda>(f, p, c, l). (f, p, c, l \<and> \<not> P f p c)) ` family_views s"
proof -
  have 1: "(\<lambda>r. (tk_family r, tk_principal r, tk_client r, tk_revoked_at r = None)) `
      (\<lambda>r. if pa r \<and> tk_revoked_at r = None then r\<lparr>tk_revoked_at := Some now\<rparr> else r) ` A
    = (\<lambda>(f, p, c, l). (f, p, c, l \<and> \<not> P f p c)) `
        (\<lambda>r. (tk_family r, tk_principal r, tk_client r, tk_revoked_at r = None)) ` A" for A
    unfolding image_image by (rule image_cong) (auto simp: assms(1))
  have 2: "(\<lambda>r. (rf_family r, rf_principal r, rf_client r, rf_revoked_at r = None)) `
      (\<lambda>r. if pr r \<and> rf_revoked_at r = None then r\<lparr>rf_revoked_at := Some now\<rparr> else r) ` A
    = (\<lambda>(f, p, c, l). (f, p, c, l \<and> \<not> P f p c)) `
        (\<lambda>r. (rf_family r, rf_principal r, rf_client r, rf_revoked_at r = None)) ` A" for A
    unfolding image_image by (rule image_cong) (auto simp: assms(2))
  show ?thesis
    by (simp add: family_views_def revoke_tokens_def set_update_where image_Un 1 2 del: if_image_distrib)
qed

lemma families_ok_revoke:
  assumes "families_ok s" "\<And>r. pa r = P (tk_family r) (tk_principal r) (tk_client r)"
    and "\<And>r. pr r = P (rf_family r) (rf_principal r) (rf_client r)"
  shows "families_ok (revoke_tokens pa pr now s)"
  using assms(1) unfolding families_ok_def family_views_revoke [OF assms(2,3)] by fastforce

lemma families_ok_revoke_family: "families_ok s \<Longrightarrow> families_ok (revoke_family fam now s)"
  unfolding revoke_family_def by (rule families_ok_revoke [where P = "\<lambda>f p c. f = fam"]) auto

lemma family_views_same: "same_tokens s e \<Longrightarrow> family_views e = family_views s"
  by (simp add: same_tokens_def family_views_def)

lemma families_ok_frames [simp]:
  "families_ok (s\<lparr>au_codes := t\<rparr>) = families_ok s"
  "families_ok (s\<lparr>au_authorizations := z\<rparr>) = families_ok s"
  by (simp_all add: families_ok_def family_views_def)

lemma families_ok_invalidate:
  assumes "families_ok s"
  shows "families_ok (invalidate_excess_grants p cid allowed now s)"
proof -
  have 1: "families_ok (fold (\<lambda>c e. if scopes_fit (co_scopes c) allowed then e
      else e\<lparr>au_codes := delete_where (\<lambda>r. co_hash r = co_hash c) (au_codes e)\<rparr>) xs s)" if "families_ok s" for xs s
    using that by (induction xs arbitrary: s) simp_all
  have 2: "families_ok (fold (\<lambda>(fam, scopes) e. if scopes_fit scopes allowed then e else revoke_family fam now e) xs s)"
    if "families_ok s" for xs s
    using that by (induction xs arbitrary: s) (auto simp: families_ok_revoke_family)
  show ?thesis unfolding invalidate_excess_grants_def Let_def using 1 2 assms by blast
qed

lemma mcp_step_families:
  assumes "mcp_step pu hash may (u, s) (v, e)" "keys_ok u s" "families_ok s"
  shows "families_ok e"
proof -
  have same: "same_tokens s e \<Longrightarrow> families_ok e"
    using assms(3) families_ok_subset family_views_same by blast
  from assms(1) show ?thesis
  proof cases
    case (step_issue code rc g challenge expires now a iid d)
    from step_issue(2) have "family_views e = family_views s"
      by (rule issue_Inr) (simp add: family_views_def)
    with assms(3) show ?thesis by (simp add: families_ok_def)
  next
    case (step_exchange ex now res)
    from step_exchange(2) show ?thesis
    proof (cases rule: exchange_cases)
      case refused
      then show ?thesis using assms(3) families_ok_revoke_family by (auto split: option.splits)
    next
      case (granted row g principal)
      then have "family_views e = insert (hash (ex_refresh ex), co_principal row, ex_client ex, True) (family_views s)"
        by (auto simp: family_views_def)
      moreover have "fst x \<noteq> hash (ex_refresh ex)" if "x \<in> family_views s" for x
        using that step_exchange(4) keys_okD(6,7) [OF assms(2)] by (fastforce simp: family_views_def)
      ultimately show ?thesis using assms(3) unfolding families_ok_def by (metis fst_conv insertE)
    qed
  next
    case (step_authenticate tok resource now res)
    have "(\<lambda>r. (tk_family r, tk_principal r, tk_client r, tk_revoked_at r = None)) `
        set (update_where P (\<lambda>r. r\<lparr>tk_last_used_at := Some now\<rparr>) (au_access s))
      = (\<lambda>r. (tk_family r, tk_principal r, tk_client r, tk_revoked_at r = None)) ` set (au_access s)" for P
      by (rule image_update_where) simp
    note touched = this
    from step_authenticate(2) show ?thesis
    proof (cases rule: authenticate_cases)
      case (accepted row principal)
      then have "family_views e = family_views s" by (simp add: family_views_def touched)
      with assms(3) show ?thesis by (simp add: families_ok_def)
    qed (use assms(3) in simp)
  next
    case (step_rotate ro now out)
    from step_rotate(2) show ?thesis
    proof (cases rule: rotate_cases)
      case refused
      then show ?thesis using assms(3) families_ok_revoke_family by (auto split: option.splits)
    next
      case scope
      with assms(3) show ?thesis by simp
    next
      case (rotated row access)
      have "family_views e \<subseteq> family_views s"
        using rotated(2-4) unfolding family_views_def rotated(8,9)
        by (auto simp: set_update_where refresh_matches_def refresh_usable_def image_iff intro!: bexI [of _ row])
      with families_ok_subset assms(3) show ?thesis by blast
    qed
  next
    case (step_revoke_client iss sub cid now)
    from step_revoke_client(2) show ?thesis
    proof (cases rule: revoke_client_cases)
      case (revoked a iid i)
      have "families_ok (revoke_tokens (\<lambda>r. tk_principal r = actor_id a \<and> tk_client r = cid)
          (\<lambda>r. rf_principal r = actor_id a \<and> rf_client r = cid) now s)"
        by (rule families_ok_revoke [OF assms(3), where P = "\<lambda>f q c. q = actor_id a \<and> c = cid"]) auto
      with revoked(3) show ?thesis by simp
    qed (use assms(3) in simp)
  next
    case (step_revoke_token tok cid now)
    then show ?thesis using assms(3) families_ok_revoke_family
      by (auto simp: revoke_token_def Let_def split: list.splits)
  next
    case (step_principal_ceiling act scopes expected now c)
    then obtain s1 rvn where "replace_principal_setting act scopes expected now s = Inr (rvn, s1)"
      and e: "e = invalidate_excess_grants (actor_id act) None scopes now s1"
      by (auto simp: replace_principal_scope_ceiling_def rbind_Inr_iff)
    then have "family_views s1 = family_views s"
      by (auto simp: replace_principal_setting_def Let_def family_views_def split: if_splits option.splits)
    then have "families_ok s1" using assms(3) by (simp add: families_ok_def)
    then show ?thesis unfolding e by (rule families_ok_invalidate)
  next
    case (step_client_ceiling act cid scopes expected now c)
    then obtain s1 rvn where "replace_client_setting act cid scopes expected now s = Inr (rvn, s1)"
      and e: "e = invalidate_excess_grants (actor_id act) (Some cid) scopes now s1"
      by (auto simp: replace_client_scope_ceiling_def rbind_Inr_iff split: if_splits)
    then have "family_views s1 = family_views s"
      by (auto simp: replace_client_setting_def Let_def family_views_def split: if_splits option.splits)
    then have "families_ok s1" using assms(3) by (simp add: families_ok_def)
    then show ?thesis unfolding e by (rule families_ok_invalidate)
  next
    case (step_delete_ceiling act cid expected)
    then have "family_views e = family_views s"
      by (auto simp: delete_client_scope_ceiling_def rbind_Inr_iff Let_def family_views_def split: if_splits)
    with assms(3) show ?thesis by (simp add: families_ok_def)
  next
    case (step_purge pending now cutoff)
    have "family_views (purge_mcp_state now cutoff s1) \<subseteq> family_views s1" for s1
      by (auto simp: family_views_def purge_mcp_state_def purge_clients_def purge_client_authorizations_def
          purge_authorization_codes_def purge_refresh_tokens_def purge_access_tokens_def set_delete_where)
    then have "family_views e \<subseteq> family_views s"
      unfolding step_purge(2) family_views_same [OF purge_all_same(1)]
      using family_views_same [OF purge_all_same(2)] by blast
    with families_ok_subset assms(3) show ?thesis by blast
  qed (rule same; auto intro: same_tokens_rest)+
qed

section \<open>Reachable states\<close>

definition mcp_ok :: "mcp_state \<Rightarrow> bool" where
  "mcp_ok us \<longleftrightarrow> (case us of (u, s) \<Rightarrow> keys_ok u s \<and> families_ok s)"

lemma mcp_steps_ok:
  assumes "mcp_steps pu hash may us vs" "mcp_ok us"
  shows "mcp_ok vs"
  using assms
proof (induction rule: rtranclp_induct)
  case (step y z)
  then show ?case
    using mcp_step_later mcp_step_families by (cases y; cases z) (auto simp: mcp_ok_def)
qed simp

lemma empty_mcp_ok: "mcp_ok ([], empty_auth)"
  using empty_keys_ok by (simp add: mcp_ok_def families_ok_def family_views_def empty_auth_def)

section \<open>Dead families\<close>

definition family_dead :: "u8 list \<Rightarrow> auth_db \<Rightarrow> bool" where
  "family_dead fam s \<longleftrightarrow> list_all (\<lambda>r. tk_family r = fam \<longrightarrow> tk_revoked_at r \<noteq> None) (au_access s)
     \<and> list_all (\<lambda>r. rf_family r = fam \<longrightarrow> rf_revoked_at r \<noteq> None) (au_refresh s)"

lemma family_dead_later:
  assumes "later u s e" "family_dead fam s" "fam \<in> set u"
  shows "family_dead fam e"
proof -
  have g: "\<not> growing u s fam" using assms(2,3)
    by (auto simp: growing_def exists_where_iff family_dead_def list_all_iff)
  have 1: "tk_revoked_at r \<noteq> None" if "r \<in> set (au_access e)" "tk_family r = fam" for r
    using laterD(2) [OF assms(1) that(1)] assms(2) that(2) g by (auto simp: family_dead_def list_all_iff)
  have 2: "rf_revoked_at r \<noteq> None" if "r \<in> set (au_refresh e)" "rf_family r = fam" for r
    using laterD(3) [OF assms(1) that(1)] assms(2) that(2) g by (auto simp: family_dead_def list_all_iff)
  from 1 2 show ?thesis by (simp add: family_dead_def list_all_iff)
qed

lemma family_dead_revoked: "family_dead fam (revoke_family fam now s)"
  unfolding family_dead_def revoke_family_def revoke_tokens_def
  by (simp add: list_all_update_where) (simp add: list_all_iff)

lemma family_dead_if_none: "\<not> token_in s fam \<Longrightarrow> family_dead fam s"
  by (auto simp: token_in_def family_dead_def list_all_iff exists_where_iff)

lemma families_ok_dead:
  assumes "(fam, p, c, False) \<in> family_views s" "families_ok s"
  shows "family_dead fam s"
proof -
  have "\<not> l" if "(fam, q, b, l) \<in> family_views s" for q b l
    using assms that unfolding families_ok_def by fastforce
  then have "tk_revoked_at r \<noteq> None" if "r \<in> set (au_access s)" "tk_family r = fam" for r
    using that by (force simp: family_views_def)
  moreover have "rf_revoked_at r \<noteq> None" if "r \<in> set (au_refresh s)" "rf_family r = fam" for r
    using that \<open>\<And>q b l. (fam, q, b, l) \<in> family_views s \<Longrightarrow> \<not> l\<close> by (force simp: family_views_def)
  ultimately show ?thesis by (simp add: family_dead_def list_all_iff)
qed

lemma access_family_later:
  assumes "keys_ok u s" "later u s e" "a \<in> set (au_access s)" "r \<in> set (au_access e)" "tk_hash r = tk_hash a"
  shows "tk_family r = tk_family a"
proof -
  have "tk_hash r \<in> set u" using keys_okD(6) [OF assms(1,3)] assms(5) by simp
  with laterD(2) [OF assms(2,4)] obtain x where x: "x \<in> set (au_access s)" "tk_hash x = tk_hash r"
      "tk_family x = tk_family r"
    by blast
  with assms(3,5) keys_okD(2) [OF assms(1)] have "x = a" by (auto simp: distinct_map inj_on_def)
  with x show ?thesis by simp
qed

lemma refresh_family_later:
  assumes "keys_ok u s" "later u s e" "a \<in> set (au_refresh s)" "r \<in> set (au_refresh e)" "rf_hash r = rf_hash a"
  shows "rf_family r = rf_family a \<and> rf_client r = rf_client a \<and> rf_resource r = rf_resource a
    \<and> (rf_rotated_at a \<noteq> None \<longrightarrow> rf_rotated_at r \<noteq> None)"
proof -
  have "rf_hash r \<in> set u" using keys_okD(7) [OF assms(1,3)] assms(5) by simp
  with laterD(3) [OF assms(2,4)] obtain x where x: "x \<in> set (au_refresh s)" "rf_hash x = rf_hash r"
      "rf_family x = rf_family r" "rf_client x = rf_client r" "rf_resource x = rf_resource r" "rf_rotated_at x \<noteq> None \<longrightarrow> rf_rotated_at r \<noteq> None"
    by blast
  with assms(3,5) keys_okD(3) [OF assms(1)] have "x = a" by (auto simp: distinct_map inj_on_def)
  with x show ?thesis by simp
qed

text \<open>Once the family is dead, a token of it opens nothing.\<close>

lemma dead_access_refused:
  assumes "family_dead fam s" "\<And>r. r \<in> set (au_access s) \<Longrightarrow> tk_hash r = hash tok \<Longrightarrow> tk_family r = fam"
  shows "authenticate_access_token pu hash tok resource now s = Inr (None, s)"
proof -
  have "find (access_usable hash tok resource now) (au_access s) = None"
    using assms by (auto simp: find_None_iff access_usable_def family_dead_def list_all_iff)
  then show ?thesis by (simp add: authenticate_access_token_def)
qed

lemma dead_refresh_refused:
  assumes "family_dead fam s"
    and "\<And>r. r \<in> set (au_refresh s) \<Longrightarrow> rf_hash r = hash (ro_refresh ro) \<Longrightarrow> rf_family r = fam"
  shows "rotate_refresh_token hash ro now s = Inr (InvalidToken, s)"
proof -
  have 1: "find (\<lambda>r. refresh_matches hash ro r \<and> refresh_usable now r) (au_refresh s) = None"
    using assms by (auto simp: find_None_iff refresh_matches_def refresh_usable_def family_dead_def list_all_iff)
  have 2: "find (\<lambda>r. refresh_matches hash ro r \<and> rf_rotated_at r \<noteq> None \<and> rf_revoked_at r = None) (au_refresh s) = None"
    using assms by (auto simp: find_None_iff refresh_matches_def family_dead_def list_all_iff)
  show ?thesis unfolding rotate_refresh_token_def Let_def 1 2 by simp
qed

end
