(* ===== verification/McpProps.thy ===== *)
theory McpProps
  imports McpReplay NoteSyncProps
begin

text \<open>The properties of codes and refresh tokens that are presented twice.\<close>

section \<open>A concrete authorization\<close>

definition sample_grant :: grant where
  "sample_grant = \<lparr>gr_principal = \<lparr>xp_issuer = issuer (sample_identity 0), xp_subject = subject (sample_identity 0)\<rparr>,
     gr_client = [1], gr_redirect = Inferred [2], gr_resource = [3], gr_scopes = [[110], [119]]\<rparr>"

definition sample_client :: registered_client where
  "sample_client = \<lparr>rc_client = \<lparr>mc_id = [1], mc_name = [65], mc_redirects = [[2]]\<rparr>, rc_method = Dynamic\<rparr>"

definition sample_exchange :: code_exchange where
  "sample_exchange = \<lparr>ex_code = [5], ex_client = [1], ex_redirect = None, ex_resource = [3], ex_challenge = [4],
     ex_access = [6], ex_refresh = [7], ex_access_expires_at = 5000, ex_refresh_expires_at = 9000\<rparr>"

definition sample_rotation :: rotation where
  "sample_rotation = \<lparr>ro_refresh = [7], ro_client = [1], ro_resource = [3], ro_requested = Some [[110]],
     ro_new_access = [8], ro_new_refresh = [9], ro_access_expires_at = 6000, ro_refresh_expires_at = 9500\<rparr>"

lemma sample_hash_eq [simp]: "a < 256 \<Longrightarrow> b < 256 \<Longrightarrow> sample_hash [a] = sample_hash [b] \<longleftrightarrow> a = b"
  by (simp add: sample_hash_def word_of_nat_eq_iff take_bit_nat_def)

lemma sample_hash_length [simp]: "length (sample_hash t) = 32"
  by (simp add: sample_hash_def)

definition sample_owner :: db where
  "sample_owner = empty_db\<lparr>db_principals := [1], db_identities := [\<lparr>ir_identity_id = 1, ir_principal = 1,
     ir_issuer = issuer (sample_identity 0), ir_subject = subject (sample_identity 0), ir_primary = True\<rparr>]\<rparr>"

definition sample_issued :: auth_db where
  "sample_issued = empty_auth\<lparr>au_db := sample_owner,
     au_clients := [\<lparr>cl_id = [1], cl_name = [65], cl_redirects = [[2]], cl_method = Dynamic, cl_registered_at = 1000\<rparr>],
     au_authorizations := [\<lparr>az_principal = 1, az_client = [1], az_granted = [110, 32, 119],
        az_authorized_at = 1000, az_last_used_at = None, az_revoked_at = None\<rparr>],
     au_codes := [\<lparr>co_hash = sample_hash [5], co_client = [1], co_redirect = [2], co_supplied = False,
        co_resource = [3], co_principal = 1, co_identity = 1, co_scopes = [110, 32, 119], co_challenge = [4],
        co_expires_at = 2000, co_consumed_at = None, co_family = None\<rparr>]\<rparr>"

definition sample_exchanged :: auth_db where
  "sample_exchanged = sample_issued\<lparr>
     au_codes := [\<lparr>co_hash = sample_hash [5], co_client = [1], co_redirect = [2], co_supplied = False,
        co_resource = [3], co_principal = 1, co_identity = 1, co_scopes = [110, 32, 119], co_challenge = [4],
        co_expires_at = 2000, co_consumed_at = Some 1500, co_family = Some (sample_hash [7])\<rparr>],
     au_access := [\<lparr>tk_hash = sample_hash [6], tk_client = [1], tk_resource = [3], tk_principal = 1,
        tk_identity = 1, tk_scopes = [110, 32, 119], tk_expires_at = 5000, tk_revoked_at = None,
        tk_last_used_at = None, tk_family = sample_hash [7]\<rparr>],
     au_refresh := [\<lparr>rf_hash = sample_hash [7], rf_client = [1], rf_resource = [3], rf_principal = 1,
        rf_identity = 1, rf_scopes = [110, 32, 119], rf_expires_at = 9000, rf_rotated_at = None,
        rf_revoked_at = None, rf_family = sample_hash [7]\<rparr>]\<rparr>"

lemmas scope_eval = split_whitespace_def split_ascii_whitespace_def split_words_def is_whitespace_def
  is_ascii_whitespace_def join_spaces_def merge_scopes_def

lemmas auth_eval = owner_known_def known_client_def exists_where_def row_by_def update_where_def
  find_authorization_def sql_insert_code_def sql_insert_access_token_def sql_insert_refresh_token_def

lemma sample_principal:
  "resolve_mcp_principal sample_parser (gr_principal sample_grant) (au_db empty_auth)
     = Inr ((actor_for_single_identity 1 (sample_identity 0), 1), sample_owner)"
  using identity_new_again [OF sample_identity_ok [of 0]]
  by (simp add: resolve_mcp_principal_def sample_grant_def empty_auth_def sample_owner_def
      resolve_or_create_in_def resolve_in_def identity_match_def insert_principal_def next_rowid_def
      principal_id_new_def empty_db_def Let_def)

lemma sample_issue:
  "issue_authorization_code sample_parser sample_hash [5] sample_client sample_grant [4] 2000 1000 empty_auth
     = Inr sample_issued"
  unfolding issue_authorization_code_def sample_principal
  by (simp add: sample_issued_def sample_client_def sample_grant_def upsert_client_def
      upsert_authorization_def empty_auth_def actor_for_single_identity_def sample_owner_def
      empty_db_def auth_eval scope_eval Let_def)

lemma sample_principal_again:
  "principal_from_identity_id sample_parser 1 (au_db sample_issued)
     = Inr \<lparr>xp_issuer = issuer (sample_identity 0), xp_subject = subject (sample_identity 0)\<rparr>"
  using sample_identity_ok [of 0]
  by (simp add: principal_from_identity_id_def sample_issued_def sample_owner_def row_by_def row_identity_def
      sample_identity_def)

lemma sample_granted:
  "exchange_authorization_code sample_parser sample_hash sample_exchange 1500 sample_issued
     = Inr (Some sample_grant, sample_exchanged)"
  using sample_principal_again
  by (simp add: exchange_authorization_code_def sample_issued_def sample_exchange_def sample_exchanged_def
      sample_grant_def code_matches_def redirect_matches_def code_usable_def sample_owner_def empty_auth_def
      empty_db_def auth_eval scope_eval Let_def)

lemma sample_rotated: "\<exists>s. rotate_refresh_token sample_hash sample_rotation 1600 sample_exchanged = Inr (Rotated [[110]], s)
    \<and> list_ex (\<lambda>r. rf_hash r = sample_hash [7]) (au_refresh s)"
  by (simp add: rotate_refresh_token_def sample_rotation_def sample_exchanged_def sample_issued_def
      refresh_matches_def refresh_usable_def sample_owner_def empty_auth_def empty_db_def auth_eval scope_eval Let_def)

lemma sample_fresh:
  "sample_hash [6] \<notin> set [sample_hash [5]]" "sample_hash [7] \<notin> set [sample_hash [5]]"
  "sample_hash [8] \<notin> set [sample_hash [6], sample_hash [7], sample_hash [5]]"
  "sample_hash [9] \<notin> set [sample_hash [6], sample_hash [7], sample_hash [5]]"
  by simp_all

lemma sample_reached:
  "mcp_steps sample_parser sample_hash any_grant ([], empty_auth) ([sample_hash [5]], sample_issued)"
  using step_issue [OF sample_issue sample_principal, where may = any_grant and u = "[]"] by auto

section \<open>Replays\<close>

text \<open>
  C16: an authorization code is worth one exchange.  A later exchange of the same code yields nothing,
  whatever happened in between; when it repeats the parameters of the first one, every token that
  descends from the first exchange is revoked for good: neither its access token nor its refresh token
  is ever accepted again.
\<close>

theorem code_replay_ends_family:
  assumes "mcp_steps pu hash any_grant ([], empty_auth) (u, s)"
    and "exchange_authorization_code pu hash ex now s = Inr (Some g, s1)"
    and "hash (ex_access ex) \<notin> set u" "hash (ex_refresh ex) \<notin> set u"
    and "mcp_steps pu hash any_grant (hash (ex_access ex) # hash (ex_refresh ex) # u, s1) (u2, s2)"
    and "ex' = ex\<lparr>ex_access := acc, ex_refresh := ref, ex_access_expires_at := t1, ex_refresh_expires_at := t2\<rparr>"
  shows "\<exists>s3. exchange_authorization_code pu hash ex' now2 s2 = Inr (None, s3)
    \<and> family_dead (hash (ex_refresh ex)) s3
    \<and> (\<forall>u4 s4. mcp_steps pu hash any_grant (u2, s3) (u4, s4) \<longrightarrow>
         family_dead (hash (ex_refresh ex)) s4
         \<and> authenticate_access_token pu hash (ex_access ex) resource now4 s4 = Inr (None, s4)
         \<and> rotate_refresh_token hash (ro\<lparr>ro_refresh := ex_refresh ex\<rparr>) now4 s4 = Inr (InvalidToken, s4))"
proof -
  let ?fam = "hash (ex_refresh ex)" let ?u1 = "hash (ex_access ex) # hash (ex_refresh ex) # u"
  have "mcp_step pu hash any_grant (u, s) (?u1, s1)" by (rule step_exchange [OF assms(2-4)])
  then have "mcp_steps pu hash any_grant (u, s) (?u1, s1)" by (rule r_into_rtranclp)
  from mcp_steps_ok [OF this mcp_steps_ok [OF assms(1) empty_mcp_ok]] have ok1: "keys_ok ?u1 s1"
    by (simp add: mcp_ok_def)
  have ok2: "keys_ok u2 s2" and l2: "later ?u1 s1 s2" and u2: "set ?u1 \<subseteq> set u2"
    using mcp_steps_later [OF assms(5) ok1] by auto
  from assms(2) obtain row where row: "row \<in> set (au_codes s)" "code_matches hash ex row" "code_usable now row"
    and acc: "\<exists>a\<in>set (au_access s1). tk_hash a = hash (ex_access ex) \<and> tk_family a = ?fam"
    and ref: "\<exists>b\<in>set (au_refresh s1). rf_hash b = hash (ex_refresh ex) \<and> rf_family b = ?fam"
    and codes: "au_codes s1 = update_where (\<lambda>r. co_hash r = hash (ex_code ex)) (\<lambda>r. r\<lparr>co_family := Some ?fam\<rparr>)
         (update_where (\<lambda>r. code_matches hash ex r \<and> code_usable now r) (\<lambda>r. r\<lparr>co_consumed_at := Some now\<rparr>) (au_codes s))"
    by (cases rule: exchange_cases) auto
  define r1 where "r1 = row\<lparr>co_consumed_at := Some now, co_family := Some ?fam\<rparr>"
  have r1: "r1 \<in> set (au_codes s1)" unfolding codes r1_def update_where_def
    using row by (auto simp: code_matches_def image_iff intro!: bexI [of _ row])
  have hash1: "co_hash r1 = hash (ex_code ex)" and cons1: "co_consumed_at r1 = Some now" "co_family r1 = Some ?fam"
    using row(2) by (auto simp: r1_def code_matches_def)
  have same: "r = r1" if r: "r \<in> set (au_codes s2)" "co_hash r = hash (ex_code ex)" for r
  proof -
    have "co_hash r \<in> set ?u1" using keys_okD(4) [OF ok1 r1] hash1 r(2) by simp
    from laterD(1) [OF l2 r(1) this] obtain x
      where x: "x \<in> set (au_codes s1)" "co_hash x = co_hash r" "co_consumed_at x \<noteq> None \<longrightarrow> r = x"
      by blast
    then have "x = r1" using r1 hash1 r(2) keys_okD(1) [OF ok1] by (auto simp: distinct_map inj_on_def)
    with x cons1 show ?thesis by simp
  qed
  have m: "code_matches hash ex' r = code_matches hash ex r" for r by (simp add: assms(6) code_matches_def)
  have match1: "code_matches hash ex r1" using row(2) by (simp add: r1_def code_matches_def redirect_matches_def)
  have h: "co_hash r = hash (ex_code ex)" if "code_matches hash ex r" for r using that by (simp add: code_matches_def)
  have none: "find (\<lambda>r. code_matches hash ex' r \<and> code_usable now2 r) (au_codes s2) = None"
    using same h cons1 by (fastforce simp: find_None_iff m code_usable_def)
  let ?s3 = "case replayed_code_family hash ex' s2 of None \<Rightarrow> s2 | Some fam \<Rightarrow> revoke_family fam now2 s2"
  have ex2: "exchange_authorization_code pu hash ex' now2 s2 = Inr (None, ?s3)"
    using none by (simp add: exchange_authorization_code_def Let_def)
  have dead: "family_dead ?fam ?s3"
  proof (cases "r1 \<in> set (au_codes s2)")
    case True
    have "find (\<lambda>r. code_matches hash ex' r \<and> co_consumed_at r \<noteq> None \<and> co_family r \<noteq> None) (au_codes s2) \<noteq> None"
      using True match1 cons1 by (auto simp: find_None_iff m)
    then obtain r where r: "find (\<lambda>r. code_matches hash ex' r \<and> co_consumed_at r \<noteq> None \<and> co_family r \<noteq> None) (au_codes s2) = Some r"
      by blast
    then have "r = r1" using same h by (auto simp: find_Some_iff m)
    with r cons1 have "replayed_code_family hash ex' s2 = Some ?fam"
      by (simp add: replayed_code_family_def)
    then show ?thesis by (simp add: family_dead_revoked)
  next
    case False
    then have "\<not> token_in s2 ?fam" using laterD(4) [OF l2 r1 _ cons1(2)] cons1 by simp
    then have "family_dead ?fam s2" by (rule family_dead_if_none)
    moreover have "replayed_code_family hash ex' s2 = None"
      using False same h by (auto simp: replayed_code_family_def m find_None_iff bind_eq_None_conv)
    ultimately show ?thesis by simp
  qed
  have w: "withdraws s2 ?s3" by (auto simp: withdraws_revoke_family split: option.split)
  then have ok3: "keys_ok u2 ?s3" and l3: "later u2 s2 ?s3" using ok2 by (auto simp: withdraws_def)
  have "family_dead ?fam s4
      \<and> authenticate_access_token pu hash (ex_access ex) resource now4 s4 = Inr (None, s4)
      \<and> rotate_refresh_token hash (ro\<lparr>ro_refresh := ex_refresh ex\<rparr>) now4 s4 = Inr (InvalidToken, s4)"
    if steps: "mcp_steps pu hash any_grant (u2, ?s3) (u4, s4)" for u4 s4
  proof -
    have l4: "later u2 ?s3 s4" using mcp_steps_later [OF steps ok3] by blast
    have l14: "later ?u1 s1 s4"
      using later_trans [OF ok1 l2 later_mono [OF later_trans [OF ok2 l3 l4] u2]] .
    have "?fam \<in> set u2" using u2 by simp
    with family_dead_later [OF l4 dead] have d4: "family_dead ?fam s4" by blast
    have a: "tk_family r = ?fam" if "r \<in> set (au_access s4)" "tk_hash r = hash (ex_access ex)" for r
      using acc access_family_later [OF ok1 l14 _ that(1)] that(2) by auto
    have b: "rf_family r = ?fam" if "r \<in> set (au_refresh s4)" "rf_hash r = hash (ex_refresh ex)" for r
      using ref refresh_family_later [OF ok1 l14 _ that(1)] that(2) by auto
    from d4 dead_access_refused [OF d4 a] dead_refresh_refused [OF d4, of hash "ro\<lparr>ro_refresh := ex_refresh ex\<rparr>"] b
    show ?thesis by simp
  qed
  with ex2 dead show ?thesis by blast
qed

lemma code_replay_ends_family_witness:
  "\<exists>s3. exchange_authorization_code sample_parser sample_hash sample_exchange 1700 sample_exchanged = Inr (None, s3)
     \<and> authenticate_access_token sample_parser sample_hash [6] [3] 1800 s3 = Inr (None, s3)"
proof -
  have eq: "sample_exchange = sample_exchange\<lparr>ex_access := [6], ex_refresh := [7], ex_access_expires_at := 5000,
      ex_refresh_expires_at := 9000\<rparr>"
    by (simp add: sample_exchange_def)
  have "hash (ex_access sample_exchange) = hash [6] \<and> hash (ex_refresh sample_exchange) = hash [7]" for hash
    by (simp add: sample_exchange_def)
  with code_replay_ends_family [OF sample_reached sample_granted _ _ rtranclp.rtrancl_refl eq, of 1700 "[3]" 1800 sample_rotation]
    sample_fresh show ?thesis
    by (auto simp: sample_exchange_def)
qed

text \<open>
  C17: a refresh token is worth one rotation.  Presenting it again is refused, whatever happened in
  between; as long as the token is still on record, presenting it again kills its whole family: every
  access token and every refresh token of the family is refused from then on, those the rotation handed
  out, those the family held when the token came back, and none is ever added to it.  (The purge keeps a
  rotated token on record while its family has a usable refresh token.)
\<close>

theorem refresh_replay_ends_family:
  assumes "mcp_steps pu hash any_grant ([], empty_auth) (u, s)"
    and "rotate_refresh_token hash ro now s = Inr (Rotated scopes, s1)"
    and "hash (ro_new_access ro) \<notin> set u" "hash (ro_new_refresh ro) \<notin> set u"
    and "mcp_steps pu hash any_grant (hash (ro_new_access ro) # hash (ro_new_refresh ro) # u, s1) (u2, s2)"
    and "ro_refresh ro' = ro_refresh ro" "ro_client ro' = ro_client ro" "ro_resource ro' = ro_resource ro"
  shows "\<exists>row s3. row \<in> set (au_refresh s) \<and> rf_hash row = hash (ro_refresh ro)
    \<and> rotate_refresh_token hash ro' now2 s2 = Inr (InvalidToken, s3)
    \<and> (list_ex (\<lambda>r. rf_hash r = hash (ro_refresh ro)) (au_refresh s2) \<longrightarrow>
        (\<forall>u4 s4. mcp_steps pu hash any_grant (u2, s3) (u4, s4) \<longrightarrow>
           family_dead (rf_family row) s4
           \<and> (\<forall>tok resource now4. tok = ro_new_access ro
                \<or> (\<exists>a\<in>set (au_access s2). tk_family a = rf_family row \<and> tk_hash a = hash tok) \<longrightarrow>
                authenticate_access_token pu hash tok resource now4 s4 = Inr (None, s4))
           \<and> (\<forall>again now4. ro_refresh again = ro_new_refresh ro
                \<or> (\<exists>b\<in>set (au_refresh s2). rf_family b = rf_family row \<and> rf_hash b = hash (ro_refresh again)) \<longrightarrow>
                rotate_refresh_token hash again now4 s4 = Inr (InvalidToken, s4))))"
proof -
  let ?u1 = "hash (ro_new_access ro) # hash (ro_new_refresh ro) # u"
  have step1: "mcp_step pu hash any_grant (u, s) (?u1, s1)" by (rule step_rotate [OF assms(2-4)])
  have ok: "mcp_ok (u, s)" by (rule mcp_steps_ok [OF assms(1) empty_mcp_ok])
  have "mcp_steps pu hash any_grant (u, s) (?u1, s1)" using step1 by (rule r_into_rtranclp)
  from mcp_steps_ok [OF this ok] have ok1: "keys_ok ?u1 s1" "families_ok s1"
    by (simp_all add: mcp_ok_def)
  from mcp_steps_ok [OF assms(5)] ok1 have ok2: "keys_ok u2 s2" "families_ok s2" by (simp_all add: mcp_ok_def)
  have l2: "later ?u1 s1 s2" and u2: "set ?u1 \<subseteq> set u2"
    using mcp_steps_later [OF assms(5) ok1(1)] by auto
  from assms(2) obtain row where row: "row \<in> set (au_refresh s)" "refresh_matches hash ro row" "refresh_usable now row"
    and acc: "\<exists>a\<in>set (au_access s1). tk_hash a = hash (ro_new_access ro) \<and> tk_family a = rf_family row"
    and new: "\<exists>b\<in>set (au_refresh s1). rf_hash b = hash (ro_new_refresh ro) \<and> rf_family b = rf_family row"
    and old: "row\<lparr>rf_rotated_at := Some now\<rparr> \<in> set (au_refresh s1)"
    by (cases rule: rotate_cases) (auto simp: set_update_where)
  let ?fam = "rf_family row"
  have h: "rf_hash row = hash (ro_refresh ro)" using row(2) by (simp add: refresh_matches_def)
  have stays: "rf_family r = ?fam \<and> rf_rotated_at r \<noteq> None"
    if "r \<in> set (au_refresh s2)" "rf_hash r = hash (ro_refresh ro)" for r
    using refresh_family_later [OF ok1(1) l2 old that(1)] that(2) h by simp
  have none: "find (\<lambda>r. refresh_matches hash ro' r \<and> refresh_usable now2 r) (au_refresh s2) = None"
    using stays assms(6) by (fastforce simp: find_None_iff refresh_matches_def refresh_usable_def)
  define hit where "hit = find (\<lambda>r. refresh_matches hash ro' r \<and> rf_rotated_at r \<noteq> None \<and> rf_revoked_at r = None) (au_refresh s2)"
  define s3 where "s3 = (case hit of None \<Rightarrow> s2 | Some r \<Rightarrow> revoke_family (rf_family r) now2 s2)"
  have rot: "rotate_refresh_token hash ro' now2 s2 = Inr (InvalidToken, s3)"
    using none by (simp add: rotate_refresh_token_def Let_def s3_def hit_def)
  have "withdraws s2 s3" by (simp add: s3_def withdraws_revoke_family split: option.split)
  then have ok3: "keys_ok u2 s3" and l3: "later u2 s2 s3" using ok2 by (auto simp: withdraws_def)
  have "family_dead ?fam s4
      \<and> (\<forall>tok resource now4. tok = ro_new_access ro
           \<or> (\<exists>a\<in>set (au_access s2). tk_family a = ?fam \<and> tk_hash a = hash tok) \<longrightarrow>
           authenticate_access_token pu hash tok resource now4 s4 = Inr (None, s4))
      \<and> (\<forall>again now4. ro_refresh again = ro_new_refresh ro
           \<or> (\<exists>b\<in>set (au_refresh s2). rf_family b = ?fam \<and> rf_hash b = hash (ro_refresh again)) \<longrightarrow>
           rotate_refresh_token hash again now4 s4 = Inr (InvalidToken, s4))"
    if stored: "list_ex (\<lambda>r. rf_hash r = hash (ro_refresh ro)) (au_refresh s2)"
      and steps: "mcp_steps pu hash any_grant (u2, s3) (u4, s4)" for u4 s4
  proof -
    from stored obtain r where r: "r \<in> set (au_refresh s2)" "rf_hash r = hash (ro_refresh ro)"
      by (auto simp: list_ex_iff)
    have client: "rf_client r = ro_client ro \<and> rf_resource r = ro_resource ro"
      using refresh_family_later [OF ok1(1) l2 old r(1)] r(2) h row(2) by (simp add: refresh_matches_def)
    have fam: "?fam \<in> set u2" using keys_okD(7) [OF ok2(1) r(1)] stays [OF r] by auto
    have dead: "family_dead ?fam s3"
    proof (cases "rf_revoked_at r")
      case None
      have "hit \<noteq> None" unfolding hit_def
        using r None client stays [OF r] assms(6-8) by (auto simp: find_None_iff refresh_matches_def)
      then obtain x where x: "hit = Some x" by blast
      then have "rf_family x = ?fam"
        using stays assms(6) by (auto simp: hit_def find_Some_iff refresh_matches_def)
      with x show ?thesis by (simp add: s3_def family_dead_revoked)
    next
      case (Some t)
      have "(?fam, rf_principal r, rf_client r, False) \<in> family_views s2"
        using r(1) Some stays [OF r] by (auto simp: family_views_def image_iff intro!: bexI [of _ r])
      then have "family_dead ?fam s2"
        using ok2(2) by (rule families_ok_dead)
      then show ?thesis using family_dead_later [OF l3 _ fam] by blast
    qed
    have l4: "later u2 s3 s4" using mcp_steps_later [OF steps ok3] by blast
    have l14: "later ?u1 s1 s4"
      using later_trans [OF ok1(1) l2 later_mono [OF later_trans [OF ok2(1) l3 l4] u2]] .
    have d4: "family_dead ?fam s4" by (rule family_dead_later [OF l4 dead fam])
    have l24: "later u2 s2 s4" by (rule later_trans [OF ok2(1) l3 l4])
    have a: "tk_family x = ?fam" if "x \<in> set (au_access s4)" "tk_hash x = hash tok"
        "tok = ro_new_access ro \<or> (\<exists>y\<in>set (au_access s2). tk_family y = ?fam \<and> tk_hash y = hash tok)" for x tok
      using that(2,3) acc access_family_later [OF ok1(1) l14 _ that(1)] access_family_later [OF ok2(1) l24 _ that(1)]
      by auto
    have b: "rf_family x = ?fam" if "x \<in> set (au_refresh s4)" "rf_hash x = hash (ro_refresh again)"
        "ro_refresh again = ro_new_refresh ro
           \<or> (\<exists>y\<in>set (au_refresh s2). rf_family y = ?fam \<and> rf_hash y = hash (ro_refresh again))" for x again
      using that(2,3) new refresh_family_later [OF ok1(1) l14 _ that(1)] refresh_family_later [OF ok2(1) l24 _ that(1)]
      by auto
    have "authenticate_access_token pu hash tok resource now4 s4 = Inr (None, s4)"
      if "tok = ro_new_access ro \<or> (\<exists>a\<in>set (au_access s2). tk_family a = ?fam \<and> tk_hash a = hash tok)"
      for tok resource now4
      by (rule dead_access_refused [OF d4]) (use a that in blast)
    moreover have "rotate_refresh_token hash again now4 s4 = Inr (InvalidToken, s4)"
      if "ro_refresh again = ro_new_refresh ro
        \<or> (\<exists>b\<in>set (au_refresh s2). rf_family b = ?fam \<and> rf_hash b = hash (ro_refresh again))" for again now4
      by (rule dead_refresh_refused [OF d4]) (use b that in blast)
    ultimately show ?thesis using d4 by blast
  qed
  with rot row(1) h show ?thesis by blast
qed

lemma sample_refresh_fresh:
  "sample_hash (ro_new_access sample_rotation) \<notin> set [sample_hash [6], sample_hash [7], sample_hash [5]]"
  "sample_hash (ro_new_refresh sample_rotation) \<notin> set [sample_hash [6], sample_hash [7], sample_hash [5]]"
  by (simp_all add: sample_rotation_def)

lemma sample_exchange_reached:
  "mcp_steps sample_parser sample_hash any_grant ([], empty_auth)
     ([sample_hash [6], sample_hash [7], sample_hash [5]], sample_exchanged)"
proof -
  have "mcp_step sample_parser sample_hash any_grant ([sample_hash [5]], sample_issued)
      (sample_hash (ex_access sample_exchange) # sample_hash (ex_refresh sample_exchange) # [sample_hash [5]], sample_exchanged)"
    by (rule step_exchange [OF sample_granted]) (simp_all add: sample_exchange_def)
  with sample_reached show ?thesis by (auto simp: sample_exchange_def intro: rtranclp.rtrancl_into_rtrancl)
qed

lemma refresh_replay_ends_family_witness:
  "\<exists>s1 s3. rotate_refresh_token sample_hash sample_rotation 1600 sample_exchanged = Inr (Rotated [[110]], s1)
     \<and> rotate_refresh_token sample_hash sample_rotation 1700 s1 = Inr (InvalidToken, s3)
     \<and> authenticate_access_token sample_parser sample_hash [8] [3] 1800 s3 = Inr (None, s3)"
proof -
  obtain s1 where s1: "rotate_refresh_token sample_hash sample_rotation 1600 sample_exchanged = Inr (Rotated [[110]], s1)"
      "list_ex (\<lambda>r. rf_hash r = sample_hash (ro_refresh sample_rotation)) (au_refresh s1)"
    using sample_rotated by (auto simp: sample_rotation_def)
  from refresh_replay_ends_family [OF sample_exchange_reached s1(1) sample_refresh_fresh rtranclp.rtrancl_refl refl refl refl]
  obtain s3 where "rotate_refresh_token sample_hash sample_rotation 1700 s1 = Inr (InvalidToken, s3)"
    "authenticate_access_token sample_parser sample_hash (ro_new_access sample_rotation) [3] 1800 s3 = Inr (None, s3)"
    using s1(2) rtranclp.rtrancl_refl by blast
  with s1(1) show ?thesis by (auto simp: sample_rotation_def)
qed

end
