(* ===== verification/McpConsent.thy ===== *)
theory McpConsent
  imports McpProps
begin

text \<open>
  What a token may do: it never exceeds what its user consented to for its client, a lowered ceiling
  holds for every token of the user, and a granted code yields a token for exactly the granted scopes.
\<close>

section \<open>Grants\<close>

text \<open>Every code and token as (principal, client, usable, scopes).\<close>

definition code_view :: "code_row \<Rightarrow> int \<times> rstr \<times> bool \<times> rstr set" where
  "code_view r = (co_principal r, co_client r, co_consumed_at r = None, set (split_whitespace (co_scopes r)))"

definition access_view :: "access_token_row \<Rightarrow> int \<times> rstr \<times> bool \<times> rstr set" where
  "access_view r = (tk_principal r, tk_client r, tk_revoked_at r = None, set (split_whitespace (tk_scopes r)))"

definition refresh_view :: "refresh_token_row \<Rightarrow> int \<times> rstr \<times> bool \<times> rstr set" where
  "refresh_view r = (rf_principal r, rf_client r, rf_revoked_at r = None, set (split_whitespace (rf_scopes r)))"

definition grant_views :: "auth_db \<Rightarrow> (int \<times> rstr \<times> bool \<times> rstr set) set" where
  "grant_views s = code_view ` set (au_codes s) \<union> access_view ` set (au_access s) \<union> refresh_view ` set (au_refresh s)"

fun covers :: "int \<times> rstr \<times> bool \<times> rstr set \<Rightarrow> int \<times> rstr \<times> bool \<times> rstr set \<Rightarrow> bool" where
  "covers (p, c, l, w) (p', c', l', w') \<longleftrightarrow> p = p' \<and> c = c' \<and> (l' \<longrightarrow> l) \<and> w' \<subseteq> w"

definition narrower :: "auth_db \<Rightarrow> auth_db \<Rightarrow> bool" where
  "narrower s e \<longleftrightarrow> (\<forall>y\<in>grant_views e. \<exists>x\<in>grant_views s. covers x y)"

lemma covers_refl [simp]: "covers x x"
  by (cases x rule: prod_cases4) simp

lemma covers_trans: "covers x y \<Longrightarrow> covers y z \<Longrightarrow> covers x z"
  by (cases x rule: prod_cases4; cases y rule: prod_cases4; cases z rule: prod_cases4) auto

lemma narrower_trans [trans]: "narrower s e \<Longrightarrow> narrower e f \<Longrightarrow> narrower s f"
  unfolding narrower_def using covers_trans by blast

lemma narrower_subset: "grant_views e \<subseteq> grant_views s \<Longrightarrow> narrower s e"
  unfolding narrower_def using covers_refl by blast

lemma narrower_refl [simp]: "narrower s s"
  by (rule narrower_subset) simp

lemma narrower_tables:
  assumes "\<And>r. r \<in> set (au_codes e) \<Longrightarrow> \<exists>x\<in>grant_views s. covers x (code_view r)"
    and "\<And>r. r \<in> set (au_access e) \<Longrightarrow> \<exists>x\<in>grant_views s. covers x (access_view r)"
    and "\<And>r. r \<in> set (au_refresh e) \<Longrightarrow> \<exists>x\<in>grant_views s. covers x (refresh_view r)"
  shows "narrower s e"
  unfolding narrower_def grant_views_def using assms by (auto simp: grant_views_def)

lemma grant_viewsI:
  "r \<in> set (au_codes s) \<Longrightarrow> code_view r \<in> grant_views s"
  "a \<in> set (au_access s) \<Longrightarrow> access_view a \<in> grant_views s"
  "b \<in> set (au_refresh s) \<Longrightarrow> refresh_view b \<in> grant_views s"
  by (simp_all add: grant_views_def)

lemma covered:
  "r \<in> set (au_codes s) \<Longrightarrow> \<exists>x\<in>grant_views s. covers x (code_view r)"
  "a \<in> set (au_access s) \<Longrightarrow> \<exists>x\<in>grant_views s. covers x (access_view a)"
  "b \<in> set (au_refresh s) \<Longrightarrow> \<exists>x\<in>grant_views s. covers x (refresh_view b)"
  using grant_viewsI covers_refl by blast+

lemma narrower_frame:
  "au_codes e = au_codes s \<Longrightarrow> au_access e = au_access s \<Longrightarrow> au_refresh e = au_refresh s \<Longrightarrow> narrower s e"
  by (rule narrower_subset) (simp add: grant_views_def)

lemma narrower_revoke: "narrower s (revoke_tokens pa pr now s)"
proof (rule narrower_tables)
  fix r assume "r \<in> set (au_access (revoke_tokens pa pr now s))"
  then obtain x where x: "x \<in> set (au_access s)"
      "r = (if pa x \<and> tk_revoked_at x = None then x\<lparr>tk_revoked_at := Some now\<rparr> else x)"
    by (auto simp: revoke_tokens_def update_where_def)
  then have "covers (access_view x) (access_view r)" by (simp add: access_view_def)
  with x(1) grant_viewsI(2) show "\<exists>x\<in>grant_views s. covers x (access_view r)" by blast
next
  fix r assume "r \<in> set (au_refresh (revoke_tokens pa pr now s))"
  then obtain x where x: "x \<in> set (au_refresh s)"
      "r = (if pr x \<and> rf_revoked_at x = None then x\<lparr>rf_revoked_at := Some now\<rparr> else x)"
    by (auto simp: revoke_tokens_def update_where_def)
  then have "covers (refresh_view x) (refresh_view r)" by (simp add: refresh_view_def)
  with x(1) grant_viewsI(3) show "\<exists>x\<in>grant_views s. covers x (refresh_view r)" by blast
qed (use covered(1) in simp)

lemma narrower_revoke_family: "narrower s (revoke_family fam now s)"
  unfolding revoke_family_def by (rule narrower_revoke)

lemma narrower_subtables:
  assumes "set (au_codes e) \<subseteq> set (au_codes s)" "set (au_access e) \<subseteq> set (au_access s)"
    "set (au_refresh e) \<subseteq> set (au_refresh s)"
  shows "narrower s e"
  by (rule narrower_subset) (use assms in \<open>auto simp: grant_views_def\<close>)

lemma narrower_delete_codes: "narrower s (s\<lparr>au_codes := delete_where P (au_codes s)\<rparr>)"
  by (rule narrower_subtables) (auto simp: set_delete_where)

lemma narrower_authorizations: "narrower s (s\<lparr>au_authorizations := z\<rparr>)"
  by (rule narrower_frame) simp_all

lemma fold_narrower: "(\<And>x e. narrower e (f x e)) \<Longrightarrow> narrower s (fold f xs s)"
proof (induction xs arbitrary: s)
  case (Cons x xs)
  have "narrower s (f x s)" by (rule Cons.prems)
  also have "narrower \<dots> (fold f xs (f x s))" by (rule Cons.IH) (rule Cons.prems)
  finally show ?case by simp
qed simp

lemma narrower_invalidate: "narrower s (invalidate_excess_grants p cid allowed now s)"
proof -
  have 1: "narrower s (fold (\<lambda>c e. if scopes_fit (co_scopes c) allowed then e
      else e\<lparr>au_codes := delete_where (\<lambda>r. co_hash r = co_hash c) (au_codes e)\<rparr>) xs s)" for xs s
    by (rule fold_narrower) (simp add: narrower_delete_codes)
  have 2: "narrower s (fold (\<lambda>(fam, scopes) e. if scopes_fit scopes allowed then e else revoke_family fam now e) xs s)" for xs s
    by (rule fold_narrower) (simp add: narrower_revoke_family split: prod.split)
  show ?thesis unfolding invalidate_excess_grants_def Let_def by (rule narrower_trans [OF 1 2])
qed

lemma scope_set_join: "set (split_whitespace (join_spaces (split_whitespace t))) = set (split_whitespace t)"
proof -
  have "split_whitespace w = [w]" if "w \<in> set (split_whitespace t)" for w
    using split_words_parts [of w is_whitespace t] that
    by (intro split_scope_name) (simp add: split_whitespace_def scope_name_def)
  then show ?thesis by (force simp: split_join_spaces)
qed

lemma scope_words_join:
  "set access \<subseteq> set (split_whitespace t) \<Longrightarrow> set (split_whitespace (join_spaces access)) \<subseteq> set (split_whitespace t)"
proof -
  assume a: "set access \<subseteq> set (split_whitespace t)"
  have "split_whitespace w = [w]" if "w \<in> set access" for w
    using split_words_parts [of w is_whitespace t] that a
    by (intro split_scope_name) (auto simp: split_whitespace_def scope_name_def)
  with a show ?thesis by (force simp: split_join_spaces)
qed

lemma narrower_exchange:
  assumes "exchange_authorization_code pu hash ex now s = Inr (res, e)"
  shows "narrower s e"
  using assms
proof (cases rule: exchange_cases)
  case refused
  then show ?thesis by (simp add: narrower_revoke_family split: option.split)
next
  case (granted row g principal)
  have c: "co_client row = ex_client ex" using granted(4) by (simp add: code_matches_def)
  have row: "code_view row \<in> grant_views s" using granted(3) by (rule grant_viewsI)
  show ?thesis
  proof (rule narrower_tables)
    fix r assume "r \<in> set (au_codes e)"
    then obtain x where x: "x \<in> set (au_codes s)" and
      r: "r = (let y = (if code_matches hash ex x \<and> code_usable now x then x\<lparr>co_consumed_at := Some now\<rparr> else x) in
         if co_hash y = hash (ex_code ex) then y\<lparr>co_family := Some (hash (ex_refresh ex))\<rparr> else y)"
      unfolding granted(13) by (auto simp: update_where_def Let_def)
    have "covers (code_view x) (code_view r)" by (simp add: r code_view_def Let_def)
    with x grant_viewsI(1) show "\<exists>x\<in>grant_views s. covers x (code_view r)" by blast
  next
    fix r assume "r \<in> set (au_access e)"
    then consider "r \<in> set (au_access s)" | "access_view r = (co_principal row, ex_client ex, True, set (split_whitespace (co_scopes row)))"
      unfolding granted(11) by (auto simp: access_view_def scope_set_join)
    then show "\<exists>x\<in>grant_views s. covers x (access_view r)"
      by cases (erule covered, use row granted(5) c in \<open>force simp: code_view_def code_usable_def\<close>)
  next
    fix r assume "r \<in> set (au_refresh e)"
    then consider "r \<in> set (au_refresh s)" | "refresh_view r = (co_principal row, ex_client ex, True, set (split_whitespace (co_scopes row)))"
      unfolding granted(12) by (auto simp: refresh_view_def scope_set_join)
    then show "\<exists>x\<in>grant_views s. covers x (refresh_view r)"
      by cases (erule covered, use row granted(5) c in \<open>force simp: code_view_def code_usable_def\<close>)
  qed
qed

lemma narrower_rotate:
  assumes "rotate_refresh_token hash ro now s = Inr (out, e)"
  shows "narrower s e"
  using assms
proof (cases rule: rotate_cases)
  case refused
  then show ?thesis by (simp add: narrower_revoke_family split: option.split)
next
  case (rotated row access)
  have c: "rf_client row = ro_client ro" using rotated(3) by (simp add: refresh_matches_def)
  have row: "refresh_view row \<in> grant_views s" using rotated(2) by (rule grant_viewsI)
  have live: "rf_revoked_at row = None" using rotated(4) by (simp add: refresh_usable_def)
  show ?thesis
  proof (rule narrower_tables)
    fix r assume "r \<in> set (au_codes e)"
    with grant_viewsI(1) covers_refl show "\<exists>x\<in>grant_views s. covers x (code_view r)" unfolding rotated(10) by blast
  next
    fix r assume "r \<in> set (au_access e)"
    then consider "r \<in> set (au_access s)" | "access_view r = (rf_principal row, ro_client ro, True, set (split_whitespace (join_spaces access)))"
      unfolding rotated(8) by (auto simp: access_view_def)
    then show "\<exists>x\<in>grant_views s. covers x (access_view r)"
    proof cases
      case 1
      then show ?thesis by (rule covered)
    next
      case 2
      with live c scope_words_join [OF rotated(5)] have "covers (refresh_view row) (access_view r)"
        by (simp add: refresh_view_def)
      with row show ?thesis by blast
    qed
  next
    fix r assume "r \<in> set (au_refresh e)"
    then consider x where "x \<in> set (au_refresh s)" "refresh_view r = refresh_view x"
      | "refresh_view r = (rf_principal row, ro_client ro, True, set (split_whitespace (rf_scopes row)))"
      unfolding rotated(9) by (auto simp: refresh_view_def scope_set_join update_where_def split: if_splits)
    then show "\<exists>x\<in>grant_views s. covers x (refresh_view r)"
    proof cases
      case (1 x)
      from covered(3) [OF 1(1)] show ?thesis unfolding 1(2) .
    next
      case 2
      with row live c show ?thesis by (force simp: refresh_view_def)
    qed
  qed
qed simp

lemma narrower_authenticate:
  assumes "authenticate_access_token pu hash tok resource now s = Inr (res, e)"
  shows "narrower s e"
  using assms
proof (cases rule: authenticate_cases)
  case (accepted row principal)
  have "access_view ` set (au_access e) = access_view ` set (au_access s)"
    unfolding accepted(5) by (simp add: image_update_where access_view_def)
  with accepted(5) show ?thesis by (intro narrower_subset) (simp add: grant_views_def)
qed simp

lemma narrower_revoke_client:
  assumes "revoke_client_tokens pu iss sub cid now s = Inr e"
  shows "narrower s e"
  using assms
proof (cases rule: revoke_client_cases)
  case (revoked a iid i)
  let ?s1 = "revoke_tokens (\<lambda>r. tk_principal r = actor_id a \<and> tk_client r = cid)
          (\<lambda>r. rf_principal r = actor_id a \<and> rf_client r = cid) now s"
  have "narrower ?s1 e"
    by (rule narrower_subtables) (auto simp: revoked(3) set_delete_where)
  then show ?thesis by (rule narrower_trans [OF narrower_revoke])
qed simp

lemma replace_setting_frames:
  "replace_principal_setting act scopes expected now s = Inr (rvn, e) \<Longrightarrow> same_tokens s e"
  "replace_client_setting act cid scopes expected now s = Inr (rvn, e) \<Longrightarrow> same_tokens s e"
  by (auto simp: replace_principal_setting_def replace_client_setting_def Let_def same_tokens_def
      split: if_splits option.splits)

lemma narrower_same: "same_tokens s e \<Longrightarrow> narrower s e"
  by (simp add: same_tokens_def narrower_frame)

lemma narrower_ceilings:
  "replace_principal_scope_ceiling act scopes expected now s = Inr (c, e) \<Longrightarrow> narrower s e"
  "replace_client_scope_ceiling act cid scopes expected now s = Inr (c, e) \<Longrightarrow> narrower s e"
  "delete_client_scope_ceiling act cid expected s = Inr e \<Longrightarrow> narrower s e"
proof -
  show "replace_principal_scope_ceiling act scopes expected now s = Inr (c, e) \<Longrightarrow> narrower s e"
    using narrower_trans [OF narrower_same [OF replace_setting_frames(1)] narrower_invalidate]
    by (auto simp: replace_principal_scope_ceiling_def rbind_Inr_iff)
  show "replace_client_scope_ceiling act cid scopes expected now s = Inr (c, e) \<Longrightarrow> narrower s e"
    using narrower_trans [OF narrower_same [OF replace_setting_frames(2)] narrower_invalidate]
    by (auto simp: replace_client_scope_ceiling_def rbind_Inr_iff split: if_splits)
  show "delete_client_scope_ceiling act cid expected s = Inr e \<Longrightarrow> narrower s e"
    by (rule narrower_frame)
      (auto simp: delete_client_scope_ceiling_def rbind_Inr_iff Let_def split: if_splits)
qed

lemma narrower_purge: "narrower s (snd (purge_expired_operational_state pending now cutoff s))"
proof -
  have "narrower s1 (purge_mcp_state now cutoff s1)" for s1
    by (rule narrower_subtables)
      (auto simp: purge_mcp_state_def purge_clients_def purge_client_authorizations_def
          purge_authorization_codes_def purge_refresh_tokens_def purge_access_tokens_def set_delete_where)
  with narrower_trans [OF narrower_trans [OF narrower_same [OF purge_all_same(2)]] narrower_same [OF purge_all_same(1)]]
  show ?thesis by blast
qed

text \<open>Only an authorization by the user adds anything.\<close>

lemma mcp_step_narrower:
  assumes "mcp_step pu hash may (u, s) (v, e)"
  obtains (narrows) "narrower s e"
  | (issues) a g cid where "may (actor_id a) g"
      "grant_views e = insert (actor_id a, cid, True, set (split_whitespace (join_spaces (gr_scopes g)))) (grant_views s)"
proof -
  note n = narrows
  from assms show thesis
  proof cases
    case (step_issue code rc g challenge expires now a iid d)
    from step_issue(2) show thesis
    proof (rule issue_Inr)
      fix a' iid' d' s2
      assume r: "resolve_mcp_principal pu (gr_principal g) (au_db s) = Inr ((a', iid'), d')"
        and t: "au_codes e = au_codes s @ [\<lparr>co_hash = hash code, co_client = mc_id (rc_client rc),
           co_redirect = redirect_text (gr_redirect g), co_supplied = redirect_supplied (gr_redirect g),
           co_resource = gr_resource g, co_principal = actor_id a', co_identity = iid',
           co_scopes = join_spaces (gr_scopes g), co_challenge = challenge, co_expires_at = expires,
           co_consumed_at = None, co_family = None\<rparr>]"
        "au_access e = au_access s" "au_refresh e = au_refresh s"
      from r step_issue(3) have "a' = a" by simp
      with t step_issue(4) show thesis
        by (intro issues [of a g "mc_id (rc_client rc)"]) (auto simp: grant_views_def code_view_def)
    qed
  qed (rule n; auto intro: narrower_exchange narrower_rotate narrower_authenticate narrower_revoke_client
      narrower_ceilings narrower_purge narrower_same same_tokens_rest
      simp: revoke_token_def Let_def narrower_revoke_family split: list.splits)+
qed

end
