(* ===== verification/McpGrants.thy ===== *)
theory McpGrants
  imports McpConsent
begin

text \<open>Tokens stay within consent and ceilings; the flow from consent to an accepted token.\<close>

section \<open>Consent\<close>

definition consent_ok :: "auth_db \<Rightarrow> bool" where
  "consent_ok s \<longleftrightarrow> (\<forall>(p, c, l, w)\<in>grant_views s. \<exists>z. find_authorization p c s = Some z
     \<and> w \<subseteq> set (split_whitespace (az_granted z)) \<and> (l \<longrightarrow> az_revoked_at z = None))"

lemma consent_okD:
  "consent_ok s \<Longrightarrow> (p, c, l, w) \<in> grant_views s \<Longrightarrow> \<exists>z. find_authorization p c s = Some z
     \<and> w \<subseteq> set (split_whitespace (az_granted z)) \<and> (l \<longrightarrow> az_revoked_at z = None)"
  unfolding consent_ok_def by fast

lemma consent_narrower:
  assumes "consent_ok s" "narrower s e"
    and "\<And>p c z l w. find_authorization p c s = Some z \<Longrightarrow> (p, c, l, w) \<in> grant_views e \<Longrightarrow>
      \<exists>z'. find_authorization p c e = Some z' \<and> az_granted z' = az_granted z
        \<and> (l \<and> az_revoked_at z = None \<longrightarrow> az_revoked_at z' = None)"
  shows "consent_ok e"
  unfolding consent_ok_def
proof (clarify)
  fix p c l w assume v: "(p, c, l, w) \<in> grant_views e"
  with assms(2) obtain l' w' where x: "(p, c, l', w') \<in> grant_views s" "l \<longrightarrow> l'" "w \<subseteq> w'"
    unfolding narrower_def by fastforce
  from consent_okD [OF assms(1) x(1)] obtain z where z: "find_authorization p c s = Some z"
      "w' \<subseteq> set (split_whitespace (az_granted z))" "l' \<longrightarrow> az_revoked_at z = None"
    by blast
  with assms(3) [OF z(1) v] x show "\<exists>z. find_authorization p c e = Some z
      \<and> w \<subseteq> set (split_whitespace (az_granted z)) \<and> (l \<longrightarrow> az_revoked_at z = None)"
    by force
qed

lemma consent_frame:
  "consent_ok s \<Longrightarrow> narrower s e \<Longrightarrow> au_authorizations e = au_authorizations s \<Longrightarrow> consent_ok e"
  by (rule consent_narrower) (auto simp: find_authorization_def)

lemma set_merge_scopes: "set (merge_scopes old new) = set old \<union> set new"
  unfolding merge_scopes_def by (induction new arbitrary: old) auto

lemma granted_words:
  "set (split_whitespace (join_spaces (merge_scopes (split_ascii_whitespace t) xs)))
     = set (split_whitespace t) \<union> set (split_whitespace (join_spaces xs))"
proof -
  have "set (split_whitespace t) = (\<Union>w\<in>set (split_ascii_whitespace t). set (split_whitespace w))"
    by (subst split_ascii_words [symmetric]) simp
  then show ?thesis by (simp add: split_join_spaces set_merge_scopes)
qed

lemma find_delete_where: "find P t = Some z \<Longrightarrow> \<not> D z \<Longrightarrow> find P (delete_where D t) = Some z"
  by (induction t) (auto simp: delete_where_def split: if_splits)

lemma fold_frame: "(\<And>x e. g (f x e) = g e) \<Longrightarrow> g (fold f xs s) = g s"
  by (induction xs arbitrary: s) auto

lemma invalidate_authorizations:
  "au_authorizations (invalidate_excess_grants p cid allowed now s) = au_authorizations s"
  unfolding invalidate_excess_grants_def Let_def
  by (simp add: fold_frame [where g = au_authorizations] split: prod.split)

lemma consent_purge:
  assumes "consent_ok s"
  shows "consent_ok (snd (purge_expired_operational_state pending now cutoff s))"
proof (rule consent_narrower [OF assms narrower_purge])
  let ?e = "snd (purge_expired_operational_state pending now cutoff s)"
  define s1 where "s1 = purge_authorization_codes now (purge_refresh_tokens now (purge_access_tokens now
     (purge_login_attempts now (purge_sessions now s))))"
  have az: "au_authorizations s1 = au_authorizations s"
    by (simp add: s1_def purge_authorization_codes_def purge_refresh_tokens_def purge_access_tokens_def
        purge_login_attempts_def purge_sessions_def)
  have e: "au_authorizations ?e = au_authorizations (purge_client_authorizations cutoff s1)"
    "grant_views ?e = grant_views s1"
    by (simp_all add: purge_expired_operational_state_def Let_def purge_mcp_state_def purge_clients_def s1_def
        grant_views_def purge_client_authorizations_def)
  fix p c z l w assume f: "find_authorization p c s = Some z" and v: "(p, c, l, w) \<in> grant_views ?e"
  have "az_principal z = p" "az_client z = c" using f by (auto simp: find_authorization_def find_Some_iff)
  moreover have "exists_where (\<lambda>r. co_principal r = p \<and> co_client r = c) (au_codes s1)
      \<or> exists_where (\<lambda>r. tk_principal r = p \<and> tk_client r = c) (au_access s1)
      \<or> exists_where (\<lambda>r. rf_principal r = p \<and> rf_client r = c) (au_refresh s1)"
    using v unfolding e(2) unfolding grant_views_def code_view_def access_view_def refresh_view_def exists_where_iff
    by auto
  ultimately have kept: "find_authorization p c ?e = Some z"
    using f unfolding find_authorization_def e(1) purge_client_authorizations_def
    by (simp add: az) (rule find_delete_where, auto)
  then show "\<exists>z'. find_authorization p c ?e = Some z' \<and> az_granted z' = az_granted z
        \<and> (l \<and> az_revoked_at z = None \<longrightarrow> az_revoked_at z' = None)"
    by simp
qed

lemma mcp_step_consent:
  assumes "mcp_step pu hash may (u, s) (v, e)" "consent_ok s"
  shows "consent_ok e"
proof -
  have frame: "narrower s e \<Longrightarrow> au_authorizations e = au_authorizations s \<Longrightarrow> consent_ok e"
    using consent_frame assms(2) by blast
  have same: "same_tokens s e \<Longrightarrow> consent_ok e"
    by (rule frame) (auto simp: narrower_same same_tokens_def)
  from assms(1) show ?thesis
  proof cases
    case (step_issue code rc g challenge expires now a iid d)
    from step_issue(2) show ?thesis
    proof (rule issue_Inr)
      fix a' iid' d' s2
      let ?p = "actor_id a'" let ?c = "mc_id (rc_client rc)"
      let ?old = "case find_authorization ?p ?c s of None \<Rightarrow> [] | Some r \<Rightarrow> az_granted r"
      assume up: "upsert_authorization ?p ?c (join_spaces (merge_scopes (split_ascii_whitespace ?old) (gr_scopes g)))
           now s2 = Inr (e\<lparr>au_codes := au_codes s\<rparr>)"
        and same: "same_tokens s s2"
        and t: "au_codes e = au_codes s @ [\<lparr>co_hash = hash code, co_client = ?c,
           co_redirect = redirect_text (gr_redirect g), co_supplied = redirect_supplied (gr_redirect g),
           co_resource = gr_resource g, co_principal = ?p, co_identity = iid',
           co_scopes = join_spaces (gr_scopes g), co_challenge = challenge, co_expires_at = expires,
           co_consumed_at = None, co_family = None\<rparr>]"
        "au_access e = au_access s" "au_refresh e = au_refresh s"
      have f: "find_authorization q b e = (if q = ?p \<and> b = ?c
          then Some (case find_authorization ?p ?c s of
              None \<Rightarrow> \<lparr>az_principal = ?p, az_client = ?c, az_granted = join_spaces (merge_scopes (split_ascii_whitespace ?old) (gr_scopes g)),
                 az_authorized_at = now, az_last_used_at = None, az_revoked_at = None\<rparr>
            | Some z \<Rightarrow> z\<lparr>az_granted := join_spaces (merge_scopes (split_ascii_whitespace ?old) (gr_scopes g)),
                 az_authorized_at := now, az_revoked_at := None\<rparr>)
          else find_authorization q b s)" for q b
        using upsert_authorization_Inr(6) [OF up, of q b] same
        by (simp add: find_authorization_def same_tokens_def)
      have v: "grant_views e = insert (?p, ?c, True, set (split_whitespace (join_spaces (gr_scopes g)))) (grant_views s)"
        using t by (auto simp: grant_views_def code_view_def)
      show ?thesis unfolding consent_ok_def v
      proof (clarify)
        fix q b l w assume m: "(q, b, l, w) \<in> insert (?p, ?c, True, set (split_whitespace (join_spaces (gr_scopes g)))) (grant_views s)"
        show "\<exists>z. find_authorization q b e = Some z \<and> w \<subseteq> set (split_whitespace (az_granted z)) \<and> (l \<longrightarrow> az_revoked_at z = None)"
        proof (cases "q = ?p \<and> b = ?c")
          case True
          have "w \<subseteq> set (split_whitespace ?old) \<union> set (split_whitespace (join_spaces (gr_scopes g)))"
            using m consent_okD [OF assms(2), of q b l w] True by fastforce
          then show ?thesis unfolding f using True by (auto simp: granted_words split: option.splits)
        next
          case False
          with m have "(q, b, l, w) \<in> grant_views s" by auto
          with False show ?thesis unfolding f using consent_okD [OF assms(2)] by auto
        qed
      qed
    qed
  next
    case (step_exchange ex now res)
    have "au_authorizations e = au_authorizations s"
      using step_exchange(2) by (cases rule: exchange_cases) (simp_all split: option.split)
    with frame narrower_exchange [OF step_exchange(2)] show ?thesis by blast
  next
    case (step_authenticate tok resource now res)
    from step_authenticate(2) show ?thesis
    proof (cases rule: authenticate_cases)
      case (accepted row principal)
      show ?thesis
        by (rule consent_narrower [OF assms(2) narrower_authenticate [OF step_authenticate(2)]])
          (simp add: find_authorization_def accepted(5) find_authorization_update)
    qed (use assms(2) in simp)
  next
    case (step_rotate ro now out)
    have "au_authorizations e = au_authorizations s"
      using step_rotate(2) by (cases rule: rotate_cases) (simp_all split: option.split)
    with frame narrower_rotate [OF step_rotate(2)] show ?thesis by blast
  next
    case (step_revoke_client iss sub cid now)
    from step_revoke_client(2) show ?thesis
    proof (cases rule: revoke_client_cases)
      case (revoked a iid i)
      have gone: "(actor_id a, cid, True, w) \<notin> grant_views e" for w
      proof
        assume "(actor_id a, cid, True, w) \<in> grant_views e"
        then consider r where "r \<in> set (au_codes e)" "code_view r = (actor_id a, cid, True, w)"
          | r where "r \<in> set (au_access e)" "access_view r = (actor_id a, cid, True, w)"
          | r where "r \<in> set (au_refresh e)" "refresh_view r = (actor_id a, cid, True, w)"
          by (force simp: grant_views_def)
        then show False
        proof cases
          case (1 r)
          then show ?thesis by (simp add: revoked(3) set_delete_where code_view_def)
        next
          case (2 r)
          then have "r \<in> (\<lambda>x. (if (tk_principal x = actor_id a \<and> tk_client x = cid) \<and> tk_revoked_at x = None
              then x\<lparr>tk_revoked_at := Some now\<rparr> else x)) ` set (au_access s)"
            unfolding revoked(3) revoke_tokens_def by (simp add: update_where_def)
          then obtain x where "r = (if (tk_principal x = actor_id a \<and> tk_client x = cid) \<and> tk_revoked_at x = None
              then x\<lparr>tk_revoked_at := Some now\<rparr> else x)"
            by (rule imageE)
          with 2(2) show ?thesis by (simp add: access_view_def split: if_splits)
        next
          case (3 r)
          then have "r \<in> (\<lambda>x. (if (rf_principal x = actor_id a \<and> rf_client x = cid) \<and> rf_revoked_at x = None
              then x\<lparr>rf_revoked_at := Some now\<rparr> else x)) ` set (au_refresh s)"
            unfolding revoked(3) revoke_tokens_def by (simp add: update_where_def)
          then obtain x where "r = (if (rf_principal x = actor_id a \<and> rf_client x = cid) \<and> rf_revoked_at x = None
              then x\<lparr>rf_revoked_at := Some now\<rparr> else x)"
            by (rule imageE)
          with 3(2) show ?thesis by (simp add: refresh_view_def split: if_splits)
        qed
      qed
      show ?thesis
      proof (rule consent_narrower [OF assms(2) narrower_revoke_client [OF step_revoke_client(2)]])
        fix p c z l w assume z: "find_authorization p c s = Some z" and w: "(p, c, l, w) \<in> grant_views e"
        have "find_authorization p c e = Some (if p = actor_id a \<and> c = cid then z\<lparr>az_revoked_at := Some now\<rparr> else z)"
          using z by (simp add: find_authorization_def revoked(3) find_authorization_update)
        moreover have "\<not> l" if "p = actor_id a" "c = cid" using gone w that by (cases l) auto
        ultimately show "\<exists>z'. find_authorization p c e = Some z' \<and> az_granted z' = az_granted z
            \<and> (l \<and> az_revoked_at z = None \<longrightarrow> az_revoked_at z' = None)"
          by auto
      qed
    qed (use assms(2) in simp)
  next
    case (step_revoke_token tok cid now)
    show ?thesis
      by (rule frame)
        (auto simp: step_revoke_token(2) revoke_token_def Let_def narrower_revoke_family split: list.splits)
  next
    case (step_principal_ceiling act scopes expected now c)
    have "au_authorizations (invalidate_excess_grants p cid allowed now s1) = au_authorizations s1" for p cid allowed s1
      by (rule invalidate_authorizations)
    then have "au_authorizations e = au_authorizations s"
      using step_principal_ceiling(2) replace_setting_frames(1)
      by (fastforce simp: replace_principal_scope_ceiling_def rbind_Inr_iff same_tokens_def)
    with frame narrower_ceilings(1) [OF step_principal_ceiling(2)] show ?thesis by blast
  next
    case (step_client_ceiling act cid scopes expected now c)
    have "au_authorizations (invalidate_excess_grants p cid allowed now s1) = au_authorizations s1" for p cid allowed s1
      by (rule invalidate_authorizations)
    then have "au_authorizations e = au_authorizations s"
      using step_client_ceiling(2) replace_setting_frames(2)
      by (fastforce simp: replace_client_scope_ceiling_def rbind_Inr_iff same_tokens_def split: if_splits)
    with frame narrower_ceilings(2) [OF step_client_ceiling(2)] show ?thesis by blast
  next
    case (step_delete_ceiling act cid expected)
    have "au_authorizations e = au_authorizations s"
      using step_delete_ceiling(2)
      by (auto simp: delete_client_scope_ceiling_def rbind_Inr_iff Let_def split: if_splits)
    with frame narrower_ceilings(3) [OF step_delete_ceiling(2)] show ?thesis by blast
  next
    case (step_purge pending now cutoff)
    with consent_purge [OF assms(2)] show ?thesis by simp
  qed (rule same; auto intro: same_tokens_rest)+
qed

lemma mcp_steps_consent:
  assumes "mcp_steps pu hash may us vs" "consent_ok (snd us)"
  shows "consent_ok (snd vs)"
  using assms
proof (induction rule: rtranclp_induct)
  case (step y z)
  then show ?case using mcp_step_consent by (cases y; cases z) auto
qed simp

lemma empty_consent_ok: "consent_ok empty_auth"
  by (simp add: consent_ok_def grant_views_def empty_auth_def)

end
