(* ===== verification/McpAuthProps.thy ===== *)
theory McpAuthProps
  imports McpGrants
begin

text \<open>The properties of consent, of scope ceilings and of the authorization flow.\<close>

section \<open>Tokens stay within consent\<close>

text \<open>
  C18: whenever a token is accepted, its user has a standing authorization for its client that has not
  been revoked, and the scopes the token carries are among those the user consented to for that client
  - however the token was rotated and whatever else happened.
\<close>

theorem token_within_consent:
  assumes "mcp_steps pu hash any_grant ([], empty_auth) (u, s)"
    and "authenticate_access_token pu hash tok resource now s = Inr (Some a, e)"
  shows "list_ex (\<lambda>r. tk_hash r = hash tok \<and> tk_resource r = resource \<and> now < tk_expires_at r
      \<and> list_ex (\<lambda>z. az_principal z = tk_principal r \<and> az_client z = tk_client r \<and> az_revoked_at z = None
          \<and> set (an_scopes a) \<subseteq> set (split_whitespace (az_granted z))) (au_authorizations s)) (au_access s)"
  using assms(2)
proof (cases rule: authenticate_cases)
  case (accepted row principal)
  have "consent_ok s" using mcp_steps_consent [OF assms(1)] empty_consent_ok by simp
  moreover have "(tk_principal row, tk_client row, True, set (an_scopes a)) \<in> grant_views s"
    using grant_viewsI(2) [OF accepted(1)] accepted(2,4) by (simp add: access_view_def access_usable_def)
  ultimately obtain z where "find_authorization (tk_principal row) (tk_client row) s = Some z"
      "set (an_scopes a) \<subseteq> set (split_whitespace (az_granted z))" "az_revoked_at z = None"
    using consent_okD by blast
  then have "list_ex (\<lambda>z. az_principal z = tk_principal row \<and> az_client z = tk_client row \<and> az_revoked_at z = None
      \<and> set (an_scopes a) \<subseteq> set (split_whitespace (az_granted z))) (au_authorizations s)"
    by (auto simp: list_ex_iff find_authorization_def find_Some_iff)
  with accepted(1,2) show ?thesis by (auto simp: list_ex_iff access_usable_def)
qed simp

lemma sample_accepted:
  "\<exists>e. authenticate_access_token sample_parser sample_hash [6] [3] 1700 sample_exchanged
     = Inr (Some \<lparr>an_principal = \<lparr>xp_issuer = issuer (sample_identity 0), xp_subject = subject (sample_identity 0)\<rparr>,
          an_scopes = [[110], [119]]\<rparr>, e)"
  using sample_principal_again
  by (simp add: authenticate_access_token_def access_usable_def sample_exchanged_def sample_issued_def
      scope_eval Let_def)

lemma token_within_consent_witness:
  "list_ex (\<lambda>r. tk_hash r = sample_hash [6] \<and> tk_resource r = [3] \<and> 1700 < tk_expires_at r
      \<and> list_ex (\<lambda>z. az_principal z = tk_principal r \<and> az_client z = tk_client r \<and> az_revoked_at z = None
          \<and> set [[110], [119]] \<subseteq> set (split_whitespace (az_granted z))) (au_authorizations sample_exchanged))
     (au_access sample_exchanged)"
  using token_within_consent [OF sample_exchange_reached] sample_accepted by fastforce

section \<open>Ceilings\<close>

definition fits_ceiling :: "int \<Rightarrow> rstr option \<Rightarrow> rstr list \<Rightarrow> auth_db \<Rightarrow> bool" where
  "fits_ceiling p cid allowed s \<longleftrightarrow> (\<forall>(q, c, l, w)\<in>grant_views s. l \<and> in_reach p cid q c \<longrightarrow> w \<subseteq> set allowed)"

lemma fits_ceilingD: "fits_ceiling p cid allowed s \<Longrightarrow> (q, c, True, w) \<in> grant_views s \<Longrightarrow> in_reach p cid q c \<Longrightarrow> w \<subseteq> set allowed"
  unfolding fits_ceiling_def by fast

lemma fits_ceiling_narrower:
  assumes "fits_ceiling p cid allowed s" "narrower s e"
  shows "fits_ceiling p cid allowed e"
  unfolding fits_ceiling_def
proof (clarify)
  fix q c l w x assume v: "(q, c, l, w) \<in> grant_views e" and l: "l" "in_reach p cid q c" and x: "x \<in> w"
  from v assms(2) obtain l' w' where y: "(q, c, l', w') \<in> grant_views s" "l \<longrightarrow> l'" "w \<subseteq> w'"
    unfolding narrower_def by fastforce
  with l have "(q, c, True, w') \<in> grant_views s" by simp
  from fits_ceilingD [OF assms(1) this l(2)] y(3) x show "x \<in> set allowed" by blast
qed

lemma scopes_fit_words:
  assumes "scopes_fit t allowed" "list_all scope_name allowed"
  shows "set (split_whitespace t) \<subseteq> set allowed"
proof -
  have "list_all scope_name (split_ascii_whitespace t)"
    using assms by (auto simp: scopes_fit_def list_all_iff)
  from split_whitespace_ascii [OF this] assms(1) show ?thesis by (auto simp: scopes_fit_def list_all_iff)
qed

lemma kept_codes_fit:
  "r \<in> set (au_codes (fold (\<lambda>c e. if scopes_fit (co_scopes c) allowed then e
      else e\<lparr>au_codes := delete_where (\<lambda>r. co_hash r = co_hash c) (au_codes e)\<rparr>) xs s)) \<Longrightarrow>
   r \<in> set (au_codes s) \<and> (r \<in> set xs \<longrightarrow> scopes_fit (co_scopes r) allowed)"
proof (induction xs arbitrary: s)
  case (Cons x xs)
  let ?s = "if scopes_fit (co_scopes x) allowed then s
      else s\<lparr>au_codes := delete_where (\<lambda>r. co_hash r = co_hash x) (au_codes s)\<rparr>"
  have "r \<in> set (au_codes ?s) \<and> (r \<in> set xs \<longrightarrow> scopes_fit (co_scopes r) allowed)"
    by (rule Cons.IH) (use Cons.prems in simp)
  then show ?case by (auto simp: set_delete_where split: if_splits)
qed simp

lemma update_where_kept:
  assumes "a \<in> set (update_where p f t)" "\<And>r. \<not> Q (f r)" "Q a"
  shows "a \<in> set t \<and> \<not> p a"
proof -
  from assms(1) have "a \<in> (\<lambda>r. if p r then f r else r) ` set t" by (simp add: update_where_def)
  then obtain r where "a = (if p r then f r else r)" "r \<in> set t" by (rule imageE)
  with assms(2,3) show ?thesis by (cases "p r") auto
qed

lemma kept_tokens_fit:
  fixes s :: auth_db and fs :: "(u8 list \<times> rstr) list" and allowed :: "rstr list" and now :: int
  defines "f \<equiv> \<lambda>(fam, scopes) e. if scopes_fit scopes allowed then e else revoke_family fam now e"
  shows "a \<in> set (au_access (fold f fs s)) \<Longrightarrow> tk_revoked_at a = None \<Longrightarrow>
      a \<in> set (au_access s) \<and> (\<forall>(fam, sc)\<in>set fs. fam = tk_family a \<longrightarrow> scopes_fit sc allowed)"
    and "b \<in> set (au_refresh (fold f fs s)) \<Longrightarrow> rf_revoked_at b = None \<Longrightarrow>
      b \<in> set (au_refresh s) \<and> (\<forall>(fam, sc)\<in>set fs. fam = rf_family b \<longrightarrow> scopes_fit sc allowed)"
proof -
  have 1: "a \<in> set (au_access (f x s)) \<Longrightarrow> tk_revoked_at a = None \<Longrightarrow>
      a \<in> set (au_access s) \<and> (fst x = tk_family a \<longrightarrow> scopes_fit (snd x) allowed)" for x s
    using update_where_kept [where Q = "\<lambda>r. tk_revoked_at r = None" and a = a]
    by (cases x) (fastforce simp: f_def revoke_family_def revoke_tokens_def split: if_splits)
  have 2: "b \<in> set (au_refresh (f x s)) \<Longrightarrow> rf_revoked_at b = None \<Longrightarrow>
      b \<in> set (au_refresh s) \<and> (fst x = rf_family b \<longrightarrow> scopes_fit (snd x) allowed)" for x s
    using update_where_kept [where Q = "\<lambda>r. rf_revoked_at r = None" and a = b]
    by (cases x) (fastforce simp: f_def revoke_family_def revoke_tokens_def split: if_splits)
  show "a \<in> set (au_access (fold f fs s)) \<Longrightarrow> tk_revoked_at a = None \<Longrightarrow>
      a \<in> set (au_access s) \<and> (\<forall>(fam, sc)\<in>set fs. fam = tk_family a \<longrightarrow> scopes_fit sc allowed)"
  proof (induction fs arbitrary: s)
    case (Cons x fs)
    from Cons.IH [of "f x s"] Cons.prems 1 [of x s] show ?case by (cases x) auto
  qed simp
  show "b \<in> set (au_refresh (fold f fs s)) \<Longrightarrow> rf_revoked_at b = None \<Longrightarrow>
      b \<in> set (au_refresh s) \<and> (\<forall>(fam, sc)\<in>set fs. fam = rf_family b \<longrightarrow> scopes_fit sc allowed)"
  proof (induction fs arbitrary: s)
    case (Cons x fs)
    from Cons.IH [of "f x s"] Cons.prems 2 [of x s] show ?case by (cases x) auto
  qed simp
qed

lemma fits_ceiling_invalidate:
  assumes "list_all scope_name allowed"
  shows "fits_ceiling p cid allowed (invalidate_excess_grants p cid allowed now s)"
proof -
  let ?xs = "select_where (\<lambda>r. in_reach p cid (co_principal r) (co_client r) \<and> co_consumed_at r = None) (au_codes s)"
  define s1 where "s1 = fold (\<lambda>c e. if scopes_fit (co_scopes c) allowed then e
      else e\<lparr>au_codes := delete_where (\<lambda>r. co_hash r = co_hash c) (au_codes e)\<rparr>) ?xs s"
  define s2 where "s2 = fold (\<lambda>(fam, scopes) e. if scopes_fit scopes allowed then e else revoke_family fam now e)
      (excess_families p cid s1) s1"
  have codes2: "au_codes s2 = au_codes s1" unfolding s2_def
    by (rule fold_frame [where g = au_codes]) (simp split: prod.split)
  have c: "set (split_whitespace (co_scopes r)) \<subseteq> set allowed"
    if "r \<in> set (au_codes s2)" "co_consumed_at r = None" "in_reach p cid (co_principal r) (co_client r)" for r
  proof -
    have "scopes_fit (co_scopes r) allowed"
      using kept_codes_fit [OF that(1) [unfolded codes2 s1_def]] that(2,3) by (simp add: set_select_where)
    then show ?thesis by (rule scopes_fit_words [OF _ assms])
  qed
  have a: "set (split_whitespace (tk_scopes r)) \<subseteq> set allowed"
    if "r \<in> set (au_access s2)" "tk_revoked_at r = None" "in_reach p cid (tk_principal r) (tk_client r)" for r
  proof -
    note k = kept_tokens_fit(1) [OF that(1) [unfolded s2_def] that(2)]
    then have "(tk_family r, tk_scopes r) \<in> set (excess_families p cid s1)"
      using that(2,3) by (auto simp: excess_families_def set_select_where)
    with k have "scopes_fit (tk_scopes r) allowed" by fast
    then show ?thesis by (rule scopes_fit_words [OF _ assms])
  qed
  have b: "set (split_whitespace (rf_scopes r)) \<subseteq> set allowed"
    if "r \<in> set (au_refresh s2)" "rf_revoked_at r = None" "in_reach p cid (rf_principal r) (rf_client r)" for r
  proof -
    note k = kept_tokens_fit(2) [OF that(1) [unfolded s2_def] that(2)]
    then have "(rf_family r, rf_scopes r) \<in> set (excess_families p cid s1)"
      using that(2,3) by (auto simp: excess_families_def set_select_where)
    with k have "scopes_fit (rf_scopes r) allowed" by fast
    then show ?thesis by (rule scopes_fit_words [OF _ assms])
  qed
  have "fits_ceiling p cid allowed s2"
    unfolding fits_ceiling_def grant_views_def code_view_def access_view_def refresh_view_def using a b c
    by fastforce
  then show ?thesis by (simp add: invalidate_excess_grants_def Let_def s1_def s2_def)
qed

definition keeps_ceiling :: "int \<Rightarrow> rstr list \<Rightarrow> int \<Rightarrow> grant \<Rightarrow> bool" where
  "keeps_ceiling p allowed = (\<lambda>q g. q = p \<longrightarrow> set (gr_scopes g) \<subseteq> set allowed)"

lemma fits_ceiling_steps:
  assumes "mcp_steps pu hash (keeps_ceiling p allowed) us vs" "fits_ceiling p None allowed (snd us)" "list_all scope_name allowed"
  shows "fits_ceiling p None allowed (snd vs)"
  using assms(1,2)
proof (induction rule: rtranclp_induct)
  case (step y z)
  obtain u s v e where yz: "y = (u, s)" "z = (v, e)" by (cases y; cases z)
  have s: "fits_ceiling p None allowed s" using step yz by simp
  from step(2) [unfolded yz] show ?case
  proof (cases rule: mcp_step_narrower)
    case narrows
    with fits_ceiling_narrower s yz show ?thesis by simp
  next
    case (issues a g cid)
    have "set (split_whitespace (join_spaces (gr_scopes g))) \<subseteq> set allowed" if "actor_id a = p"
    proof -
      have "list_all scope_name (gr_scopes g)"
        using issues(1) that assms(3) by (auto simp: keeps_ceiling_def list_all_iff)
      with issues(1) that show ?thesis by (simp add: scope_list_roundtrip keeps_ceiling_def)
    qed
    with s yz issues(2) show ?thesis unfolding fits_ceiling_def by (auto simp: in_reach_def)
  qed
qed simp

text \<open>
  C19: once a user has lowered the ceiling for all clients, every token of that user that is accepted
  carries only scopes within the ceiling, at once and for as long as the authorizations granted from
  then on respect it - whether the token was issued before, exchanged from an older code or rotated.
\<close>

theorem lowered_ceiling_holds:
  assumes "replace_principal_scope_ceiling act scopes expected now s = Inr (c, s1)"
    and "list_all scope_name scopes"
    and "mcp_steps pu hash (keeps_ceiling (actor_id act) scopes) (u, s1) (u2, s2)"
    and "authenticate_access_token pu hash tok resource now2 s2 = Inr (Some a, e)"
    and "list_all (\<lambda>r. tk_hash r = hash tok \<longrightarrow> tk_principal r = actor_id act) (au_access s2)"
  shows "ce_scopes c = scopes \<and> set (an_scopes a) \<subseteq> set scopes"
proof -
  from assms(1) have "fits_ceiling (actor_id act) None scopes s1" and c: "ce_scopes c = scopes"
    using fits_ceiling_invalidate [OF assms(2)] by (auto simp: replace_principal_scope_ceiling_def rbind_Inr_iff)
  with fits_ceiling_steps [OF assms(3) _ assms(2)] have w: "fits_ceiling (actor_id act) None scopes s2" by simp
  from assms(4) show ?thesis
  proof (cases rule: authenticate_cases)
    case (accepted row principal)
    have "(tk_principal row, tk_client row, True, set (an_scopes a)) \<in> grant_views s2"
      using grant_viewsI(2) [OF accepted(1)] accepted(2,4) by (simp add: access_view_def access_usable_def)
    moreover have "tk_principal row = actor_id act"
      using assms(5) accepted(1,2) by (auto simp: list_all_iff access_usable_def)
    ultimately show ?thesis using fits_ceilingD [OF w] c by (simp add: in_reach_def)
  qed simp
qed

text \<open>In the sample the user lowers the ceiling to one scope; the exchanged token is withdrawn, a new one fits.\<close>

lemma sample_lowered:
  "\<exists>c s1 a e. replace_principal_scope_ceiling (actor_for_single_identity 1 (sample_identity 0)) [[110], [119]] 0 1700
       sample_exchanged = Inr (c, s1)
     \<and> authenticate_access_token sample_parser sample_hash [6] [3] 1800 s1 = Inr (Some a, e)
     \<and> list_all (\<lambda>r. tk_hash r = sample_hash [6] \<longrightarrow> tk_principal r = 1) (au_access s1)"
  using sample_principal_again
  by (simp add: replace_principal_scope_ceiling_def replace_principal_setting_def invalidate_excess_grants_def
      excess_families_def select_where_def in_reach_def scopes_fit_def actor_for_single_identity_def
      authenticate_access_token_def access_usable_def sample_exchanged_def sample_issued_def
      sample_owner_def empty_auth_def row_by_def scope_eval Let_def)

lemma lowered_ceiling_holds_witness:
  "\<exists>c s1 a e. replace_principal_scope_ceiling (actor_for_single_identity 1 (sample_identity 0)) [[110], [119]] 0 1700
       sample_exchanged = Inr (c, s1)
     \<and> authenticate_access_token sample_parser sample_hash [6] [3] 1800 s1 = Inr (Some a, e)
     \<and> set (an_scopes a) \<subseteq> {[110], [119]}"
proof -
  obtain c s1 a e where s: "replace_principal_scope_ceiling (actor_for_single_identity 1 (sample_identity 0)) [[110], [119]] 0 1700
       sample_exchanged = Inr (c, s1)"
    "authenticate_access_token sample_parser sample_hash [6] [3] 1800 s1 = Inr (Some a, e)"
    "list_all (\<lambda>r. tk_hash r = sample_hash [6] \<longrightarrow> tk_principal r = 1) (au_access s1)"
    using sample_lowered by blast
  have "list_all scope_name [[110], [119]]" by (simp add: scope_name_def is_whitespace_def)
  from lowered_ceiling_holds [OF s(1) this rtranclp.rtrancl_refl s(2)] s
  show ?thesis by (auto simp: actor_for_single_identity_def)
qed

text \<open>
  The premise on later authorizations is not idle: the ceilings are read in one transaction and the
  code is stored in another.  When the ceiling is lowered in between, the code is stored with the scopes
  decided before, and its token is accepted with a scope the ceiling denies.
\<close>

lemma ceiling_race:
  "\<exists>c s1 s2 s3 a e. replace_principal_scope_ceiling (actor_for_single_identity 1 (sample_identity 0)) [[110]] 0 900
       (empty_auth\<lparr>au_db := sample_owner\<rparr>) = Inr (c, s1)
     \<and> issue_authorization_code sample_parser sample_hash [5] sample_client sample_grant [4] 2000 1000 s1 = Inr s2
     \<and> exchange_authorization_code sample_parser sample_hash sample_exchange 1500 s2 = Inr (Some sample_grant, s3)
     \<and> authenticate_access_token sample_parser sample_hash [6] [3] 1700 s3 = Inr (Some a, e)
     \<and> ce_scopes c = [[110]] \<and> an_scopes a = [[110], [119]]"
proof -
  have p: "resolve_mcp_principal sample_parser (gr_principal sample_grant) sample_owner
      = Inr ((actor_for_single_identity 1 (sample_identity 0), 1), sample_owner)"
    using sample_identity_ok [of 0]
    by (simp add: resolve_mcp_principal_def sample_grant_def sample_owner_def resolve_or_create_in_def
        resolve_in_def identity_match_def primary_identity_row_def principal_id_new_def row_identity_def
        identity_new_def identity_ok_def principal_restore_def actor_authenticate_def actor_for_single_identity_def
        sample_identity_def Let_def)
  have q: "principal_from_identity_id sample_parser 1 sample_owner
     = Inr \<lparr>xp_issuer = issuer (sample_identity 0), xp_subject = subject (sample_identity 0)\<rparr>"
    using sample_principal_again by (simp add: sample_issued_def)
  define s1 where "s1 = empty_auth\<lparr>au_db := sample_owner, au_principal_ceilings := [\<lparr>pc_principal = 1,
     pc_scopes = [110], pc_revision = 1, pc_updated_at = 900\<rparr>]\<rparr>"
  have 1: "replace_principal_scope_ceiling (actor_for_single_identity 1 (sample_identity 0)) [[110]] 0 900
      (empty_auth\<lparr>au_db := sample_owner\<rparr>) = Inr (\<lparr>ce_scopes = [[110]], ce_revision = 1\<rparr>, s1)"
    by (simp add: replace_principal_scope_ceiling_def replace_principal_setting_def invalidate_excess_grants_def
        excess_families_def select_where_def actor_for_single_identity_def sample_owner_def empty_auth_def
        row_by_def scope_eval Let_def s1_def)
  define s2 where "s2 = sample_issued\<lparr>au_principal_ceilings := au_principal_ceilings s1\<rparr>"
  have 2: "issue_authorization_code sample_parser sample_hash [5] sample_client sample_grant [4] 2000 1000 s1 = Inr s2"
    using p by (simp add: issue_authorization_code_def s1_def s2_def sample_issued_def sample_client_def
        sample_grant_def upsert_client_def upsert_authorization_def empty_auth_def actor_for_single_identity_def
        sample_owner_def empty_db_def auth_eval scope_eval Let_def)
  define s3 where "s3 = sample_exchanged\<lparr>au_principal_ceilings := au_principal_ceilings s1\<rparr>"
  have 3: "exchange_authorization_code sample_parser sample_hash sample_exchange 1500 s2 = Inr (Some sample_grant, s3)"
    using q by (simp add: exchange_authorization_code_def s2_def s3_def sample_issued_def sample_exchange_def
        sample_exchanged_def sample_grant_def code_matches_def redirect_matches_def code_usable_def
        sample_owner_def empty_auth_def empty_db_def auth_eval scope_eval Let_def)
  have 4: "\<exists>a e. authenticate_access_token sample_parser sample_hash [6] [3] 1700 s3 = Inr (Some a, e)
      \<and> an_scopes a = [[110], [119]]"
    using q by (simp add: authenticate_access_token_def access_usable_def s3_def sample_exchanged_def
        sample_issued_def scope_eval Let_def)
  from 1 2 3 4 show ?thesis by fastforce
qed

end
