(* ===== verification/AuthFlow.thy ===== *)
theory AuthFlow
  imports McpAuthProps
begin

text \<open>From consent to an accepted token, and the life of a web session.\<close>

section \<open>The authorization code flow\<close>

lemma resolved_owner:
  assumes "principals_ok pu d0" "identity_ok pu i"
  obtains a iid d where "resolve_mcp_principal pu \<lparr>xp_issuer = issuer i, xp_subject = subject i\<rparr> d0 = Inr ((a, iid), d)"
    "actor_id a \<in> set (db_principals d)"
    "exists_where (\<lambda>r. ir_identity_id r = iid \<and> ir_principal r = actor_id a) (db_identities d)"
    "principal_from_identity_id pu iid d = Inr \<lparr>xp_issuer = issuer i, xp_subject = subject i\<rparr>"
proof -
  have new: "identity_new pu (issuer i) (subject i) = Inr i" by (rule identity_new_again [OF assms(2)])
  have from_row: "principal_from_identity_id pu iid d = Inr \<lparr>xp_issuer = issuer i, xp_subject = subject i\<rparr>"
    if "principals_ok pu d" "r \<in> set (db_identities d)" "ir_identity_id r = iid" "row_identity r = i" for d r iid
  proof -
    have "row_by ir_identity_id iid (db_identities d) = Some r"
      using that row_by_unique [of ir_identity_id "db_identities d" r] by (simp add: principals_ok_def)
    moreover have "ir_issuer r = issuer i" "ir_subject r = subject i"
      using that(4) by (auto simp: row_identity_def)
    ultimately show ?thesis using new that(4) assms(2) by (simp add: principal_from_identity_id_def)
  qed
  show thesis
  proof (cases rule: resolve_or_create_in_cases [OF assms(1), of i, case_names found new])
    case (found a iid)
    then obtain row where row: "identity_match d0 i = Some row" by auto
    from resolve_in_known [OF assms(1) row] found(2) have a: "iid = ir_identity_id row" "actor_id a = ir_principal row"
      by auto
    have r: "row \<in> set (db_identities d0)" "row_identity row = i"
      using row_by_Some [of row_identity i] row unfolding identity_match_alt by blast+
    show thesis
    proof (rule that)
      show "resolve_mcp_principal pu \<lparr>xp_issuer = issuer i, xp_subject = subject i\<rparr> d0 = Inr ((a, iid), d0)"
        using new found(1) by (simp add: resolve_mcp_principal_def)
      show "actor_id a \<in> set (db_principals d0)" using a(2) r(1) assms(1) by (auto simp: principals_ok_def)
      show "exists_where (\<lambda>r. ir_identity_id r = iid \<and> ir_principal r = actor_id a) (db_identities d0)"
        using r(1) a by (auto simp: exists_where_iff)
      show "principal_from_identity_id pu iid d0 = Inr \<lparr>xp_issuer = issuer i, xp_subject = subject i\<rparr>"
        by (rule from_row [OF assms(1) r(1) a(1) [symmetric] r(2)])
    qed
  next
    case (new pid iid e)
    note f = insert_principal_facts [OF new(2)]
    have ok: "principals_ok pu e" by (rule insert_principal_ok [OF new(2) assms(1) new(1) assms(2)])
    let ?r = "\<lparr>ir_identity_id = iid, ir_principal = pid, ir_issuer = issuer i, ir_subject = subject i, ir_primary = True\<rparr>"
    have r: "?r \<in> set (db_identities e)" using f(3) by simp
    show thesis
    proof (rule that)
      show "resolve_mcp_principal pu \<lparr>xp_issuer = issuer i, xp_subject = subject i\<rparr> d0
          = Inr ((actor_for_single_identity pid i, iid), e)"
        using \<open>identity_new pu (issuer i) (subject i) = Inr i\<close> new(3) by (simp add: resolve_mcp_principal_def)
      show "actor_id (actor_for_single_identity pid i) \<in> set (db_principals e)"
        using f(2) by (simp add: actor_for_single_identity_def)
      show "exists_where (\<lambda>r. ir_identity_id r = iid \<and> ir_principal r = actor_id (actor_for_single_identity pid i)) (db_identities e)"
        using bexI [OF _ r] by (simp add: exists_where_iff actor_for_single_identity_def)
      show "principal_from_identity_id pu iid e = Inr \<lparr>xp_issuer = issuer i, xp_subject = subject i\<rparr>"
        by (rule from_row [OF ok r]) (simp_all add: row_identity_def)
    qed
  qed
qed

definition same_method :: "registered_client \<Rightarrow> auth_db \<Rightarrow> bool" where
  "same_method rc s \<longleftrightarrow> (case row_by cl_id (mc_id (rc_client rc)) (au_clients s) of
     None \<Rightarrow> True | Some r \<Rightarrow> cl_method r = rc_method rc)"

lemma upsert_client_ok:
  assumes "same_method rc s"
  obtains e where "upsert_client (rc_client rc) (rc_method rc) now s = Inr e"
    "known_client e (mc_id (rc_client rc))" "same_tokens s e" "au_db e = au_db s"
proof (cases "row_by cl_id (mc_id (rc_client rc)) (au_clients s)")
  case None
  then show thesis
    by (intro that [of "s\<lparr>au_clients := au_clients s @ [\<lparr>cl_id = mc_id (rc_client rc), cl_name = mc_name (rc_client rc),
                  cl_redirects = mc_redirects (rc_client rc), cl_method = rc_method rc, cl_registered_at = now\<rparr>]\<rparr>"])
      (auto simp: upsert_client_def known_client_def exists_where_iff same_tokens_def)
next
  case (Some r)
  with assms have m: "cl_method r = rc_method rc" by (simp add: same_method_def)
  let ?e = "s\<lparr>au_clients := update_where (\<lambda>x. cl_id x = mc_id (rc_client rc))
      (\<lambda>x. x\<lparr>cl_name := mc_name (rc_client rc), cl_redirects := mc_redirects (rc_client rc)\<rparr>) (au_clients s)\<rparr>"
  have "known_client s (mc_id (rc_client rc))"
    using row_by_Some [OF Some] by (auto simp: known_client_def exists_where_iff)
  then have "known_client ?e (mc_id (rc_client rc))" by (simp add: known_client_def exists_where_update)
  with Some m show thesis by (intro that [of ?e]) (simp_all add: upsert_client_def same_tokens_def)
qed

lemma upsert_authorization_ok:
  assumes "known_client s c" "p \<in> set (db_principals (au_db s))"
  shows "\<exists>e. upsert_authorization p c granted now s = Inr e"
  using assms by (simp add: upsert_authorization_def)

lemma exchange_accepts:
  assumes "find (\<lambda>r. code_matches hash ex r \<and> code_usable now r) (au_codes s) = Some row"
    and "principal_from_identity_id pu (co_identity row) (au_db s) = Inr who"
    and "known_client s (ex_client ex)" "owner_known s (co_principal row) (co_identity row)"
    and "list_all (\<lambda>r. tk_hash r \<noteq> hash (ex_access ex)) (au_access s)"
    and "list_all (\<lambda>r. rf_hash r \<noteq> hash (ex_refresh ex)) (au_refresh s)"
    and "length (hash (ex_refresh ex)) = 32"
  shows "\<exists>e. exchange_authorization_code pu hash ex now s = Inr (Some
        \<lparr>gr_principal = who, gr_client = ex_client ex,
          gr_redirect = (if co_supplied row then Supplied (co_redirect row) else Inferred (co_redirect row)),
          gr_resource = ex_resource ex, gr_scopes = split_whitespace (co_scopes row)\<rparr>, e)
     \<and> au_access e = au_access s @ [\<lparr>tk_hash = hash (ex_access ex), tk_client = ex_client ex,
          tk_resource = ex_resource ex, tk_principal = co_principal row, tk_identity = co_identity row,
          tk_scopes = join_spaces (split_whitespace (co_scopes row)), tk_expires_at = ex_access_expires_at ex,
          tk_revoked_at = None, tk_last_used_at = None, tk_family = hash (ex_refresh ex)\<rparr>]
     \<and> au_db e = au_db s"
  using assms
  by (simp add: exchange_authorization_code_def Let_def sql_insert_access_token_def sql_insert_refresh_token_def
      known_client_def owner_known_def exists_where_iff list_all_iff)

text \<open>
  C20: the authorization code flow works end to end.  For a valid identity and a client registered by the
  same method, consent stores a code; presenting that code in time with the same client, resource,
  challenge and redirect URI yields the very grant that was consented to; and the access token it
  yields is accepted in time as that identity with exactly the granted scopes.
\<close>

theorem authorization_code_flow:
  assumes "principals_ok pu (au_db s)" "identity_ok pu i" "same_method rc s"
    and "gr_principal g = \<lparr>xp_issuer = issuer i, xp_subject = subject i\<rparr>" "gr_client g = mc_id (rc_client rc)"
    and "list_all scope_name (gr_scopes g)"
    and "list_all (\<lambda>r. co_hash r \<noteq> hash code) (au_codes s)"
    and "list_all (\<lambda>r. tk_hash r \<noteq> hash (ex_access ex)) (au_access s)"
    and "list_all (\<lambda>r. rf_hash r \<noteq> hash (ex_refresh ex)) (au_refresh s)"
    and "length (hash (ex_refresh ex)) = 32"
    and "ex_code ex = code" "ex_client ex = gr_client g" "ex_resource ex = gr_resource g"
    and "ex_redirect ex = (if redirect_supplied (gr_redirect g) then Some (redirect_text (gr_redirect g)) else None)"
    and "t1 < expires" "t2 < ex_access_expires_at ex"
  shows "\<exists>s1 s2 e. issue_authorization_code pu hash code rc g (ex_challenge ex) expires now s = Inr s1
    \<and> exchange_authorization_code pu hash ex t1 s1 = Inr (Some g, s2)
    \<and> authenticate_access_token pu hash (ex_access ex) (gr_resource g) t2 s2
        = Inr (Some \<lparr>an_principal = gr_principal g, an_scopes = gr_scopes g\<rparr>, e)"
proof -
  obtain a iid d where r: "resolve_mcp_principal pu (gr_principal g) (au_db s) = Inr ((a, iid), d)"
    and own: "actor_id a \<in> set (db_principals d)"
      "exists_where (\<lambda>r. ir_identity_id r = iid \<and> ir_principal r = actor_id a) (db_identities d)"
    and home: "principal_from_identity_id pu iid d = Inr (gr_principal g)"
    by (rule resolved_owner [OF assms(1,2), folded assms(4)])
  let ?c = "mc_id (rc_client rc)"
  have "same_method rc (s\<lparr>au_db := d\<rparr>)" using assms(3) by (simp add: same_method_def)
  then obtain s1 where up: "upsert_client (rc_client rc) (rc_method rc) now (s\<lparr>au_db := d\<rparr>) = Inr s1"
      "known_client s1 ?c" "same_tokens (s\<lparr>au_db := d\<rparr>) s1" "au_db s1 = d"
    by (rule upsert_client_ok) simp
  obtain s2 where az: "upsert_authorization (actor_id a) ?c (join_spaces (merge_scopes (split_ascii_whitespace
      (case find_authorization (actor_id a) ?c s1 of None \<Rightarrow> [] | Some r \<Rightarrow> az_granted r)) (gr_scopes g))) now s1 = Inr s2"
    using upsert_authorization_ok up(2) own(1) by (metis up(4))
  note z = upsert_authorization_Inr(1-5) [OF az]
  let ?row = "\<lparr>co_hash = hash code, co_client = ?c, co_redirect = redirect_text (gr_redirect g),
       co_supplied = redirect_supplied (gr_redirect g), co_resource = gr_resource g, co_principal = actor_id a,
       co_identity = iid, co_scopes = join_spaces (gr_scopes g), co_challenge = ex_challenge ex,
       co_expires_at = expires, co_consumed_at = None, co_family = None\<rparr>"
  have tabs: "au_codes s2 = au_codes s" "au_access s2 = au_access s" "au_refresh s2 = au_refresh s" "au_db s2 = d"
    using z up(3,4) by (simp_all add: same_tokens_def)
  have known: "known_client s2 ?c" "owner_known s2 (actor_id a) iid"
    using z(5) up(2) own tabs(4) by (simp_all add: known_client_def owner_known_def)
  let ?s3 = "s2\<lparr>au_codes := au_codes s @ [?row]\<rparr>"
  have iss: "issue_authorization_code pu hash code rc g (ex_challenge ex) expires now s = Inr ?s3"
    using r up(1) az known tabs(1) assms(7)
    by (simp add: issue_authorization_code_def Let_def sql_insert_code_def exists_where_iff list_all_iff)
  have none: "find (\<lambda>r. code_matches hash ex r \<and> code_usable t1 r) (au_codes s) = None"
    using assms(7,11) by (auto simp: find_None_iff code_matches_def list_all_iff)
  have hit: "code_matches hash ex ?row \<and> code_usable t1 ?row"
    using assms(5,11-15) by (simp add: code_matches_def redirect_matches_def code_usable_def)
  have words: "split_whitespace (join_spaces (gr_scopes g)) = gr_scopes g"
    by (rule scope_list_roundtrip [OF assms(6)])
  let ?tok = "\<lparr>tk_hash = hash (ex_access ex), tk_client = ?c, tk_resource = gr_resource g, tk_principal = actor_id a,
      tk_identity = iid, tk_scopes = join_spaces (gr_scopes g), tk_expires_at = ex_access_expires_at ex,
      tk_revoked_at = None, tk_last_used_at = None, tk_family = hash (ex_refresh ex)\<rparr>"
  have found: "find (\<lambda>r. code_matches hash ex r \<and> code_usable t1 r) (au_codes ?s3) = Some ?row"
    using none hit by (simp add: find_append)
  have "\<exists>e. exchange_authorization_code pu hash ex t1 ?s3 = Inr (Some g, e)
      \<and> au_access e = au_access s @ [?tok] \<and> au_db e = d"
  proof -
    have p: "principal_from_identity_id pu (co_identity ?row) (au_db ?s3) = Inr (gr_principal g)" using home tabs by simp
    have k: "known_client ?s3 (ex_client ex)" "owner_known ?s3 (co_principal ?row) (co_identity ?row)"
      using known assms(5,12) by (simp_all add: known_client_def owner_known_def)
    have fresh: "list_all (\<lambda>r. tk_hash r \<noteq> hash (ex_access ex)) (au_access ?s3)"
      "list_all (\<lambda>r. rf_hash r \<noteq> hash (ex_refresh ex)) (au_refresh ?s3)" using assms(8,9) tabs by simp_all
    have g: "\<lparr>gr_principal = gr_principal g, gr_client = ex_client ex,
        gr_redirect = (if co_supplied ?row then Supplied (co_redirect ?row) else Inferred (co_redirect ?row)),
        gr_resource = ex_resource ex, gr_scopes = split_whitespace (co_scopes ?row)\<rparr> = g"
      using words assms(12,13) by (cases g; cases "gr_redirect g") auto
    show ?thesis
      using exchange_accepts [OF found p k fresh assms(10)] unfolding g using words tabs assms(5,12,13) by simp
  qed
  then obtain s4 where ex: "exchange_authorization_code pu hash ex t1 ?s3 = Inr (Some g, s4)"
    and s4: "au_access s4 = au_access s @ [?tok]" "au_db s4 = d" by blast
  have "find (access_usable hash (ex_access ex) (gr_resource g) t2) (au_access s) = None"
    using assms(8) by (auto simp: find_None_iff access_usable_def list_all_iff)
  then have "find (access_usable hash (ex_access ex) (gr_resource g) t2) (au_access s4) = Some ?tok"
    using assms(16) by (simp add: s4(1) find_append access_usable_def)
  then have "\<exists>e. authenticate_access_token pu hash (ex_access ex) (gr_resource g) t2 s4
      = Inr (Some \<lparr>an_principal = gr_principal g, an_scopes = gr_scopes g\<rparr>, e)"
    using home words by (simp add: authenticate_access_token_def Let_def s4(2))
  with iss ex show ?thesis by blast
qed

lemma authorization_code_flow_witness:
  "\<exists>s1 s2 e. issue_authorization_code sample_parser sample_hash [5] sample_client sample_grant
       (ex_challenge sample_exchange) 2000 1000 empty_auth = Inr s1
     \<and> exchange_authorization_code sample_parser sample_hash sample_exchange 1500 s1 = Inr (Some sample_grant, s2)
     \<and> authenticate_access_token sample_parser sample_hash (ex_access sample_exchange) (gr_resource sample_grant) 1600 s2
         = Inr (Some \<lparr>an_principal = gr_principal sample_grant, an_scopes = gr_scopes sample_grant\<rparr>, e)"
  by (rule authorization_code_flow [where i = "sample_identity 0"])
    (use empty_principals_ok sample_identity_ok [of 0] in
      \<open>simp_all add: empty_auth_def same_method_def row_by_def sample_grant_def sample_client_def sample_exchange_def
        scope_name_def is_whitespace_def\<close>)

end
