(* ===== verification/SessionProps.thy ===== *)
theory SessionProps
  imports McpAuthProps
begin

text \<open>
  The life of a web session over every interleaving of the store's transactions: it never outlives the
  absolute deadline it was issued with, and once it has ended it stays ended.
\<close>

section \<open>What a step does to the sessions\<close>

definition session_kept :: "session_row \<Rightarrow> session_row \<Rightarrow> bool" where
  "session_kept r e \<longleftrightarrow> ss_hash e = ss_hash r \<and> ss_csrf e = ss_csrf r \<and> ss_identity e = ss_identity r
     \<and> ss_absolute_expires_at e = ss_absolute_expires_at r
     \<and> (ss_revoked_at r \<noteq> None \<longrightarrow> ss_revoked_at e = ss_revoked_at r)"

definition sessions_later :: "u8 list list \<Rightarrow> auth_db \<Rightarrow> auth_db \<Rightarrow> bool" where
  "sessions_later u s e \<longleftrightarrow> (\<forall>r\<in>set (au_sessions e). ss_hash r \<in> set u \<longrightarrow>
     (\<exists>x\<in>set (au_sessions s). session_kept x r))"

lemma session_kept_refl [simp]: "session_kept r r"
  by (simp add: session_kept_def)

lemma session_kept_trans: "session_kept a b \<Longrightarrow> session_kept b c \<Longrightarrow> session_kept a c"
  by (auto simp: session_kept_def)

lemma session_kept_self: "r \<in> set t \<Longrightarrow> \<exists>x\<in>set t. session_kept x r"
  using session_kept_refl by blast

lemma sessions_later_subset: "set (au_sessions e) \<subseteq> set (au_sessions s) \<Longrightarrow> sessions_later u s e"
  unfolding sessions_later_def by (blast intro: session_kept_self)

lemma sessions_later_same: "au_sessions e = au_sessions s \<Longrightarrow> sessions_later u s e"
  by (rule sessions_later_subset) simp

lemma sessions_later_update:
  assumes "au_sessions e = update_where p f (au_sessions s)" "\<And>r. p r \<Longrightarrow> session_kept r (f r)"
  shows "sessions_later u s e"
  unfolding sessions_later_def
proof (intro ballI impI)
  fix r assume "r \<in> set (au_sessions e)"
  then have "r \<in> (\<lambda>x. if p x then f x else x) ` set (au_sessions s)"
    using assms(1) by (simp add: set_update_where)
  then show "\<exists>x\<in>set (au_sessions s). session_kept x r"
  proof (rule imageE)
    fix x assume x: "r = (if p x then f x else x)" "x \<in> set (au_sessions s)"
    then have "session_kept x r" using assms(2) by simp
    with x(2) show ?thesis by blast
  qed
qed

lemma sessions_later_trans:
  assumes "sessions_later u s e" "sessions_later v e f" "set u \<subseteq> set v"
  shows "sessions_later u s f"
  unfolding sessions_later_def
proof (intro ballI impI)
  fix r assume r: "r \<in> set (au_sessions f)" "ss_hash r \<in> set u"
  with assms(2,3) obtain y where y: "y \<in> set (au_sessions e)" "session_kept y r"
    unfolding sessions_later_def by blast
  then have "ss_hash y \<in> set u" using r(2) by (simp add: session_kept_def)
  with assms(1) y show "\<exists>x\<in>set (au_sessions s). session_kept x r"
    unfolding sessions_later_def using session_kept_trans by blast
qed

lemma invalidate_sessions: "au_sessions (invalidate_excess_grants p cid allowed now s) = au_sessions s"
  unfolding invalidate_excess_grants_def Let_def
  by (simp add: fold_frame [where g = au_sessions] revoke_family_def revoke_tokens_def split: prod.split)

lemma upsert_client_sessions: "upsert_client c m now s = Inr e \<Longrightarrow> au_sessions e = au_sessions s"
  by (auto simp: upsert_client_def split: option.splits if_splits)

lemma upsert_authorization_sessions:
  "upsert_authorization p c scopes now s = Inr e \<Longrightarrow> au_sessions e = au_sessions s"
  by (auto simp: upsert_authorization_def split: if_splits)

lemma issue_sessions:
  "issue_authorization_code pu hash code rc g challenge expires now s = Inr e \<Longrightarrow> au_sessions e = au_sessions s"
  by (auto simp: issue_authorization_code_def Let_def rbind_Inr_iff sql_insert_code_Inr
      dest!: upsert_client_sessions upsert_authorization_sessions)

lemma revoke_family_sessions [simp]: "au_sessions (revoke_family fam now s) = au_sessions s"
  by (simp add: revoke_family_def revoke_tokens_def)

lemma exchange_sessions:
  "exchange_authorization_code pu hash ex now s = Inr (res, e) \<Longrightarrow> au_sessions e = au_sessions s"
  by (auto simp: exchange_authorization_code_def Let_def rbind_Inr_iff sql_insert_Inr split: option.splits)

lemma rotate_sessions: "rotate_refresh_token hash ro now s = Inr (out, e) \<Longrightarrow> au_sessions e = au_sessions s"
  by (auto simp: rotate_refresh_token_def Let_def rbind_Inr_iff sql_insert_Inr split: option.splits if_splits)

lemma authenticate_sessions:
  "authenticate_access_token pu hash tok resource now s = Inr (res, e) \<Longrightarrow> au_sessions e = au_sessions s"
  by (erule authenticate_cases) auto

lemma revoke_client_sessions:
  "revoke_client_tokens pu iss sub cid now s = Inr e \<Longrightarrow> au_sessions e = au_sessions s"
  by (erule revoke_client_cases) (auto simp: revoke_tokens_def)

lemma revoke_token_sessions: "au_sessions (revoke_token hash tok cid now s) = au_sessions s"
  by (simp add: revoke_token_def Let_def split: list.split)

lemma ceiling_sessions:
  "replace_principal_scope_ceiling act scopes expected now s = Inr (c, e) \<Longrightarrow> au_sessions e = au_sessions s"
  "replace_client_scope_ceiling act cid scopes expected now s = Inr (c, e) \<Longrightarrow> au_sessions e = au_sessions s"
  "delete_client_scope_ceiling act cid expected s = Inr e \<Longrightarrow> au_sessions e = au_sessions s"
    apply (auto simp: replace_principal_scope_ceiling_def replace_principal_setting_def Let_def rbind_Inr_iff
      invalidate_sessions split: option.splits if_splits)[1]
   apply (auto simp: replace_client_scope_ceiling_def replace_client_setting_def Let_def rbind_Inr_iff
      invalidate_sessions split: option.splits if_splits)[1]
  by (auto simp: delete_client_scope_ceiling_def Let_def rbind_Inr_iff split: if_splits)

lemma login_sessions:
  "issue_login_attempt hash att now s = Inr e \<Longrightarrow> au_sessions e = au_sessions s"
  "au_sessions (snd (consume_login_attempt hash state now s)) = au_sessions s"
  "register_client_bounded c now maximum s = Inr (b, e) \<Longrightarrow> au_sessions e = au_sessions s"
  by (auto simp: issue_login_attempt_def consume_login_attempt_def register_client_bounded_def Let_def
      split: option.splits if_splits)

lemma purge_sessions_kept:
  "set (au_sessions (snd (purge_expired_operational_state pending now cutoff s))) \<subseteq> set (au_sessions s)"
  by (auto simp: purge_expired_operational_state_def Let_def purge_mcp_state_def purge_clients_def
      purge_client_authorizations_def purge_authorization_codes_def purge_refresh_tokens_def
      purge_access_tokens_def purge_login_attempts_def purge_sessions_def delete_where_def)

lemma extend_sessions_later:
  "lookup_and_extend mk digest now window s = Inr (view, e) \<Longrightarrow> sessions_later u s e"
  by (auto simp: lookup_and_extend_def Let_def rbind_Inr_iff session_kept_def session_live_def
      split: option.splits intro!: sessions_later_update)

lemma issue_session_later:
  "sn_digest rec \<notin> set u \<Longrightarrow> sessions_later u s (snd (issue_session pu rec now s))"
  by (auto simp: issue_session_def sessions_later_def Let_def sql_insert_session_def
      split: sum.splits prod.splits if_splits intro: session_kept_refl)

lemma mcp_step_sessions:
  assumes "mcp_step pu hash may (u, s) (v, e)"
  shows "sessions_later u s e \<and> set u \<subseteq> set v"
  using assms
proof cases
  case (step_purge pending now cutoff)
  then show ?thesis using sessions_later_subset [OF purge_sessions_kept] by simp
next
  case (step_revoke_session digest now)
  have "sessions_later u s (revoke_session digest now s)"
    by (rule sessions_later_update [where p = "\<lambda>r. ss_hash r = digest \<and> ss_revoked_at r = None"
          and f = "\<lambda>r. r\<lparr>ss_revoked_at := Some now\<rparr>"]) (simp_all add: revoke_session_def session_kept_def)
  with step_revoke_session show ?thesis by simp
next
  case (step_notes d)
  then show ?thesis by (simp add: sessions_later_same)
next
  case (step_extend mk digest now window view)
  then show ?thesis by (simp add: extend_sessions_later)
next
  case (step_session rec now)
  then show ?thesis using issue_session_later [OF step_session(3)] by auto
qed (auto intro!: sessions_later_same
    dest: issue_sessions exchange_sessions rotate_sessions authenticate_sessions revoke_client_sessions
      ceiling_sessions login_sessions(1,3) simp: revoke_token_sessions login_sessions(2))

lemma mcp_steps_sessions:
  assumes "mcp_steps pu hash may x y"
  shows "sessions_later (fst x) (snd x) (snd y) \<and> set (fst x) \<subseteq> set (fst y)"
  using assms
proof (induction rule: rtranclp_induct)
  case base
  then show ?case by (simp add: sessions_later_same)
next
  case (step y z)
  have "sessions_later (fst y) (snd y) (snd z)" "set (fst y) \<subseteq> set (fst z)"
    using mcp_step_sessions [of pu hash may "fst y" "snd y" "fst z" "snd z"] step.hyps(2) by simp_all
  with step.IH show ?case using sessions_later_trans by blast
qed

section \<open>A sample session\<close>

definition sample_session :: session_record where
  "sample_session = \<lparr>sn_digest = [1], sn_csrf = replicate 32 2, sn_principal = gr_principal sample_grant,
     sn_idle_expires_at = 2000, sn_absolute_expires_at = 4000\<rparr>"

definition sample_session_db :: "int \<Rightarrow> int \<Rightarrow> auth_db" where
  "sample_session_db seen idle = empty_auth\<lparr>au_db := sample_owner, au_sessions :=
     [\<lparr>ss_hash = [1], ss_csrf = replicate 32 2, ss_principal = 1, ss_identity = 1, ss_issued_at = 1000,
       ss_last_seen_at = seen, ss_idle_expires_at = idle, ss_absolute_expires_at = 4000, ss_revoked_at = None\<rparr>]\<rparr>"

definition sample_check :: principal_check where
  "sample_check iss sub = Some \<lparr>xp_issuer = iss, xp_subject = sub\<rparr>"

lemma sample_session_issued:
  "issue_session sample_parser sample_session 1000 empty_auth = (Inr (), sample_session_db 1000 2000)"
proof -
  have "resolve_mcp_principal sample_parser (sn_principal sample_session) (au_db empty_auth)
     = Inr ((actor_for_single_identity 1 (sample_identity 0), 1), sample_owner)"
    using sample_principal by (simp add: sample_session_def)
  then show ?thesis
    by (simp add: issue_session_def sql_insert_session_def sample_session_def sample_session_db_def
        actor_for_single_identity_def sample_owner_def empty_auth_def empty_db_def auth_eval)
qed

lemma sample_session_extended:
  "lookup_and_extend sample_check [1] 1500 1000 (sample_session_db 1000 2000)
     = Inr (Some \<lparr>sv_principal = \<lparr>xp_issuer = issuer (sample_identity 0), xp_subject = subject (sample_identity 0)\<rparr>,
         sv_idle_expires_at = 2500, sv_absolute_expires_at = 4000\<rparr>, sample_session_db 1500 2500)"
  "lookup_and_extend sample_check [1] 2400 5000 (sample_session_db 1500 2500)
     = Inr (Some \<lparr>sv_principal = \<lparr>xp_issuer = issuer (sample_identity 0), xp_subject = subject (sample_identity 0)\<rparr>,
         sv_idle_expires_at = 4000, sv_absolute_expires_at = 4000\<rparr>, sample_session_db 2400 4000)"
  by (simp_all add: lookup_and_extend_def sample_session_db_def session_live_def session_principal_def Let_def
      sample_owner_def empty_auth_def sample_check_def i64_saturating_add_def i64_max_def i64_min_def auth_eval)

lemma sample_session_steps:
  "mcp_steps sample_parser sample_hash any_grant ([[1]], sample_session_db 1000 2000)
     ([[1]], sample_session_db 1500 2500)"
  using step_extend [OF sample_session_extended(1)] by (rule r_into_rtranclp)

section \<open>Ending a session\<close>

definition session_ended :: "u8 list \<Rightarrow> auth_db \<Rightarrow> bool" where
  "session_ended digest s \<longleftrightarrow> list_all (\<lambda>r. ss_hash r = digest \<longrightarrow> ss_revoked_at r \<noteq> None) (au_sessions s)"

lemma session_ended_later:
  "sessions_later u s e \<Longrightarrow> digest \<in> set u \<Longrightarrow> session_ended digest s \<Longrightarrow> session_ended digest e"
  unfolding session_ended_def list_all_iff sessions_later_def session_kept_def by metis

lemma session_ended_unusable:
  assumes "session_ended digest s"
  shows "csrf_digest digest s = Inr None"
    and "\<exists>e. lookup_and_extend mk digest now window s = Inr (None, e)"
proof -
  have "find (\<lambda>r. ss_hash r = digest \<and> ss_revoked_at r = None) (au_sessions s) = None"
    "find (session_live digest now) (au_sessions s) = None"
    using assms by (auto simp: session_ended_def list_all_iff find_None_iff session_live_def)
  then show "csrf_digest digest s = Inr None" "\<exists>e. lookup_and_extend mk digest now window s = Inr (None, e)"
    by (simp_all add: csrf_digest_def lookup_and_extend_def Let_def)
qed

lemma session_ended_update:
  assumes "au_sessions e = update_where p (\<lambda>r. r\<lparr>ss_revoked_at := Some now\<rparr>) (au_sessions s)"
    and "\<And>r. r \<in> set (au_sessions s) \<Longrightarrow> ss_hash r = digest \<Longrightarrow> ss_revoked_at r = None \<Longrightarrow> p r"
  shows "session_ended digest e"
  unfolding session_ended_def list_all_iff
proof (intro ballI impI)
  fix r assume r: "r \<in> set (au_sessions e)" "ss_hash r = digest"
  then have "r \<in> (\<lambda>x. if p x then x\<lparr>ss_revoked_at := Some now\<rparr> else x) ` set (au_sessions s)"
    using assms(1) by (simp add: set_update_where)
  then show "ss_revoked_at r \<noteq> None"
  proof (rule imageE)
    fix x assume x: "r = (if p x then x\<lparr>ss_revoked_at := Some now\<rparr> else x)" "x \<in> set (au_sessions s)"
    then show ?thesis using assms(2) [of x] r(2) by (cases "p x") auto
  qed
qed

lemma session_ended_revoke: "session_ended digest (revoke_session digest now s)"
  by (rule session_ended_update [where p = "\<lambda>r. ss_hash r = digest \<and> ss_revoked_at r = None"])
    (simp_all add: revoke_session_def)

lemma session_ended_lookup:
  assumes "lookup_and_extend mk digest now window s = Inr (None, e)"
  shows "session_ended digest e"
proof -
  have none: "find (session_live digest now) (au_sessions s) = None"
    using assms by (auto simp: lookup_and_extend_def Let_def rbind_Inr_iff split: option.splits)
  then have dead: "\<not> session_live digest now r" if "r \<in> set (au_sessions s)" for r
    using that by (simp add: find_None_iff)
  show ?thesis
  proof (rule session_ended_update)
    show "au_sessions e = update_where (\<lambda>r. ss_hash r = digest \<and> ss_revoked_at r = None
        \<and> (ss_idle_expires_at r \<le> now \<or> ss_absolute_expires_at r \<le> now))
       (\<lambda>r. r\<lparr>ss_revoked_at := Some now\<rparr>) (au_sessions s)"
      using assms none by (auto simp: lookup_and_extend_def Let_def)
  next
    fix r assume "r \<in> set (au_sessions s)" "ss_hash r = digest" "ss_revoked_at r = None"
    then show "ss_hash r = digest \<and> ss_revoked_at r = None
        \<and> (ss_idle_expires_at r \<le> now \<or> ss_absolute_expires_at r \<le> now)"
      using dead [of r] by (auto simp: session_live_def)
  qed
qed

text \<open>
  C22: the end of a session is final.  After a logout, or after a lookup that found the session expired,
  no sequence of transactions of the store brings it back: every later lookup finds nothing and no CSRF
  token is accepted for it.
\<close>

theorem session_end_is_final:
  assumes "digest \<in> set u"
    and "s' = revoke_session digest t0 s \<or> lookup_and_extend mk digest t0 window s = Inr (None, s')"
    and "mcp_steps pu hash may (u, s') (v, e)"
  shows "csrf_digest digest e = Inr None
    \<and> (\<exists>f. lookup_and_extend mk' digest now window' e = Inr (None, f))"
proof -
  have "session_ended digest s'"
    using assms(2) session_ended_revoke session_ended_lookup by blast
  then have "session_ended digest e"
    using mcp_steps_sessions [OF assms(3)] assms(1) session_ended_later by auto
  then show ?thesis by (simp add: session_ended_unusable)
qed

lemma session_end_is_final_witness:
  "csrf_digest [1] (sample_session_db 1000 2000) = Inr (Some (replicate 32 2))
   \<and> csrf_digest [1] (revoke_session [1] 1100 (sample_session_db 1000 2000)) = Inr None
   \<and> (\<exists>f. lookup_and_extend sample_check [1] 1200 500 (revoke_session [1] 1100 (sample_session_db 1000 2000))
        = Inr (None, f))"
  using session_end_is_final [of "[1]" "[[1]]" "revoke_session [1] 1100 (sample_session_db 1000 2000)" 1100
      "sample_session_db 1000 2000" sample_check 500 sample_parser sample_hash any_grant "[[1]]"
      "revoke_session [1] 1100 (sample_session_db 1000 2000)" sample_check 1200 500]
  by (simp add: csrf_digest_def sample_session_db_def empty_auth_def)

section \<open>The absolute deadline\<close>

text \<open>
  C21: a session never outlives its absolute deadline.  Whatever transactions run after it was issued, a
  lookup that finds it runs before the deadline it was issued with, reports that very deadline, and
  leaves an idle deadline that is the next idle window or the absolute deadline, whichever is earlier.
\<close>

theorem session_lifetime:
  assumes "issue_session pu rec t0 s = (Inr (), s')" "sn_digest rec \<notin> set u"
    and "mcp_steps pu hash may (sn_digest rec # u, s') (v, e)"
    and "lookup_and_extend mk (sn_digest rec) now window e = Inr (Some view, f)"
  shows "now < sn_absolute_expires_at rec \<and> sv_absolute_expires_at view = sn_absolute_expires_at rec
    \<and> sv_idle_expires_at view
        = min (sn_absolute_expires_at rec) (i64_saturating_add now (min i64_max (int window)))"
proof -
  have issued: "ss_absolute_expires_at r = sn_absolute_expires_at rec"
    if "r \<in> set (au_sessions s')" "ss_hash r = sn_digest rec" for r
    using assms(1) that
    by (auto simp: issue_session_def Let_def sql_insert_session_def exists_where_iff split: sum.splits prod.splits if_splits)
  from assms(4) obtain row where row: "find (session_live (sn_digest rec) now) (au_sessions e) = Some row"
    and view: "sv_absolute_expires_at view = ss_absolute_expires_at row"
      "sv_idle_expires_at view = min (ss_absolute_expires_at row) (i64_saturating_add now (min i64_max (int window)))"
    by (auto simp: lookup_and_extend_def Let_def rbind_Inr_iff split: option.splits)
  then have live: "row \<in> set (au_sessions e)" "ss_hash row = sn_digest rec" "now < ss_absolute_expires_at row"
    by (auto simp: find_Some_iff session_live_def)
  then obtain x where "x \<in> set (au_sessions s')" "session_kept x row"
    using mcp_steps_sessions [OF assms(3)] by (auto simp: sessions_later_def)
  with live(2) have "ss_absolute_expires_at row = sn_absolute_expires_at rec"
    using issued by (simp add: session_kept_def)
  with live view show ?thesis by simp
qed

lemma session_lifetime_witness:
  "(2400::int) < 4000 \<and> (\<exists>view f. lookup_and_extend sample_check [1] 2400 5000 (sample_session_db 1500 2500)
      = Inr (Some view, f) \<and> sv_absolute_expires_at view = 4000 \<and> sv_idle_expires_at view = 4000)"
  using session_lifetime [OF sample_session_issued, of "[]" sample_hash any_grant "[[1]]" "sample_session_db 1500 2500"
      sample_check 2400 5000] sample_session_steps sample_session_extended(2)
  by (simp add: sample_session_def i64_saturating_add_def i64_max_def i64_min_def)

end
