(* ===== verification/HookAddress.thy ===== *)
theory HookAddress
  imports Attachment
begin

text \<open>
  Where a webhook may be sent (\<open>crates/marginalis-application/src/webhooks/destination.rs\<close>) and the
  check of the resolved addresses just before a delivery (\<open>crates/marginalis-service/src/webhook.rs\<close>).
  The URL parser and the resolver are parameters.  What the address check refuses is described twice: by
  the list of network blocks it amounts to, and against the registry of RFC 6890 it cites.
\<close>

unbundle bit_operations_syntax

type_synonym u16 = "16 word"

datatype ip_addr = V4 u8 u8 u8 u8 | V6 u16 u16 u16 u16 u16 u16 u16 u16

section \<open>The standard library's address predicates\<close>

definition v4_is_unspecified :: "u8 \<Rightarrow> u8 \<Rightarrow> u8 \<Rightarrow> u8 \<Rightarrow> bool" where
  "v4_is_unspecified a b c d \<longleftrightarrow> a = 0 \<and> b = 0 \<and> c = 0 \<and> d = 0"

definition v4_is_loopback :: "u8 \<Rightarrow> bool" where
  "v4_is_loopback a \<longleftrightarrow> a = 127"

definition v4_is_private :: "u8 \<Rightarrow> u8 \<Rightarrow> bool" where
  "v4_is_private a b \<longleftrightarrow> a = 10 \<or> (a = 172 \<and> 16 \<le> b \<and> b \<le> 31) \<or> (a = 192 \<and> b = 168)"

definition v4_is_link_local :: "u8 \<Rightarrow> u8 \<Rightarrow> bool" where
  "v4_is_link_local a b \<longleftrightarrow> a = 169 \<and> b = 254"

definition v4_is_broadcast :: "u8 \<Rightarrow> u8 \<Rightarrow> u8 \<Rightarrow> u8 \<Rightarrow> bool" where
  "v4_is_broadcast a b c d \<longleftrightarrow> a = 255 \<and> b = 255 \<and> c = 255 \<and> d = 255"

definition v4_is_documentation :: "u8 \<Rightarrow> u8 \<Rightarrow> u8 \<Rightarrow> bool" where
  "v4_is_documentation a b c \<longleftrightarrow> (a = 192 \<and> b = 0 \<and> c = 2) \<or> (a = 198 \<and> b = 51 \<and> c = 100)
     \<or> (a = 203 \<and> b = 0 \<and> c = 113)"

definition v4_is_multicast :: "u8 \<Rightarrow> bool" where
  "v4_is_multicast a \<longleftrightarrow> 224 \<le> a \<and> a \<le> 239"

text \<open>\<open>to_ipv4_mapped\<close>: \<open>::ffff:a.b.c.d\<close>.\<close>

definition to_ipv4_mapped ::
  "u16 \<Rightarrow> u16 \<Rightarrow> u16 \<Rightarrow> u16 \<Rightarrow> u16 \<Rightarrow> u16 \<Rightarrow> u16 \<Rightarrow> u16 \<Rightarrow> (u8 \<times> u8 \<times> u8 \<times> u8) option" where
  "to_ipv4_mapped s0 s1 s2 s3 s4 s5 s6 s7 =
     (if s0 = 0 \<and> s1 = 0 \<and> s2 = 0 \<and> s3 = 0 \<and> s4 = 0 \<and> s5 = 0xffff
      then Some (ucast (drop_bit 8 s6), ucast s6, ucast (drop_bit 8 s7), ucast s7)
      else None)"

section \<open>Public addresses\<close>

definition v4_is_public :: "u8 \<Rightarrow> u8 \<Rightarrow> u8 \<Rightarrow> u8 \<Rightarrow> bool" where
  "v4_is_public a b c d \<longleftrightarrow> \<not> (v4_is_unspecified a b c d
     \<or> v4_is_loopback a
     \<or> v4_is_private a b
     \<or> v4_is_link_local a b
     \<or> v4_is_broadcast a b c d
     \<or> v4_is_documentation a b c
     \<or> v4_is_multicast a
     \<or> (a = 100 \<and> b AND 0b11000000 = 64)
     \<or> (a = 192 \<and> b = 0 \<and> c = 0)
     \<or> (a = 198 \<and> b AND 0b11111110 = 18)
     \<or> 240 \<le> a)"

fun is_public_webhook_address :: "ip_addr \<Rightarrow> bool" where
  "is_public_webhook_address (V4 a b c d) = v4_is_public a b c d"
| "is_public_webhook_address (V6 s0 s1 s2 s3 s4 s5 s6 s7) =
     (case to_ipv4_mapped s0 s1 s2 s3 s4 s5 s6 s7 of
        Some (a, b, c, d) \<Rightarrow> v4_is_public a b c d
      | None \<Rightarrow> \<not> ((s0 = 0 \<and> s1 = 0 \<and> s2 = 0 \<and> s3 = 0 \<and> s4 = 0 \<and> s5 = 0 \<and> s6 = 0 \<and> s7 = 0)
          \<or> (s0 = 0 \<and> s1 = 0 \<and> s2 = 0 \<and> s3 = 0 \<and> s4 = 0 \<and> s5 = 0 \<and> s6 = 0 \<and> s7 = 1)
          \<or> s0 AND 0xff00 = 0xff00
          \<or> s0 AND 0xfe00 = 0xfc00
          \<or> s0 AND 0xffc0 = 0xfe80
          \<or> (s0 = 0x2001 \<and> s1 = 0x0db8)))"

section \<open>The reference: network blocks\<close>

text \<open>An address as a number, and a block as its first address with the length of its prefix.\<close>

definition in_block :: "nat \<Rightarrow> nat \<times> nat \<Rightarrow> nat \<Rightarrow> bool" where
  "in_block width b v \<longleftrightarrow> v div 2 ^ (width - snd b) = fst b div 2 ^ (width - snd b)"

definition v4_value :: "nat \<Rightarrow> nat \<Rightarrow> nat \<Rightarrow> nat \<Rightarrow> nat" where
  "v4_value a b c d = ((a * 256 + b) * 256 + c) * 256 + d"

definition v4_blocks :: "(nat \<times> nat) list" where
  "v4_blocks =
     [(v4_value 0 0 0 0, 32), (v4_value 10 0 0 0, 8), (v4_value 100 64 0 0, 10), (v4_value 127 0 0 0, 8),
      (v4_value 169 254 0 0, 16), (v4_value 172 16 0 0, 12), (v4_value 192 0 0 0, 24), (v4_value 192 0 2 0, 24),
      (v4_value 192 168 0 0, 16), (v4_value 198 18 0 0, 15), (v4_value 198 51 100 0, 24),
      (v4_value 203 0 113 0, 24), (v4_value 224 0 0 0, 4), (v4_value 240 0 0 0, 4)]"

definition v6_value :: "nat list \<Rightarrow> nat" where
  "v6_value xs = fold (\<lambda>s v. v * 2 ^ 16 + s) xs 0"

definition v6_blocks :: "(nat \<times> nat) list" where
  "v6_blocks =
     [(0, 128), (1, 128), (0xfc00 * 2 ^ 112, 7), (0xfe80 * 2 ^ 112, 10), (0xff00 * 2 ^ 112, 8),
      ((0x2001 * 2 ^ 16 + 0x0db8) * 2 ^ 96, 32)]"

definition excluded_address :: "ip_addr \<Rightarrow> bool" where
  "excluded_address x = (case x of
     V4 a b c d \<Rightarrow> list_ex (\<lambda>k. in_block 32 k (v4_value (unat a) (unat b) (unat c) (unat d))) v4_blocks
   | V6 s0 s1 s2 s3 s4 s5 s6 s7 \<Rightarrow>
       (let v = v6_value [unat s0, unat s1, unat s2, unat s3, unat s4, unat s5, unat s6, unat s7] in
        if in_block 128 (0xffff * 2 ^ 32, 96) v
        then list_ex (\<lambda>k. in_block 32 k (v mod 2 ^ 32)) v4_blocks
        else list_ex (\<lambda>k. in_block 128 k v) v6_blocks))"

section \<open>The octet tests are the block tests\<close>

lemma and_not_mask: "w AND NOT (mask k) = push_bit k (drop_bit k w)" for w :: "'a::len word"
  by (rule bit_word_eqI) (auto simp: bit_simps)

lemma unat_and_not_mask: "unat (w AND NOT (mask k)) = 2 ^ k * (unat w div 2 ^ k)" for w :: "'a::len word"
proof -
  have "unat (push_bit k (drop_bit k w)) = take_bit LENGTH('a) (push_bit k (drop_bit k (unat w)))"
    by (simp add: unsigned_push_bit_eq unsigned_drop_bit_eq take_bit_nat_eq_self)
  also have "\<dots> = push_bit k (drop_bit k (unat w))"
  proof (rule take_bit_nat_eq_self)
    have "push_bit k (drop_bit k (unat w)) \<le> unat w"
      by (simp add: push_bit_eq_mult drop_bit_eq_div mult.commute)
    then show "push_bit k (drop_bit k (unat w)) < 2 ^ LENGTH('a)"
      using unsigned_less [of w] by (meson le_less_trans)
  qed
  finally show ?thesis by (simp add: and_not_mask push_bit_eq_mult drop_bit_eq_div mult.commute)
qed

lemma and_high_bits:
  fixes w :: "'a::len word"
  assumes "m = NOT (mask k)"
  shows "w AND m = v \<longleftrightarrow> 2 ^ k * (unat w div 2 ^ k) = unat v"
  unfolding assms unat_and_not_mask [symmetric] by (simp add: word_unat_eq_iff)

lemma octet_masks:
  "b AND 192 = 64 \<longleftrightarrow> unat b div 64 = 1" "b AND 254 = 18 \<longleftrightarrow> unat b div 2 = 9" for b :: u8
  using and_high_bits [of "192 :: u8" 6 b 64] and_high_bits [of "254 :: u8" 1 b 18]
  by (simp_all add: mask_eq_exp_minus_1)

lemma segment_masks:
  "s AND 0xff00 = 0xff00 \<longleftrightarrow> unat s div 256 = 0xff" "s AND 0xfe00 = 0xfc00 \<longleftrightarrow> unat s div 512 = 0x7e"
  "s AND 0xffc0 = 0xfe80 \<longleftrightarrow> unat s div 64 = 0x3fa" for s :: u16
  using and_high_bits [of "0xff00 :: u16" 8 s "0xff00"] and_high_bits [of "0xfe00 :: u16" 9 s "0xfc00"]
    and_high_bits [of "0xffc0 :: u16" 6 s "0xfe80"]
  by (simp_all add: mask_eq_exp_minus_1)

text \<open>The leading bits of an address number, octet by octet.\<close>

lemma v4_value_div:
  assumes "b < 256" "c < 256" "d < 256"
  shows "v4_value a b c d div 2 ^ 8 = (a * 256 + b) * 256 + c"
    and "v4_value a b c d div 2 ^ 16 = a * 256 + b"
    and "v4_value a b c d div 2 ^ 17 = a * 128 + b div 2"
    and "v4_value a b c d div 2 ^ 20 = a * 16 + b div 16"
    and "v4_value a b c d div 2 ^ 22 = a * 4 + b div 64"
    and "v4_value a b c d div 2 ^ 24 = a"
    and "v4_value a b c d div 2 ^ 28 = a div 16"
  using assms by (simp_all add: v4_value_def)

lemma two_digits: "b < k \<Longrightarrow> y < k \<Longrightarrow> a * k + b = x * k + y \<longleftrightarrow> a = x \<and> b = y" for a b x y k :: nat
proof
  assume k: "b < k" "y < k" and eq: "a * k + b = x * k + y"
  have "(a * k + b) div k = a" "(x * k + y) div k = x" using k by simp_all
  with eq have "a = x" by simp
  with eq show "a = x \<and> b = y" by simp
qed simp

lemma v4_in_block:
  assumes "b < 256" "c < 256" "d < 256"
  shows "in_block 32 (v4_value 0 0 0 0, 32) (v4_value a b c d) \<longleftrightarrow> a = 0 \<and> b = 0 \<and> c = 0 \<and> d = 0"
    and "in_block 32 (v4_value 10 0 0 0, 8) (v4_value a b c d) \<longleftrightarrow> a = 10"
    and "in_block 32 (v4_value 100 64 0 0, 10) (v4_value a b c d) \<longleftrightarrow> a = 100 \<and> b div 64 = 1"
    and "in_block 32 (v4_value 127 0 0 0, 8) (v4_value a b c d) \<longleftrightarrow> a = 127"
    and "in_block 32 (v4_value 169 254 0 0, 16) (v4_value a b c d) \<longleftrightarrow> a = 169 \<and> b = 254"
    and "in_block 32 (v4_value 172 16 0 0, 12) (v4_value a b c d) \<longleftrightarrow> a = 172 \<and> b div 16 = 1"
    and "in_block 32 (v4_value 192 0 0 0, 24) (v4_value a b c d) \<longleftrightarrow> a = 192 \<and> b = 0 \<and> c = 0"
    and "in_block 32 (v4_value 192 0 2 0, 24) (v4_value a b c d) \<longleftrightarrow> a = 192 \<and> b = 0 \<and> c = 2"
    and "in_block 32 (v4_value 192 168 0 0, 16) (v4_value a b c d) \<longleftrightarrow> a = 192 \<and> b = 168"
    and "in_block 32 (v4_value 198 18 0 0, 15) (v4_value a b c d) \<longleftrightarrow> a = 198 \<and> b div 2 = 9"
    and "in_block 32 (v4_value 198 51 100 0, 24) (v4_value a b c d) \<longleftrightarrow> a = 198 \<and> b = 51 \<and> c = 100"
    and "in_block 32 (v4_value 203 0 113 0, 24) (v4_value a b c d) \<longleftrightarrow> a = 203 \<and> b = 0 \<and> c = 113"
    and "in_block 32 (v4_value 224 0 0 0, 4) (v4_value a b c d) \<longleftrightarrow> a div 16 = 14"
    and "in_block 32 (v4_value 240 0 0 0, 4) (v4_value a b c d) \<longleftrightarrow> a div 16 = 15"
proof -
  have q: "b div 64 < 4" "b div 16 < 16" "b div 2 < 128" using assms by simp_all
  note v = in_block_def v4_value_div [OF assms, simplified] 
    v4_value_div [of 0 0 0, simplified] v4_value_div [of 64 0 0, simplified] v4_value_div [of 16 0 0, simplified] 
    v4_value_div [of 18 0 0, simplified] v4_value_div [of 254 0 0, simplified] v4_value_div [of 168 0 0, simplified] 
    v4_value_div [of 0 2 0, simplified] v4_value_div [of 51 100 0, simplified] v4_value_div [of 0 113 0, simplified]
  show "in_block 32 (v4_value 0 0 0 0, 32) (v4_value a b c d) \<longleftrightarrow> a = 0 \<and> b = 0 \<and> c = 0 \<and> d = 0"
    by (auto simp: in_block_def v4_value_def)
  show "in_block 32 (v4_value 10 0 0 0, 8) (v4_value a b c d) \<longleftrightarrow> a = 10"
    "in_block 32 (v4_value 127 0 0 0, 8) (v4_value a b c d) \<longleftrightarrow> a = 127"
    "in_block 32 (v4_value 224 0 0 0, 4) (v4_value a b c d) \<longleftrightarrow> a div 16 = 14"
    "in_block 32 (v4_value 240 0 0 0, 4) (v4_value a b c d) \<longleftrightarrow> a div 16 = 15"
    by (simp_all add: v)
  show "in_block 32 (v4_value 100 64 0 0, 10) (v4_value a b c d) \<longleftrightarrow> a = 100 \<and> b div 64 = 1"
    using two_digits [OF q(1), of 1 a 100] by (simp add: v)
  show "in_block 32 (v4_value 172 16 0 0, 12) (v4_value a b c d) \<longleftrightarrow> a = 172 \<and> b div 16 = 1"
    using two_digits [OF q(2), of 1 a 172] by (simp add: v)
  show "in_block 32 (v4_value 198 18 0 0, 15) (v4_value a b c d) \<longleftrightarrow> a = 198 \<and> b div 2 = 9"
    using two_digits [OF q(3), of 9 a 198] by (simp add: v)
  show "in_block 32 (v4_value 169 254 0 0, 16) (v4_value a b c d) \<longleftrightarrow> a = 169 \<and> b = 254"
    using two_digits [OF assms(1), of 254 a 169] by (simp add: v)
  show "in_block 32 (v4_value 192 168 0 0, 16) (v4_value a b c d) \<longleftrightarrow> a = 192 \<and> b = 168"
    using two_digits [OF assms(1), of 168 a 192] by (simp add: v)
  have three: "(a * 256 + b) * 256 + c = (x * 256 + y) * 256 + z \<longleftrightarrow> a = x \<and> b = y \<and> c = z"
    if "y < 256" "z < 256" for x y z
    using two_digits [OF assms(2) that(2)] two_digits [OF assms(1) that(1)] by metis
  show "in_block 32 (v4_value 192 0 0 0, 24) (v4_value a b c d) \<longleftrightarrow> a = 192 \<and> b = 0 \<and> c = 0"
    using three [of 0 0 192] by (simp add: v)
  show "in_block 32 (v4_value 192 0 2 0, 24) (v4_value a b c d) \<longleftrightarrow> a = 192 \<and> b = 0 \<and> c = 2"
    using three [of 0 2 192] by (simp add: v)
  show "in_block 32 (v4_value 198 51 100 0, 24) (v4_value a b c d) \<longleftrightarrow> a = 198 \<and> b = 51 \<and> c = 100"
    using three [of 51 100 198] by (simp add: v)
  show "in_block 32 (v4_value 203 0 113 0, 24) (v4_value a b c d) \<longleftrightarrow> a = 203 \<and> b = 0 \<and> c = 113"
    using three [of 0 113 203] by (simp add: v)
qed

lemma v4_special:
  "list_ex (\<lambda>k. in_block 32 k (v4_value (unat a) (unat b) (unat c) (unat d))) v4_blocks
     \<longleftrightarrow> \<not> v4_is_public a b c d" for a b c d :: u8
proof -
  have bounds: "unat b < 256" "unat c < 256" "unat d < 256" "unat a < 256"
    using unsigned_less [of a] unsigned_less [of b] unsigned_less [of c] unsigned_less [of d] by simp_all
  have eqs: "x = numeral n \<longleftrightarrow> unat x = unat (numeral n :: u8)" "x = 0 \<longleftrightarrow> unat x = 0" for x :: u8 and n
    by (simp_all add: word_unat_eq_iff)
  have unat_numerals: "unat (10 :: u8) = 10" "unat (100 :: u8) = 100" "unat (127 :: u8) = 127" "unat (169 :: u8) = 169"
    "unat (254 :: u8) = 254" "unat (172 :: u8) = 172" "unat (16 :: u8) = 16" "unat (31 :: u8) = 31"
    "unat (192 :: u8) = 192" "unat (2 :: u8) = 2" "unat (168 :: u8) = 168" "unat (198 :: u8) = 198"
    "unat (51 :: u8) = 51" "unat (203 :: u8) = 203" "unat (113 :: u8) = 113" "unat (224 :: u8) = 224"
    "unat (239 :: u8) = 239" "unat (240 :: u8) = 240" by simp_all
  have les: "x \<le> y \<longleftrightarrow> unat x \<le> unat y" for x y :: u8 by (rule word_le_nat_alt)
  have ranges: "unat a div 16 = 14 \<longleftrightarrow> 224 \<le> unat a \<and> unat a \<le> 239" "unat a div 16 = 15 \<longleftrightarrow> 240 \<le> unat a"
    "unat b div 16 = 1 \<longleftrightarrow> 16 \<le> unat b \<and> unat b \<le> 31" using bounds(4) by linarith+
  have "list_ex (\<lambda>k. in_block 32 k (v4_value (unat a) (unat b) (unat c) (unat d))) v4_blocks
     \<longleftrightarrow> unat a = 0 \<and> unat b = 0 \<and> unat c = 0 \<and> unat d = 0 \<or> unat a = 10 \<or> unat a = 100 \<and> unat b div 64 = 1
       \<or> unat a = 127 \<or> unat a = 169 \<and> unat b = 254 \<or> unat a = 172 \<and> 16 \<le> unat b \<and> unat b \<le> 31
       \<or> unat a = 192 \<and> unat b = 0 \<and> unat c = 0 \<or> unat a = 192 \<and> unat b = 0 \<and> unat c = 2
       \<or> unat a = 192 \<and> unat b = 168 \<or> unat a = 198 \<and> unat b div 2 = 9
       \<or> unat a = 198 \<and> unat b = 51 \<and> unat c = 100 \<or> unat a = 203 \<and> unat b = 0 \<and> unat c = 113
       \<or> 224 \<le> unat a \<and> unat a \<le> 239 \<or> 240 \<le> unat a"
    by (simp add: v4_blocks_def v4_in_block [OF bounds(1-3)] ranges del: One_nat_def)
  also have "\<dots> \<longleftrightarrow> \<not> v4_is_public a b c d"
  proof -
    have bc: "v4_is_broadcast a b c d \<Longrightarrow> 240 \<le> unat a" by (simp add: v4_is_broadcast_def)
    show ?thesis
      unfolding v4_is_public_def v4_is_unspecified_def v4_is_loopback_def v4_is_private_def v4_is_link_local_def
        v4_is_documentation_def v4_is_multicast_def octet_masks
      unfolding eqs les unat_numerals not_not by (rule iffI; elim disjE conjE; simp add: bc)
  qed
  finally show ?thesis .
qed

lemma shift_digit: "y < K \<Longrightarrow> (x * K + y) div K = x" "y < K \<Longrightarrow> (x * K + y) mod K = y" for x y K :: nat
  by simp_all

lemma v6_value_horner:
  "v6_value [s0, s1, s2, s3, s4, s5, s6, s7] =
     (((((((s0 * 65536 + s1) * 65536 + s2) * 65536 + s3) * 65536 + s4) * 65536 + s5) * 65536 + s6) * 65536 + s7)"
  by (simp add: v6_value_def)

lemma v6_value_parts:
  fixes s0 :: nat
  assumes "s1 < 65536" "s2 < 65536" "s3 < 65536" "s4 < 65536" "s5 < 65536" "s6 < 65536" "s7 < 65536"
  defines "v \<equiv> v6_value [s0, s1, s2, s3, s4, s5, s6, s7]"
  shows "v div 2 ^ 112 = s0" and "v div 2 ^ 96 = s0 * 65536 + s1"
    and "v div 2 ^ 32 = ((((s0 * 65536 + s1) * 65536 + s2) * 65536 + s3) * 65536 + s4) * 65536 + s5"
    and "v mod 2 ^ 32 = s6 * 65536 + s7"
proof -
  have e: "v div 65536 = (((((s0 * 65536 + s1) * 65536 + s2) * 65536 + s3) * 65536 + s4) * 65536 + s5) * 65536 + s6"
    unfolding v_def v6_value_horner by (rule shift_digit(1)) (rule assms)
  have d: "v div 2 ^ 32 = ((((s0 * 65536 + s1) * 65536 + s2) * 65536 + s3) * 65536 + s4) * 65536 + s5"
    using e shift_digit(1) [OF assms(6)] div_mult2_eq [of v 65536 65536] by simp
  then have "v div 2 ^ 48 = (((s0 * 65536 + s1) * 65536 + s2) * 65536 + s3) * 65536 + s4"
    using shift_digit(1) [OF assms(5)] div_mult2_eq [of v "2 ^ 32" 65536] by simp
  then have "v div 2 ^ 64 = ((s0 * 65536 + s1) * 65536 + s2) * 65536 + s3"
    using shift_digit(1) [OF assms(4)] div_mult2_eq [of v "2 ^ 48" 65536] by simp
  then have "v div 2 ^ 80 = (s0 * 65536 + s1) * 65536 + s2"
    using shift_digit(1) [OF assms(3)] div_mult2_eq [of v "2 ^ 64" 65536] by simp
  then show s1: "v div 2 ^ 96 = s0 * 65536 + s1"
    using shift_digit(1) [OF assms(2)] div_mult2_eq [of v "2 ^ 80" 65536] by simp
  then show "v div 2 ^ 112 = s0"
    using shift_digit(1) [OF assms(1)] div_mult2_eq [of v "2 ^ 96" 65536] by simp
  show "v div 2 ^ 32 = ((((s0 * 65536 + s1) * 65536 + s2) * 65536 + s3) * 65536 + s4) * 65536 + s5" by (rule d)
  have "v mod 2 ^ 32 = (v div 65536) mod 65536 * 65536 + v mod 65536"
    using mod_mult2_eq [of v 65536 65536] by simp
  also have "\<dots> = s6 * 65536 + s7"
    unfolding e using shift_digit(2) [OF assms(6)] shift_digit(2) [OF assms(7)] by (simp only: v_def v6_value_horner)
  finally show "v mod 2 ^ 32 = s6 * 65536 + s7" .
qed

lemma v6_in_block:
  fixes s0 :: nat
  assumes "s1 < 65536" "s2 < 65536" "s3 < 65536" "s4 < 65536" "s5 < 65536" "s6 < 65536" "s7 < 65536"
  defines "v \<equiv> v6_value [s0, s1, s2, s3, s4, s5, s6, s7]"
  shows "in_block 128 (0xffff * 2 ^ 32, 96) v \<longleftrightarrow> s0 = 0 \<and> s1 = 0 \<and> s2 = 0 \<and> s3 = 0 \<and> s4 = 0 \<and> s5 = 0xffff"
    and "in_block 128 (0, 128) v \<longleftrightarrow> s0 = 0 \<and> s1 = 0 \<and> s2 = 0 \<and> s3 = 0 \<and> s4 = 0 \<and> s5 = 0 \<and> s6 = 0 \<and> s7 = 0"
    and "in_block 128 (1, 128) v \<longleftrightarrow> s0 = 0 \<and> s1 = 0 \<and> s2 = 0 \<and> s3 = 0 \<and> s4 = 0 \<and> s5 = 0 \<and> s6 = 0 \<and> s7 = 1"
    and "in_block 128 (0xfc00 * 2 ^ 112, 7) v \<longleftrightarrow> s0 div 512 = 0x7e"
    and "in_block 128 (0xfe80 * 2 ^ 112, 10) v \<longleftrightarrow> s0 div 64 = 0x3fa"
    and "in_block 128 (0xff00 * 2 ^ 112, 8) v \<longleftrightarrow> s0 div 256 = 0xff"
    and "in_block 128 ((0x2001 * 2 ^ 16 + 0x0db8) * 2 ^ 96, 32) v \<longleftrightarrow> s0 = 0x2001 \<and> s1 = 0x0db8"
proof -
  note p = v6_value_parts [OF assms(1-7), of s0, folded v_def]
  have "v div 2 ^ 121 = s0 div 512" "v div 2 ^ 118 = s0 div 64" "v div 2 ^ 120 = s0 div 256"
    using p(1) div_mult2_eq [of v "2 ^ 112" 512] div_mult2_eq [of v "2 ^ 112" 64] div_mult2_eq [of v "2 ^ 112" 256]
    by simp_all
  then show "in_block 128 (0xfc00 * 2 ^ 112, 7) v \<longleftrightarrow> s0 div 512 = 0x7e"
    "in_block 128 (0xfe80 * 2 ^ 112, 10) v \<longleftrightarrow> s0 div 64 = 0x3fa"
    "in_block 128 (0xff00 * 2 ^ 112, 8) v \<longleftrightarrow> s0 div 256 = 0xff"
    by (simp_all add: in_block_def)
  show "in_block 128 ((0x2001 * 2 ^ 16 + 0x0db8) * 2 ^ 96, 32) v \<longleftrightarrow> s0 = 0x2001 \<and> s1 = 0x0db8"
    using two_digits [OF assms(1), of "0xdb8" s0 "0x2001"] p(2) by (simp add: in_block_def)
  show "in_block 128 (0, 128) v \<longleftrightarrow> s0 = 0 \<and> s1 = 0 \<and> s2 = 0 \<and> s3 = 0 \<and> s4 = 0 \<and> s5 = 0 \<and> s6 = 0 \<and> s7 = 0"
    by (auto simp: in_block_def v_def v6_value_horner)
  show "in_block 128 (1, 128) v \<longleftrightarrow> s0 = 0 \<and> s1 = 0 \<and> s2 = 0 \<and> s3 = 0 \<and> s4 = 0 \<and> s5 = 0 \<and> s6 = 0 \<and> s7 = 1"
    using two_digits [of s7 65536 1 "(((((s0 * 65536 + s1) * 65536 + s2) * 65536 + s3) * 65536 + s4) * 65536 + s5) * 65536 + s6" 0]
      assms(7) by (auto simp: in_block_def v_def v6_value_horner)
  show "in_block 128 (0xffff * 2 ^ 32, 96) v \<longleftrightarrow> s0 = 0 \<and> s1 = 0 \<and> s2 = 0 \<and> s3 = 0 \<and> s4 = 0 \<and> s5 = 0xffff"
    using p(3) two_digits [OF assms(5), of "0xffff" "(((s0 * 65536 + s1) * 65536 + s2) * 65536 + s3) * 65536 + s4" 0]
    by (simp add: in_block_def del: One_nat_def)
qed

lemma public_address_alt: "is_public_webhook_address x \<longleftrightarrow> \<not> excluded_address x"
proof (cases x)
  case (V4 a b c d)
  then show ?thesis by (simp add: excluded_address_def v4_special)
next
  case (V6 s0 s1 s2 s3 s4 s5 s6 s7)
  let ?v = "v6_value [unat s0, unat s1, unat s2, unat s3, unat s4, unat s5, unat s6, unat s7]"
  have b: "unat s < 65536" for s :: u16 using unsigned_less [of s] by simp
  note blocks = v6_in_block [OF b b b b b b b, of "unat s0"]
  have zero: "unat s = 0 \<longleftrightarrow> s = 0" "unat s = numeral n \<longleftrightarrow> unat s = numeral n" for s :: u16 and n
    by (simp_all add: unat_eq_0)
  show ?thesis
  proof (cases "s0 = 0 \<and> s1 = 0 \<and> s2 = 0 \<and> s3 = 0 \<and> s4 = 0 \<and> s5 = 0xffff")
    case True
    have low: "unat (ucast s :: u8) = unat s mod 256" for s :: u16
      by (simp add: unsigned_ucast_eq take_bit_eq_mod)
    have high: "unat (drop_bit 8 s) = unat s div 256" "unat s div 256 mod 256 = unat s div 256" for s :: u16
    proof -
      show "unat (drop_bit 8 s) = unat s div 256"
        by (simp only: unsigned_drop_bit_eq) (simp add: drop_bit_eq_div take_bit_nat_eq_self b)
      show "unat s div 256 mod 256 = unat s div 256"
        using b [of s] by (simp add: div_less_iff_less_mult)
    qed
    have m: "?v mod 2 ^ 32 = v4_value (unat (ucast (drop_bit 8 s6) :: u8)) (unat (ucast s6 :: u8))
        (unat (ucast (drop_bit 8 s7) :: u8)) (unat (ucast s7 :: u8))"
      unfolding v6_value_parts [OF b b b b b b b] v4_value_def low high by simp
    have "in_block 128 (0xffff * 2 ^ 32, 96) ?v" unfolding blocks(1) using True by simp
    then have "excluded_address x \<longleftrightarrow> list_ex (\<lambda>k. in_block 32 k (?v mod 2 ^ 32)) v4_blocks"
      by (simp add: excluded_address_def V6 Let_def)
    then show ?thesis
      unfolding m v4_special using True by (simp add: V6 to_ipv4_mapped_def)
  next
    case False
    have words: "s0 = 0x2001 \<longleftrightarrow> unat s0 = 0x2001" "s1 = 0x0db8 \<longleftrightarrow> unat s1 = 0x0db8" "s5 = 0xffff \<longleftrightarrow> unat s5 = 0xffff"
      "s7 = 1 \<longleftrightarrow> unat s7 = 1" by (simp_all add: word_unat_eq_iff)
    have "\<not> in_block 128 (0xffff * 2 ^ 32, 96) ?v" unfolding blocks(1) using False by (simp add: unat_eq_0 words)
    then have "excluded_address x \<longleftrightarrow> list_ex (\<lambda>k. in_block 128 k ?v) v6_blocks"
      by (simp add: excluded_address_def V6 Let_def)
    also have "\<dots> \<longleftrightarrow> \<not> is_public_webhook_address x"
      unfolding v6_blocks_def list_ex_iff list.set bex_simps blocks(2-7) using False
      by (simp add: V6 to_ipv4_mapped_def segment_masks unat_eq_0 words) blast
    finally show ?thesis by blast
  qed
qed

section \<open>The registry of special-purpose addresses\<close>

text \<open>
  The tables of RFC 6890 (section 2.2.2 for IPv4, 2.2.3 for IPv6), row by row, which the comment of the
  function names as what it refuses.
\<close>

definition v4_registry :: "(nat \<times> nat) list" where
  "v4_registry =
     [(v4_value 0 0 0 0, 8), (v4_value 10 0 0 0, 8), (v4_value 100 64 0 0, 10), (v4_value 127 0 0 0, 8),
      (v4_value 169 254 0 0, 16), (v4_value 172 16 0 0, 12), (v4_value 192 0 0 0, 24), (v4_value 192 0 0 0, 29),
      (v4_value 192 0 2 0, 24), (v4_value 192 88 99 0, 24), (v4_value 192 168 0 0, 16), (v4_value 198 18 0 0, 15),
      (v4_value 198 51 100 0, 24), (v4_value 203 0 113 0, 24), (v4_value 240 0 0 0, 4),
      (v4_value 255 255 255 255, 32)]"

definition v6_registry :: "(nat \<times> nat) list" where
  "v6_registry =
     [(1, 128), (0, 128), (v6_value [0x64, 0xff9b, 0, 0, 0, 0, 0, 0], 96), (v6_value [0, 0, 0, 0, 0, 0xffff, 0, 0], 96),
      (v6_value [0x100, 0, 0, 0, 0, 0, 0, 0], 64), (v6_value [0x2001, 0, 0, 0, 0, 0, 0, 0], 23),
      (v6_value [0x2001, 0, 0, 0, 0, 0, 0, 0], 32), (v6_value [0x2001, 2, 0, 0, 0, 0, 0, 0], 48),
      (v6_value [0x2001, 0xdb8, 0, 0, 0, 0, 0, 0], 32), (v6_value [0x2001, 0x10, 0, 0, 0, 0, 0, 0], 28),
      (v6_value [0x2002, 0, 0, 0, 0, 0, 0, 0], 16), (v6_value [0xfc00, 0, 0, 0, 0, 0, 0, 0], 7),
      (v6_value [0xfe80, 0, 0, 0, 0, 0, 0, 0], 10)]"

definition in_blocks :: "nat \<Rightarrow> (nat \<times> nat) list \<Rightarrow> nat \<Rightarrow> bool" where
  "in_blocks width blocks v \<longleftrightarrow> list_ex (\<lambda>k. in_block width k v) blocks"

text \<open>The rows, or the parts of rows, the code accepts: all of \<open>0.0.0.0/8\<close> but its first address, the 6to4
  relay anycast block, and the NAT64, discard-only, IETF protocol assignment and 6to4 blocks of IPv6.\<close>

definition v4_open :: "nat \<Rightarrow> bool" where
  "v4_open v \<longleftrightarrow> in_blocks 32 [(v4_value 0 0 0 0, 8), (v4_value 192 88 99 0, 24)] v \<and> v \<noteq> 0"

definition v6_open :: "nat \<Rightarrow> bool" where
  "v6_open v \<longleftrightarrow> in_blocks 128
     [(v6_value [0x64, 0xff9b, 0, 0, 0, 0, 0, 0], 96), (v6_value [0x100, 0, 0, 0, 0, 0, 0, 0], 64),
      (v6_value [0x2001, 0, 0, 0, 0, 0, 0, 0], 23), (v6_value [0x2002, 0, 0, 0, 0, 0, 0, 0], 16)] v"

text \<open>
  What the code judges: the number of an address and its width, an IPv4 address mapped into IPv6 as that
  IPv4 address.
\<close>

definition judged :: "ip_addr \<Rightarrow> nat \<times> nat" where
  "judged x = (case x of
     V4 a b c d \<Rightarrow> (32, v4_value (unat a) (unat b) (unat c) (unat d))
   | V6 s0 s1 s2 s3 s4 s5 s6 s7 \<Rightarrow>
       (let v = v6_value [unat s0, unat s1, unat s2, unat s3, unat s4, unat s5, unat s6, unat s7] in
        if in_block 128 (0xffff * 2 ^ 32, 96) v then (32, v mod 2 ^ 32) else (128, v)))"

definition special_purpose :: "nat \<times> nat \<Rightarrow> bool" where
  "special_purpose x \<longleftrightarrow> in_blocks (fst x) (if fst x = 32 then v4_registry else v6_registry) (snd x)"

definition multicast :: "nat \<times> nat \<Rightarrow> bool" where
  "multicast x \<longleftrightarrow> in_block (fst x) (if fst x = 32 then (v4_value 224 0 0 0, 4)
     else (v6_value [0xff00, 0, 0, 0, 0, 0, 0, 0], 8)) (snd x)"

definition left_open :: "nat \<times> nat \<Rightarrow> bool" where
  "left_open x \<longleftrightarrow> (if fst x = 32 then v4_open (snd x) else v6_open (snd x))"

lemma in_block_range:
  assumes "2 ^ (width - len) dvd base"
  shows "in_block width (base, len) v \<longleftrightarrow> base \<le> v \<and> v < base + 2 ^ (width - len)"
proof -
  define n :: nat where "n = 2 ^ (width - len)"
  from assms obtain k where k: "base = n * k" unfolding n_def by blast
  have n: "0 < n" by (simp add: n_def)
  have "v div n = k \<longleftrightarrow> n * k \<le> v \<and> v < n * k + n"
    using n dividend_less_times_div [of n v] by (auto intro!: div_nat_eqI)
  then show ?thesis using n k by (simp add: in_block_def flip: n_def)
qed

lemma v4_excluded_registry:
  "in_blocks 32 v4_blocks v \<longleftrightarrow> (in_blocks 32 v4_registry v \<or> in_block 32 (v4_value 224 0 0 0, 4) v) \<and> \<not> v4_open v"
  unfolding in_blocks_def v4_blocks_def v4_registry_def v4_open_def v4_value_def
  by (simp add: in_block_range; intro iffI; elim disjE conjE; simp)

lemma v6_excluded_registry:
  "\<not> in_block 128 (0xffff * 2 ^ 32, 96) v \<Longrightarrow> in_blocks 128 v6_blocks v \<longleftrightarrow>
    (in_blocks 128 v6_registry v \<or> in_block 128 (v6_value [0xff00, 0, 0, 0, 0, 0, 0, 0], 8) v) \<and> \<not> v6_open v"
  unfolding in_blocks_def v6_blocks_def v6_registry_def v6_open_def v6_value_def
  by (simp add: in_block_range; intro iffI; elim disjE conjE; simp)
lemma excluded_address_judged:
  "excluded_address x \<longleftrightarrow> in_blocks (fst (judged x)) (if fst (judged x) = 32 then v4_blocks else v6_blocks) (snd (judged x))"
  by (cases x) (simp_all add: excluded_address_def judged_def in_blocks_def Let_def)

lemma judged_not_mapped: "fst (judged x) \<noteq> 32 \<Longrightarrow> fst (judged x) = 128 \<and> \<not> in_block 128 (0xffff * 2 ^ 32, 96) (snd (judged x))"
  by (cases x) (simp_all add: judged_def Let_def split: if_splits)

text \<open>
  C26: the address check against the registry it cites.  An address is refused if and only if it is
  multicast or in a block of RFC 6890, and not in one of the blocks the code overlooks; an IPv4 address
  mapped into IPv6 is judged as that IPv4 address.
\<close>

theorem public_address_iff:
  "\<not> is_public_webhook_address x \<longleftrightarrow>
     (special_purpose (judged x) \<or> multicast (judged x)) \<and> \<not> left_open (judged x)"
proof (cases "fst (judged x) = 32")
  case True
  then show ?thesis
    using v4_excluded_registry [of "snd (judged x)"]
    by (auto simp: public_address_alt excluded_address_judged special_purpose_def multicast_def left_open_def)
next
  case False
  from judged_not_mapped [OF False] show ?thesis
    using v6_excluded_registry [of "snd (judged x)"]
    by (auto simp: public_address_alt excluded_address_judged special_purpose_def multicast_def left_open_def)
qed

text \<open>
  Addresses of these blocks that the code accepts: the rest of \<open>0.0.0.0/8\<close>, the
  discard-only prefix \<open>100::/64\<close>, 6to4 and NAT64 addresses that embed a private IPv4 address.
\<close>

lemma open_special_networks:
  "is_public_webhook_address (V4 0 0 0 8)"
  "is_public_webhook_address (V6 0x0100 0 0 0 0 0 0 1)"
  "is_public_webhook_address (V6 0x2002 0x0a00 0x0001 0 0 0 0 1)"
  "is_public_webhook_address (V6 0x0064 0xff9b 0 0 0 0 0x0a00 0x0001)"
  by (simp_all add: to_ipv4_mapped_def v4_is_public_def v4_is_unspecified_def v4_is_loopback_def v4_is_private_def
      v4_is_link_local_def v4_is_broadcast_def v4_is_documentation_def v4_is_multicast_def)

section \<open>Destinations\<close>

text \<open>What the code reads of a parsed destination URL.\<close>

record dest_url =
  du_scheme :: rstr
  du_username :: rstr
  du_password :: "rstr option"
  du_host :: "rstr option"
  du_port :: "u16 option"
  du_port_or_default :: "u16 option"
  du_literal :: "ip_addr option"

record webhook_destination =
  wd_host :: rstr
  wd_port :: u16
  wd_exempt :: bool
  wd_literal :: "ip_addr option"

datatype invalid_destination = InvalidWebhookDestination

definition ascii_lower :: "uchar \<Rightarrow> uchar" where
  "ascii_lower c = (if 65 \<le> c \<and> c \<le> 90 then c + 32 else c)"

definition eq_ignore_ascii_case :: "rstr \<Rightarrow> rstr \<Rightarrow> bool" where
  "eq_ignore_ascii_case a b \<longleftrightarrow> map ascii_lower a = map ascii_lower b"

definition allowlisted :: "rstr list \<Rightarrow> rstr \<Rightarrow> bool" where
  "allowlisted allowed host \<longleftrightarrow> list_ex (\<lambda>a. eq_ignore_ascii_case a host) allowed"

definition validate_webhook_destination ::
  "(rstr \<Rightarrow> dest_url option) \<Rightarrow> rstr \<Rightarrow> rstr list \<Rightarrow> invalid_destination + webhook_destination" where
  "validate_webhook_destination du url allowed =
     rbind (ok_or InvalidWebhookDestination (du url)) (\<lambda>u.
     if du_username u \<noteq> [] \<or> du_password u \<noteq> None then Inl InvalidWebhookDestination
     else rbind (ok_or InvalidWebhookDestination (du_host u)) (\<lambda>host.
       let exempt = allowlisted allowed host in
       if \<not> exempt \<and> (du_scheme u \<noteq> lit ''https'' \<or> (du_port u \<noteq> None \<and> du_port u \<noteq> Some 443))
       then Inl InvalidWebhookDestination
       else rbind (ok_or InvalidWebhookDestination (du_port_or_default u)) (\<lambda>port.
         if \<not> exempt \<and> (case du_literal u of None \<Rightarrow> False | Some a \<Rightarrow> \<not> is_public_webhook_address a)
         then Inl InvalidWebhookDestination
         else Inr \<lparr>wd_host = host, wd_port = port, wd_exempt = exempt, wd_literal = du_literal u\<rparr>)))"

datatype delivery_failure = NonSuccessStatus | ConnectFailed | TimedOut | DestinationRejected

fun delivery_failure_as_str :: "delivery_failure \<Rightarrow> rstr" where
  "delivery_failure_as_str NonSuccessStatus = lit ''non_success_status''"
| "delivery_failure_as_str ConnectFailed = lit ''connect_failed''"
| "delivery_failure_as_str TimedOut = lit ''timed_out''"
| "delivery_failure_as_str DestinationRejected = lit ''destination_rejected''"

text \<open>
  The sender's check just before it connects; \<open>lookup\<close> is the resolver.  The result is the host name and
  the addresses the connection is pinned to.
\<close>

definition checked_destination ::
  "(rstr \<Rightarrow> dest_url option) \<Rightarrow> (rstr \<Rightarrow> u16 \<Rightarrow> (ip_addr \<times> u16) list option) \<Rightarrow> rstr list \<Rightarrow> rstr
   \<Rightarrow> delivery_failure + (dest_url \<times> rstr \<times> (ip_addr \<times> u16) list)" where
  "checked_destination du lookup allowed url =
     rbind (map_err (\<lambda>_. DestinationRejected) (validate_webhook_destination du url allowed)) (\<lambda>d.
     rbind (case wd_literal d of
         Some a \<Rightarrow> Inr [(a, wd_port d)]
       | None \<Rightarrow>
           rbind (ok_or ConnectFailed (lookup (wd_host d) (wd_port d))) (\<lambda>resolved.
           if resolved = [] then Inl ConnectFailed else Inr resolved)) (\<lambda>addresses.
     if \<not> wd_exempt d \<and> list_ex (\<lambda>a. \<not> is_public_webhook_address (fst a)) addresses
     then Inl DestinationRejected
     else rbind (ok_or DestinationRejected (du url)) (\<lambda>u. Inr (u, wd_host d, addresses))))"

text \<open>
  C27: a webhook never reaches into a private network.  Unless the administrator has listed the host, the
  sender only ever connects over HTTPS, on port 443 and without credentials in the URL, and every address
  it may connect to lies outside the excluded network blocks, whatever the resolver answers.  The
  hypothesis is the documented port of a parsed URL: the explicit one or, for HTTPS, 443.
\<close>

theorem webhook_connects_publicly:
  assumes "\<And>u. du url = Some u \<Longrightarrow> du_scheme u = lit ''https'' \<Longrightarrow> du_port_or_default u
      = Some (case du_port u of None \<Rightarrow> 443 | Some p \<Rightarrow> p)"
    and "checked_destination du lookup allowed url = Inr (u, host, addresses)"
  shows "du url = Some u \<and> du_host u = Some host \<and> addresses \<noteq> []
    \<and> du_username u = [] \<and> du_password u = None
    \<and> (allowlisted allowed host
       \<or> du_scheme u = lit ''https'' \<and> du_port_or_default u = Some 443
         \<and> list_all (\<lambda>a. \<not> excluded_address (fst a)) addresses)"
proof -
  from assms(2) obtain d where d: "validate_webhook_destination du url allowed = Inr d"
    and a: "wd_literal d = None \<longrightarrow> addresses \<noteq> []" "\<forall>x. wd_literal d = Some x \<longrightarrow> addresses = [(x, wd_port d)]"
    and ex: "wd_exempt d \<or> list_all (\<lambda>a. is_public_webhook_address (fst a)) addresses"
    and u: "du url = Some u" "host = wd_host d"
    by (auto simp: checked_destination_def rbind_Inr_iff map_err_Inr_iff ok_or_Inr_iff list_ex_iff list_all_iff
        split: option.splits if_splits)
  have "addresses \<noteq> []" using a by (cases "wd_literal d") auto
  moreover have "du_username u = []" "du_password u = None" "du_host u = Some host"
    "wd_exempt d = allowlisted allowed host"
    "\<not> allowlisted allowed host \<longrightarrow> du_scheme u = lit ''https'' \<and> (du_port u = None \<or> du_port u = Some 443)"
    using d u by (auto simp: validate_webhook_destination_def rbind_Inr_iff ok_or_Inr_iff Let_def split: if_splits)
  moreover have "list_all (\<lambda>a. \<not> excluded_address (fst a)) addresses" if "\<not> wd_exempt d"
    using ex that by (simp add: public_address_alt)
  ultimately show ?thesis using assms(1) [OF u(1)] u(1) by auto
qed

definition sample_url :: dest_url where
  "sample_url = \<lparr>du_scheme = lit ''https'', du_username = [], du_password = None, du_host = Some [104],
     du_port = None, du_port_or_default = Some 443, du_literal = None\<rparr>"

lemma webhook_connects_publicly_witness:
  "checked_destination (\<lambda>_. Some sample_url) (\<lambda>h p. Some [(V4 93 184 216 34, p)]) [] [1]
       = Inr (sample_url, [104], [(V4 93 184 216 34, 443)])
   \<and> \<not> excluded_address (V4 93 184 216 34)
   \<and> checked_destination (\<lambda>_. Some sample_url) (\<lambda>h p. Some [(V4 93 184 216 34, p), (V4 10 0 0 8, p)]) [] [1]
       = Inl DestinationRejected"
proof -
  note e = checked_destination_def validate_webhook_destination_def sample_url_def allowlisted_def Let_def
    v4_is_public_def v4_is_unspecified_def v4_is_loopback_def v4_is_private_def v4_is_link_local_def
    v4_is_broadcast_def v4_is_documentation_def v4_is_multicast_def
  have ok: "checked_destination (\<lambda>_. Some sample_url) (\<lambda>h p. Some [(V4 93 184 216 34, p)]) [] [1]
       = Inr (sample_url, [104], [(V4 93 184 216 34, 443)])"
    by (simp add: e)
  moreover have "\<not> excluded_address (V4 93 184 216 34)"
    using webhook_connects_publicly [OF _ ok] by (simp add: sample_url_def allowlisted_def)
  ultimately show ?thesis by (simp add: e)
qed

end
