(* ===== verification/HookStore.thy ===== *)
theory HookStore
  imports HookAddress Store "HOL-Library.List_Lexorder"
begin

text \<open>
  Webhook subscriptions and deliveries: the tables \<open>webhook_subscriptions\<close> and \<open>webhook_deliveries\<close>, the
  fan-out trigger of \<open>schema.sql\<close>, the statements of \<open>crates/marginalis-sqlite/src/webhooks.rs\<close>, and the
  delivery loop and use cases of \<open>crates/marginalis-application/src/webhooks.rs\<close> and
  \<open>webhooks/delivery.rs\<close>.  Changes are rows of \<open>domain_changes\<close> with the name of their kind, since
  bibliography items notify as well as notes; \<open>hk_projected\<close> holds the sequences the synchronisation
  projection refers to.
\<close>

section \<open>Tables\<close>

datatype subscription_state = PendingChallenge | Active | Disabled

datatype disabled_reason = DeliveryExhausted | DestinationRefused | OwnerDisabled

record subscription_row =
  su_id :: rstr
  su_owner :: int
  su_url :: rstr
  su_secret :: rstr
  su_kinds :: "rstr list"
  su_state :: subscription_state
  su_reason :: "disabled_reason option"
  su_created_at :: int
  su_updated_at :: int
  su_revision :: int

datatype delivery_state = DPending | DDelivered | DDiscarded

record delivery_row =
  dl_subscription :: rstr
  dl_sequence :: int
  dl_state :: delivery_state
  dl_attempts :: int
  dl_next_attempt_at :: int
  dl_lease_expires_at :: "int option"
  dl_last_failure :: "delivery_failure option"
  dl_last_attempted_at :: "int option"

record event_row =
  ev_sequence :: int
  ev_id :: rstr
  ev_owner :: int
  ev_kind :: rstr
  ev_target :: rstr
  ev_revision :: int
  ev_occurred_at :: int

record hooks =
  hk_events :: "event_row list"
  hk_next_sequence :: int
  hk_projected :: "int list"
  hk_subscriptions :: "subscription_row list"
  hk_deliveries :: "delivery_row list"

section \<open>Kinds and states\<close>

definition webhook_event_kinds :: "rstr list" where
  "webhook_event_kinds = map lit [''note.created'', ''note.updated'', ''note.deleted'', ''note.restored'',
     ''bibliography_item.created'', ''bibliography_item.updated'', ''bibliography_item.deleted'']"

fun subscription_state_as_str :: "subscription_state \<Rightarrow> rstr" where
  "subscription_state_as_str PendingChallenge = lit ''pending_challenge''"
| "subscription_state_as_str Active = lit ''active''"
| "subscription_state_as_str Disabled = lit ''disabled''"

definition subscription_state_parse :: "rstr \<Rightarrow> subscription_state option" where
  "subscription_state_parse v =
     (if v = lit ''pending_challenge'' then Some PendingChallenge
      else if v = lit ''active'' then Some Active
      else if v = lit ''disabled'' then Some Disabled else None)"

section \<open>The fan-out trigger\<close>

text \<open>The subscriptions a change notifies: active, of the change's owner, and subscribed to its kind.\<close>

definition notifies :: "event_row \<Rightarrow> subscription_row \<Rightarrow> bool" where
  "notifies v u \<longleftrightarrow> su_owner u = ev_owner v \<and> su_state u = Active \<and> ev_kind v \<in> set (su_kinds u)"

definition new_delivery :: "event_row \<Rightarrow> subscription_row \<Rightarrow> delivery_row" where
  "new_delivery v u = \<lparr>dl_subscription = su_id u, dl_sequence = ev_sequence v, dl_state = DPending,
     dl_attempts = 0, dl_next_attempt_at = ev_occurred_at v, dl_lease_expires_at = None,
     dl_last_failure = None, dl_last_attempted_at = None\<rparr>"

definition fan_out :: "event_row \<Rightarrow> hooks \<Rightarrow> hooks" where
  "fan_out v s =
     (if ev_kind v \<in> set webhook_event_kinds
      then s\<lparr>hk_deliveries := hk_deliveries s @ map (new_delivery v) (filter (notifies v) (hk_subscriptions s))\<rparr>
      else s)"

text \<open>The insertion of a change takes the next sequence number and fires the trigger.\<close>

definition insert_change :: "rstr \<Rightarrow> int \<Rightarrow> rstr \<Rightarrow> rstr \<Rightarrow> int \<Rightarrow> int \<Rightarrow> hooks \<Rightarrow> hooks" where
  "insert_change eid own kind target rvn occurred s =
     (let v = \<lparr>ev_sequence = hk_next_sequence s, ev_id = eid, ev_owner = own, ev_kind = kind,
            ev_target = target, ev_revision = rvn, ev_occurred_at = occurred\<rparr> in
      fan_out v (s\<lparr>hk_events := hk_events s @ [v], hk_next_sequence := hk_next_sequence s + 1\<rparr>))"

section \<open>Claiming\<close>

record pending_delivery =
  pd_subscription :: rstr
  pd_url :: rstr
  pd_secret :: rstr
  pd_attempts :: nat
  pd_event :: event_row

definition pending_of :: "rstr \<Rightarrow> delivery_row \<Rightarrow> bool" where
  "pending_of sid r \<longleftrightarrow> dl_subscription r = sid \<and> dl_state r = DPending"

text \<open>\<open>SELECT MIN(event_sequence) ... WHERE state = 'pending'\<close> of one subscription.\<close>

definition head_sequence :: "rstr \<Rightarrow> hooks \<Rightarrow> int option" where
  "head_sequence sid s =
     (case map dl_sequence (select_where (pending_of sid) (hk_deliveries s)) of
        [] \<Rightarrow> None | xs \<Rightarrow> Some (min_list xs))"

definition delivery_due :: "int \<Rightarrow> hooks \<Rightarrow> delivery_row \<Rightarrow> bool" where
  "delivery_due now s r \<longleftrightarrow> dl_state r = DPending
     \<and> exists_where (\<lambda>u. su_id u = dl_subscription r \<and> su_state u = Active) (hk_subscriptions s)
     \<and> dl_next_attempt_at r \<le> now
     \<and> (case dl_lease_expires_at r of None \<Rightarrow> True | Some t \<Rightarrow> t \<le> now)
     \<and> head_sequence (dl_subscription r) s = Some (dl_sequence r)"

definition dl_key :: "delivery_row \<Rightarrow> rstr \<times> int" where
  "dl_key r = (dl_subscription r, dl_sequence r)"

definition pending_delivery_of :: "hooks \<Rightarrow> rstr \<times> int \<Rightarrow> pending_delivery option" where
  "pending_delivery_of s k =
     Option.bind (row_by dl_key k (hk_deliveries s)) (\<lambda>r.
     Option.bind (row_by su_id (fst k) (hk_subscriptions s)) (\<lambda>u.
     Option.bind (row_by ev_sequence (snd k) (hk_events s)) (\<lambda>v.
     Some \<lparr>pd_subscription = fst k, pd_url = su_url u, pd_secret = su_secret u,
        pd_attempts = (if 0 \<le> dl_attempts r \<and> dl_attempts r < 2 ^ 32 then nat (dl_attempts r) else 0),
        pd_event = v\<rparr>)))"

definition lease :: "int \<Rightarrow> rstr \<times> int \<Rightarrow> hooks \<Rightarrow> hooks" where
  "lease lease_until k s = s\<lparr>hk_deliveries := update_where (\<lambda>r. dl_key r = k \<and> dl_state r = DPending)
     (\<lambda>r. r\<lparr>dl_lease_expires_at := Some lease_until\<rparr>) (hk_deliveries s)\<rparr>"

text \<open>
  The selected rows are leased one by one and then read again with their subscription and change, in
  one transaction.
\<close>

definition claim_due_deliveries ::
  "int \<Rightarrow> int \<Rightarrow> nat \<Rightarrow> hooks \<Rightarrow> storage_error + (pending_delivery list \<times> hooks)" where
  "claim_due_deliveries now lease_until limit s =
     (let keys = map dl_key (take limit (sort_key dl_sequence
            (select_where (delivery_due now s) (hk_deliveries s))));
          e = fold (lease lease_until) keys s in
      rbind (traverse (\<lambda>k. ok_or StorageUnavailable (pending_delivery_of e k)) keys) (\<lambda>ds. Inr (ds, e)))"

section \<open>Recording the outcome\<close>

definition pending_key :: "rstr \<Rightarrow> int \<Rightarrow> delivery_row \<Rightarrow> bool" where
  "pending_key sid seq r \<longleftrightarrow> dl_subscription r = sid \<and> dl_sequence r = seq \<and> dl_state r = DPending"

definition record_delivered :: "rstr \<Rightarrow> int \<Rightarrow> int \<Rightarrow> hooks \<Rightarrow> hooks" where
  "record_delivered sid seq now s = s\<lparr>hk_deliveries := update_where (pending_key sid seq)
     (\<lambda>r. r\<lparr>dl_state := DDelivered, dl_lease_expires_at := None, dl_last_failure := None,
            dl_last_attempted_at := Some now\<rparr>) (hk_deliveries s)\<rparr>"

definition record_failed ::
  "rstr \<Rightarrow> int \<Rightarrow> delivery_failure \<Rightarrow> nat \<Rightarrow> int \<Rightarrow> int \<Rightarrow> hooks \<Rightarrow> hooks" where
  "record_failed sid seq failure attempts next_attempt now s =
     s\<lparr>hk_deliveries := update_where (pending_key sid seq)
     (\<lambda>r. r\<lparr>dl_attempts := int attempts, dl_next_attempt_at := next_attempt, dl_lease_expires_at := None,
            dl_last_failure := Some failure, dl_last_attempted_at := Some now\<rparr>) (hk_deliveries s)\<rparr>"

definition disable_exhausted_subscription :: "rstr \<Rightarrow> int \<Rightarrow> hooks \<Rightarrow> hooks" where
  "disable_exhausted_subscription sid now s =
     s\<lparr>hk_subscriptions := update_where (\<lambda>u. su_id u = sid \<and> su_state u = Active)
     (\<lambda>u. u\<lparr>su_state := Disabled, su_reason := Some DeliveryExhausted, su_updated_at := now,
            su_revision := su_revision u + 1\<rparr>) (hk_subscriptions s)\<rparr>"

definition webhook_retention_ms :: int where
  "webhook_retention_ms = 7 * 24 * 60 * 60 * 1000"

definition purge_expired_deliveries :: "int \<Rightarrow> hooks \<Rightarrow> nat \<times> hooks" where
  "purge_expired_deliveries now s =
     (let horizon = i64_saturating_sub now webhook_retention_ms;
          old = (\<lambda>r. dl_state r \<noteq> DPending
             \<and> (case dl_last_attempted_at r of None \<Rightarrow> False | Some t \<Rightarrow> t \<le> horizon));
          s1 = s\<lparr>hk_deliveries := delete_where old (hk_deliveries s)\<rparr> in
      (count_where old (hk_deliveries s),
       s1\<lparr>hk_events := delete_where (\<lambda>v. ev_occurred_at v \<le> horizon \<and> ev_kind v \<in> set webhook_event_kinds
            \<and> \<not> exists_where (\<lambda>r. dl_sequence r = ev_sequence v) (hk_deliveries s1)
            \<and> ev_sequence v \<notin> set (hk_projected s)) (hk_events s1)\<rparr>))"

end
