(* ===== verification/HookService.thy ===== *)
theory HookService
  imports HookStore
begin

text \<open>
  The owner's operations on subscriptions (\<open>crates/marginalis-sqlite/src/webhooks.rs\<close>), the use cases over
  them, the retry policy and one tick of the delivery worker
  (\<open>crates/marginalis-application/src/webhooks.rs\<close> and \<open>webhooks/delivery.rs\<close>).  The HTTP sender, the JSON
  text of a change and random values are parameters.
\<close>

section \<open>The owner's statements\<close>

record subscription_overview =
  so_id :: rstr
  so_url :: rstr
  so_kinds :: "rstr list"
  so_state :: subscription_state
  so_reason :: "disabled_reason option"
  so_created_at :: int
  so_updated_at :: int
  so_revision :: int
  so_last_attempted_at :: "int option"
  so_last_failure :: "delivery_failure option"
  so_next_attempt_at :: "int option"
  so_pending_count :: int

definition max_opt :: "int list \<Rightarrow> int option" where
  "max_opt xs = (case xs of [] \<Rightarrow> None | x # ys \<Rightarrow> Some (fold max ys x))"

definition min_opt :: "int list \<Rightarrow> int option" where
  "min_opt xs = (case xs of [] \<Rightarrow> None | ys \<Rightarrow> Some (min_list ys))"

definition overview_of :: "hooks \<Rightarrow> subscription_row \<Rightarrow> subscription_overview" where
  "overview_of s u =
     (let mine = select_where (\<lambda>r. dl_subscription r = su_id u) (hk_deliveries s);
          waiting = select_where (pending_of (su_id u)) (hk_deliveries s) in
      \<lparr>so_id = su_id u, so_url = su_url u, so_kinds = su_kinds u, so_state = su_state u,
       so_reason = su_reason u, so_created_at = su_created_at u, so_updated_at = su_updated_at u,
       so_revision = su_revision u,
       so_last_attempted_at = max_opt (List.map_filter dl_last_attempted_at mine),
       so_last_failure = (case sort_key dl_sequence waiting of [] \<Rightarrow> None | r # _ \<Rightarrow> dl_last_failure r),
       so_next_attempt_at = min_opt (map dl_next_attempt_at waiting),
       so_pending_count = int (length waiting)\<rparr>)"

definition list_owned_subscriptions :: "int \<Rightarrow> hooks \<Rightarrow> subscription_overview list" where
  "list_owned_subscriptions own s = map (overview_of s)
     (sort_key (\<lambda>u. (su_created_at u # map int (su_id u)))
       (select_where (\<lambda>u. su_owner u = own) (hk_subscriptions s)))"

definition create_owned_subscription ::
  "int \<Rightarrow> rstr \<Rightarrow> rstr \<Rightarrow> rstr list \<Rightarrow> rstr \<Rightarrow> int \<Rightarrow> hooks \<Rightarrow> storage_error + hooks" where
  "create_owned_subscription own sid url kinds secret now s =
     (if exists_where (\<lambda>u. su_id u = sid) (hk_subscriptions s) then Inl StorageUnavailable
      else Inr (s\<lparr>hk_subscriptions := hk_subscriptions s @ [\<lparr>su_id = sid, su_owner = own, su_url = url,
        su_secret = secret, su_kinds = kinds, su_state = PendingChallenge, su_reason = None,
        su_created_at = now, su_updated_at = now, su_revision = 1\<rparr>]\<rparr>))"

definition owned :: "int \<Rightarrow> rstr \<Rightarrow> subscription_row \<Rightarrow> bool" where
  "owned own sid u \<longleftrightarrow> su_id u = sid \<and> su_owner u = own"

definition owned_subscription_credentials :: "int \<Rightarrow> rstr \<Rightarrow> hooks \<Rightarrow> (rstr \<times> rstr) option" where
  "owned_subscription_credentials own sid s =
     map_option (\<lambda>u. (su_url u, su_secret u)) (find (owned own sid) (hk_subscriptions s))"

text \<open>Each statement returns whether it affected exactly one row.\<close>

definition update_owned ::
  "int \<Rightarrow> rstr \<Rightarrow> (subscription_row \<Rightarrow> subscription_row) \<Rightarrow> hooks \<Rightarrow> bool \<times> hooks" where
  "update_owned own sid f s =
     (count_where (owned own sid) (hk_subscriptions s) = 1,
      s\<lparr>hk_subscriptions := update_where (owned own sid) f (hk_subscriptions s)\<rparr>)"

definition activate_owned_subscription :: "int \<Rightarrow> rstr \<Rightarrow> int \<Rightarrow> hooks \<Rightarrow> bool \<times> hooks" where
  "activate_owned_subscription own sid now = update_owned own sid
     (\<lambda>u. u\<lparr>su_state := Active, su_reason := None, su_updated_at := now, su_revision := su_revision u + 1\<rparr>)"

definition replace_owned_secret :: "int \<Rightarrow> rstr \<Rightarrow> rstr \<Rightarrow> int \<Rightarrow> hooks \<Rightarrow> bool \<times> hooks" where
  "replace_owned_secret own sid secret now = update_owned own sid
     (\<lambda>u. u\<lparr>su_secret := secret, su_updated_at := now, su_revision := su_revision u + 1\<rparr>)"

text \<open>The deliveries of a deleted subscription go with it (\<open>ON DELETE CASCADE\<close>).\<close>

definition delete_owned_subscription :: "int \<Rightarrow> rstr \<Rightarrow> hooks \<Rightarrow> bool \<times> hooks" where
  "delete_owned_subscription own sid s =
     (count_where (owned own sid) (hk_subscriptions s) = 1,
      s\<lparr>hk_subscriptions := delete_where (owned own sid) (hk_subscriptions s),
        hk_deliveries := delete_where (\<lambda>r. exists_where (\<lambda>u. owned own sid u \<and> su_id u = dl_subscription r)
          (hk_subscriptions s)) (hk_deliveries s)\<rparr>)"

text \<open>A subscription that was disabled because its retries ran out is made active again.\<close>

definition reactivate_exhausted :: "rstr \<Rightarrow> int \<Rightarrow> hooks \<Rightarrow> hooks" where
  "reactivate_exhausted sid now s = s\<lparr>hk_subscriptions := update_where
     (\<lambda>u. su_id u = sid \<and> su_state u = Disabled \<and> su_reason u = Some DeliveryExhausted)
     (\<lambda>u. u\<lparr>su_state := Active, su_reason := None, su_updated_at := now, su_revision := su_revision u + 1\<rparr>)
     (hk_subscriptions s)\<rparr>"

definition head_row :: "rstr \<Rightarrow> hooks \<Rightarrow> delivery_row \<Rightarrow> bool" where
  "head_row sid s r \<longleftrightarrow> pending_of sid r \<and> head_sequence sid s = Some (dl_sequence r)"

definition retry_owned_head_delivery :: "int \<Rightarrow> rstr \<Rightarrow> int \<Rightarrow> hooks \<Rightarrow> bool \<times> hooks" where
  "retry_owned_head_delivery own sid now s =
     (if find (owned own sid) (hk_subscriptions s) = None then (False, s)
      else (True, reactivate_exhausted sid now (s\<lparr>hk_deliveries := update_where (head_row sid s)
        (\<lambda>r. r\<lparr>dl_attempts := 0, dl_next_attempt_at := now, dl_lease_expires_at := None\<rparr>)
        (hk_deliveries s)\<rparr>)))"

definition discard_owned_head_delivery :: "int \<Rightarrow> rstr \<Rightarrow> int \<Rightarrow> hooks \<Rightarrow> bool \<times> hooks" where
  "discard_owned_head_delivery own sid now s =
     (if find (owned own sid) (hk_subscriptions s) = None then (False, s)
      else (True, reactivate_exhausted sid now (s\<lparr>hk_deliveries := update_where (head_row sid s)
        (\<lambda>r. r\<lparr>dl_state := DDiscarded, dl_lease_expires_at := None, dl_last_attempted_at := Some now\<rparr>)
        (hk_deliveries s)\<rparr>)))"

section \<open>Use cases\<close>

datatype webhook_error = HookNotFound | InvalidDestination | InvalidEventKinds | HookStorage storage_error

datatype verification_outcome = Activated | VerificationFailed delivery_failure

definition validated_event_kinds :: "rstr list \<Rightarrow> webhook_error + rstr list" where
  "validated_event_kinds kinds =
     (if kinds = [] \<or> list_ex (\<lambda>k. k \<notin> set webhook_event_kinds) kinds then Inl InvalidEventKinds
      else Inr (remdups_adj (sort kinds)))"

definition create_subscription ::
  "(rstr \<Rightarrow> dest_url option) \<Rightarrow> rstr list \<Rightarrow> int \<Rightarrow> rstr \<Rightarrow> rstr list \<Rightarrow> rstr \<Rightarrow> rstr \<Rightarrow> int \<Rightarrow> hooks
   \<Rightarrow> webhook_error + ((subscription_overview \<times> rstr) \<times> hooks)" where
  "create_subscription du allowed own url kinds sid secret now s =
     rbind (map_err (\<lambda>_. InvalidDestination) (validate_webhook_destination du url allowed)) (\<lambda>_.
     rbind (validated_event_kinds kinds) (\<lambda>ks.
     rbind (map_err HookStorage (create_owned_subscription own sid url ks secret now s)) (\<lambda>e.
     rbind (ok_or HookNotFound (find (\<lambda>x. so_id x = sid) (list_owned_subscriptions own e))) (\<lambda>overview.
     Inr ((overview, secret), e)))))"

text \<open>
  \<open>verify\<close> is the sender's challenge of a URL with a secret.  The credentials are read in a statement of
  their own, so the subscription may have changed (\<open>between\<close>) by the time it is activated.
\<close>

definition verify_subscription ::
  "(rstr \<Rightarrow> rstr \<Rightarrow> delivery_failure + unit) \<Rightarrow> (hooks \<Rightarrow> hooks) \<Rightarrow> int \<Rightarrow> rstr \<Rightarrow> int \<Rightarrow> hooks
   \<Rightarrow> webhook_error + (verification_outcome \<times> hooks)" where
  "verify_subscription verify between own sid now s =
     (case owned_subscription_credentials own sid s of
        None \<Rightarrow> Inl HookNotFound
      | Some (url, secret) \<Rightarrow>
          (case verify url secret of
             Inl failure \<Rightarrow> Inr (VerificationFailed failure, between s)
           | Inr _ \<Rightarrow>
               (case activate_owned_subscription own sid now (between s) of
                  (True, e) \<Rightarrow> Inr (Activated, e)
                | (False, _) \<Rightarrow> Inl HookNotFound)))"

text \<open>The remaining use cases turn an unaffected row into \<open>NotFound\<close>.\<close>

definition found_or :: "bool \<times> hooks \<Rightarrow> webhook_error + hooks" where
  "found_or r = (if fst r then Inr (snd r) else Inl HookNotFound)"

definition regenerate_secret :: "int \<Rightarrow> rstr \<Rightarrow> rstr \<Rightarrow> int \<Rightarrow> hooks \<Rightarrow> webhook_error + (rstr \<times> hooks)" where
  "regenerate_secret own sid secret now s =
     rbind (found_or (replace_owned_secret own sid secret now s)) (\<lambda>e. Inr (secret, e))"

definition delete_subscription :: "int \<Rightarrow> rstr \<Rightarrow> hooks \<Rightarrow> webhook_error + hooks" where
  "delete_subscription own sid s = found_or (delete_owned_subscription own sid s)"

definition retry_delivery :: "int \<Rightarrow> rstr \<Rightarrow> int \<Rightarrow> hooks \<Rightarrow> webhook_error + hooks" where
  "retry_delivery own sid now s = found_or (retry_owned_head_delivery own sid now s)"

definition discard_delivery :: "int \<Rightarrow> rstr \<Rightarrow> int \<Rightarrow> hooks \<Rightarrow> webhook_error + hooks" where
  "discard_delivery own sid now s = found_or (discard_owned_head_delivery own sid now s)"

section \<open>The delivery worker\<close>

definition webhook_max_attempts :: nat where "webhook_max_attempts = 10"
definition webhook_backoff_base_ms :: int where "webhook_backoff_base_ms = 5000"
definition webhook_backoff_max_ms :: int where "webhook_backoff_max_ms = 3600000"
definition webhook_lease_ms :: int where "webhook_lease_ms = 60000"
definition webhook_delivery_batch :: nat where "webhook_delivery_batch = 4"

definition i64_saturating_mul :: "int \<Rightarrow> int \<Rightarrow> int" where
  "i64_saturating_mul a b = max i64_min (min i64_max (a * b))"

definition u32_saturating_add :: "nat \<Rightarrow> nat \<Rightarrow> nat" where
  "u32_saturating_add a b = min (2 ^ 32 - 1) (a + b)"

text \<open>\<open>saturating_sub\<close> of \<open>u32\<close> is subtraction of naturals.\<close>

definition webhook_backoff_ms :: "nat \<Rightarrow> int" where
  "webhook_backoff_ms attempts =
     (let exponent = min (attempts - 1) 30 in
      min (i64_saturating_mul webhook_backoff_base_ms (push_bit exponent 1)) webhook_backoff_max_ms)"

record tick_outcome =
  to_delivered :: "rstr list"
  to_failed :: "(rstr \<times> delivery_failure) list"
  to_disabled :: "rstr list"

text \<open>What the worker does with one claimed delivery.\<close>

definition deliver_one ::
  "(rstr \<Rightarrow> rstr \<Rightarrow> int \<Rightarrow> event_row \<Rightarrow> delivery_failure + unit) \<Rightarrow> int \<Rightarrow> pending_delivery
   \<Rightarrow> tick_outcome \<times> hooks \<Rightarrow> tick_outcome \<times> hooks" where
  "deliver_one deliver now p st =
     (let sid = pd_subscription p; seq = ev_sequence (pd_event p); out = fst st; s = snd st in
      case deliver (pd_url p) (pd_secret p) now (pd_event p) of
        Inr _ \<Rightarrow> (out\<lparr>to_delivered := to_delivered out @ [sid]\<rparr>, record_delivered sid seq now s)
      | Inl failure \<Rightarrow>
          let attempts = u32_saturating_add (pd_attempts p) 1;
              next_attempt = i64_saturating_add now (webhook_backoff_ms attempts);
              s1 = record_failed sid seq failure attempts next_attempt now s;
              out1 = out\<lparr>to_failed := to_failed out @ [(sid, failure)]\<rparr> in
          if webhook_max_attempts \<le> attempts
          then (out1\<lparr>to_disabled := to_disabled out1 @ [sid]\<rparr>, disable_exhausted_subscription sid now s1)
          else (out1, s1))"

definition webhook_delivery_tick ::
  "(rstr \<Rightarrow> rstr \<Rightarrow> int \<Rightarrow> event_row \<Rightarrow> delivery_failure + unit) \<Rightarrow> int \<Rightarrow> hooks
   \<Rightarrow> storage_error + (tick_outcome \<times> hooks)" where
  "webhook_delivery_tick deliver now s =
     rbind (claim_due_deliveries now (i64_saturating_add now webhook_lease_ms) webhook_delivery_batch s)
       (\<lambda>(claimed, e). Inr (fold (deliver_one deliver now) claimed
          (\<lparr>to_delivered = [], to_failed = [], to_disabled = []\<rparr>, e)))"

end
