(* ===== verification/Outbox.thy ===== *)
theory Outbox
  imports Main
begin

text \<open>
  The contract of an outbox: per queue, items with growing numbers wait until they are closed, and only
  the first waiting item of a queue is ever handed out.  From that follow in-order delivery and that no
  item is lost, over runs of labelled steps.
\<close>

section \<open>Runs of labelled steps\<close>

inductive runs :: "('s \<Rightarrow> 'e \<Rightarrow> 's \<Rightarrow> bool) \<Rightarrow> 's \<Rightarrow> 'e list \<Rightarrow> 's \<Rightarrow> bool"
  for step :: "'s \<Rightarrow> 'e \<Rightarrow> 's \<Rightarrow> bool" where
  runs_nil: "runs step s [] s"
| runs_cons: "step s v t \<Longrightarrow> runs step t vs e \<Longrightarrow> runs step s (v # vs) e"

inductive_simps runs_simps [simp]: "runs step s [] e" "runs step s (v # vs) e"

lemma runs_append: "runs step s (vs @ ws) e \<longleftrightarrow> (\<exists>t. runs step s vs t \<and> runs step t ws e)"
  by (induction vs arbitrary: s) auto

text \<open>A predicate kept by every step of a run.\<close>

lemma runs_invariant:
  assumes "runs step s vs e" "I s" "\<And>s v t. v \<in> set vs \<Longrightarrow> I s \<Longrightarrow> step s v t \<Longrightarrow> I t"
  shows "I e"
  using assms by (induction rule: runs.induct) auto

section \<open>The outbox\<close>

locale outbox =
  fixes ok :: "'s \<Rightarrow> bool"
    and step :: "'s \<Rightarrow> 'e \<Rightarrow> 's \<Rightarrow> bool"
    and waiting :: "'s \<Rightarrow> 'q \<Rightarrow> int \<Rightarrow> bool"
    and next_item :: "'s \<Rightarrow> int"
    and handed :: "'e \<Rightarrow> 'q \<Rightarrow> int \<Rightarrow> bool"
    and closed :: "'e \<Rightarrow> 'q \<Rightarrow> int \<Rightarrow> bool"
  assumes step_ok: "ok s \<Longrightarrow> step s v e \<Longrightarrow> ok e"
    and bounded: "ok s \<Longrightarrow> waiting s q n \<Longrightarrow> n < next_item s"
    and next_mono: "ok s \<Longrightarrow> step s v e \<Longrightarrow> next_item s \<le> next_item e"
    and fresh: "ok s \<Longrightarrow> step s v e \<Longrightarrow> waiting e q n \<Longrightarrow> waiting s q n \<or> next_item s \<le> n"
    and first: "ok s \<Longrightarrow> step s v e \<Longrightarrow> handed v q n \<Longrightarrow> waiting s q n \<and> (\<forall>m. waiting s q m \<longrightarrow> n \<le> m)"
    and kept: "ok s \<Longrightarrow> step s v e \<Longrightarrow> waiting s q n \<Longrightarrow> \<not> closed v q n \<Longrightarrow> waiting e q n"
begin

lemma runs_ok: "runs step s vs e \<Longrightarrow> ok s \<Longrightarrow> ok e"
  by (erule runs_invariant) (auto intro: step_ok)

text \<open>Nothing below \<open>n\<close> waits in queue \<open>q\<close>, and nothing below \<open>n\<close> will come.\<close>

definition passed :: "'s \<Rightarrow> 'q \<Rightarrow> int \<Rightarrow> bool" where
  "passed s q n \<longleftrightarrow> ok s \<and> n \<le> next_item s \<and> (\<forall>m. waiting s q m \<longrightarrow> n \<le> m)"

lemma passed_step: "passed s q n \<Longrightarrow> step s v e \<Longrightarrow> passed e q n"
  unfolding passed_def using step_ok next_mono fresh by (meson order_trans)

lemma passed_runs: "runs step s vs e \<Longrightarrow> passed s q n \<Longrightarrow> passed e q n"
  by (erule runs_invariant) (auto intro: passed_step)

lemma handed_in_order:
  assumes "ok s" "runs step s (vs @ v # ws @ w # xs) e" "handed v q n" "handed w q m"
  shows "n \<le> m"
proof -
  from assms(2) obtain s1 s2 s3 s4 where
    r: "runs step s vs s1" "step s1 v s2" "runs step s2 ws s3" "step s3 w s4"
    by (auto simp: runs_append)
  have ok1: "ok s1" using runs_ok [OF r(1)] assms(1) .
  then have "passed s1 q n"
    using first [OF ok1 r(2) assms(3)] bounded unfolding passed_def by (meson less_imp_le)
  then have "passed s3 q n" using passed_step [OF _ r(2)] passed_runs [OF r(3)] by blast
  then show ?thesis using first [OF _ r(4) assms(4)] unfolding passed_def by blast
qed

lemma not_lost:
  assumes "ok s" "runs step s vs e" "waiting s q n" "\<And>v. v \<in> set vs \<Longrightarrow> \<not> closed v q n"
  shows "ok e \<and> waiting e q n"
proof (rule runs_invariant [OF assms(2), where I = "\<lambda>t. ok t \<and> waiting t q n"])
  show "ok s \<and> waiting s q n" using assms(1,3) by simp
next
  fix t v t' assume "v \<in> set vs" "ok t \<and> waiting t q n" "step t v t'"
  then show "ok t' \<and> waiting t' q n" using step_ok kept assms(4) by blast
qed

end

end
