(* ===== verification/HookMachine.thy ===== *)
theory HookMachine
  imports HookService Outbox
begin

text \<open>
  The webhook tables as a state machine.  Every transaction is a labelled step; the worker's claim and
  the recording of an outcome are separate steps, so that other transactions may run while a delivery
  is on its way, and the outcome may be recorded for any delivery at any time.
\<close>

section \<open>Steps\<close>

type_synonym delivery_key = "rstr \<times> int"

datatype hook_event =
    Claimed int int "delivery_key list"
  | RecordedDelivered delivery_key
  | RecordedFailed delivery_key
  | RetriedHead rstr "int option"
  | DiscardedHead rstr "int option"
  | SubscriptionDeleted rstr
  | OtherHookStep

definition pd_key :: "pending_delivery \<Rightarrow> delivery_key" where
  "pd_key p = (pd_subscription p, ev_sequence (pd_event p))"

inductive hook_step :: "hooks \<Rightarrow> hook_event \<Rightarrow> hooks \<Rightarrow> bool" where
  hook_change: "hook_step s OtherHookStep (insert_change eid own kind target rvn occurred s)"
| hook_claim: "in_i64 now \<Longrightarrow> until = i64_saturating_add now webhook_lease_ms
    \<Longrightarrow> claim_due_deliveries now until limit s = Inr (ds, e)
    \<Longrightarrow> hook_step s (Claimed now until (map pd_key ds)) e"
| hook_delivered: "hook_step s (RecordedDelivered (sid, seq)) (record_delivered sid seq now s)"
| hook_failed: "hook_step s (RecordedFailed (sid, seq)) (record_failed sid seq failure attempts next_attempt now s)"
| hook_disable: "hook_step s OtherHookStep (disable_exhausted_subscription sid now s)"
| hook_purge: "hook_step s OtherHookStep (snd (purge_expired_deliveries now s))"
| hook_create: "create_owned_subscription own sid url kinds secret now s = Inr e \<Longrightarrow> hook_step s OtherHookStep e"
| hook_activate: "hook_step s OtherHookStep (snd (activate_owned_subscription own sid now s))"
| hook_secret: "hook_step s OtherHookStep (snd (replace_owned_secret own sid secret now s))"
| hook_delete: "hook_step s (SubscriptionDeleted sid) (snd (delete_owned_subscription own sid s))"
| hook_retry: "hook_step s (RetriedHead sid (head_sequence sid s)) (snd (retry_owned_head_delivery own sid now s))"
| hook_discard: "hook_step s (DiscardedHead sid (head_sequence sid s)) (snd (discard_owned_head_delivery own sid now s))"
| hook_projection: "hook_step s OtherHookStep (s\<lparr>hk_projected := seqs\<rparr>)"

section \<open>Well-formed tables\<close>

definition hooks_ok :: "hooks \<Rightarrow> bool" where
  "hooks_ok s \<longleftrightarrow> distinct (map su_id (hk_subscriptions s)) \<and> distinct (map dl_key (hk_deliveries s))
     \<and> distinct (map ev_sequence (hk_events s))
     \<and> (\<forall>v\<in>set (hk_events s). ev_sequence v < hk_next_sequence s)
     \<and> (\<forall>r\<in>set (hk_deliveries s). dl_sequence r < hk_next_sequence s
          \<and> (\<exists>u\<in>set (hk_subscriptions s). su_id u = dl_subscription r)
          \<and> (\<exists>v\<in>set (hk_events s). ev_sequence v = dl_sequence r))"

text \<open>A step that changes only columns outside the keys.\<close>

definition same_keys :: "hooks \<Rightarrow> hooks \<Rightarrow> bool" where
  "same_keys s e \<longleftrightarrow> map su_id (hk_subscriptions e) = map su_id (hk_subscriptions s)
     \<and> map dl_key (hk_deliveries e) = map dl_key (hk_deliveries s)
     \<and> hk_events e = hk_events s \<and> hk_next_sequence e = hk_next_sequence s"

lemma same_keys_ok: "same_keys s e \<Longrightarrow> hooks_ok s \<Longrightarrow> hooks_ok e"
proof -
  assume r: "same_keys s e" and ok: "hooks_ok s"
  have ids: "su_id ` set (hk_subscriptions e) = su_id ` set (hk_subscriptions s)"
    "dl_key ` set (hk_deliveries e) = dl_key ` set (hk_deliveries s)"
    using r by (metis list.set_map same_keys_def)+
  have "dl_sequence x < hk_next_sequence s \<and> dl_subscription x \<in> su_id ` set (hk_subscriptions s)
      \<and> dl_sequence x \<in> ev_sequence ` set (hk_events s)" if "x \<in> set (hk_deliveries e)" for x
  proof -
    have "dl_key x \<in> dl_key ` set (hk_deliveries s)" using that ids(2) by blast
    then obtain y where "y \<in> set (hk_deliveries s)" "dl_key x = dl_key y" by blast
    with ok show ?thesis by (auto simp: hooks_ok_def dl_key_def image_iff) metis+
  qed
  with r ok ids show ?thesis
    unfolding hooks_ok_def same_keys_def by (auto simp: image_iff) (metis image_iff)+
qed

lemma same_keys_updates:
  "(\<And>u. su_id (f u) = su_id u) \<Longrightarrow> (\<And>r. dl_key (g r) = dl_key r)
     \<Longrightarrow> same_keys s (s\<lparr>hk_subscriptions := update_where p f (hk_subscriptions s),
           hk_deliveries := update_where q g (hk_deliveries s)\<rparr>)"
  by (simp add: same_keys_def distinct_map_update_where)

lemma same_keys_refl [simp]: "same_keys s s"
  by (simp add: same_keys_def)

lemma same_keys_trans: "same_keys s e \<Longrightarrow> same_keys e f \<Longrightarrow> same_keys s f"
  by (simp add: same_keys_def)

text \<open>The leases of a claim are one update.\<close>

lemma fold_lease:
  "fold (lease until) keys s = s\<lparr>hk_deliveries := update_where (\<lambda>r. dl_key r \<in> set keys \<and> dl_state r = DPending)
     (\<lambda>r. r\<lparr>dl_lease_expires_at := Some until\<rparr>) (hk_deliveries s)\<rparr>"
proof (induction keys arbitrary: s)
  case (Cons k ks)
  have "update_where (\<lambda>r. dl_key r \<in> set ks \<and> dl_state r = DPending) (\<lambda>r. r\<lparr>dl_lease_expires_at := Some until\<rparr>)
       (update_where (\<lambda>r. dl_key r = k \<and> dl_state r = DPending) (\<lambda>r. r\<lparr>dl_lease_expires_at := Some until\<rparr>) t)
     = update_where (\<lambda>r. dl_key r \<in> set (k # ks) \<and> dl_state r = DPending)
         (\<lambda>r. r\<lparr>dl_lease_expires_at := Some until\<rparr>) t" for t
    by (induction t) (auto simp: update_where_def dl_key_def)
  then show ?case unfolding fold.simps comp_def Cons.IH by (simp add: lease_def)
qed (simp add: update_where_def)

lemma pending_delivery_key: "pending_delivery_of s k = Some p \<Longrightarrow> pd_key p = k"
  by (auto simp: pending_delivery_of_def pd_key_def bind_eq_Some_conv dest: row_by_Some)

lemma claim_facts:
  assumes "claim_due_deliveries now until limit s = Inr (ds, e)"
  shows "map pd_key ds = map dl_key (take limit (sort_key dl_sequence (select_where (delivery_due now s) (hk_deliveries s))))"
    and "e = s\<lparr>hk_deliveries := update_where (\<lambda>r. dl_key r \<in> pd_key ` set ds \<and> dl_state r = DPending)
     (\<lambda>r. r\<lparr>dl_lease_expires_at := Some until\<rparr>) (hk_deliveries s)\<rparr>"
    and "k \<in> pd_key ` set ds \<Longrightarrow> \<exists>r\<in>set (hk_deliveries s). dl_key r = k \<and> delivery_due now s r"
    and "length ds \<le> limit"
proof -
  let ?rows = "take limit (sort_key dl_sequence (select_where (delivery_due now s) (hk_deliveries s)))"
  let ?e = "fold (lease until) (map dl_key ?rows) s"
  from assms have t: "traverse (\<lambda>k. ok_or StorageUnavailable (pending_delivery_of ?e k)) (map dl_key ?rows) = Inr ds"
    and e: "e = ?e"
    by (auto simp: claim_due_deliveries_def Let_def rbind_Inr_iff)
  have l: "length ds = length ?rows" using traverse_Inr_length [OF t] by simp
  have "pd_key (ds ! i) = map dl_key ?rows ! i" if "i < length ds" for i
  proof -
    have "ok_or StorageUnavailable (pending_delivery_of ?e (map dl_key ?rows ! i)) = Inr (ds ! i)"
      using t that l unfolding traverse_Inr_iff by (auto simp: list_all2_conv_all_nth)
    then have "pending_delivery_of ?e (map dl_key ?rows ! i) = Some (ds ! i)" by (simp only: ok_or_Inr_iff)
    then show ?thesis by (rule pending_delivery_key)
  qed
  with l show keys: "map pd_key ds = map dl_key ?rows" by (intro nth_equalityI) simp_all
  then have ks: "pd_key ` set ds = dl_key ` set ?rows" by (metis list.set_map)
  show "e = s\<lparr>hk_deliveries := update_where (\<lambda>r. dl_key r \<in> pd_key ` set ds \<and> dl_state r = DPending)
     (\<lambda>r. r\<lparr>dl_lease_expires_at := Some until\<rparr>) (hk_deliveries s)\<rparr>"
    unfolding e fold_lease ks by (simp only: list.set_map)
  show "\<exists>r\<in>set (hk_deliveries s). dl_key r = k \<and> delivery_due now s r" if k: "k \<in> pd_key ` set ds"
  proof -
    have "k \<in> dl_key ` set ?rows" using k by (simp only: ks)
    then obtain r where r: "r \<in> set ?rows" "dl_key r = k" by (metis imageE)
    have "r \<in> set (sort_key dl_sequence (select_where (delivery_due now s) (hk_deliveries s)))"
      by (rule in_set_takeD [OF r(1)])
    then have "r \<in> set (select_where (delivery_due now s) (hk_deliveries s))" by simp
    with r(2) show ?thesis by (auto simp: set_select_where)
  qed
  show "length ds \<le> limit" using l by simp
qed

section \<open>Every step keeps the tables well-formed\<close>

lemma same_keys_steps:
  "claim_due_deliveries now until limit s = Inr (ds, e) \<Longrightarrow> same_keys s e"
  "same_keys s (record_delivered sid seq now s)"
  "same_keys s (record_failed sid seq failure attempts next_attempt now s)"
  "same_keys s (disable_exhausted_subscription sid now s)"
  "same_keys s (snd (activate_owned_subscription own sid now s))"
  "same_keys s (snd (replace_owned_secret own sid secret now s))"
  "same_keys s (snd (retry_owned_head_delivery own sid now s))"
  "same_keys s (snd (discard_owned_head_delivery own sid now s))"
  "same_keys s (s\<lparr>hk_projected := seqs\<rparr>)"
proof -
  show "claim_due_deliveries now until limit s = Inr (ds, e) \<Longrightarrow> same_keys s e"
    by (drule claim_facts(2)) (simp add: same_keys_def distinct_map_update_where dl_key_def)
qed (auto simp: same_keys_def record_delivered_def record_failed_def disable_exhausted_subscription_def
    activate_owned_subscription_def replace_owned_secret_def update_owned_def retry_owned_head_delivery_def
    discard_owned_head_delivery_def reactivate_exhausted_def distinct_map_update_where dl_key_def)

lemma insert_change_ok:
  assumes "hooks_ok s"
  shows "hooks_ok (insert_change eid own kind target rvn occurred s)"
proof -
  define v where "v = \<lparr>ev_sequence = hk_next_sequence s, ev_id = eid, ev_owner = own, ev_kind = kind,
    ev_target = target, ev_revision = rvn, ev_occurred_at = occurred\<rparr>"
  have v: "ev_sequence v = hk_next_sequence s" by (simp add: v_def)
  have new: "dl_key (new_delivery v u) = (su_id u, hk_next_sequence s)" for u
    by (simp add: dl_key_def new_delivery_def v)
  have d: "distinct (map dl_key (map (new_delivery v) (filter (notifies v) (hk_subscriptions s))))"
    using assms by (auto simp: hooks_ok_def new comp_def distinct_map inj_on_def)
  have other: "dl_key r \<noteq> dl_key (new_delivery v u)" if "r \<in> set (hk_deliveries s)" for r u
  proof -
    have "dl_sequence r < hk_next_sequence s" using that assms by (simp add: hooks_ok_def)
    then show ?thesis unfolding new by (simp add: dl_key_def)
  qed
  have "dl_key ` set (hk_deliveries s) \<inter> dl_key ` set (map (new_delivery v) (filter (notifies v) (hk_subscriptions s))) = {}"
  proof -
    have "dl_key x \<noteq> dl_key (new_delivery v u)" if "x \<in> set (hk_deliveries s)" for x u using other that .
    then show ?thesis by (auto simp: image_iff) metis
  qed
  with d assms have "distinct (map dl_key (hk_deliveries s @ map (new_delivery v) (filter (notifies v) (hk_subscriptions s))))"
    unfolding hooks_ok_def map_append distinct_append set_map by blast
  moreover have "distinct (map ev_sequence (hk_events s @ [v]))" using assms by (auto simp: hooks_ok_def v)
  ultimately show ?thesis
    using assms unfolding insert_change_def v_def [symmetric] Let_def fan_out_def hooks_ok_def
    by (auto simp: v new_delivery_def)
qed

lemma purge_deliveries_ok: "hooks_ok s \<Longrightarrow> hooks_ok (snd (purge_expired_deliveries now s))"
proof -
  assume ok: "hooks_ok s"
  let ?e = "snd (purge_expired_deliveries now s)"
  have d: "set (hk_deliveries ?e) \<subseteq> set (hk_deliveries s)" and v: "set (hk_events ?e) \<subseteq> set (hk_events s)"
    and u: "hk_subscriptions ?e = hk_subscriptions s" "hk_next_sequence ?e = hk_next_sequence s"
    and k: "distinct (map dl_key (hk_deliveries ?e))" "distinct (map ev_sequence (hk_events ?e))"
    using ok by (auto simp: purge_expired_deliveries_def Let_def delete_where_def distinct_map_filter hooks_ok_def)
  have "\<exists>x\<in>set (hk_events ?e). ev_sequence x = dl_sequence r" if r: "r \<in> set (hk_deliveries ?e)" for r
  proof -
    obtain x where x: "x \<in> set (hk_events s)" "ev_sequence x = dl_sequence r"
      using r d ok unfolding hooks_ok_def by (metis subsetD)
    then have "x \<in> set (hk_events ?e)"
      using r by (auto simp: purge_expired_deliveries_def Let_def set_delete_where exists_where_iff)
    with x(2) show ?thesis by blast
  qed
  moreover have "\<forall>x\<in>set (hk_events ?e). ev_sequence x < hk_next_sequence ?e" using ok v u by (auto simp: hooks_ok_def)
  moreover have "\<forall>r\<in>set (hk_deliveries ?e). dl_sequence r < hk_next_sequence ?e
      \<and> (\<exists>x\<in>set (hk_subscriptions ?e). su_id x = dl_subscription r)" using ok d u by (auto simp: hooks_ok_def)
  moreover have "distinct (map su_id (hk_subscriptions ?e))" using ok u by (simp add: hooks_ok_def)
  ultimately show "hooks_ok ?e" using k unfolding hooks_ok_def by blast
qed

lemma create_ok:
  "create_owned_subscription own sid url kinds secret now s = Inr e \<Longrightarrow> hooks_ok s \<Longrightarrow> hooks_ok e"
  by (auto simp: hooks_ok_def create_owned_subscription_def exists_where_iff split: if_splits)

lemma delete_ok: "hooks_ok s \<Longrightarrow> hooks_ok (snd (delete_owned_subscription own sid s))"
  by (simp add: hooks_ok_def delete_owned_subscription_def set_delete_where exists_where_iff
      distinct_map_delete_where) blast

lemma hook_step_ok: "hook_step s v e \<Longrightarrow> hooks_ok s \<Longrightarrow> hooks_ok e"
  by (induction rule: hook_step.induct)
    (auto intro: insert_change_ok purge_deliveries_ok create_ok delete_ok same_keys_ok same_keys_steps)

end
