(* ===== verification/HookProps.thy ===== *)
theory HookProps
  imports HookMachine
begin

text \<open>
  What the delivery of webhooks promises: changes reach a subscription in the order they were made, none
  is lost without its owner's doing, a leased delivery is not claimed again, the retry interval grows to
  its cap, and a tick records exactly what the sender reported.
\<close>

section \<open>The tables are an outbox\<close>

definition delivery_waiting :: "hooks \<Rightarrow> rstr \<Rightarrow> int \<Rightarrow> bool" where
  "delivery_waiting s sid n \<longleftrightarrow> exists_where (pending_key sid n) (hk_deliveries s)"

fun hands_out :: "hook_event \<Rightarrow> rstr \<Rightarrow> int \<Rightarrow> bool" where
  "hands_out (Claimed now until ks) sid n \<longleftrightarrow> (sid, n) \<in> set ks"
| "hands_out v sid n \<longleftrightarrow> False"

fun closes :: "hook_event \<Rightarrow> rstr \<Rightarrow> int \<Rightarrow> bool" where
  "closes (RecordedDelivered k) sid n \<longleftrightarrow> k = (sid, n)"
| "closes (DiscardedHead q h) sid n \<longleftrightarrow> q = sid \<and> h = Some n"
| "closes (SubscriptionDeleted q) sid n \<longleftrightarrow> q = sid"
| "closes v sid n \<longleftrightarrow> False"

lemma waiting_iff:
  "delivery_waiting s sid n \<longleftrightarrow> (\<exists>r\<in>set (hk_deliveries s). dl_key r = (sid, n) \<and> dl_state r = DPending)"
  by (auto simp: delivery_waiting_def exists_where_iff pending_key_def dl_key_def)

lemma head_sequence_least:
  assumes "head_sequence sid s = Some n" "delivery_waiting s sid m"
  shows "n \<le> m"
proof -
  let ?xs = "map dl_sequence (select_where (pending_of sid) (hk_deliveries s))"
  obtain r where r: "r \<in> set (hk_deliveries s)" "dl_key r = (sid, m)" "dl_state r = DPending"
    using assms(2) by (auto simp: waiting_iff)
  then have m: "m \<in> set ?xs" by (force simp: set_select_where pending_of_def dl_key_def)
  then have "?xs \<noteq> []" by (metis empty_iff empty_set)
  then have "n = min_list ?xs" using assms(1) by (simp add: head_sequence_def split: list.splits)
  with \<open>?xs \<noteq> []\<close> m show ?thesis using min_list_Min [OF \<open>?xs \<noteq> []\<close>] by (metis List.finite_set Min_le)
qed

text \<open>An update keeps or ends the waiting of the rows it touches.\<close>

lemma waiting_kept:
  assumes "hk_deliveries e = update_where p f (hk_deliveries s)" "\<And>r. dl_key (f r) = dl_key r"
    and "\<And>r. p r \<Longrightarrow> dl_key r = (sid, n) \<Longrightarrow> dl_state r = DPending \<Longrightarrow> dl_state (f r) = DPending"
    and "delivery_waiting s sid n"
  shows "delivery_waiting e sid n"
proof -
  obtain r where r: "r \<in> set (hk_deliveries s)" "dl_key r = (sid, n)" "dl_state r = DPending"
    using assms(4) by (auto simp: waiting_iff)
  let ?r = "if p r then f r else r"
  have "?r \<in> set (hk_deliveries e)" unfolding assms(1) set_update_where using r(1) by (rule imageI)
  moreover have "dl_key ?r = (sid, n)" "dl_state ?r = DPending" using r assms(2,3) by simp_all
  ultimately show ?thesis unfolding waiting_iff by blast
qed

lemma waiting_not_new:
  assumes "hk_deliveries e = update_where p f (hk_deliveries s)" "\<And>r. dl_key (f r) = dl_key r"
    and "\<And>r. p r \<Longrightarrow> dl_state (f r) = DPending \<Longrightarrow> dl_state r = DPending"
    and "delivery_waiting e sid n"
  shows "delivery_waiting s sid n"
proof -
  obtain r where r: "r \<in> (\<lambda>r. if p r then f r else r) ` set (hk_deliveries s)"
    "dl_key r = (sid, n)" "dl_state r = DPending"
    using assms(4) unfolding waiting_iff assms(1) set_update_where by blast
  then obtain x where x: "x \<in> set (hk_deliveries s)" "r = (if p x then f x else x)" by blast
  with r assms(2,3) have "dl_key x = (sid, n)" "dl_state x = DPending" by (auto split: if_splits)
  with x(1) show ?thesis unfolding waiting_iff by blast
qed

lemma waiting_same: "hk_deliveries e = hk_deliveries s \<Longrightarrow> delivery_waiting e sid n \<longleftrightarrow> delivery_waiting s sid n"
  unfolding waiting_iff by simp

text \<open>The deliveries after each step.\<close>

lemma deliveries_after:
  "hk_deliveries (record_delivered sid seq now s) = update_where (pending_key sid seq)
     (\<lambda>r. r\<lparr>dl_state := DDelivered, dl_lease_expires_at := None, dl_last_failure := None,
            dl_last_attempted_at := Some now\<rparr>) (hk_deliveries s)"
  "hk_deliveries (record_failed sid seq failure attempts next_attempt now s) = update_where (pending_key sid seq)
     (\<lambda>r. r\<lparr>dl_attempts := int attempts, dl_next_attempt_at := next_attempt, dl_lease_expires_at := None,
            dl_last_failure := Some failure, dl_last_attempted_at := Some now\<rparr>) (hk_deliveries s)"
  "hk_deliveries (disable_exhausted_subscription sid now s) = hk_deliveries s"
  "hk_deliveries (snd (activate_owned_subscription own sid now s)) = hk_deliveries s"
  "hk_deliveries (snd (replace_owned_secret own sid secret now s)) = hk_deliveries s"
  "create_owned_subscription own sid url kinds secret now s = Inr e \<Longrightarrow> hk_deliveries e = hk_deliveries s"
  by (auto simp: record_delivered_def record_failed_def disable_exhausted_subscription_def update_owned_def
      activate_owned_subscription_def replace_owned_secret_def create_owned_subscription_def split: if_splits)

text \<open>Retry and discard touch the head row, and only if the caller owns the subscription.\<close>

lemma head_updates:
  "\<exists>p. hk_deliveries (snd (retry_owned_head_delivery own sid now s)) = update_where p
     (\<lambda>r. r\<lparr>dl_attempts := 0, dl_next_attempt_at := now, dl_lease_expires_at := None\<rparr>) (hk_deliveries s)
   \<and> (\<forall>r. p r \<longrightarrow> head_row sid s r)"
  "\<exists>p. hk_deliveries (snd (discard_owned_head_delivery own sid now s)) = update_where p
     (\<lambda>r. r\<lparr>dl_state := DDiscarded, dl_lease_expires_at := None, dl_last_attempted_at := Some now\<rparr>) (hk_deliveries s)
   \<and> (\<forall>r. p r \<longrightarrow> head_row sid s r)"
proof -
  let ?p = "\<lambda>r. find (owned own sid) (hk_subscriptions s) \<noteq> None \<and> head_row sid s r"
  show "\<exists>p. hk_deliveries (snd (retry_owned_head_delivery own sid now s)) = update_where p
     (\<lambda>r. r\<lparr>dl_attempts := 0, dl_next_attempt_at := now, dl_lease_expires_at := None\<rparr>) (hk_deliveries s)
   \<and> (\<forall>r. p r \<longrightarrow> head_row sid s r)"
    by (rule exI [of _ ?p]) (auto simp: retry_owned_head_delivery_def reactivate_exhausted_def update_where_def)
  show "\<exists>p. hk_deliveries (snd (discard_owned_head_delivery own sid now s)) = update_where p
     (\<lambda>r. r\<lparr>dl_state := DDiscarded, dl_lease_expires_at := None, dl_last_attempted_at := Some now\<rparr>) (hk_deliveries s)
   \<and> (\<forall>r. p r \<longrightarrow> head_row sid s r)"
    by (rule exI [of _ ?p]) (auto simp: discard_owned_head_delivery_def reactivate_exhausted_def update_where_def)
qed

lemma deliveries_subset:
  "set (hk_deliveries (snd (purge_expired_deliveries now s))) \<subseteq> set (hk_deliveries s)"
  "set (hk_deliveries (snd (delete_owned_subscription own sid s))) \<subseteq> set (hk_deliveries s)"
  by (auto simp: purge_expired_deliveries_def delete_owned_subscription_def Let_def delete_where_def)

lemma waiting_subset: "set (hk_deliveries e) \<subseteq> set (hk_deliveries s) \<Longrightarrow> delivery_waiting e sid n \<Longrightarrow> delivery_waiting s sid n"
  unfolding waiting_iff by blast

lemma waiting_insert_change:
  "delivery_waiting (insert_change eid own kind target rvn occurred s) sid n \<longleftrightarrow> delivery_waiting s sid n
     \<or> n = hk_next_sequence s \<and> kind \<in> set webhook_event_kinds
       \<and> exists_where (\<lambda>u. su_id u = sid \<and> su_owner u = own \<and> su_state u = Active \<and> kind \<in> set (su_kinds u))
           (hk_subscriptions s)"
  by (auto simp: waiting_iff insert_change_def fan_out_def Let_def new_delivery_def dl_key_def notifies_def
      exists_where_iff bex_Un)

section \<open>Order and loss\<close>

lemma same_keys_next: "same_keys s e \<Longrightarrow> hk_next_sequence e = hk_next_sequence s"
  by (simp add: same_keys_def)

lemma hook_step_next: "hook_step s v e \<Longrightarrow> hk_next_sequence s \<le> hk_next_sequence e"
  by (induction rule: hook_step.induct)
    (auto simp: same_keys_steps [THEN same_keys_next] insert_change_def fan_out_def Let_def
      purge_expired_deliveries_def delete_owned_subscription_def create_owned_subscription_def split: if_splits)

interpretation feed_outbox: outbox hooks_ok hook_step delivery_waiting hk_next_sequence hands_out closes
proof
  fix s v e assume s: "hooks_ok s" "hook_step s v e"
  show "hooks_ok e" using hook_step_ok s by blast
  show "hk_next_sequence s \<le> hk_next_sequence e" using hook_step_next s(2) by blast
next
  fix s sid n assume "hooks_ok s" "delivery_waiting s sid n"
  then show "n < hk_next_sequence s" by (auto simp: hooks_ok_def waiting_iff dl_key_def)
next
  fix s v e sid n assume s: "hooks_ok s" "hook_step s v e" "hands_out v sid n"
  from s(2,3) show "delivery_waiting s sid n \<and> (\<forall>m. delivery_waiting s sid m \<longrightarrow> n \<le> m)"
  proof cases
    case (hook_claim now until limit ds)
    then have "(sid, n) \<in> pd_key ` set ds" using s(3) by simp
    from claim_facts(3) [OF hook_claim(4) this] obtain r where
      r: "r \<in> set (hk_deliveries s)" "dl_key r = (sid, n)" "delivery_due now s r" by blast
    then have "dl_state r = DPending" "head_sequence sid s = Some n" by (auto simp: delivery_due_def dl_key_def)
    with r show ?thesis using head_sequence_least by (auto simp: waiting_iff)
  qed (use s(3) in simp_all)
next
  fix s v e sid n assume s: "hooks_ok s" "hook_step s v e" "delivery_waiting e sid n"
  from s(2) show "delivery_waiting s sid n \<or> hk_next_sequence s \<le> n"
  proof cases
    case hook_change
    then show ?thesis using s(3) by (auto simp: waiting_insert_change)
  next
    case (hook_claim now until limit ds)
    from claim_facts(2) [OF hook_claim(4)] have "delivery_waiting s sid n"
      by (intro waiting_not_new [OF _ _ _ s(3)]) (simp, simp_all add: dl_key_def)
    then show ?thesis ..
  next
    case (hook_retry sid' own now)
    obtain p where p: "hk_deliveries e = update_where p (\<lambda>r. r\<lparr>dl_attempts := 0, dl_next_attempt_at := now, dl_lease_expires_at := None\<rparr>) (hk_deliveries s)"
      "\<forall>r. p r \<longrightarrow> head_row sid' s r"
      using head_updates(1) [of own sid' now s] hook_retry(2) by blast
    have "delivery_waiting s sid n"
      by (rule waiting_not_new [OF p(1) _ _ s(3)]) (auto simp: dl_key_def)
    then show ?thesis ..
  next
    case (hook_discard sid' own now)
    obtain p where p: "hk_deliveries e = update_where p (\<lambda>r. r\<lparr>dl_state := DDiscarded, dl_lease_expires_at := None, dl_last_attempted_at := Some now\<rparr>) (hk_deliveries s)"
      "\<forall>r. p r \<longrightarrow> head_row sid' s r"
      using head_updates(2) [of own sid' now s] hook_discard(2) by blast
    have "delivery_waiting s sid n"
      by (rule waiting_not_new [OF p(1) _ _ s(3)]) (auto simp: dl_key_def)
    then show ?thesis ..
  next
    case (hook_delivered q m now)
    have "delivery_waiting s sid n"
      by (rule waiting_not_new [OF deliveries_after(1) _ _ s(3) [unfolded hook_delivered(2)]]) (simp_all add: dl_key_def)
    then show ?thesis ..
  next
    case (hook_failed q m failure attempts next_attempt now)
    have "delivery_waiting s sid n"
      by (rule waiting_not_new [OF deliveries_after(2) _ _ s(3) [unfolded hook_failed(2)]]) (simp_all add: dl_key_def)
    then show ?thesis ..
  next
    case (hook_purge now)
    then show ?thesis using waiting_subset [OF deliveries_subset(1)] s(3) by blast
  next
    case (hook_delete q own)
    then show ?thesis using waiting_subset [OF deliveries_subset(2)] s(3) by blast
  qed (use s(3) in \<open>simp_all add: waiting_iff deliveries_after\<close>)
next
  fix s v e sid n assume s: "hooks_ok s" "hook_step s v e" "delivery_waiting s sid n" "\<not> closes v sid n"
  from s(2) show "delivery_waiting e sid n"
  proof cases
    case hook_change
    then show ?thesis using s(3) by (simp add: waiting_insert_change)
  next
    case (hook_claim now until limit ds)
    from claim_facts(2) [OF hook_claim(4)] show ?thesis
      by (intro waiting_kept [OF _ _ _ s(3)]) (simp, simp_all add: dl_key_def)
  next
    case (hook_delivered q m now)
    show ?thesis unfolding hook_delivered
      by (rule waiting_kept [OF deliveries_after(1) _ _ s(3)])
        (use s(4) hook_delivered in \<open>auto simp: dl_key_def pending_key_def\<close>)
  next
    case (hook_failed q m failure attempts next_attempt now)
    show ?thesis unfolding hook_failed
      by (rule waiting_kept [OF deliveries_after(2) _ _ s(3)]) (simp_all add: dl_key_def)
  next
    case (hook_purge now)
    then show ?thesis using s(3)
      by (auto simp: waiting_iff purge_expired_deliveries_def Let_def set_delete_where)
  next
    case (hook_delete q own)
    then show ?thesis using s(3,4)
      by (auto simp: waiting_iff delete_owned_subscription_def set_delete_where exists_where_iff owned_def dl_key_def)
  next
    case (hook_retry q own now)
    obtain p where p: "hk_deliveries e = update_where p
        (\<lambda>r. r\<lparr>dl_attempts := 0, dl_next_attempt_at := now, dl_lease_expires_at := None\<rparr>) (hk_deliveries s)"
      using head_updates(1) [of own q now s] hook_retry(2) by blast
    show ?thesis by (rule waiting_kept [OF p _ _ s(3)]) (simp_all add: dl_key_def)
  next
    case (hook_discard q own now)
    obtain p where p: "hk_deliveries e = update_where p (\<lambda>r. r\<lparr>dl_state := DDiscarded,
          dl_lease_expires_at := None, dl_last_attempted_at := Some now\<rparr>) (hk_deliveries s)"
      "\<forall>r. p r \<longrightarrow> head_row q s r"
      using head_updates(2) [of own q now s] hook_discard(2) by blast
    show ?thesis
      by (rule waiting_kept [OF p(1) _ _ s(3)])
        (use s(4) hook_discard p(2) in \<open>auto simp: dl_key_def head_row_def pending_of_def\<close>)
  qed (use s(3) in \<open>simp_all add: waiting_iff deliveries_after\<close>)
qed

text \<open>Changes are never rewritten, and the sequence numbers of new ones are new.\<close>

lemma hook_step_events:
  "hook_step s v e \<Longrightarrow> x \<in> set (hk_events e) \<Longrightarrow> x \<in> set (hk_events s) \<or> hk_next_sequence s \<le> ev_sequence x"
proof (induction rule: hook_step.induct)
  case (hook_claim now until limit s ds e)
  then show ?case using same_keys_steps(1) by (simp add: same_keys_def)
qed (auto simp: insert_change_def fan_out_def Let_def purge_expired_deliveries_def delete_where_def
    record_delivered_def record_failed_def disable_exhausted_subscription_def create_owned_subscription_def
    activate_owned_subscription_def replace_owned_secret_def update_owned_def delete_owned_subscription_def
    retry_owned_head_delivery_def discard_owned_head_delivery_def reactivate_exhausted_def split: if_splits)

lemma runs_events:
  assumes "runs hook_step s vs e" "x \<in> set (hk_events e)" "ev_sequence x < hk_next_sequence s"
  shows "x \<in> set (hk_events s)"
  using assms
proof (induction rule: runs.induct)
  case (runs_cons s v t vs e)
  then show ?case using hook_step_events hook_step_next by (meson leD less_le_trans)
qed

text \<open>
  C23: changes reach a subscription in the order they were made.  Over every interleaving of the
  transactions on well-formed tables, if the worker claims change n for a subscription and later claims
  change m for it, then m is not before n.
\<close>

theorem webhook_in_order:
  assumes "hooks_ok s"
    and "runs hook_step s (vs @ Claimed t1 u1 ks # ws @ Claimed t2 u2 js # xs) e"
    and "(sid, n) \<in> set ks" "(sid, m) \<in> set js"
  shows "n \<le> m"
  using feed_outbox.handed_in_order [OF assms(1,2)] assms(3,4) by simp

text \<open>
  C24: no change is lost.  A change of a kind and owner an active subscription listens to is waiting for
  it right after the transaction that makes the change, and stays waiting, readable with its target and
  revision, through every later transaction that neither records its delivery nor discards it as the
  head of its subscription nor deletes the subscription.
\<close>

theorem webhook_no_loss:
  assumes "hooks_ok s" "kind \<in> set webhook_event_kinds"
    and "u \<in> set (hk_subscriptions s)" "su_owner u = own" "su_state u = Active" "kind \<in> set (su_kinds u)"
    and "runs hook_step (insert_change eid own kind target rvn occurred s) vs e"
    and "list_all (\<lambda>v. \<not> closes v (su_id u) (hk_next_sequence s)) vs"
  shows "delivery_waiting e (su_id u) (hk_next_sequence s)
    \<and> row_by ev_sequence (hk_next_sequence s) (hk_events e)
        = Some \<lparr>ev_sequence = hk_next_sequence s, ev_id = eid, ev_owner = own, ev_kind = kind,
            ev_target = target, ev_revision = rvn, ev_occurred_at = occurred\<rparr>"
proof -
  let ?n = "hk_next_sequence s" and ?s1 = "insert_change eid own kind target rvn occurred s"
  let ?v = "\<lparr>ev_sequence = ?n, ev_id = eid, ev_owner = own, ev_kind = kind,
    ev_target = target, ev_revision = rvn, ev_occurred_at = occurred\<rparr>"
  have ok1: "hooks_ok ?s1" by (rule insert_change_ok [OF assms(1)])
  have "delivery_waiting ?s1 (su_id u) ?n"
    using assms(2-6) by (auto simp: waiting_insert_change exists_where_iff)
  then have e: "hooks_ok e" "delivery_waiting e (su_id u) ?n"
    using feed_outbox.not_lost [OF ok1 assms(7)] assms(8) by (simp_all add: list_all_iff)
  then obtain x where x: "x \<in> set (hk_events e)" "ev_sequence x = ?n"
    by (auto simp: hooks_ok_def waiting_iff dl_key_def)
  have "hk_next_sequence ?s1 = ?n + 1" "set (hk_events ?s1) = insert ?v (set (hk_events s))"
    by (auto simp: insert_change_def fan_out_def Let_def)
  with runs_events [OF assms(7) x(1)] x(2) have "x = ?v \<or> x \<in> set (hk_events s)" by simp
  with x(2) assms(1) have "x = ?v" by (auto simp: hooks_ok_def)
  with x(1) e have "row_by ev_sequence ?n (hk_events e) = Some ?v"
    by (simp add: row_by_Some_iff hooks_ok_def)
  with e(2) show ?thesis by blast
qed

section \<open>Leases\<close>

definition leased :: "delivery_key \<Rightarrow> int \<Rightarrow> hooks \<Rightarrow> bool" where
  "leased k until s \<longleftrightarrow> hooks_ok s \<and> snd k < hk_next_sequence s \<and> (\<forall>r\<in>set (hk_deliveries s).
     dl_key r = k \<and> dl_state r = DPending \<longrightarrow> (\<exists>u. dl_lease_expires_at r = Some u \<and> until \<le> u))"

lemma leased_update:
  assumes "leased k until s" "hooks_ok e" "hk_next_sequence e = hk_next_sequence s"
    and "hk_deliveries e = update_where p f (hk_deliveries s)" "\<And>r. dl_key (f r) = dl_key r"
    and "\<And>r. p r \<Longrightarrow> dl_key r = k \<Longrightarrow> dl_state (f r) = DPending \<Longrightarrow> r \<in> set (hk_deliveries s) \<Longrightarrow>
        \<exists>u. dl_lease_expires_at (f r) = Some u \<and> until \<le> u"
  shows "leased k until e"
  unfolding leased_def
proof (intro conjI ballI impI)
  show "hooks_ok e" "snd k < hk_next_sequence e" using assms(1-3) by (simp_all add: leased_def)
  fix r assume r: "r \<in> set (hk_deliveries e)" "dl_key r = k \<and> dl_state r = DPending"
  then obtain x where x: "x \<in> set (hk_deliveries s)" "r = (if p x then f x else x)"
    unfolding assms(4) set_update_where by blast
  show "\<exists>u. dl_lease_expires_at r = Some u \<and> until \<le> u"
  proof (cases "p x")
    case True
    then show ?thesis using assms(5,6) [of x] x r(2) by simp
  next
    case False
    then show ?thesis using assms(1) x r(2) by (simp add: leased_def)
  qed
qed

lemma leased_subset:
  "leased k until s \<Longrightarrow> hooks_ok e \<Longrightarrow> hk_next_sequence s \<le> hk_next_sequence e
     \<Longrightarrow> set (hk_deliveries e) \<subseteq> set (hk_deliveries s) \<Longrightarrow> leased k until e"
  by (auto simp: leased_def)

fun releases :: "hook_event \<Rightarrow> delivery_key \<Rightarrow> bool" where
  "releases (RecordedFailed j) k \<longleftrightarrow> j = k"
| "releases (RetriedHead q h) k \<longleftrightarrow> q = fst k \<and> h = Some (snd k)"
| "releases v k \<longleftrightarrow> False"

lemma claim_leases:
  assumes "hooks_ok s" "claim_due_deliveries now until limit s = Inr (ds, e)" "k \<in> pd_key ` set ds"
  shows "leased k until e"
proof -
  from claim_facts(3) [OF assms(2,3)] obtain r where r: "r \<in> set (hk_deliveries s)" "dl_key r = k" by blast
  have "hooks_ok e" "hk_next_sequence e = hk_next_sequence s"
    using same_keys_steps(1) [OF assms(2)] same_keys_ok assms(1) by (auto simp: same_keys_def)
  moreover have "snd k < hk_next_sequence s" using r assms(1) by (auto simp: hooks_ok_def dl_key_def)
  moreover have "dl_lease_expires_at x = Some until" if "x \<in> set (hk_deliveries e)" "dl_key x = k" "dl_state x = DPending" for x
  proof -
    have "hk_deliveries e = update_where (\<lambda>r. dl_key r \<in> pd_key ` set ds \<and> dl_state r = DPending)
        (\<lambda>r. r\<lparr>dl_lease_expires_at := Some until\<rparr>) (hk_deliveries s)"
      using claim_facts(2) [OF assms(2)] by simp
    with that(1) have "x \<in> (\<lambda>r. if dl_key r \<in> pd_key ` set ds \<and> dl_state r = DPending
        then r\<lparr>dl_lease_expires_at := Some until\<rparr> else r) ` set (hk_deliveries s)"
      by (simp only: set_update_where)
    then obtain y where "y \<in> set (hk_deliveries s)" "x = (if dl_key y \<in> pd_key ` set ds \<and> dl_state y = DPending
        then y\<lparr>dl_lease_expires_at := Some until\<rparr> else y)"
      by (rule imageE)
    with that(2,3) assms(3) show ?thesis by (auto simp: dl_key_def split: if_splits)
  qed
  ultimately show ?thesis by (simp add: leased_def)
qed

lemma leased_claimed:
  assumes "leased k until s" "claim_due_deliveries now until' limit s = Inr (ds, e)" "k \<in> pd_key ` set ds"
  shows "until \<le> now"
proof -
  from claim_facts(3) [OF assms(2,3)] obtain r where
    r: "r \<in> set (hk_deliveries s)" "dl_key r = k" "delivery_due now s r" by blast
  with assms(1) obtain u where "dl_lease_expires_at r = Some u" "until \<le> u"
    by (auto simp: leased_def delivery_due_def)
  with r(3) show ?thesis by (simp add: delivery_due_def)
qed

lemma leased_step:
  assumes "leased k until s" "hook_step s v e" "\<not> releases v k"
  shows "leased k until e"
proof -
  have ok: "hooks_ok s" using assms(1) by (simp add: leased_def)
  have oke: "hooks_ok e" and nx: "hk_next_sequence s \<le> hk_next_sequence e"
    using hook_step_ok hook_step_next assms(2) ok by blast+
  note upd = leased_update [OF assms(1) oke]
  from assms(2) show ?thesis
  proof cases
    case (hook_change eid own kind target rvn occurred)
    have d: "snd k < hk_next_sequence s" using assms(1) by (simp add: leased_def)
    have "r \<in> set (hk_deliveries s)" if "r \<in> set (hk_deliveries e)" "dl_key r = k" for r
    proof -
      have "r \<in> set (hk_deliveries s) \<or> dl_sequence r = hk_next_sequence s"
        using that(1) by (auto simp: hook_change insert_change_def fan_out_def Let_def new_delivery_def split: if_splits)
      with that(2) d show ?thesis by (auto simp: dl_key_def)
    qed
    then show ?thesis using assms(1) oke nx unfolding leased_def by fastforce
  next
    case (hook_claim now until' limit ds)
    note e = claim_facts(2) [OF hook_claim(4)]
    have later: "now \<le> until'"
      using hook_claim(2,3) by (simp add: i64_saturating_add_def in_i64_def webhook_lease_ms_def)
    show ?thesis
    proof (rule upd)
      show "hk_deliveries e = update_where (\<lambda>r. dl_key r \<in> pd_key ` set ds \<and> dl_state r = DPending)
         (\<lambda>r. r\<lparr>dl_lease_expires_at := Some until'\<rparr>) (hk_deliveries s)" using e by simp
    qed (use e later leased_claimed [OF assms(1) hook_claim(4)] in \<open>auto simp: dl_key_def\<close>)
  next
    case (hook_delivered q m now)
    show ?thesis
      by (rule upd [OF _ deliveries_after(1) [of q m now s, folded hook_delivered(2)]])
        (simp_all add: hook_delivered record_delivered_def dl_key_def)
  next
    case (hook_failed q m failure attempts next_attempt now)
    show ?thesis
      by (rule upd [OF _ deliveries_after(2) [of q m failure attempts next_attempt now s, folded hook_failed(2)]])
        (use assms(3) hook_failed in \<open>auto simp: record_failed_def dl_key_def pending_key_def\<close>)
  next
    case (hook_purge now)
    then show ?thesis using leased_subset [OF assms(1) oke nx] deliveries_subset by blast
  next
    case (hook_delete q own)
    then show ?thesis using leased_subset [OF assms(1) oke nx] deliveries_subset by blast
  next
    case (hook_retry q own now)
    obtain p where p: "hk_deliveries e = update_where p
        (\<lambda>r. r\<lparr>dl_attempts := 0, dl_next_attempt_at := now, dl_lease_expires_at := None\<rparr>) (hk_deliveries s)"
      "\<forall>r. p r \<longrightarrow> head_row q s r"
      using head_updates(1) [of own q now s] hook_retry(2) by blast
    have "hk_next_sequence e = hk_next_sequence s" using same_keys_next same_keys_steps(7) hook_retry(2) by blast
    then show ?thesis
      by (rule upd [OF _ p(1)])
        (use assms(3) hook_retry p(2) in \<open>auto simp: dl_key_def head_row_def pending_of_def\<close>)
  next
    case (hook_discard q own now)
    obtain p where p: "hk_deliveries e = update_where p (\<lambda>r. r\<lparr>dl_state := DDiscarded,
          dl_lease_expires_at := None, dl_last_attempted_at := Some now\<rparr>) (hk_deliveries s)"
      using head_updates(2) [of own q now s] hook_discard(2) by blast
    have "hk_next_sequence e = hk_next_sequence s" using same_keys_next same_keys_steps(8) hook_discard(2) by blast
    then show ?thesis by (rule upd [OF _ p]) (simp_all add: dl_key_def)
  qed (use leased_subset [OF assms(1) oke nx] in \<open>simp_all add: deliveries_after\<close>)
qed

text \<open>
  A delivery in flight is not claimed a second time.  Once the worker has claimed a delivery, no
  claim hands it out again for the sixty seconds of its lease, unless a failure of it has been recorded
  or its owner has asked for a retry in the meantime.
\<close>

theorem webhook_lease_exclusive:
  assumes "hooks_ok s" "runs hook_step s (Claimed t1 u1 ks # vs @ [Claimed t2 u2 js]) e"
    and "k \<in> set ks" "k \<in> set js" "list_all (\<lambda>v. \<not> releases v k) vs" "t1 + 60000 \<le> i64_max"
  shows "t1 + 60000 \<le> t2"
proof -
  from assms(2) obtain s1 s2 where r: "hook_step s (Claimed t1 u1 ks) s1" "runs hook_step s1 vs s2"
    "hook_step s2 (Claimed t2 u2 js) e" by (auto simp: runs_append)
  from r(1) assms(1,3) have "leased k u1 s1" by cases (auto intro: claim_leases)
  moreover have "u1 = t1 + 60000"
    using r(1) assms(6)
    by cases (simp add: i64_saturating_add_def webhook_lease_ms_def in_i64_def i64_min_def)
  ultimately have "leased k (t1 + 60000) s1" by simp
  then have "leased k (t1 + 60000) s2"
    by (rule runs_invariant [OF r(2)]) (use assms(5) in \<open>auto simp: list_all_iff intro: leased_step\<close>)
  with r(3) assms(4) show ?thesis by cases (auto dest: leased_claimed)
qed

end
