(* ===== verification/HookTick.thy ===== *)
theory HookTick
  imports HookProps
begin

text \<open>
  One tick of the delivery worker, compared with what it should do to the tables: the rows it attempts
  get the outcome the sender reports, all at once, and every other row stays as it is.
\<close>

section \<open>A claim always succeeds\<close>

lemma pending_delivery_exists:
  assumes "hooks_ok s" "r \<in> set (hk_deliveries s)"
  shows "\<exists>p. pending_delivery_of s (dl_key r) = Some p \<and> pd_key p = dl_key r"
proof -
  from assms obtain u v where u: "u \<in> set (hk_subscriptions s)" "su_id u = dl_subscription r"
    and v: "v \<in> set (hk_events s)" "ev_sequence v = dl_sequence r" by (auto simp: hooks_ok_def)
  have "row_by dl_key (dl_key r) (hk_deliveries s) = Some r"
    "row_by su_id (fst (dl_key r)) (hk_subscriptions s) = Some u"
    "row_by ev_sequence (snd (dl_key r)) (hk_events s) = Some v"
    using assms u v by (simp_all add: row_by_Some_iff hooks_ok_def dl_key_def)
  then obtain p where "pending_delivery_of s (dl_key r) = Some p" by (simp add: pending_delivery_of_def)
  then show ?thesis using pending_delivery_key by blast
qed

lemma pending_delivery_leased:
  "pending_delivery_of (s\<lparr>hk_deliveries := update_where q (\<lambda>r. r\<lparr>dl_lease_expires_at := l\<rparr>) (hk_deliveries s)\<rparr>) k
     = pending_delivery_of s k"
proof -
  have "row_by dl_key k (update_where q (\<lambda>r. r\<lparr>dl_lease_expires_at := l\<rparr>) (hk_deliveries s))
      = map_option (\<lambda>r. if q r then r\<lparr>dl_lease_expires_at := l\<rparr> else r) (row_by dl_key k (hk_deliveries s))"
    by (rule row_by_update_where) (simp add: dl_key_def)
  then show ?thesis by (cases "row_by dl_key k (hk_deliveries s)") (auto simp: pending_delivery_of_def)
qed

definition claimed_rows :: "int \<Rightarrow> nat \<Rightarrow> hooks \<Rightarrow> delivery_row list" where
  "claimed_rows now limit s = take limit (sort_key dl_sequence (select_where (delivery_due now s) (hk_deliveries s)))"

lemma claimed_rows_due: "r \<in> set (claimed_rows now limit s) \<Longrightarrow> r \<in> set (hk_deliveries s) \<and> delivery_due now s r"
  unfolding claimed_rows_def by (drule in_set_takeD) (simp add: set_select_where)

lemma claim_succeeds:
  assumes "hooks_ok s"
  shows "\<exists>ds e. claim_due_deliveries now until limit s = Inr (ds, e)
    \<and> map Some ds = map (pending_delivery_of s) (map dl_key (claimed_rows now limit s))"
proof -
  let ?ks = "map dl_key (claimed_rows now limit s)"
  let ?e = "fold (lease until) ?ks s"
  have e: "pending_delivery_of ?e k = pending_delivery_of s k" for k
    unfolding fold_lease by (rule pending_delivery_leased)
  have "\<exists>p. ok_or StorageUnavailable (pending_delivery_of ?e k) = Inr p" if "k \<in> set ?ks" for k
    using pending_delivery_exists [OF assms] claimed_rows_due that unfolding e
    by (auto simp: ok_or_Inr_iff) (metis claimed_rows_due)
  then obtain f where f: "\<And>k. k \<in> set ?ks \<Longrightarrow> ok_or StorageUnavailable (pending_delivery_of ?e k) = Inr (f k)"
    by metis
  then have t: "traverse (\<lambda>k. ok_or StorageUnavailable (pending_delivery_of ?e k)) ?ks = Inr (map f ?ks)"
    unfolding traverse_Inr_iff by (auto simp: list_all2_conv_all_nth)
  have "map Some (map f ?ks) = map (pending_delivery_of s) ?ks"
    using f unfolding e by (auto simp: ok_or_Inr_iff)
  then show ?thesis
    using t by (auto simp: claim_due_deliveries_def Let_def claimed_rows_def)
qed

text \<open>At most one row of a subscription is its head, so the claimed rows belong to different subscriptions.\<close>

lemma sorted_select_distinct:
  assumes "distinct (map k t)" "\<And>r x. r \<in> set t \<Longrightarrow> x \<in> set t \<Longrightarrow> q r \<Longrightarrow> q x \<Longrightarrow> g r = g x \<Longrightarrow> k r = k x"
  shows "distinct (map g (take n (sort_key h (select_where q t))))"
proof -
  have "distinct t" using assms(1) by (simp add: distinct_map)
  moreover have "inj_on g (set (select_where q t))"
    using assms by (auto simp: inj_on_def set_select_where distinct_map)
  ultimately have "distinct (map g (sort_key h (select_where q t)))"
    by (simp add: distinct_map select_where_def)
  then show ?thesis by (simp flip: take_map)
qed

lemma claimed_subscriptions_distinct:
  assumes "hooks_ok s"
  shows "distinct (map dl_subscription (claimed_rows now limit s))"
  unfolding claimed_rows_def
proof (rule sorted_select_distinct)
  show "distinct (map dl_key (hk_deliveries s))" using assms by (simp add: hooks_ok_def)
qed (auto simp: delivery_due_def dl_key_def)

section \<open>The retry interval\<close>

text \<open>
  The retry interval doubles from five seconds with every failed attempt and stays at one hour once
  it gets there; neither the shift nor the multiplication of the code overflows.
\<close>

theorem webhook_backoff_spec: "webhook_backoff_ms n = min 3600000 (5000 * 2 ^ (n - 1))"
proof (cases "n - 1 \<le> 30")
  case True
  have no_overflow: "i64_saturating_mul 5000 x = 5000 * x" if "1 \<le> x" "x \<le> 2 ^ 30" for x
    using that by (simp add: i64_saturating_mul_def i64_max_def i64_min_def)
  have "(2::int) ^ (n - 1) \<le> 2 ^ 30" using True by (rule power_increasing) simp
  moreover have "(1::int) \<le> 2 ^ (n - 1)" by simp
  ultimately have "i64_saturating_mul 5000 (2 ^ (n - 1)) = 5000 * 2 ^ (n - 1)" by (intro no_overflow)
  with True show ?thesis
    by (simp add: webhook_backoff_ms_def Let_def webhook_backoff_base_ms_def webhook_backoff_max_ms_def
        push_bit_eq_mult min.commute min_absorb1)
next
  case False
  then have "(2::int) ^ 30 \<le> 2 ^ (n - 1)" by (intro power_increasing) simp_all
  with False show ?thesis
    by (simp add: webhook_backoff_ms_def Let_def webhook_backoff_base_ms_def webhook_backoff_max_ms_def
        i64_saturating_mul_def i64_max_def i64_min_def push_bit_eq_mult min_def)
qed

section \<open>The tick as a simultaneous update\<close>

type_synonym sender = "rstr \<Rightarrow> rstr \<Rightarrow> int \<Rightarrow> event_row \<Rightarrow> delivery_failure + unit"

definition send_result :: "sender \<Rightarrow> int \<Rightarrow> pending_delivery \<Rightarrow> delivery_failure + unit" where
  "send_result deliver now p = deliver (pd_url p) (pd_secret p) now (pd_event p)"

text \<open>What the attempt makes of a delivery row, and whether it exhausts the subscription.\<close>

definition attempted_row :: "sender \<Rightarrow> int \<Rightarrow> pending_delivery \<Rightarrow> delivery_row \<Rightarrow> delivery_row" where
  "attempted_row deliver now p r =
     (case send_result deliver now p of
        Inr _ \<Rightarrow> r\<lparr>dl_state := DDelivered, dl_lease_expires_at := None, dl_last_failure := None,
                 dl_last_attempted_at := Some now\<rparr>
      | Inl failure \<Rightarrow> r\<lparr>dl_attempts := int (u32_saturating_add (pd_attempts p) 1),
                 dl_next_attempt_at := i64_saturating_add now (webhook_backoff_ms (u32_saturating_add (pd_attempts p) 1)),
                 dl_lease_expires_at := None, dl_last_failure := Some failure,
                 dl_last_attempted_at := Some now\<rparr>)"

definition exhausts :: "sender \<Rightarrow> int \<Rightarrow> pending_delivery \<Rightarrow> bool" where
  "exhausts deliver now p \<longleftrightarrow> isl (send_result deliver now p)
     \<and> webhook_max_attempts \<le> u32_saturating_add (pd_attempts p) 1"

definition disabled_row :: "int \<Rightarrow> subscription_row \<Rightarrow> subscription_row" where
  "disabled_row now u = u\<lparr>su_state := Disabled, su_reason := Some DeliveryExhausted, su_updated_at := now,
     su_revision := su_revision u + 1\<rparr>"

text \<open>The specification: the rows of the claimed subscriptions change together.\<close>

definition claimed_result :: "sender \<Rightarrow> int \<Rightarrow> hooks \<Rightarrow> delivery_row \<Rightarrow> delivery_row" where
  "claimed_result deliver now s r =
     (if r \<in> set (claimed_rows now webhook_delivery_batch s)
      then (case pending_delivery_of s (dl_key r) of None \<Rightarrow> r | Some p \<Rightarrow> attempted_row deliver now p r) else r)"

definition claim_exhausts :: "sender \<Rightarrow> int \<Rightarrow> hooks \<Rightarrow> rstr \<Rightarrow> bool" where
  "claim_exhausts deliver now s u \<longleftrightarrow> list_ex (\<lambda>r. dl_subscription r = u
     \<and> (case pending_delivery_of s (dl_key r) of None \<Rightarrow> False | Some p \<Rightarrow> exhausts deliver now p))
     (claimed_rows now webhook_delivery_batch s)"

definition tick_spec :: "sender \<Rightarrow> int \<Rightarrow> hooks \<Rightarrow> hooks" where
  "tick_spec deliver now s =
     s\<lparr>hk_deliveries := map (claimed_result deliver now s) (hk_deliveries s),
       hk_subscriptions := map (\<lambda>u. if su_state u = Active \<and> claim_exhausts deliver now s (su_id u)
         then disabled_row now u else u) (hk_subscriptions s)\<rparr>"

lemma deliver_one_state:
  "snd (deliver_one deliver now p (out, s)) = s\<lparr>
     hk_deliveries := map (\<lambda>r. if pending_key (fst (pd_key p)) (snd (pd_key p)) r then attempted_row deliver now p r else r)
       (hk_deliveries s),
     hk_subscriptions := map (\<lambda>u. if su_id u = pd_subscription p \<and> su_state u = Active \<and> exhausts deliver now p
       then disabled_row now u else u) (hk_subscriptions s)\<rparr>"
  by (auto simp: deliver_one_def Let_def send_result_def attempted_row_def exhausts_def disabled_row_def
      record_delivered_def record_failed_def disable_exhausted_subscription_def update_where_def pd_key_def
      split: sum.split)

lemma two_updates:
  "(s\<lparr>hk_deliveries := a, hk_subscriptions := b\<rparr>)
       \<lparr>hk_deliveries := map f (hk_deliveries (s\<lparr>hk_deliveries := a, hk_subscriptions := b\<rparr>)),
        hk_subscriptions := map g (hk_subscriptions (s\<lparr>hk_deliveries := a, hk_subscriptions := b\<rparr>))\<rparr>
     = s\<lparr>hk_deliveries := map f a, hk_subscriptions := map g b\<rparr>"
  by simp

definition attempted_by :: "sender \<Rightarrow> int \<Rightarrow> pending_delivery list \<Rightarrow> delivery_row \<Rightarrow> delivery_row" where
  "attempted_by deliver now ps r = (case find (\<lambda>p. pd_key p = dl_key r) ps of
     None \<Rightarrow> r | Some p \<Rightarrow> if dl_state r = DPending then attempted_row deliver now p r else r)"

lemma deliver_fold_state:
  assumes "distinct (map pd_subscription ps)"
  shows "snd (fold (deliver_one deliver now) ps (out, s)) = s\<lparr>
     hk_deliveries := map (attempted_by deliver now ps) (hk_deliveries s),
     hk_subscriptions := map (\<lambda>u. if su_state u = Active \<and> list_ex (\<lambda>p. pd_subscription p = su_id u
         \<and> exhausts deliver now p) ps then disabled_row now u else u) (hk_subscriptions s)\<rparr>"
  using assms
proof (induction ps arbitrary: out s)
  case (Cons p ps)
  obtain out1 s1 where d: "deliver_one deliver now p (out, s) = (out1, s1)" by (cases "deliver_one deliver now p (out, s)")
  have s1: "s1 = snd (deliver_one deliver now p (out, s))" by (simp add: d)
  have row: "attempted_by deliver now ps r' = attempted_by deliver now (p # ps) r"
    if "r' = (if pending_key (fst (pd_key p)) (snd (pd_key p)) r then attempted_row deliver now p r else r)" for r r'
  proof (cases "pd_key p = dl_key r")
    case True
    have "find (\<lambda>q. pd_key q = dl_key r) ps = None"
    proof -
      have "pd_key q \<noteq> dl_key r" if "q \<in> set ps" for q
      proof -
        have "pd_subscription q \<noteq> pd_subscription p" using Cons.prems that by (auto simp: image_iff)
        with True show ?thesis by (auto simp: pd_key_def dl_key_def)
      qed
      then show ?thesis by (simp add: find_None_iff)
    qed
    moreover have "dl_key r' = dl_key r" using that by (simp add: attempted_row_def dl_key_def split: sum.split)
    ultimately show ?thesis using True that by (auto simp: attempted_by_def pending_key_def dl_key_def pd_key_def)
  next
    case False
    then have same: "r' = r" using that by (auto simp: pending_key_def pd_key_def dl_key_def)
    from False show ?thesis unfolding same by (simp add: attempted_by_def)
  qed
  have sub: "(if su_state u' = Active \<and> list_ex (\<lambda>q. pd_subscription q = su_id u' \<and> exhausts deliver now q) ps
       then disabled_row now u' else u')
     = (if su_state u = Active \<and> list_ex (\<lambda>q. pd_subscription q = su_id u \<and> exhausts deliver now q) (p # ps)
       then disabled_row now u else u)"
    if "u' = (if su_id u = pd_subscription p \<and> su_state u = Active \<and> exhausts deliver now p
       then disabled_row now u else u)" for u u'
    using that by (auto simp: disabled_row_def)
  let ?f1 = "\<lambda>r. if pending_key (fst (pd_key p)) (snd (pd_key p)) r then attempted_row deliver now p r else r"
  let ?g1 = "\<lambda>u. if su_id u = pd_subscription p \<and> su_state u = Active \<and> exhausts deliver now p
       then disabled_row now u else u"
  have "snd (fold (deliver_one deliver now) (p # ps) (out, s)) = snd (fold (deliver_one deliver now) ps (out1, s1))"
    by (simp add: d)
  also have "\<dots> = s1\<lparr>
     hk_deliveries := map (attempted_by deliver now ps) (hk_deliveries s1),
     hk_subscriptions := map (\<lambda>u. if su_state u = Active \<and> list_ex (\<lambda>p. pd_subscription p = su_id u
         \<and> exhausts deliver now p) ps then disabled_row now u else u) (hk_subscriptions s1)\<rparr>"
    by (rule Cons.IH) (use Cons.prems in simp)
  also have "s1 = s\<lparr>hk_deliveries := map ?f1 (hk_deliveries s), hk_subscriptions := map ?g1 (hk_subscriptions s)\<rparr>"
    unfolding s1 by (rule deliver_one_state)
  finally show ?case
    unfolding two_updates map_map comp_def row [OF refl] sub [OF refl] .
qed (simp add: attempted_by_def [abs_def])

lemma attempted_leased: "attempted_row deliver now p (r\<lparr>dl_lease_expires_at := l\<rparr>) = attempted_row deliver now p r"
  by (simp add: attempted_row_def split: sum.split)

lemma find_claimed:
  assumes "hooks_ok s" "map Some ds = map (pending_delivery_of s) (map dl_key rows)"
    and "set rows \<subseteq> set (hk_deliveries s)" "r \<in> set (hk_deliveries s)"
  shows "find (\<lambda>p. pd_key p = dl_key r) ds = (if r \<in> set rows then pending_delivery_of s (dl_key r) else None)"
proof -
  have keys: "pending_delivery_of s (dl_key x) = Some p \<Longrightarrow> pd_key p = dl_key x" for x p
    by (rule pending_delivery_key)
  have same: "dl_key x = dl_key r \<longleftrightarrow> x = r" if "x \<in> set (hk_deliveries s)" for x
    using assms(1,4) that by (auto simp: hooks_ok_def dest: distinct_map [THEN iffD1] inj_onD)
  from assms(2,3) show ?thesis
  proof (induction rows arbitrary: ds)
    case (Cons x rows)
    then obtain p ps where ds: "ds = p # ps" "pending_delivery_of s (dl_key x) = Some p"
      "map Some ps = map (pending_delivery_of s) (map dl_key rows)" by (cases ds) auto
    have x: "pd_key p = dl_key r \<longleftrightarrow> x = r" using keys [OF ds(2)] same Cons.prems(2) by auto
    show ?case
    proof (cases "x = r")
      case True
      with x ds show ?thesis by simp
    next
      case False
      with x Cons.IH [OF ds(3)] Cons.prems(2) ds(1) show ?thesis by auto
    qed
  qed simp
qed

lemma map_compose_eq: "(\<And>x. x \<in> set xs \<Longrightarrow> f (g x) = h x) \<Longrightarrow> map f (map g xs) = map h xs"
  by simp

lemma any_claimed:
  "map Some ds = map f rows \<Longrightarrow>
     list_ex P ds \<longleftrightarrow> list_ex (\<lambda>r. case f r of None \<Rightarrow> False | Some p \<Rightarrow> P p) rows"
proof (induction rows arbitrary: ds)
  case (Cons r rows)
  then show ?case by (cases ds) (auto split: option.splits)
qed simp

text \<open>Leasing a claimed row and then attempting it amounts to the specified result.\<close>

definition leased_row :: "int \<Rightarrow> (rstr \<times> int) set \<Rightarrow> delivery_row \<Rightarrow> delivery_row" where
  "leased_row until ks r = (if dl_key r \<in> ks \<and> dl_state r = DPending then r\<lparr>dl_lease_expires_at := Some until\<rparr> else r)"

lemma attempted_leased_row:
  assumes "hooks_ok s" "map Some ds = map (pending_delivery_of s) (map dl_key rows)"
    and "rows = claimed_rows now webhook_delivery_batch s" "r \<in> set (hk_deliveries s)"
  shows "attempted_by deliver now ds (leased_row until (pd_key ` set ds) r) = claimed_result deliver now s r"
proof -
  have sub: "set rows \<subseteq> set (hk_deliveries s)" "\<And>r. r \<in> set rows \<Longrightarrow> dl_state r = DPending"
    using claimed_rows_due assms(3) by (auto simp: delivery_due_def)
  note found = find_claimed [OF assms(1,2) sub(1) assms(4)]
  obtain p where p: "pending_delivery_of s (dl_key r) = Some p" "pd_key p = dl_key r"
    using pending_delivery_exists [OF assms(1,4)] by blast
  have k: "dl_key (leased_row until ks r) = dl_key r" "dl_state (leased_row until ks r) = dl_state r" for ks
    by (simp_all add: leased_row_def dl_key_def)
  have "dl_key r \<in> pd_key ` set ds \<longleftrightarrow> find (\<lambda>p. pd_key p = dl_key r) ds \<noteq> None"
    by (auto simp: find_None_iff image_iff) metis
  also have "\<dots> \<longleftrightarrow> r \<in> set rows" using found p by auto
  finally have m: "dl_key r \<in> pd_key ` set ds \<longleftrightarrow> r \<in> set rows" .
  show ?thesis
  proof (cases "r \<in> set rows")
    case True
    then show ?thesis
      unfolding attempted_by_def k found claimed_result_def assms(3) [symmetric]
      by (simp add: p sub(2) leased_row_def m attempted_leased)
  next
    case False
    then show ?thesis
      unfolding attempted_by_def k found claimed_result_def assms(3) [symmetric]
      by (simp add: leased_row_def m)
  qed
qed

lemma exhausted_claimed:
  assumes "map Some ds = map (pending_delivery_of s) (map dl_key (claimed_rows now webhook_delivery_batch s))"
  shows "list_ex (\<lambda>p. pd_subscription p = u \<and> exhausts deliver now p) ds \<longleftrightarrow> claim_exhausts deliver now s u"
proof -
  have own: "(case pending_delivery_of s (dl_key r) of None \<Rightarrow> False | Some p \<Rightarrow> pd_subscription p = u \<and> exhausts deliver now p)
      \<longleftrightarrow> dl_subscription r = u \<and> (case pending_delivery_of s (dl_key r) of
       None \<Rightarrow> False | Some p \<Rightarrow> exhausts deliver now p)" for r
    using pending_delivery_key [of s "dl_key r"] by (auto simp: pd_key_def dl_key_def split: option.split)
  have "map Some ds = map (\<lambda>r. pending_delivery_of s (dl_key r)) (claimed_rows now webhook_delivery_batch s)"
    using assms unfolding map_map comp_def .
  from any_claimed [OF this, of "\<lambda>p. pd_subscription p = u \<and> exhausts deliver now p"]
  show ?thesis unfolding claim_exhausts_def own .
qed

lemma deliver_claimed:
  assumes "hooks_ok s" "claim_due_deliveries now until webhook_delivery_batch s = Inr (ds, e)"
    and "map Some ds = map (pending_delivery_of s) (map dl_key (claimed_rows now webhook_delivery_batch s))"
  shows "snd (fold (deliver_one deliver now) ds (out, e)) = tick_spec deliver now s"
proof -
  have "map pd_key ds = map dl_key (claimed_rows now webhook_delivery_batch s)"
    using claim_facts(1) [OF assms(2)] by (simp add: claimed_rows_def)
  then have "map (fst \<circ> pd_key) ds = map (fst \<circ> dl_key) (claimed_rows now webhook_delivery_batch s)"
    by (metis map_map)
  then have dist: "distinct (map pd_subscription ds)"
    using claimed_subscriptions_distinct [OF assms(1), of now webhook_delivery_batch]
    by (simp add: comp_def pd_key_def dl_key_def)
  have e: "e = s\<lparr>hk_deliveries := map (leased_row until (pd_key ` set ds)) (hk_deliveries s)\<rparr>"
    using claim_facts(2) [OF assms(2)] by (simp add: update_where_def leased_row_def [abs_def])
  have "map (attempted_by deliver now ds) (map (leased_row until (pd_key ` set ds)) (hk_deliveries s))
      = map (claimed_result deliver now s) (hk_deliveries s)"
    by (rule map_compose_eq) (rule attempted_leased_row [OF assms(1,3) refl])
  then show ?thesis
    unfolding deliver_fold_state [OF dist] e tick_spec_def exhausted_claimed [OF assms(3)] by simp
qed

text \<open>
  C25: a tick does to the tables exactly what it should.  On well-formed tables it never fails, and its
  one-by-one statements amount to a simultaneous update: each row it attempts, at most four and each the
  head of a different subscription, becomes delivered or is put back with its next attempt, a subscription
  is disabled exactly when its tenth attempt in a row has failed, and nothing else changes.
\<close>

theorem webhook_tick_refines:
  assumes "hooks_ok s"
  shows "\<exists>out. webhook_delivery_tick deliver now s = Inr (out, tick_spec deliver now s)"
proof -
  let ?until = "i64_saturating_add now webhook_lease_ms"
  obtain ds e where c: "claim_due_deliveries now ?until webhook_delivery_batch s = Inr (ds, e)"
    and ds: "map Some ds = map (pending_delivery_of s) (map dl_key (claimed_rows now webhook_delivery_batch s))"
    using claim_succeeds [OF assms] by blast
  obtain out f where f: "fold (deliver_one deliver now) ds
      (\<lparr>to_delivered = [], to_failed = [], to_disabled = []\<rparr>, e) = (out, f)" by fastforce
  then have "f = tick_spec deliver now s" using deliver_claimed [OF assms c ds] by (metis snd_conv)
  then show ?thesis using c f by (auto simp: webhook_delivery_tick_def)
qed

end
