(* ===== verification/HookSample.thy ===== *)
theory HookSample
  imports HookTick
begin

text \<open>
  A concrete run of the webhook tables: one active subscription, two changes, a claim, its outcome and a
  second claim.  It shows that the hypotheses of the properties are met together.
\<close>

section \<open>A run\<close>

definition sample_subscription :: subscription_row where
  "sample_subscription = \<lparr>su_id = lit ''s'', su_owner = 1, su_url = lit ''https://h.example/'', su_secret = lit ''k'',
     su_kinds = [lit ''note.created''], su_state = Active, su_reason = None, su_created_at = 0,
     su_updated_at = 0, su_revision = 2\<rparr>"

definition sample_hooks :: hooks where
  "sample_hooks = \<lparr>hk_events = [], hk_next_sequence = 1, hk_projected = [],
     hk_subscriptions = [sample_subscription], hk_deliveries = []\<rparr>"

definition sample_change :: "hooks \<Rightarrow> hooks" where
  "sample_change = insert_change (lit ''e'') 1 (lit ''note.created'') (lit ''n'') 1 5"

definition sample_waiting :: hooks where
  "sample_waiting = sample_change (sample_change sample_hooks)"

lemma sample_hooks_ok: "hooks_ok sample_hooks" "hooks_ok sample_waiting"
proof -
  show ok: "hooks_ok sample_hooks" by (simp add: hooks_ok_def sample_hooks_def)
  show "hooks_ok sample_waiting"
    unfolding sample_waiting_def sample_change_def by (intro insert_change_ok ok)
qed

definition sample_claim :: "int \<Rightarrow> hooks \<Rightarrow> delivery_key list \<times> hooks" where
  "sample_claim now s = (case claim_due_deliveries now (i64_saturating_add now webhook_lease_ms) 4 s of
     Inl _ \<Rightarrow> ([], s) | Inr (ds, e) \<Rightarrow> (map pd_key ds, e))"

lemma sample_claim_step:
  "in_i64 now \<Longrightarrow> \<not> isl (claim_due_deliveries now (i64_saturating_add now webhook_lease_ms) 4 s)
     \<Longrightarrow> hook_step s (Claimed now (i64_saturating_add now webhook_lease_ms) (fst (sample_claim now s))) (snd (sample_claim now s))"
  by (auto simp: sample_claim_def split: sum.splits intro: hook_claim)

definition sample_claimed :: hooks where
  "sample_claimed = snd (sample_claim 10 sample_waiting)"

definition sample_delivered :: hooks where
  "sample_delivered = record_delivered (lit ''s'') 1 11 sample_claimed"

lemma sample_claims:
  "hook_step sample_waiting (Claimed 10 60010 [(lit ''s'', 1)]) sample_claimed"
  "hook_step sample_delivered (Claimed 20 60020 [(lit ''s'', 2)]) (snd (sample_claim 20 sample_delivered))"
  "hook_step sample_claimed (Claimed 60010 120010 [(lit ''s'', 1)]) (snd (sample_claim 60010 sample_claimed))"
proof -
  have "in_i64 10" "\<not> isl (claim_due_deliveries 10 (i64_saturating_add 10 webhook_lease_ms) 4 sample_waiting)"
    "fst (sample_claim 10 sample_waiting) = [(lit ''s'', 1)]" "i64_saturating_add 10 webhook_lease_ms = 60010"
    by code_simp+
  then show "hook_step sample_waiting (Claimed 10 60010 [(lit ''s'', 1)]) sample_claimed"
    using sample_claim_step [of 10 sample_waiting] by (simp add: sample_claimed_def)
  have "in_i64 20" "\<not> isl (claim_due_deliveries 20 (i64_saturating_add 20 webhook_lease_ms) 4 sample_delivered)"
    "fst (sample_claim 20 sample_delivered) = [(lit ''s'', 2)]" "i64_saturating_add 20 webhook_lease_ms = 60020"
    by code_simp+
  then show "hook_step sample_delivered (Claimed 20 60020 [(lit ''s'', 2)]) (snd (sample_claim 20 sample_delivered))"
    using sample_claim_step [of 20 sample_delivered] by simp
  have "in_i64 60010" "\<not> isl (claim_due_deliveries 60010 (i64_saturating_add 60010 webhook_lease_ms) 4 sample_claimed)"
    "fst (sample_claim 60010 sample_claimed) = [(lit ''s'', 1)]" "i64_saturating_add 60010 webhook_lease_ms = 120010"
    by code_simp+
  then show "hook_step sample_claimed (Claimed 60010 120010 [(lit ''s'', 1)]) (snd (sample_claim 60010 sample_claimed))"
    using sample_claim_step [of 60010 sample_claimed] by simp
qed

section \<open>The properties at this run\<close>

lemma webhook_in_order_witness:
  "(1::int) \<le> 2 \<and> runs hook_step sample_waiting [Claimed 10 60010 [(lit ''s'', 1)], RecordedDelivered (lit ''s'', 1),
     Claimed 20 60020 [(lit ''s'', 2)]] (snd (sample_claim 20 sample_delivered))"
proof
  show r: "runs hook_step sample_waiting [Claimed 10 60010 [(lit ''s'', 1)], RecordedDelivered (lit ''s'', 1),
     Claimed 20 60020 [(lit ''s'', 2)]] (snd (sample_claim 20 sample_delivered))"
    using sample_claims(1,2) hook_delivered [of sample_claimed "lit ''s''" 1 11]
    by (auto simp: sample_delivered_def)
  show "(1::int) \<le> 2"
    using webhook_in_order [OF sample_hooks_ok(2), of "[]" 10 60010 "[(lit ''s'', 1)]" "[RecordedDelivered (lit ''s'', 1)]"
        20 60020 "[(lit ''s'', 2)]" "[]" "snd (sample_claim 20 sample_delivered)" "lit ''s''" 1 2] r
    by simp
qed

lemma webhook_no_loss_witness:
  "delivery_waiting (sample_change (sample_change sample_hooks)) (lit ''s'') 1
     \<and> row_by ev_sequence 1 (hk_events (sample_change (sample_change sample_hooks)))
       = Some \<lparr>ev_sequence = 1, ev_id = lit ''e'', ev_owner = 1, ev_kind = lit ''note.created'',
            ev_target = lit ''n'', ev_revision = 1, ev_occurred_at = 5\<rparr>"
proof -
  have r: "runs hook_step (insert_change (lit ''e'') 1 (lit ''note.created'') (lit ''n'') 1 5 sample_hooks)
      [OtherHookStep] (sample_change (sample_change sample_hooks))"
    by (auto simp: sample_change_def intro: hook_change)
  have "su_owner sample_subscription = 1" "su_state sample_subscription = Active"
    "lit ''note.created'' \<in> set (su_kinds sample_subscription)" "lit ''note.created'' \<in> set webhook_event_kinds"
    "sample_subscription \<in> set (hk_subscriptions sample_hooks)" "hk_next_sequence sample_hooks = 1"
    "su_id sample_subscription = lit ''s''"
    by (simp_all add: sample_subscription_def sample_hooks_def webhook_event_kinds_def)
  then show ?thesis
    using webhook_no_loss [OF sample_hooks_ok(1) _ _ _ _ _ r, of sample_subscription] by simp
qed

lemma webhook_lease_exclusive_witness:
  "(60010::int) \<le> 60010 \<and> runs hook_step sample_waiting [Claimed 10 60010 [(lit ''s'', 1)],
     Claimed 60010 120010 [(lit ''s'', 1)]] (snd (sample_claim 60010 sample_claimed))"
proof
  show r: "runs hook_step sample_waiting [Claimed 10 60010 [(lit ''s'', 1)],
     Claimed 60010 120010 [(lit ''s'', 1)]] (snd (sample_claim 60010 sample_claimed))"
    using sample_claims(1,3) by auto
  have "(10::int) + 60000 \<le> 60010"
    using webhook_lease_exclusive [OF sample_hooks_ok(2), of 10 60010 "[(lit ''s'', 1)]" "[]" 60010 120010
        "[(lit ''s'', 1)]" "snd (sample_claim 60010 sample_claimed)" "(lit ''s'', 1)"] r
    by (simp add: i64_max_def)
  then show "(60010::int) \<le> 60010" by simp
qed

definition refusing_sender :: sender where
  "refusing_sender url secret now v = Inl (ConnectFailed)"

lemma webhook_tick_refines_witness:
  "\<exists>out. webhook_delivery_tick refusing_sender 10 sample_waiting = Inr (out, tick_spec refusing_sender 10 sample_waiting)"
  by (rule webhook_tick_refines [OF sample_hooks_ok(2)])

end
