(* ===== verification/BiblioItem.thy ===== *)
theory BiblioItem
  imports NoteModel "HOL-Library.List_Lexorder"
begin

text \<open>
  Bibliography items, \<open>crates/marginalis-domain/src/model/bibliography.rs\<close> and
  \<open>bibliography_import.rs\<close>.  A JSON value is the tree \<open>serde_json\<close> parses, with the members of an object
  in the order of their keys; its printer \<open>enc\<close> and its parser \<open>dec\<close> are parameters.
\<close>

section \<open>JSON values\<close>

datatype json = JNull | JBool bool | JNumber rstr | JString rstr | JArray "json list"
  | JObject "(rstr \<times> json) list"

type_synonym json_print = "json \<Rightarrow> rstr"
type_synonym json_parse = "rstr \<Rightarrow> json option"

fun json_as_str :: "json \<Rightarrow> rstr option" where
  "json_as_str (JString s) = Some s"
| "json_as_str _ = None"

fun json_get :: "rstr \<Rightarrow> json \<Rightarrow> json option" where
  "json_get k (JObject kvs) = map_of kvs k"
| "json_get k _ = None"

definition json_str_member :: "rstr \<Rightarrow> json \<Rightarrow> rstr option" where
  "json_str_member k v = Option.bind (json_get k v) json_as_str"

text \<open>\<open>Map::insert\<close> on the ordered map of members.\<close>

fun json_insert :: "rstr \<Rightarrow> json \<Rightarrow> (rstr \<times> json) list \<Rightarrow> (rstr \<times> json) list" where
  "json_insert k v [] = [(k, v)]"
| "json_insert k v ((j, w) # kvs) =
     (if k = j then (k, v) # kvs
      else if k < j then (k, v) # (j, w) # kvs
      else (j, w) # json_insert k v kvs)"

section \<open>Validation\<close>

definition max_csl_json_bytes :: nat where "max_csl_json_bytes = 131072"
definition max_csl_string_bytes :: nat where "max_csl_string_bytes = 16384"
definition max_csl_key_bytes :: nat where "max_csl_key_bytes = 128"
definition max_csl_depth :: nat where "max_csl_depth = 32"
definition max_citation_key_bytes :: nat where "max_citation_key_bytes = 128"

datatype invalid_item = ItemNotObject | MissingId | InvalidId | MissingType | InvalidType | InvalidJson
  | ItemTooLarge | CitationKeyMismatch | InvalidTimestampOrder | ItemTooDeep | StringTooLong | InvalidObjectKey

fun invalid_item_code :: "invalid_item \<Rightarrow> rstr" where
  "invalid_item_code ItemNotObject = lit ''item_not_object''"
| "invalid_item_code MissingId = lit ''missing_id''"
| "invalid_item_code InvalidId = lit ''invalid_id''"
| "invalid_item_code MissingType = lit ''missing_type''"
| "invalid_item_code InvalidType = lit ''invalid_type''"
| "invalid_item_code InvalidJson = lit ''invalid_json''"
| "invalid_item_code ItemTooLarge = lit ''item_too_large''"
| "invalid_item_code CitationKeyMismatch = lit ''citation_key_mismatch''"
| "invalid_item_code InvalidTimestampOrder = lit ''invalid_timestamp_order''"
| "invalid_item_code ItemTooDeep = lit ''item_too_deep''"
| "invalid_item_code StringTooLong = lit ''string_too_long''"
| "invalid_item_code InvalidObjectKey = lit ''invalid_object_key''"

definition object_key_rejected :: "rstr \<Rightarrow> bool" where
  "object_key_rejected k \<longleftrightarrow> k = [] \<or> max_csl_key_bytes < byte_len k \<or> list_ex is_control k"

fun validate_json_value :: "json \<Rightarrow> nat \<Rightarrow> invalid_item + unit"
  and validate_values :: "json list \<Rightarrow> nat \<Rightarrow> invalid_item + unit"
  and validate_members :: "(rstr \<times> json) list \<Rightarrow> nat \<Rightarrow> invalid_item + unit" where
  "validate_json_value v depth =
     (if max_csl_depth < depth then Inl ItemTooDeep
      else case v of
          JString s \<Rightarrow> if max_csl_string_bytes < byte_len s then Inl StringTooLong else Inr ()
        | JArray vs \<Rightarrow> validate_values vs (depth + 1)
        | JObject kvs \<Rightarrow> validate_members kvs (depth + 1)
        | _ \<Rightarrow> Inr ())"
| "validate_values [] depth = Inr ()"
| "validate_values (v # vs) depth = rbind (validate_json_value v depth) (\<lambda>_. validate_values vs depth)"
| "validate_members [] depth = Inr ()"
| "validate_members ((k, v) # kvs) depth =
     (if object_key_rejected k then Inl InvalidObjectKey
      else rbind (validate_json_value v depth) (\<lambda>_. validate_members kvs depth))"

declare validate_json_value.simps(1) [simp del]

definition identifier_char :: "uchar \<Rightarrow> bool" where
  "identifier_char c \<longleftrightarrow> is_ascii_alphanumeric c \<or> c = 95 \<or> c = 46 \<or> c = 58 \<or> c = 45"

definition valid_identifier :: "rstr \<Rightarrow> nat \<Rightarrow> bool" where
  "valid_identifier s limit \<longleftrightarrow> s \<noteq> [] \<and> byte_len s \<le> limit \<and> list_all identifier_char s"

record validated_csl =
  vc_citation_key :: rstr
  vc_encoded :: rstr
  vc_value :: json

definition item_type_rejected :: "rstr \<Rightarrow> bool" where
  "item_type_rejected t \<longleftrightarrow> trim t = [] \<or> 64 < byte_len t \<or> list_ex is_control t"

definition validated_csl_new :: "json_print \<Rightarrow> json \<Rightarrow> invalid_item + validated_csl" where
  "validated_csl_new enc v =
     (case v of
        JObject kvs \<Rightarrow>
          rbind (validate_json_value v 0) (\<lambda>_.
          rbind (ok_or MissingId (json_str_member (lit ''id'') v)) (\<lambda>key.
          if \<not> valid_identifier key max_citation_key_bytes then Inl InvalidId
          else rbind (ok_or MissingType (json_str_member (lit ''type'') v)) (\<lambda>ty.
            if item_type_rejected ty then Inl InvalidType
            else if max_csl_json_bytes < byte_len (enc v) then Inl ItemTooLarge
            else Inr \<lparr>vc_citation_key = key, vc_encoded = enc v, vc_value = v\<rparr>)))
      | _ \<Rightarrow> Inl ItemNotObject)"

definition csl_from_encoded :: "json_print \<Rightarrow> json_parse \<Rightarrow> rstr \<Rightarrow> rstr \<Rightarrow> invalid_item + validated_csl" where
  "csl_from_encoded enc dec key encoded =
     rbind (ok_or InvalidJson (dec encoded)) (\<lambda>v.
     rbind (validated_csl_new enc v) (\<lambda>c.
     if vc_citation_key c \<noteq> key then Inl CitationKeyMismatch else Inr c))"

section \<open>Items\<close>

type_synonym bibliography_item_id = entity_id

record bibliography_item =
  bi_id :: bibliography_item_id
  bi_owner :: principal_ref
  bi_citation_key :: rstr
  bi_csl_json :: rstr
  bi_created_at :: unix_millis
  bi_updated_at :: unix_millis
  bi_revision :: revision

definition bibliography_item_create ::
  "bibliography_item_id \<Rightarrow> principal_ref \<Rightarrow> validated_csl \<Rightarrow> unix_millis \<Rightarrow> bibliography_item" where
  "bibliography_item_create iid owner c created =
     \<lparr>bi_id = iid, bi_owner = owner, bi_citation_key = vc_citation_key c, bi_csl_json = vc_encoded c,
      bi_created_at = created, bi_updated_at = created, bi_revision = revision_initial\<rparr>"

definition bibliography_item_restore ::
  "json_print \<Rightarrow> json_parse \<Rightarrow> bibliography_item_id \<Rightarrow> principal_ref \<Rightarrow> rstr \<Rightarrow> rstr \<Rightarrow> unix_millis \<Rightarrow> unix_millis
   \<Rightarrow> revision \<Rightarrow> invalid_item + bibliography_item" where
  "bibliography_item_restore enc dec iid owner key csl created updated rvn =
     (if updated < created then Inl InvalidTimestampOrder
      else rbind (csl_from_encoded enc dec key csl) (\<lambda>c.
        Inr \<lparr>bi_id = iid, bi_owner = owner, bi_citation_key = vc_citation_key c, bi_csl_json = vc_encoded c,
          bi_created_at = created, bi_updated_at = updated, bi_revision = rvn\<rparr>))"

section \<open>Import sources and links\<close>

definition max_import_source_name_characters :: nat where "max_import_source_name_characters = 128"
definition max_external_item_id_bytes :: nat where "max_external_item_id_bytes = 128"

type_synonym import_source_id = entity_id

datatype import_method = CslJsonFile

record import_source =
  is_id :: import_source_id
  is_owner :: principal_ref
  is_method :: import_method
  is_name :: rstr
  is_revision :: revision
  is_created_at :: unix_millis
  is_last_imported_at :: unix_millis

datatype invalid_import_source = InvalidImportSource

definition import_source_invalid :: "import_source \<Rightarrow> bool" where
  "import_source_invalid s \<longleftrightarrow> is_name s = [] \<or> trim (is_name s) \<noteq> is_name s
     \<or> max_import_source_name_characters < length (is_name s) \<or> list_ex is_control (is_name s)
     \<or> is_last_imported_at s < is_created_at s"

definition import_source_checked :: "import_source \<Rightarrow> invalid_import_source + import_source" where
  "import_source_checked s = (if import_source_invalid s then Inl InvalidImportSource else Inr s)"

definition import_source_create ::
  "import_source_id \<Rightarrow> principal_ref \<Rightarrow> rstr \<Rightarrow> unix_millis \<Rightarrow> invalid_import_source + import_source" where
  "import_source_create sid owner name now = import_source_checked
     \<lparr>is_id = sid, is_owner = owner, is_method = CslJsonFile, is_name = name, is_revision = revision_initial,
      is_created_at = now, is_last_imported_at = now\<rparr>"

definition import_source_restore ::
  "import_source_id \<Rightarrow> principal_ref \<Rightarrow> import_method \<Rightarrow> rstr \<Rightarrow> revision \<Rightarrow> unix_millis \<Rightarrow> unix_millis
   \<Rightarrow> invalid_import_source + import_source" where
  "import_source_restore sid owner meth name rvn created imported = import_source_checked
     \<lparr>is_id = sid, is_owner = owner, is_method = meth, is_name = name, is_revision = rvn,
      is_created_at = created, is_last_imported_at = imported\<rparr>"

record import_link =
  il_source :: import_source_id
  il_external :: rstr
  il_item :: bibliography_item_id
  il_digest :: "8 word list"
  il_revision :: revision

datatype invalid_import_link = InvalidImportLink

definition import_link_new ::
  "import_source_id \<Rightarrow> rstr \<Rightarrow> bibliography_item_id \<Rightarrow> 8 word list \<Rightarrow> revision \<Rightarrow> invalid_import_link + import_link" where
  "import_link_new sid ext iid digest rvn =
     (if \<not> valid_identifier ext max_external_item_id_bytes then Inl InvalidImportLink
      else Inr \<lparr>il_source = sid, il_external = ext, il_item = iid, il_digest = digest, il_revision = rvn\<rparr>)"

section \<open>What a valid item satisfies\<close>

text \<open>The nesting of a value; a scalar is at depth 0.\<close>

fun json_depth :: "json \<Rightarrow> nat" where
  "json_depth (JArray vs) = foldr max (map (\<lambda>v. json_depth v + 1) vs) 0"
| "json_depth (JObject kvs) = foldr max (map (\<lambda>(k, v). json_depth v + 1) kvs) 0"
| "json_depth _ = 0"

text \<open>Strings and member names within their limits, at every depth.\<close>

fun json_sizes_ok :: "json \<Rightarrow> bool" where
  "json_sizes_ok (JString s) \<longleftrightarrow> byte_len s \<le> max_csl_string_bytes"
| "json_sizes_ok (JArray vs) \<longleftrightarrow> list_all json_sizes_ok vs"
| "json_sizes_ok (JObject kvs) \<longleftrightarrow> list_all (\<lambda>(k, v). \<not> object_key_rejected k \<and> json_sizes_ok v) kvs"
| "json_sizes_ok _ \<longleftrightarrow> True"

lemma foldr_max_le: "foldr max xs 0 \<le> (k::nat) \<longleftrightarrow> (\<forall>x\<in>set xs. x \<le> k)"
  by (induction xs) auto

lemma depth_array: "n + json_depth (JArray vs) \<le> k \<longleftrightarrow> n \<le> k \<and> (\<forall>v\<in>set vs. Suc n + json_depth v \<le> k)"
  using foldr_max_le [of "map (\<lambda>v. json_depth v + 1) vs" "k - n"] by (auto simp: le_diff_conv2)

lemma depth_object: "n + json_depth (JObject kvs) \<le> k \<longleftrightarrow> n \<le> k \<and> (\<forall>(j, v)\<in>set kvs. Suc n + json_depth v \<le> k)"
  using foldr_max_le [of "map (\<lambda>(j, v). json_depth v + 1) kvs" "k - n"] by (auto simp: le_diff_conv2 case_prod_beta)

lemma validate_iff:
  "validate_json_value v n = Inr u \<longleftrightarrow> json_sizes_ok v \<and> n + json_depth v \<le> max_csl_depth"
  "validate_values vs n = Inr u \<longleftrightarrow> (\<forall>v\<in>set vs. json_sizes_ok v \<and> n + json_depth v \<le> max_csl_depth)"
  "validate_members kvs n = Inr u
    \<longleftrightarrow> (\<forall>(k, v)\<in>set kvs. \<not> object_key_rejected k \<and> json_sizes_ok v \<and> n + json_depth v \<le> max_csl_depth)"
proof (induction v n and vs n and kvs n rule: validate_json_value_validate_values_validate_members.induct)
  case (1 v depth)
  then show ?case
    by (cases v) (auto simp: validate_json_value.simps(1) depth_array depth_object list_all_iff simp del: json_depth.simps(1,2))
qed (auto simp: result_simps)

lemma csl_new_Inr:
  "validated_csl_new enc v = Inr c \<longleftrightarrow> (\<exists>kvs. v = JObject kvs) \<and> json_sizes_ok v \<and> json_depth v \<le> max_csl_depth
     \<and> json_str_member (lit ''id'') v = Some (vc_citation_key c) \<and> valid_identifier (vc_citation_key c) 128
     \<and> (\<exists>t. json_str_member (lit ''type'') v = Some t \<and> \<not> item_type_rejected t)
     \<and> byte_len (enc v) \<le> max_csl_json_bytes \<and> vc_encoded c = enc v \<and> vc_value c = v"
proof (cases v)
  case (JObject kvs)
  have "c = \<lparr>vc_citation_key = k, vc_encoded = e, vc_value = w\<rparr>
      \<longleftrightarrow> vc_citation_key c = k \<and> vc_encoded c = e \<and> vc_value c = w" for k e w
    by (cases c) auto
  then show ?thesis
    by (auto simp: JObject validated_csl_new_def rbind_Inr_iff ok_or_Inr_iff validate_iff max_citation_key_bytes_def
        eq_commute [of _ c] not_less simp del: json_depth.simps json_sizes_ok.simps)
qed (auto simp: validated_csl_new_def)

end
