(* ===== verification/SqlLike.thy ===== *)
theory SqlLike
  imports Prelude
begin

text \<open>
  Text search in SQLite: the \<open>LIKE\<close> operator with \<open>ESCAPE '!'\<close>, \<open>lower\<close>, and the pattern that
  \<open>like_contains_pattern\<close> of \<open>crates/marginalis-sqlite/src/lib.rs\<close> builds from the text a user types.
  SQLite folds case for ASCII letters only; the lower-casing of Rust is Unicode's and is a parameter.
\<close>

section \<open>LIKE\<close>

definition sql_lower_char :: "uchar \<Rightarrow> uchar" where
  "sql_lower_char c = (if 65 \<le> c \<and> c \<le> 90 then c + 32 else c)"

definition sql_lower :: "rstr \<Rightarrow> rstr" where
  "sql_lower s = map sql_lower_char s"

text \<open>A percent sign matches any text, an underscore one character, and an exclamation mark takes the
  character after it literally; a pattern that ends in the escape character matches nothing.\<close>

fun sql_like :: "rstr \<Rightarrow> rstr \<Rightarrow> bool" where
  "sql_like [] s \<longleftrightarrow> s = []"
| "sql_like (c # p) [] \<longleftrightarrow> (if c = 37 then sql_like p [] else False)"
| "sql_like (c # p) (x # s) \<longleftrightarrow>
     (if c = 37 then sql_like p (x # s) \<or> sql_like (c # p) s
      else if c = 95 then sql_like p s
      else if c = 33 then (case p of [] \<Rightarrow> False
        | l # q \<Rightarrow> sql_lower_char l = sql_lower_char x \<and> sql_like q s)
      else sql_lower_char c = sql_lower_char x \<and> sql_like p s)"

section \<open>The pattern\<close>

text \<open>\<open>lc\<close> is \<open>str::to_lowercase\<close>.\<close>

definition escape_like :: "rstr \<Rightarrow> rstr" where
  "escape_like s = concat (map (\<lambda>c. if c = 33 \<or> c = 37 \<or> c = 95 then [33, c] else [c]) s)"

definition like_contains_pattern :: "(rstr \<Rightarrow> rstr) \<Rightarrow> rstr \<Rightarrow> rstr" where
  "like_contains_pattern lc value = [37] @ escape_like (lc value) @ [37]"

text \<open>The text contains the word, letter by letter up to the case of ASCII letters.\<close>

definition contains_word :: "rstr \<Rightarrow> rstr \<Rightarrow> bool" where
  "contains_word w s \<longleftrightarrow> (\<exists>a b c. s = a @ b @ c \<and> sql_lower b = sql_lower w)"

lemma like_percent: "sql_like (37 # p) s \<longleftrightarrow> (\<exists>a b. s = a @ b \<and> sql_like p b)"
proof (induction s)
  case Nil
  then show ?case by simp
next
  case (Cons x s)
  have "sql_like (37 # p) (x # s) \<longleftrightarrow> sql_like p (x # s) \<or> (\<exists>a b. s = a @ b \<and> sql_like p b)"
    by (simp add: Cons.IH)
  also have "\<dots> \<longleftrightarrow> (\<exists>a b. x # s = a @ b \<and> sql_like p b)"
    by (auto simp: Cons_eq_append_conv)
  finally show ?case .
qed

lemma like_escaped: "sql_like (escape_like w @ p) s \<longleftrightarrow> (\<exists>b c. s = b @ c \<and> sql_lower b = sql_lower w \<and> sql_like p c)"
proof (induction w arbitrary: s)
  case Nil
  then show ?case by (simp add: escape_like_def sql_lower_def)
next
  case (Cons x w)
  show ?case
  proof (cases s)
    case Nil
    then show ?thesis by (auto simp: escape_like_def sql_lower_def)
  next
    case s: (Cons y t)
    have "sql_like (escape_like (x # w) @ p) (y # t) \<longleftrightarrow> sql_lower_char x = sql_lower_char y \<and> sql_like (escape_like w @ p) t"
      by (auto simp: escape_like_def)
    also have "\<dots> \<longleftrightarrow> sql_lower_char x = sql_lower_char y \<and> (\<exists>b c. t = b @ c \<and> sql_lower b = sql_lower w \<and> sql_like p c)"
      by (simp only: Cons.IH)
    also have "\<dots> \<longleftrightarrow> (\<exists>b c. y # t = b @ c \<and> sql_lower b = sql_lower (x # w) \<and> sql_like p c)"
      by (auto simp: sql_lower_def Cons_eq_append_conv map_eq_Cons_conv) metis+
    finally show ?thesis by (simp add: s)
  qed
qed

lemma sql_lower_idem [simp]: "sql_lower (sql_lower s) = sql_lower s"
  by (simp add: sql_lower_def sql_lower_char_def)

lemma sql_lower_append: "sql_lower (a @ b) = sql_lower a @ sql_lower b"
  by (simp add: sql_lower_def)

lemma contains_word_lower: "contains_word w (sql_lower s) \<longleftrightarrow> contains_word w s"
proof
  assume "contains_word w s"
  then show "contains_word w (sql_lower s)"
    unfolding contains_word_def by (metis sql_lower_append sql_lower_idem)
next
  assume "contains_word w (sql_lower s)"
  then obtain a b c where "sql_lower s = a @ b @ c" "sql_lower b = sql_lower w"
    by (auto simp: contains_word_def)
  then obtain a' r where r: "s = a' @ r" "b @ c = sql_lower r"
    unfolding sql_lower_def map_eq_append_conv by metis
  then obtain b' c' where "r = b' @ c'" and b: "b = sql_lower b'"
    unfolding sql_lower_def by (metis map_eq_append_conv)
  with r have s: "s = a' @ b' @ c'" by simp
  from b \<open>sql_lower b = sql_lower w\<close> have "sql_lower b' = sql_lower w" by simp
  with s show "contains_word w s" unfolding contains_word_def by blast
qed

text \<open>
  A search finds exactly the texts that contain the lower-cased search text, up to the case of ASCII
  letters: percent signs, underscores and exclamation marks that the user types are ordinary characters.
\<close>

theorem search_is_containment:
  "sql_like (like_contains_pattern lc value) (sql_lower s) \<longleftrightarrow> contains_word (lc value) s"
proof -
  have "sql_like (like_contains_pattern lc value) (sql_lower s) \<longleftrightarrow> contains_word (lc value) (sql_lower s)"
    unfolding like_contains_pattern_def contains_word_def
    by (simp add: like_percent like_escaped) blast
  then show ?thesis by (simp only: contains_word_lower)
qed

text \<open>
  The two sides fold case differently.  With the lower-casing of Unicode, which maps the letter U+00C9 to
  U+00E9, a text does not match itself, although the same search in small letters would.
\<close>

theorem search_misses_itself:
  assumes "lc [201] = [233]"
  shows "\<not> sql_like (like_contains_pattern lc [201]) (sql_lower [201])"
  using assms unfolding search_is_containment
  by (auto simp: contains_word_def sql_lower_def sql_lower_char_def Cons_eq_append_conv map_eq_Cons_conv split: if_splits)

end
