(* ===== verification/BiblioStore.thy ===== *)
theory BiblioStore
  imports BiblioItem StoreMachine SqlLike
begin

text \<open>
  The bibliography library of a principal: the tables of \<open>schema.sql\<close>, the transactions of
  \<open>crates/marginalis-sqlite/src/bibliography_repository.rs\<close> and the use cases of
  \<open>crates/marginalis-application/src/bibliography.rs\<close>.  The CHECK that stored JSON is valid holds of every
  text \<open>serde_json\<close> prints.
\<close>

section \<open>Tables\<close>

record item_row =
  br_id :: bibliography_item_id
  br_owner :: int
  br_citation_key :: rstr
  br_csl_json :: rstr
  br_created_at :: int
  br_updated_at :: int
  br_revision :: int

record source_row =
  sr_id :: import_source_id
  sr_owner :: int
  sr_method :: rstr
  sr_name :: rstr
  sr_revision :: int
  sr_created_at :: int
  sr_last_imported_at :: int

record link_row =
  lr_source :: import_source_id
  lr_external :: rstr
  lr_item :: bibliography_item_id
  lr_owner :: int
  lr_digest :: "u8 list"
  lr_revision :: int

record library =
  lb_db :: db
  lb_items :: "item_row list"
  lb_sources :: "source_row list"
  lb_links :: "link_row list"

text \<open>The trigger of each statement records one change in \<open>domain_changes\<close>.\<close>

definition record_item_change :: "change_kind \<Rightarrow> item_row \<Rightarrow> library \<Rightarrow> library" where
  "record_item_change kind r s = s\<lparr>lb_db :=
     append_change (br_owner r) None kind (br_id r) (br_revision r) (br_updated_at r) (lb_db s)\<rparr>"

definition item_key_taken :: "item_row \<Rightarrow> item_row list \<Rightarrow> bool" where
  "item_key_taken r rows \<longleftrightarrow> exists_where (\<lambda>x. br_id x = br_id r
     \<or> (br_owner x = br_owner r \<and> br_citation_key x = br_citation_key r)) rows"

text \<open>A UNIQUE violation is told from the other failures.\<close>

datatype write_error = UniqueViolation | ForeignKeyViolation | OtherFailure

definition sql_insert_item :: "item_row \<Rightarrow> library \<Rightarrow> write_error + library" where
  "sql_insert_item r s =
     (if \<not> (0 < br_revision r \<and> in_i64 (br_revision r)) then Inl OtherFailure
      else if item_key_taken r (lb_items s) then Inl UniqueViolation
      else if br_owner r \<notin> set (db_principals (lb_db s)) then Inl ForeignKeyViolation
      else Inr (record_item_change CItemCreated r (s\<lparr>lb_items := lb_items s @ [r]\<rparr>)))"

text \<open>\<open>UPDATE bibliography_items\<close> of at most one row; the flag says whether one was changed.\<close>

definition sql_update_item ::
  "(item_row \<Rightarrow> bool) \<Rightarrow> (item_row \<Rightarrow> item_row) \<Rightarrow> library \<Rightarrow> write_error + (bool \<times> library)" where
  "sql_update_item g f s =
     (case find g (lb_items s) of
        None \<Rightarrow> Inr (False, s)
      | Some r \<Rightarrow>
          if \<not> in_i64 (br_revision (f r)) then Inl OtherFailure
          else if item_key_taken (f r) (filter (\<lambda>x. br_id x \<noteq> br_id r) (lb_items s)) then Inl UniqueViolation
          else Inr (True, record_item_change CItemUpdated (f r)
            (s\<lparr>lb_items := update_where (\<lambda>x. br_id x = br_id r) f (lb_items s)\<rparr>)))"

text \<open>The links of a deleted item go with it.\<close>

definition sql_delete_item :: "(item_row \<Rightarrow> bool) \<Rightarrow> library \<Rightarrow> bool \<times> library" where
  "sql_delete_item g s =
     (case find g (lb_items s) of
        None \<Rightarrow> (False, s)
      | Some r \<Rightarrow> (True, record_item_change CItemDeleted r
          (s\<lparr>lb_items := delete_where (\<lambda>x. br_id x = br_id r) (lb_items s),
             lb_links := delete_where (\<lambda>l. lr_item l = br_id r \<and> lr_owner l = br_owner r) (lb_links s)\<rparr>)))"

section \<open>Rows as values\<close>

definition decode_owner :: "url_parser \<Rightarrow> int \<Rightarrow> identity_row \<Rightarrow> storage_error + principal_ref" where
  "decode_owner pu owner i =
     rbind (map_err (\<lambda>_. StorageCorruptData) (identity_new pu (ir_issuer i) (ir_subject i))) (\<lambda>ident.
     rbind (map_err (\<lambda>_. StorageCorruptData) (principal_id_new owner)) (\<lambda>p.
     Inr \<lparr>pref_id = p, primary_identity = ident\<rparr>))"

definition decode_item ::
  "url_parser \<Rightarrow> json_print \<Rightarrow> json_parse \<Rightarrow> item_row \<times> identity_row \<Rightarrow> storage_error + bibliography_item" where
  "decode_item pu enc dec x = (case x of (r, i) \<Rightarrow>
     rbind (decode_owner pu (br_owner r) i) (\<lambda>owner.
     rbind (map_err (\<lambda>_. StorageCorruptData) (revision_new (br_revision r))) (\<lambda>rvn.
     map_err (\<lambda>_. StorageCorruptData)
       (bibliography_item_restore enc dec (br_id r) owner (br_citation_key r) (br_csl_json r) (br_created_at r)
         (br_updated_at r) rvn))))"

text \<open>The view \<open>bibliography_item_details\<close>: a row joined with the primary identity of its owner.\<close>

definition item_details :: "library \<Rightarrow> item_row \<Rightarrow> (item_row \<times> identity_row) option" where
  "item_details s r = map_option (Pair r) (primary_identity_row (lb_db s) (br_owner r))"

definition items_where :: "(item_row \<Rightarrow> bool) \<Rightarrow> library \<Rightarrow> (item_row \<times> identity_row) list" where
  "items_where p s = List.map_filter (item_details s) (select_where p (lb_items s))"

section \<open>The repository\<close>

text \<open>\<open>lc\<close> is the lower-casing of Unicode, as for the graph search.\<close>

definition search_limit :: nat where "search_limit = 200"

definition search_rows :: "(rstr \<Rightarrow> rstr) \<Rightarrow> actor \<Rightarrow> rstr \<Rightarrow> library \<Rightarrow> (item_row \<times> identity_row) list" where
  "search_rows lc act query s =
     (let pat = like_contains_pattern lc query in
      take search_limit (sort_key (\<lambda>(r, i). - br_updated_at r) (sort_key (\<lambda>(r, i). br_id r)
        (items_where (\<lambda>r. br_owner r = actor_id act
           \<and> (query = [] \<or> sql_like pat (sql_lower (br_citation_key r)) \<or> sql_like pat (sql_lower (br_csl_json r)))) s))))"

definition search_owned_items ::
  "url_parser \<Rightarrow> json_print \<Rightarrow> json_parse \<Rightarrow> (rstr \<Rightarrow> rstr) \<Rightarrow> actor \<Rightarrow> rstr \<Rightarrow> library
   \<Rightarrow> storage_error + bibliography_item list" where
  "search_owned_items pu enc dec lc act query s = traverse (decode_item pu enc dec) (search_rows lc act query s)"

text \<open>Without an ORDER BY the rows come in the order of the table.\<close>

definition items_by_citation_keys ::
  "url_parser \<Rightarrow> json_print \<Rightarrow> json_parse \<Rightarrow> principal_ref \<Rightarrow> rstr list \<Rightarrow> library
   \<Rightarrow> storage_error + bibliography_item list" where
  "items_by_citation_keys pu enc dec owner keys s =
     (if keys = [] then Inr []
      else traverse (decode_item pu enc dec)
        (items_where (\<lambda>r. br_owner r = pref_id owner \<and> br_citation_key r \<in> set keys) s))"

definition row_of_item :: "bibliography_item \<Rightarrow> item_row" where
  "row_of_item b = \<lparr>br_id = bi_id b, br_owner = pref_id (bi_owner b), br_citation_key = bi_citation_key b,
     br_csl_json = bi_csl_json b, br_created_at = bi_created_at b, br_updated_at = bi_updated_at b,
     br_revision = bi_revision b\<rparr>"

definition unique_is_conflict :: "write_error \<Rightarrow> storage_error" where
  "unique_is_conflict e = (if e = UniqueViolation then StorageConflict else StorageUnavailable)"

definition create_owned_item :: "bibliography_item \<Rightarrow> library \<Rightarrow> storage_error + library" where
  "create_owned_item b s = map_err unique_is_conflict (sql_insert_item (row_of_item b) s)"

definition owns_item :: "actor \<Rightarrow> bibliography_item_id \<Rightarrow> library \<Rightarrow> bool" where
  "owns_item act iid s \<longleftrightarrow> exists_where (\<lambda>r. br_id r = iid \<and> br_owner r = actor_id act) (lb_items s)"

definition missing_item :: "actor \<Rightarrow> bibliography_item_id \<Rightarrow> library \<Rightarrow> storage_error" where
  "missing_item act iid s = (if owns_item act iid s then StorageConflict else StorageNotFound)"

text \<open>
  The statement commits on its own before the row is read back: the second component is the library
  afterwards, also when reading it back fails.
\<close>

definition update_owned_item ::
  "url_parser \<Rightarrow> json_print \<Rightarrow> json_parse \<Rightarrow> actor \<Rightarrow> bibliography_item_id \<Rightarrow> validated_csl \<Rightarrow> unix_millis
   \<Rightarrow> revision \<Rightarrow> library \<Rightarrow> (storage_error + bibliography_item) \<times> library" where
  "update_owned_item pu enc dec act iid c now expected s =
     (case sql_update_item (\<lambda>r. br_id r = iid \<and> br_owner r = actor_id act \<and> br_revision r = expected)
         (\<lambda>r. r\<lparr>br_citation_key := vc_citation_key c, br_csl_json := vc_encoded c, br_updated_at := now,
                br_revision := br_revision r + 1\<rparr>) s of
        Inl e \<Rightarrow> (Inl (unique_is_conflict e), s)
      | Inr (True, t) \<Rightarrow>
          (case items_where (\<lambda>r. br_id r = iid) t of
             [] \<Rightarrow> (Inl StorageUnavailable, t)
           | x # _ \<Rightarrow> (decode_item pu enc dec x, t))
      | Inr (False, t) \<Rightarrow> (Inl (missing_item act iid t), t))"

definition delete_owned_item ::
  "actor \<Rightarrow> bibliography_item_id \<Rightarrow> revision \<Rightarrow> library \<Rightarrow> storage_error + library" where
  "delete_owned_item act iid expected s =
     (case sql_delete_item (\<lambda>r. br_id r = iid \<and> br_owner r = actor_id act \<and> br_revision r = expected) s of
        (True, t) \<Rightarrow> Inr t
      | (False, t) \<Rightarrow> Inl (missing_item act iid t))"

section \<open>Use cases\<close>

datatype bibliography_error = InvalidSearchQuery | InvalidCslJson | BibNotFound | BibConflict | BibUnavailable
  | BibCorruptData

fun bibliography_error_of :: "storage_error \<Rightarrow> bibliography_error" where
  "bibliography_error_of StorageNotFound = BibNotFound"
| "bibliography_error_of StorageConflict = BibConflict"
| "bibliography_error_of StorageCorruptData = BibCorruptData"
| "bibliography_error_of StorageRetentionExpired = BibUnavailable"
| "bibliography_error_of StorageUnavailable = BibUnavailable"

definition validate_search_query :: "rstr \<Rightarrow> bibliography_error + rstr" where
  "validate_search_query query =
     (let q = trim query in if 256 < length q \<or> list_ex is_control q then Inl InvalidSearchQuery else Inr q)"

definition search_bibliography ::
  "url_parser \<Rightarrow> json_print \<Rightarrow> json_parse \<Rightarrow> (rstr \<Rightarrow> rstr) \<Rightarrow> actor \<Rightarrow> rstr \<Rightarrow> library
   \<Rightarrow> bibliography_error + bibliography_item list" where
  "search_bibliography pu enc dec lc act query s =
     rbind (validate_search_query query) (\<lambda>q.
     map_err bibliography_error_of (search_owned_items pu enc dec lc act q s))"

definition add_bibliography_item ::
  "json_print \<Rightarrow> actor \<Rightarrow> json \<Rightarrow> bibliography_item_id \<Rightarrow> unix_millis \<Rightarrow> library
   \<Rightarrow> bibliography_error + (bibliography_item \<times> library)" where
  "add_bibliography_item enc act v iid now s =
     rbind (map_err (\<lambda>_. InvalidCslJson) (validated_csl_new enc v)) (\<lambda>c.
     let b = bibliography_item_create iid (actor_principal act) c now in
     rbind (map_err bibliography_error_of (create_owned_item b s)) (\<lambda>t. Inr (b, t)))"

definition update_bibliography_item ::
  "url_parser \<Rightarrow> json_print \<Rightarrow> json_parse \<Rightarrow> actor \<Rightarrow> bibliography_item_id \<Rightarrow> revision \<Rightarrow> json \<Rightarrow> unix_millis
   \<Rightarrow> library \<Rightarrow> (bibliography_error + bibliography_item) \<times> library" where
  "update_bibliography_item pu enc dec act iid expected v now s =
     (case validated_csl_new enc v of
        Inl _ \<Rightarrow> (Inl InvalidCslJson, s)
      | Inr c \<Rightarrow> (case update_owned_item pu enc dec act iid c now expected s of
          (r, t) \<Rightarrow> (map_err bibliography_error_of r, t)))"

definition delete_bibliography_item ::
  "actor \<Rightarrow> bibliography_item_id \<Rightarrow> revision \<Rightarrow> library \<Rightarrow> bibliography_error + library" where
  "delete_bibliography_item act iid expected s =
     map_err bibliography_error_of (delete_owned_item act iid expected s)"

end
