(* ===== verification/BiblioPreview.thy ===== *)
theory BiblioPreview
  imports BiblioStore
begin

text \<open>
  The preview of an import: \<open>crates/marginalis-application/src/bibliography_import.rs\<close> and its module
  \<open>preview.rs\<close>.  \<open>lc\<close> is the lower-casing of Unicode, \<open>sha256\<close> the digest and \<open>id_text\<close> the printed form of
  an identifier, whose order is that of the identifiers.
\<close>

section \<open>Bytes\<close>

definition utf8_char :: "uchar \<Rightarrow> nat list" where
  "utf8_char c =
     (if c < 128 then [c]
      else if c < 2048 then [192 + c div 64, 128 + c mod 64]
      else if c < 65536 then [224 + c div 4096, 128 + c div 64 mod 64, 128 + c mod 64]
      else [240 + c div 262144, 128 + c div 4096 mod 64, 128 + c div 64 mod 64, 128 + c mod 64])"

definition utf8_bytes :: "rstr \<Rightarrow> u8 list" where
  "utf8_bytes s = map of_nat (concat (map utf8_char s))"

text \<open>\<open>to_be_bytes\<close> of a 64-bit number.\<close>

definition be_bytes :: "nat \<Rightarrow> u8 list" where
  "be_bytes n = map (\<lambda>i. of_nat (n div 256 ^ i)) [7, 6, 5, 4, 3, 2, 1, 0]"

definition i64_be_bytes :: "int \<Rightarrow> u8 list" where
  "i64_be_bytes x = be_bytes (nat (x mod 2 ^ 64))"

definition hex_digit :: "nat \<Rightarrow> uchar" where
  "hex_digit n = (if n < 10 then 48 + n else 87 + n)"

definition hex_text :: "u8 list \<Rightarrow> rstr" where
  "hex_text bs = concat (map (\<lambda>b. [hex_digit (unat b div 16), hex_digit (unat b mod 16)]) bs)"

section \<open>Input\<close>

definition max_import_items :: nat where "max_import_items = 1000"
definition max_import_bytes :: nat where "max_import_bytes = 8 * 1024 * 1024"

record validated_item =
  vi_external :: rstr
  vi_csl :: validated_csl
  vi_digest :: "u8 list"

definition csl_digest :: "(u8 list \<Rightarrow> u8 list) \<Rightarrow> validated_csl \<Rightarrow> u8 list" where
  "csl_digest sha256 c = sha256 (utf8_bytes (vc_encoded c))"

definition validate_item :: "json_print \<Rightarrow> (u8 list \<Rightarrow> u8 list) \<Rightarrow> json \<Rightarrow> rstr + validated_item" where
  "validate_item enc sha256 v =
     rbind (map_err invalid_item_code (validated_csl_new enc v)) (\<lambda>c.
     Inr \<lparr>vi_external = vc_citation_key c, vi_csl = c, vi_digest = csl_digest sha256 c\<rparr>)"

datatype source_selection = NewSource rstr | ExistingSource import_source_id

record import_input =
  ii_source :: source_selection
  ii_items :: "json list"

datatype import_error = ImpInvalidInput rstr | ImpInvalidDecision | ImpNotFound | ImpConflict | ImpCorruptData
  | ImpUnavailable

fun import_error_of :: "storage_error \<Rightarrow> import_error" where
  "import_error_of StorageNotFound = ImpNotFound"
| "import_error_of StorageConflict = ImpConflict"
| "import_error_of StorageCorruptData = ImpCorruptData"
| "import_error_of StorageRetentionExpired = ImpUnavailable"
| "import_error_of StorageUnavailable = ImpUnavailable"

definition source_name_rejected :: "rstr \<Rightarrow> bool" where
  "source_name_rejected name \<longleftrightarrow> (let t = trim name in
     t = [] \<or> max_import_source_name_characters < length t \<or> list_ex is_control t)"

definition validate_import_input :: "json_print \<Rightarrow> import_input \<Rightarrow> import_error + unit" where
  "validate_import_input enc inp =
     (if ii_items inp = [] \<or> max_import_items < length (ii_items inp)
      then Inl (ImpInvalidInput (lit ''invalid_item_count''))
      else if (case ii_source inp of NewSource name \<Rightarrow> source_name_rejected name | ExistingSource _ \<Rightarrow> False)
      then Inl (ImpInvalidInput (lit ''invalid_source_name''))
      else if max_import_bytes < byte_len (enc (JArray (ii_items inp)))
      then Inl (ImpInvalidInput (lit ''input_too_large''))
      else Inr ())"

section \<open>State\<close>

record import_state =
  st_source :: "import_source option"
  st_links :: "import_link list"
  st_items :: "bibliography_item list"

definition canonicalized :: "import_state \<Rightarrow> import_state" where
  "canonicalized st = st\<lparr>st_links := sort_key il_source (sort_key il_external (st_links st)),
     st_items := sort_key bi_id (st_items st)\<rparr>"

section \<open>Classification\<close>

datatype classification = ClCreate | ClUpdateFromExternal | ClUnchanged | ClKeepLocal | ClConflict
  | ClDuplicateCandidate | ClRejected

record import_candidate =
  ca_item :: bibliography_item_id
  ca_citation_key :: rstr
  ca_title :: "rstr option"
  ca_revision :: revision
  ca_matched_by :: "rstr list"

record import_entry =
  en_position :: nat
  en_external :: "rstr option"
  en_citation_key :: "rstr option"
  en_class :: classification
  en_item :: "bibliography_item_id option"
  en_revision :: "revision option"
  en_current :: "json option"
  en_candidates :: "import_candidate list"
  en_rejection :: "rstr option"

definition rejected_entry :: "nat \<Rightarrow> rstr \<Rightarrow> import_entry" where
  "rejected_entry position code =
     \<lparr>en_position = position, en_external = None, en_citation_key = None, en_class = ClRejected, en_item = None,
      en_revision = None, en_current = None, en_candidates = [], en_rejection = Some code\<rparr>"

definition normalized_match :: "(rstr \<Rightarrow> rstr) \<Rightarrow> rstr \<Rightarrow> rstr option" where
  "normalized_match lc s = (let t = lc (trim s) in if t = [] then None else Some t)"

definition member_match :: "(rstr \<Rightarrow> rstr) \<Rightarrow> rstr \<Rightarrow> json \<Rightarrow> json \<Rightarrow> bool" where
  "member_match lc k a b \<longleftrightarrow>
     (let left = Option.bind (json_str_member k a) (normalized_match lc);
          right = Option.bind (json_str_member k b) (normalized_match lc) in
      left \<noteq> None \<and> left = right)"

definition matching_fields :: "(rstr \<Rightarrow> rstr) \<Rightarrow> json \<Rightarrow> json \<Rightarrow> rstr \<Rightarrow> rstr \<Rightarrow> rstr list" where
  "matching_fields lc inp stored input_key stored_key =
     (if input_key = stored_key then [lit ''citation_key''] else [])
     @ map (\<lambda>(k, name). name) (filter (\<lambda>(k, name). member_match lc k inp stored)
         [(lit ''DOI'', lit ''doi''), (lit ''ISBN'', lit ''isbn''), (lit ''PMID'', lit ''pmid''),
          (lit ''PMCID'', lit ''pmcid''), (lit ''URL'', lit ''url'')])
     @ (if member_match lc (lit ''title'') inp stored then [lit ''title''] else [])"

definition candidate_of ::
  "json_parse \<Rightarrow> (rstr \<Rightarrow> rstr) \<Rightarrow> json \<Rightarrow> rstr \<Rightarrow> bibliography_item \<Rightarrow> import_candidate option" where
  "candidate_of dec lc inp key b =
     Option.bind (dec (bi_csl_json b)) (\<lambda>stored.
       let matched = matching_fields lc inp stored key (bi_citation_key b) in
       if matched = [] then None
       else Some \<lparr>ca_item = bi_id b, ca_citation_key = bi_citation_key b, ca_title = json_str_member (lit ''title'') stored,
         ca_revision = bi_revision b, ca_matched_by = matched\<rparr>)"

definition duplicate_candidates ::
  "json_parse \<Rightarrow> (rstr \<Rightarrow> rstr) \<Rightarrow> json \<Rightarrow> rstr \<Rightarrow> bibliography_item list \<Rightarrow> import_candidate list" where
  "duplicate_candidates dec lc inp key bs = sort_key ca_item (List.map_filter (candidate_of dec lc inp key) bs)"

fun linked_class :: "bool \<Rightarrow> bool \<Rightarrow> classification" where
  "linked_class False False = ClUnchanged"
| "linked_class True False = ClUpdateFromExternal"
| "linked_class False True = ClKeepLocal"
| "linked_class True True = ClConflict"

definition classify_linked ::
  "json_parse \<Rightarrow> nat \<Rightarrow> validated_item \<Rightarrow> import_link \<Rightarrow> import_state \<Rightarrow> import_error + import_entry" where
  "classify_linked dec position vi link st =
     (case find (\<lambda>b. bi_id b = il_item link) (st_items st) of
        None \<Rightarrow> Inr (rejected_entry position (lit ''stored_link_target_missing''))
      | Some b \<Rightarrow>
          rbind (ok_or ImpCorruptData (dec (bi_csl_json b))) (\<lambda>current.
          Inr \<lparr>en_position = position, en_external = Some (vi_external vi), en_citation_key = Some (bi_citation_key b),
            en_class = linked_class (vi_digest vi \<noteq> il_digest link) (bi_revision b \<noteq> il_revision link),
            en_item = Some (bi_id b), en_revision = Some (bi_revision b), en_current = Some current,
            en_candidates = [], en_rejection = None\<rparr>))"

definition classify_unlinked ::
  "json_parse \<Rightarrow> (rstr \<Rightarrow> rstr) \<Rightarrow> nat \<Rightarrow> json \<Rightarrow> validated_item \<Rightarrow> import_state \<Rightarrow> import_entry" where
  "classify_unlinked dec lc position v vi st =
     (let key = vc_citation_key (vi_csl vi); cs = duplicate_candidates dec lc v key (st_items st) in
      \<lparr>en_position = position, en_external = Some (vi_external vi), en_citation_key = Some key,
       en_class = (if cs = [] then ClCreate else ClDuplicateCandidate), en_item = None, en_revision = None,
       en_current = None, en_candidates = cs, en_rejection = None\<rparr>)"

text \<open>The set of external ids seen so far is the state of the traversal.\<close>

definition classify_entry ::
  "json_print \<Rightarrow> json_parse \<Rightarrow> (u8 list \<Rightarrow> u8 list) \<Rightarrow> (rstr \<Rightarrow> rstr) \<Rightarrow> nat \<Rightarrow> json \<Rightarrow> import_state \<Rightarrow> rstr set
   \<Rightarrow> import_error + (import_entry \<times> rstr set)" where
  "classify_entry enc dec sha256 lc position v st seen =
     (case validate_item enc sha256 v of
        Inl code \<Rightarrow> Inr (rejected_entry position code, seen)
      | Inr vi \<Rightarrow>
          if vi_external vi \<in> seen then Inr (rejected_entry position (lit ''duplicate_external_item_id''), seen)
          else (case find (\<lambda>l. il_external l = vi_external vi) (st_links st) of
              Some link \<Rightarrow> rbind (classify_linked dec position vi link st) (\<lambda>en. Inr (en, insert (vi_external vi) seen))
            | None \<Rightarrow> Inr (classify_unlinked dec lc position v vi st, insert (vi_external vi) seen)))"

fun classify_entries ::
  "json_print \<Rightarrow> json_parse \<Rightarrow> (u8 list \<Rightarrow> u8 list) \<Rightarrow> (rstr \<Rightarrow> rstr) \<Rightarrow> nat \<Rightarrow> json list \<Rightarrow> import_state \<Rightarrow> rstr set
   \<Rightarrow> import_error + import_entry list" where
  "classify_entries enc dec sha256 lc position [] st seen = Inr []"
| "classify_entries enc dec sha256 lc position (v # vs) st seen =
     rbind (classify_entry enc dec sha256 lc position v st seen) (\<lambda>(en, seen').
     rbind (classify_entries enc dec sha256 lc (position + 1) vs st seen') (\<lambda>ens. Inr (en # ens)))"

section \<open>The preview token\<close>

text \<open>What a hasher has been fed so far.\<close>

definition hash_component :: "u8 list \<Rightarrow> u8 list \<Rightarrow> u8 list" where
  "hash_component hasher value = hasher @ be_bytes (length value) @ value"

definition text_bytes :: "string \<Rightarrow> u8 list" where "text_bytes s = utf8_bytes (lit s)"

definition source_components :: "(entity_id \<Rightarrow> rstr) \<Rightarrow> import_source \<Rightarrow> u8 list list" where
  "source_components id_text src =
     [utf8_bytes (id_text (is_id src)), utf8_bytes (issuer (primary_identity (is_owner src))),
      utf8_bytes (subject (primary_identity (is_owner src))), text_bytes ''csl_json_file'',
      utf8_bytes (is_name src), i64_be_bytes (is_revision src), i64_be_bytes (is_created_at src),
      i64_be_bytes (is_last_imported_at src)]"

definition link_components :: "(entity_id \<Rightarrow> rstr) \<Rightarrow> import_link \<Rightarrow> u8 list list" where
  "link_components id_text l =
     [utf8_bytes (id_text (il_source l)), utf8_bytes (il_external l), utf8_bytes (id_text (il_item l)),
      il_digest l, i64_be_bytes (il_revision l)]"

definition item_components :: "(entity_id \<Rightarrow> rstr) \<Rightarrow> bibliography_item \<Rightarrow> u8 list list" where
  "item_components id_text b = [utf8_bytes (id_text (bi_id b)), i64_be_bytes (bi_revision b)]"

definition token_components :: "json_print \<Rightarrow> (entity_id \<Rightarrow> rstr) \<Rightarrow> import_input \<Rightarrow> import_state \<Rightarrow> u8 list list" where
  "token_components enc id_text inp st =
     [text_bytes ''marginalis-bibliography-import-preview-1'']
     @ (case ii_source inp of
          NewSource name \<Rightarrow> [text_bytes ''new'', utf8_bytes name]
        | ExistingSource sid \<Rightarrow> [text_bytes ''existing'', utf8_bytes (id_text sid)])
     @ [utf8_bytes (enc (JArray (ii_items inp)))]
     @ (case st_source st of Some src \<Rightarrow> source_components id_text src | None \<Rightarrow> [text_bytes ''no-source''])
     @ concat (map (link_components id_text) (sort_key il_source (sort_key il_external (st_links st))))
     @ concat (map (item_components id_text) (sort_key bi_id (st_items st)))"

definition import_state_token ::
  "json_print \<Rightarrow> (u8 list \<Rightarrow> u8 list) \<Rightarrow> (entity_id \<Rightarrow> rstr) \<Rightarrow> import_input \<Rightarrow> import_state \<Rightarrow> rstr" where
  "import_state_token enc sha256 id_text inp st =
     hex_text (sha256 (foldl hash_component [] (token_components enc id_text inp st)))"

definition is_canonical_digest :: "rstr \<Rightarrow> bool" where
  "is_canonical_digest t \<longleftrightarrow> byte_len t = 64 \<and> list_all (\<lambda>c. is_ascii_digit c \<or> (97 \<le> c \<and> c \<le> 102)) t"

record import_preview =
  ip_source :: "import_source_id option"
  ip_source_revision :: "revision option"
  ip_token :: rstr
  ip_entries :: "import_entry list"

definition classify_import ::
  "json_print \<Rightarrow> json_parse \<Rightarrow> (u8 list \<Rightarrow> u8 list) \<Rightarrow> (rstr \<Rightarrow> rstr) \<Rightarrow> (entity_id \<Rightarrow> rstr) \<Rightarrow> import_input
   \<Rightarrow> import_state \<Rightarrow> import_error + import_preview" where
  "classify_import enc dec sha256 lc id_text inp st =
     rbind (classify_entries enc dec sha256 lc 0 (ii_items inp) st {}) (\<lambda>ens.
     Inr \<lparr>ip_source = map_option is_id (st_source st), ip_source_revision = map_option is_revision (st_source st),
       ip_token = import_state_token enc sha256 id_text inp st, ip_entries = ens\<rparr>)"

end
