(* ===== verification/BiblioPlan.thy ===== *)
theory BiblioPlan
  imports BiblioPreview
begin

text \<open>
  From the decisions of the user to an atomic plan:
  \<open>crates/marginalis-application/src/bibliography_import/plan.rs\<close>.  \<open>fresh\<close> gives the identifier drawn for
  the entry at a position.
\<close>

section \<open>Decisions and mutations\<close>

datatype decision_kind = ApplySuggested | CreateSeparate | DecideKeepLocal | UseExternal | LinkExistingKeepLocal
  | LinkExistingUseExternal | Exclude

record import_decision =
  de_position :: nat
  de_kind :: decision_kind
  de_candidate :: "bibliography_item_id option"

datatype item_mutation =
    MCreate bibliography_item import_link
  | MUpdate bibliography_item_id validated_csl revision import_link unix_millis
  | MKeep revision import_link

fun mutation_target :: "item_mutation \<Rightarrow> bibliography_item_id" where
  "mutation_target (MCreate b l) = bi_id b"
| "mutation_target (MUpdate iid c expected l now) = iid"
| "mutation_target (MKeep expected l) = il_item l"

fun mutation_link :: "item_mutation \<Rightarrow> import_link" where
  "mutation_link (MCreate b l) = l"
| "mutation_link (MUpdate iid c expected l now) = l"
| "mutation_link (MKeep expected l) = l"

record import_commit =
  co_source :: import_source
  co_expected :: import_state
  co_imported_at :: unix_millis
  co_mutations :: "item_mutation list"
  co_excluded :: nat

text \<open>\<open>PlanPanic\<close> is an index out of range.\<close>

datatype plan_error = PlanError import_error | PlanPanic

section \<open>Mutations\<close>

definition plan_link ::
  "import_source \<Rightarrow> rstr \<Rightarrow> bibliography_item_id \<Rightarrow> u8 list \<Rightarrow> revision \<Rightarrow> import_error + import_link" where
  "plan_link src ext iid digest rvn =
     map_err (\<lambda>_. ImpInvalidInput (lit ''invalid_external_item_id'')) (import_link_new (is_id src) ext iid digest rvn)"

definition create_mutation ::
  "validated_item \<Rightarrow> import_source \<Rightarrow> unix_millis \<Rightarrow> bibliography_item_id \<Rightarrow> import_error + item_mutation" where
  "create_mutation vi src now iid =
     (let b = bibliography_item_create iid (is_owner src) (vi_csl vi) now in
      rbind (plan_link src (vi_external vi) (bi_id b) (vi_digest vi) (bi_revision b)) (\<lambda>l. Inr (MCreate b l)))"

definition with_local_key :: "json_print \<Rightarrow> json_parse \<Rightarrow> rstr \<Rightarrow> validated_csl \<Rightarrow> import_error + validated_csl" where
  "with_local_key enc dec key c =
     rbind (ok_or (ImpInvalidInput (lit ''invalid_json'')) (dec (vc_encoded c))) (\<lambda>v.
     case v of
       JObject kvs \<Rightarrow> map_err (\<lambda>_. ImpInvalidInput (lit ''invalid_csl_json''))
         (validated_csl_new enc (JObject (json_insert (lit ''id'') (JString key) kvs)))
     | _ \<Rightarrow> Inl (ImpInvalidInput (lit ''item_not_object'')))"

definition next_revision :: "revision \<Rightarrow> import_error + revision" where
  "next_revision rvn = (if i64_max < rvn + 1 then Inl ImpCorruptData
     else map_err (\<lambda>_. ImpCorruptData) (revision_new (rvn + 1)))"

definition update_mutation ::
  "json_print \<Rightarrow> json_parse \<Rightarrow> import_entry \<Rightarrow> validated_item \<Rightarrow> import_source \<Rightarrow> unix_millis
   \<Rightarrow> import_error + item_mutation" where
  "update_mutation enc dec en vi src now =
     rbind (ok_or ImpConflict (en_item en)) (\<lambda>iid.
     rbind (ok_or ImpConflict (en_revision en)) (\<lambda>rvn.
     rbind (ok_or ImpConflict (en_citation_key en)) (\<lambda>key.
     rbind (with_local_key enc dec key (vi_csl vi)) (\<lambda>c.
     rbind (next_revision rvn) (\<lambda>nxt.
     rbind (plan_link src (vi_external vi) iid (vi_digest vi) nxt) (\<lambda>l.
     Inr (MUpdate iid c rvn l now)))))))"

definition keep_mutation :: "import_entry \<Rightarrow> validated_item \<Rightarrow> import_source \<Rightarrow> import_error + item_mutation" where
  "keep_mutation en vi src =
     rbind (ok_or ImpConflict (en_item en)) (\<lambda>iid.
     rbind (ok_or ImpConflict (en_revision en)) (\<lambda>rvn.
     rbind (plan_link src (vi_external vi) iid (vi_digest vi) rvn) (\<lambda>l. Inr (MKeep rvn l))))"

definition can_create_separate :: "import_entry \<Rightarrow> bool" where
  "can_create_separate en \<longleftrightarrow> \<not> list_ex (\<lambda>c. list_ex (\<lambda>f. f = lit ''citation_key'') (ca_matched_by c)) (en_candidates en)"

definition link_candidate_mutation ::
  "json_print \<Rightarrow> json_parse \<Rightarrow> import_entry \<Rightarrow> import_decision \<Rightarrow> validated_item \<Rightarrow> bibliography_item list
   \<Rightarrow> import_source \<Rightarrow> unix_millis \<Rightarrow> import_error + item_mutation" where
  "link_candidate_mutation enc dec en de vi bs src now =
     rbind (ok_or ImpInvalidDecision (de_candidate de)) (\<lambda>cid.
     if \<not> list_ex (\<lambda>c. ca_item c = cid) (en_candidates en) then Inl ImpInvalidDecision
     else rbind (ok_or ImpConflict (find (\<lambda>b. bi_id b = cid) bs)) (\<lambda>b.
       let linked = en\<lparr>en_item := Some (bi_id b), en_revision := Some (bi_revision b),
             en_current := dec (bi_csl_json b), en_citation_key := Some (bi_citation_key b)\<rparr> in
       if de_kind de = LinkExistingUseExternal then update_mutation enc dec linked vi src now
       else keep_mutation linked vi src))"

definition mutation_for_decision ::
  "json_print \<Rightarrow> json_parse \<Rightarrow> import_entry \<Rightarrow> import_decision \<Rightarrow> validated_item \<Rightarrow> bibliography_item list
   \<Rightarrow> import_source \<Rightarrow> unix_millis \<Rightarrow> bibliography_item_id \<Rightarrow> import_error + item_mutation" where
  "mutation_for_decision enc dec en de vi bs src now iid =
     (case (en_class en, de_kind de) of
        (ClCreate, ApplySuggested) \<Rightarrow> create_mutation vi src now iid
      | (ClDuplicateCandidate, CreateSeparate) \<Rightarrow>
          if can_create_separate en then create_mutation vi src now iid else Inl ImpInvalidDecision
      | (ClUpdateFromExternal, ApplySuggested) \<Rightarrow> update_mutation enc dec en vi src now
      | (ClConflict, UseExternal) \<Rightarrow> update_mutation enc dec en vi src now
      | (ClUnchanged, ApplySuggested) \<Rightarrow> keep_mutation en vi src
      | (ClKeepLocal, ApplySuggested) \<Rightarrow> keep_mutation en vi src
      | (ClConflict, DecideKeepLocal) \<Rightarrow> keep_mutation en vi src
      | (ClDuplicateCandidate, LinkExistingKeepLocal) \<Rightarrow> link_candidate_mutation enc dec en de vi bs src now
      | (ClDuplicateCandidate, LinkExistingUseExternal) \<Rightarrow> link_candidate_mutation enc dec en de vi bs src now
      | _ \<Rightarrow> Inl ImpInvalidDecision)"

section \<open>The plan\<close>

definition needs_candidate :: "decision_kind \<Rightarrow> bool" where
  "needs_candidate k \<longleftrightarrow> k = LinkExistingKeepLocal \<or> k = LinkExistingUseExternal"

text \<open>One entry: \<open>None\<close> when it is excluded.\<close>

definition plan_entry ::
  "json_print \<Rightarrow> json_parse \<Rightarrow> (u8 list \<Rightarrow> u8 list) \<Rightarrow> import_input \<Rightarrow> import_decision list \<Rightarrow> bibliography_item list
   \<Rightarrow> import_source \<Rightarrow> unix_millis \<Rightarrow> (nat \<Rightarrow> bibliography_item_id) \<Rightarrow> bibliography_item_id set \<Rightarrow> import_entry
   \<Rightarrow> plan_error + item_mutation option" where
  "plan_entry enc dec sha256 inp decisions bs src now fresh targets en =
     rbind (ok_or (PlanError ImpInvalidDecision) (find (\<lambda>de. de_position de = en_position en) decisions)) (\<lambda>de.
     if needs_candidate (de_kind de) \<noteq> (de_candidate de \<noteq> None) then Inl (PlanError ImpInvalidDecision)
     else if de_kind de = Exclude then Inr None
     else if en_class en = ClRejected then Inl (PlanError ImpInvalidDecision)
     else if \<not> en_position en < length (ii_items inp) then Inl PlanPanic
     else rbind (map_err (PlanError \<circ> ImpInvalidInput) (validate_item enc sha256 (ii_items inp ! en_position en))) (\<lambda>vi.
       rbind (map_err PlanError (mutation_for_decision enc dec en de vi bs src now (fresh (en_position en)))) (\<lambda>m.
       if mutation_target m \<in> targets then Inl (PlanError ImpInvalidDecision) else Inr (Some m))))"

fun plan_entries ::
  "json_print \<Rightarrow> json_parse \<Rightarrow> (u8 list \<Rightarrow> u8 list) \<Rightarrow> import_input \<Rightarrow> import_decision list \<Rightarrow> bibliography_item list
   \<Rightarrow> import_source \<Rightarrow> unix_millis \<Rightarrow> (nat \<Rightarrow> bibliography_item_id) \<Rightarrow> bibliography_item_id set \<Rightarrow> import_entry list
   \<Rightarrow> plan_error + (item_mutation list \<times> nat)" where
  "plan_entries enc dec sha256 inp decisions bs src now fresh targets [] = Inr ([], 0)"
| "plan_entries enc dec sha256 inp decisions bs src now fresh targets (en # ens) =
     rbind (plan_entry enc dec sha256 inp decisions bs src now fresh targets en) (\<lambda>planned.
     case planned of
       None \<Rightarrow> rbind (plan_entries enc dec sha256 inp decisions bs src now fresh targets ens) (\<lambda>(ms, n). Inr (ms, n + 1))
     | Some m \<Rightarrow> rbind (plan_entries enc dec sha256 inp decisions bs src now fresh (insert (mutation_target m) targets) ens)
         (\<lambda>(ms, n). Inr (m # ms, n)))"

definition build_commit ::
  "json_print \<Rightarrow> json_parse \<Rightarrow> (u8 list \<Rightarrow> u8 list) \<Rightarrow> import_input \<Rightarrow> import_preview \<Rightarrow> import_state \<Rightarrow> import_source
   \<Rightarrow> import_decision list \<Rightarrow> unix_millis \<Rightarrow> (nat \<Rightarrow> bibliography_item_id) \<Rightarrow> plan_error + import_commit" where
  "build_commit enc dec sha256 inp prev expected src decisions now fresh =
     (if \<not> distinct (map de_position decisions) then Inl (PlanError ImpInvalidDecision)
      else rbind (plan_entries enc dec sha256 inp decisions (st_items expected) src now fresh {} (ip_entries prev))
        (\<lambda>(ms, excluded).
        if length decisions \<noteq> length (ip_entries prev) \<or> ms = [] then Inl (PlanError ImpInvalidDecision)
        else Inr \<lparr>co_source = src, co_expected = expected, co_imported_at = now, co_mutations = ms, co_excluded = excluded\<rparr>))"

end
