(* ===== verification/BiblioImport.thy ===== *)
theory BiblioImport
  imports BiblioPlan
begin

text \<open>
  Applying an import: \<open>crates/marginalis-sqlite/src/bibliography_import_repository.rs\<close> and the use cases of
  \<open>crates/marginalis-application/src/bibliography_import.rs\<close>.  The application reads the state in one
  transaction and applies its plan in a later one, which compares the state again.
\<close>

section \<open>Reading the state\<close>

definition decode_source :: "url_parser \<Rightarrow> source_row \<times> identity_row \<Rightarrow> storage_error + import_source" where
  "decode_source pu x = (case x of (r, i) \<Rightarrow>
     if sr_method r \<noteq> lit ''csl_json_file'' then Inl StorageCorruptData
     else rbind (decode_owner pu (sr_owner r) i) (\<lambda>owner.
       rbind (map_err (\<lambda>_. StorageCorruptData) (revision_new (sr_revision r))) (\<lambda>rvn.
       map_err (\<lambda>_. StorageCorruptData)
         (import_source_restore (sr_id r) owner CslJsonFile (sr_name r) rvn (sr_created_at r) (sr_last_imported_at r)))))"

definition source_details :: "library \<Rightarrow> source_row \<Rightarrow> (source_row \<times> identity_row) option" where
  "source_details s r = map_option (Pair r) (primary_identity_row (lb_db s) (sr_owner r))"

definition decode_link :: "link_row \<Rightarrow> storage_error + import_link" where
  "decode_link r =
     (if length (lr_digest r) \<noteq> 32 then Inl StorageCorruptData
      else rbind (map_err (\<lambda>_. StorageCorruptData) (revision_new (lr_revision r))) (\<lambda>rvn.
        map_err (\<lambda>_. StorageCorruptData) (import_link_new (lr_source r) (lr_external r) (lr_item r) (lr_digest r) rvn)))"

definition list_import_sources :: "url_parser \<Rightarrow> actor \<Rightarrow> library \<Rightarrow> storage_error + import_source list" where
  "list_import_sources pu act s = traverse (decode_source pu)
     (sort_key (\<lambda>(r, i). - sr_last_imported_at r) (sort_key (\<lambda>(r, i). sr_id r)
       (List.map_filter (source_details s) (select_where (\<lambda>r. sr_owner r = actor_id act) (lb_sources s)))))"

definition load_source :: "url_parser \<Rightarrow> actor \<Rightarrow> import_source_id \<Rightarrow> library \<Rightarrow> storage_error + import_source option" where
  "load_source pu act sid s =
     (case List.map_filter (source_details s)
         (select_where (\<lambda>r. sr_id r = sid \<and> sr_owner r = actor_id act) (lb_sources s)) of
        [] \<Rightarrow> Inr None
      | x # _ \<Rightarrow> map_sum id Some (decode_source pu x))"

definition load_links :: "actor \<Rightarrow> import_source_id \<Rightarrow> library \<Rightarrow> storage_error + import_link list" where
  "load_links act sid s = traverse decode_link
     (sort_key lr_external (select_where (\<lambda>l. lr_source l = sid \<and> lr_owner l = actor_id act) (lb_links s)))"

definition load_items :: "url_parser \<Rightarrow> json_print \<Rightarrow> json_parse \<Rightarrow> actor \<Rightarrow> library \<Rightarrow> storage_error + bibliography_item list" where
  "load_items pu enc dec act s = traverse (decode_item pu enc dec)
     (sort_key (\<lambda>(r, i). br_id r) (items_where (\<lambda>r. br_owner r = actor_id act) s))"

definition dangling :: "bibliography_item list \<Rightarrow> import_link \<Rightarrow> bool" where
  "dangling bs l \<longleftrightarrow> (case find (\<lambda>b. bi_id b = il_item l) bs of
     None \<Rightarrow> True | Some b \<Rightarrow> bi_revision b < il_revision l)"

definition load_import_state ::
  "url_parser \<Rightarrow> json_print \<Rightarrow> json_parse \<Rightarrow> actor \<Rightarrow> import_source_id option \<Rightarrow> library
   \<Rightarrow> storage_error + import_state" where
  "load_import_state pu enc dec act sid s =
     rbind (case sid of None \<Rightarrow> Inr None | Some k \<Rightarrow> load_source pu act k s) (\<lambda>src.
     rbind (case sid of None \<Rightarrow> Inr [] | Some k \<Rightarrow> load_links act k s) (\<lambda>ls.
     rbind (load_items pu enc dec act s) (\<lambda>bs.
     if list_ex (dangling bs) ls then Inl StorageCorruptData
     else Inr (canonicalized \<lparr>st_source = src, st_links = ls, st_items = bs\<rparr>))))"

section \<open>Comparing states\<close>

text \<open>Equality of values that hold a principal compares the principal by its id.\<close>

definition item_eq :: "bibliography_item \<Rightarrow> bibliography_item \<Rightarrow> bool" where
  "item_eq a b \<longleftrightarrow> principal_ref_eq (bi_owner a) (bi_owner b) \<and> a\<lparr>bi_owner := bi_owner b\<rparr> = b"

definition source_eq :: "import_source \<Rightarrow> import_source \<Rightarrow> bool" where
  "source_eq a b \<longleftrightarrow> principal_ref_eq (is_owner a) (is_owner b) \<and> a\<lparr>is_owner := is_owner b\<rparr> = b"

definition state_eq :: "import_state \<Rightarrow> import_state \<Rightarrow> bool" where
  "state_eq a b \<longleftrightarrow> (case (st_source a, st_source b) of
       (None, None) \<Rightarrow> True | (Some x, Some y) \<Rightarrow> source_eq x y | _ \<Rightarrow> False)
     \<and> st_links a = st_links b \<and> list_all2 item_eq (st_items a) (st_items b)"

section \<open>Writing\<close>

text \<open>Unique, foreign-key and lock failures are conflicts.\<close>

definition map_write_error :: "write_error \<Rightarrow> storage_error" where
  "map_write_error e = (if e = OtherFailure then StorageUnavailable else StorageConflict)"

definition sql_insert_source :: "source_row \<Rightarrow> library \<Rightarrow> write_error + library" where
  "sql_insert_source r s =
     (if sr_last_imported_at r < sr_created_at r then Inl OtherFailure
      else if exists_where (\<lambda>x. sr_id x = sr_id r) (lb_sources s) then Inl UniqueViolation
      else if sr_owner r \<notin> set (db_principals (lb_db s)) then Inl ForeignKeyViolation
      else Inr (s\<lparr>lb_sources := lb_sources s @ [r]\<rparr>))"

definition persist_source :: "actor \<Rightarrow> import_commit \<Rightarrow> library \<Rightarrow> storage_error + (revision \<times> library)" where
  "persist_source act co s =
     (case st_source (co_expected co) of
        Some expected \<Rightarrow>
          if is_id expected \<noteq> is_id (co_source co) then Inl StorageConflict
          else (let same = (\<lambda>r. sr_id r = is_id (co_source co) \<and> sr_owner r = actor_id act
                      \<and> sr_revision r = is_revision expected) in
            case find same (lb_sources s) of
              None \<Rightarrow> Inl StorageConflict
            | Some r \<Rightarrow>
                if \<not> in_i64 (sr_revision r + 1) \<or> co_imported_at co < sr_created_at r then Inl StorageUnavailable
                else rbind (if i64_max < is_revision expected + 1 then Inl StorageCorruptData
                    else map_err (\<lambda>_. StorageCorruptData) (revision_new (is_revision expected + 1))) (\<lambda>rvn.
                  Inr (rvn, s\<lparr>lb_sources := update_where same
                    (\<lambda>x. x\<lparr>sr_last_imported_at := co_imported_at co, sr_revision := sr_revision x + 1\<rparr>) (lb_sources s)\<rparr>)))
      | None \<Rightarrow>
          rbind (map_err map_write_error (sql_insert_source
              \<lparr>sr_id = is_id (co_source co), sr_owner = actor_id act, sr_method = lit ''csl_json_file'',
               sr_name = is_name (co_source co), sr_revision = 1, sr_created_at = is_created_at (co_source co),
               sr_last_imported_at = co_imported_at co\<rparr> s)) (\<lambda>t. Inr (revision_initial, t)))"

definition link_key :: "link_row \<Rightarrow> import_source_id \<times> rstr" where
  "link_key l = (lr_source l, lr_external l)"

definition link_constraints :: "link_row \<Rightarrow> library \<Rightarrow> write_error + unit" where
  "link_constraints l s =
     (if length (lr_digest l) \<noteq> 32 \<or> \<not> (0 < lr_revision l \<and> in_i64 (lr_revision l)) then Inl OtherFailure
      else if \<not> exists_where (\<lambda>x. sr_id x = lr_source l \<and> sr_owner x = lr_owner l) (lb_sources s)
         \<or> \<not> exists_where (\<lambda>x. br_id x = lr_item l \<and> br_owner x = lr_owner l) (lb_items s)
      then Inl ForeignKeyViolation
      else Inr ())"

definition row_of_link :: "actor \<Rightarrow> import_link \<Rightarrow> link_row" where
  "row_of_link act l = \<lparr>lr_source = il_source l, lr_external = il_external l, lr_item = il_item l,
     lr_owner = actor_id act, lr_digest = il_digest l, lr_revision = il_revision l\<rparr>"

text \<open>
  The upsert: an existing link keeps its item, so a link of another item is not changed and no row is
  affected.
\<close>

definition persist_link :: "actor \<Rightarrow> import_link \<Rightarrow> library \<Rightarrow> storage_error + library" where
  "persist_link act l s =
     (let row = row_of_link act l in
      case row_by link_key (link_key row) (lb_links s) of
        None \<Rightarrow> rbind (map_err map_write_error (link_constraints row s)) (\<lambda>_. Inr (s\<lparr>lb_links := lb_links s @ [row]\<rparr>))
      | Some old \<Rightarrow>
          if lr_item old \<noteq> lr_item row \<or> lr_owner old \<noteq> lr_owner row then Inl StorageConflict
          else rbind (map_err map_write_error (link_constraints row s)) (\<lambda>_.
            Inr (s\<lparr>lb_links := update_where (\<lambda>x. link_key x = link_key row)
              (\<lambda>x. x\<lparr>lr_digest := lr_digest row, lr_revision := lr_revision row\<rparr>) (lb_links s)\<rparr>)))"

datatype applied = ACreated | AUpdated | AKept

fun apply_mutation :: "actor \<Rightarrow> item_mutation \<Rightarrow> library \<Rightarrow> storage_error + (applied \<times> library)" where
  "apply_mutation act (MCreate b l) s =
     (if pref_id (bi_owner b) \<noteq> actor_id act then Inl StorageNotFound
      else rbind (map_err map_write_error (sql_insert_item ((row_of_item b)\<lparr>br_owner := actor_id act\<rparr>) s)) (\<lambda>t.
        rbind (persist_link act l t) (\<lambda>u. Inr (ACreated, u))))"
| "apply_mutation act (MUpdate iid c expected l now) s =
     rbind (map_err map_write_error (sql_update_item
         (\<lambda>r. br_id r = iid \<and> br_owner r = actor_id act \<and> br_revision r = expected)
         (\<lambda>r. r\<lparr>br_csl_json := vc_encoded c, br_updated_at := now, br_revision := br_revision r + 1\<rparr>) s)) (\<lambda>(changed, t).
       if \<not> changed then Inl StorageConflict
       else rbind (persist_link act l t) (\<lambda>u. Inr (AUpdated, u)))"
| "apply_mutation act (MKeep expected l) s =
     (if count_where (\<lambda>r. br_id r = il_item l \<and> br_owner r = actor_id act \<and> br_revision r = expected) (lb_items s) \<noteq> 1
      then Inl StorageConflict
      else rbind (persist_link act l s) (\<lambda>u. Inr (AKept, u)))"

fun apply_mutations :: "actor \<Rightarrow> item_mutation list \<Rightarrow> library \<Rightarrow> storage_error + (applied list \<times> library)" where
  "apply_mutations act [] s = Inr ([], s)"
| "apply_mutations act (m # ms) s =
     rbind (apply_mutation act m s) (\<lambda>(a, t).
     rbind (apply_mutations act ms t) (\<lambda>(as, u). Inr (a # as, u)))"

definition mutation_consistent :: "import_commit \<Rightarrow> item_mutation \<Rightarrow> bool" where
  "mutation_consistent co m \<longleftrightarrow> (case m of
     MCreate b l \<Rightarrow> il_source l = is_id (co_source co) \<and> il_item l = bi_id b \<and> il_revision l = bi_revision b
   | MUpdate iid c expected l now \<Rightarrow> il_source l = is_id (co_source co) \<and> il_item l = iid
       \<and> list_ex (\<lambda>b. bi_id b = iid \<and> bi_revision b = expected \<and> bi_citation_key b = vc_citation_key c)
           (st_items (co_expected co))
       \<and> expected + 1 \<le> i64_max \<and> expected + 1 = il_revision l
   | MKeep expected l \<Rightarrow> il_source l = is_id (co_source co) \<and> il_revision l = expected)"

definition commit_is_consistent :: "import_commit \<Rightarrow> bool" where
  "commit_is_consistent co \<longleftrightarrow> list_all (mutation_consistent co) (co_mutations co)"

record import_result =
  ir_source :: import_source_id
  ir_source_revision :: revision
  ir_created :: nat
  ir_updated :: nat
  ir_kept :: nat
  ir_excluded :: nat

definition apply_import ::
  "url_parser \<Rightarrow> json_print \<Rightarrow> json_parse \<Rightarrow> actor \<Rightarrow> import_commit \<Rightarrow> library
   \<Rightarrow> storage_error + (import_result \<times> library)" where
  "apply_import pu enc dec act co s =
     (if pref_id (is_owner (co_source co)) \<noteq> actor_id act then Inl StorageNotFound
      else if \<not> commit_is_consistent co then Inl StorageConflict
      else rbind (load_import_state pu enc dec act (map_option is_id (st_source (co_expected co))) s) (\<lambda>current.
        if \<not> state_eq current (co_expected co) then Inl StorageConflict
        else rbind (persist_source act co s) (\<lambda>(rvn, t).
          rbind (apply_mutations act (co_mutations co) t) (\<lambda>(as, u).
          Inr (\<lparr>ir_source = is_id (co_source co), ir_source_revision = rvn, ir_created = count_list as ACreated,
                ir_updated = count_list as AUpdated, ir_kept = count_list as AKept, ir_excluded = co_excluded co\<rparr>, u)))))"

section \<open>Use cases\<close>

definition selected_source :: "import_input \<Rightarrow> import_source_id option" where
  "selected_source inp = (case ii_source inp of NewSource _ \<Rightarrow> None | ExistingSource sid \<Rightarrow> Some sid)"

definition preview_with_state ::
  "url_parser \<Rightarrow> json_print \<Rightarrow> json_parse \<Rightarrow> (u8 list \<Rightarrow> u8 list) \<Rightarrow> (rstr \<Rightarrow> rstr) \<Rightarrow> (entity_id \<Rightarrow> rstr) \<Rightarrow> actor
   \<Rightarrow> import_input \<Rightarrow> library \<Rightarrow> import_error + (import_preview \<times> import_state)" where
  "preview_with_state pu enc dec sha256 lc id_text act inp s =
     rbind (validate_import_input enc inp) (\<lambda>_.
     rbind (map_err import_error_of (load_import_state pu enc dec act (selected_source inp) s)) (\<lambda>loaded.
     let st = canonicalized loaded in
     if selected_source inp \<noteq> None \<and> st_source st = None then Inl ImpNotFound
     else rbind (classify_import enc dec sha256 lc id_text inp st) (\<lambda>prev. Inr (prev, st))))"

definition preview_bibliography_import ::
  "url_parser \<Rightarrow> json_print \<Rightarrow> json_parse \<Rightarrow> (u8 list \<Rightarrow> u8 list) \<Rightarrow> (rstr \<Rightarrow> rstr) \<Rightarrow> (entity_id \<Rightarrow> rstr) \<Rightarrow> actor
   \<Rightarrow> import_input \<Rightarrow> library \<Rightarrow> import_error + import_preview" where
  "preview_bibliography_import pu enc dec sha256 lc id_text act inp s =
     rbind (preview_with_state pu enc dec sha256 lc id_text act inp s) (\<lambda>(prev, st). Inr prev)"

definition import_source_for ::
  "actor \<Rightarrow> import_input \<Rightarrow> import_state \<Rightarrow> import_source_id \<Rightarrow> unix_millis \<Rightarrow> import_error + import_source" where
  "import_source_for act inp st new_id now =
     (case (ii_source inp, st_source st) of
        (NewSource name, None) \<Rightarrow> map_err (\<lambda>_. ImpInvalidInput (lit ''invalid_source_name''))
          (import_source_create new_id (actor_principal act) (trim name) now)
      | (ExistingSource _, Some src) \<Rightarrow> Inr src
      | _ \<Rightarrow> Inl ImpConflict)"

text \<open>What the application plans from the library it reads first.\<close>

definition plan_import ::
  "url_parser \<Rightarrow> json_print \<Rightarrow> json_parse \<Rightarrow> (u8 list \<Rightarrow> u8 list) \<Rightarrow> (rstr \<Rightarrow> rstr) \<Rightarrow> (entity_id \<Rightarrow> rstr) \<Rightarrow> actor
   \<Rightarrow> import_input \<Rightarrow> import_decision list \<Rightarrow> rstr \<Rightarrow> import_source_id \<Rightarrow> (nat \<Rightarrow> bibliography_item_id) \<Rightarrow> unix_millis
   \<Rightarrow> library \<Rightarrow> plan_error + import_commit" where
  "plan_import pu enc dec sha256 lc id_text act inp decisions token new_id fresh now s =
     rbind (map_err PlanError (preview_with_state pu enc dec sha256 lc id_text act inp s)) (\<lambda>(prev, st).
     if \<not> is_canonical_digest token then Inl (PlanError (ImpInvalidInput (lit ''invalid_preview_token'')))
     else if ip_token prev \<noteq> token then Inl (PlanError ImpConflict)
     else rbind (map_err PlanError (import_source_for act inp st new_id now)) (\<lambda>src.
       build_commit enc dec sha256 inp prev st src decisions now fresh))"

text \<open>The library may change between the two transactions: \<open>s\<close> is read, \<open>t\<close> is written.\<close>

definition apply_bibliography_import ::
  "url_parser \<Rightarrow> json_print \<Rightarrow> json_parse \<Rightarrow> (u8 list \<Rightarrow> u8 list) \<Rightarrow> (rstr \<Rightarrow> rstr) \<Rightarrow> (entity_id \<Rightarrow> rstr) \<Rightarrow> actor
   \<Rightarrow> import_input \<Rightarrow> import_decision list \<Rightarrow> rstr \<Rightarrow> import_source_id \<Rightarrow> (nat \<Rightarrow> bibliography_item_id) \<Rightarrow> unix_millis
   \<Rightarrow> library \<Rightarrow> library \<Rightarrow> plan_error + (import_result \<times> library)" where
  "apply_bibliography_import pu enc dec sha256 lc id_text act inp decisions token new_id fresh now s t =
     rbind (plan_import pu enc dec sha256 lc id_text act inp decisions token new_id fresh now s) (\<lambda>co.
     map_err (PlanError \<circ> import_error_of) (apply_import pu enc dec act co t))"

end
