(* ===== verification/BiblioInv.thy ===== *)
theory BiblioInv
  imports BiblioImport NoteHistory
begin

text \<open>
  The well-formedness of a library, and that every transaction keeps it as long as the clock does not run
  behind the items: every row reads back as a valid item, keys are unique and links stay within one owner.
\<close>

section \<open>Well-formed rows\<close>

text \<open>
  The numbers a value may contain to be read back unchanged: integers in the decimal form and the range in
  which \<open>serde_json\<close> keeps an \<open>i64\<close> or a \<open>u64\<close>.  Every other number becomes a floating-point number, whose
  text the default parser of \<open>serde_json\<close> does not promise to read back exactly.
\<close>

definition decimal :: "rstr \<Rightarrow> bool" where
  "decimal ds \<longleftrightarrow> ds \<noteq> [] \<and> list_all is_ascii_digit ds \<and> (hd ds = 48 \<longrightarrow> ds = [48])"

definition decimal_value :: "rstr \<Rightarrow> nat" where
  "decimal_value ds = foldl (\<lambda>n c. 10 * n + (c - 48)) 0 ds"

definition exact_number :: "rstr \<Rightarrow> bool" where
  "exact_number t \<longleftrightarrow> decimal t \<and> decimal_value t < 2 ^ 64
     \<or> t \<noteq> [] \<and> hd t = 45 \<and> decimal (tl t) \<and> tl t \<noteq> [48] \<and> decimal_value (tl t) \<le> 2 ^ 63"

text \<open>The members of an object are ordered by their keys, as the map of \<open>serde_json\<close> keeps them.\<close>

fun json_exact :: "json \<Rightarrow> bool" where
  "json_exact (JNumber t) \<longleftrightarrow> exact_number t"
| "json_exact (JArray vs) \<longleftrightarrow> list_all json_exact vs"
| "json_exact (JObject kvs) \<longleftrightarrow> sorted_wrt (<) (map fst kvs) \<and> list_all (\<lambda>(k, v). json_exact v) kvs"
| "json_exact _ \<longleftrightarrow> True"

text \<open>What the code relies on of \<open>serde_json\<close>: such a value of bounded nesting is read back from its text.\<close>

definition json_codec :: "json_print \<Rightarrow> json_parse \<Rightarrow> bool" where
  "json_codec enc dec \<longleftrightarrow> (\<forall>v. json_exact v \<and> json_depth v \<le> max_csl_depth \<longrightarrow> dec (enc v) = Some v)"

lemma set_json_insert: "set (json_insert k v kvs) \<subseteq> insert (k, v) (set kvs)"
  by (induction kvs) (auto split: if_splits)

lemma sorted_json_insert:
  "sorted_wrt (<) (map fst kvs) \<Longrightarrow> sorted_wrt (<) (map fst (json_insert k v kvs))"
proof (induction kvs)
  case (Cons x kvs)
  obtain j w where x: "x = (j, w)" by (cases x)
  have less: "\<forall>y\<in>set kvs. j < fst y" using Cons.prems x by simp
  show ?case
  proof (cases "k = j \<or> k < j")
    case True
    then show ?thesis using Cons.prems less x by (auto intro: order.strict_trans)
  next
    case False
    then have "j < k" using linorder_less_linear [of j k] by blast
    then have "\<forall>y\<in>set (json_insert k v kvs). j < fst y" using less set_json_insert [of k v kvs] by auto
    then show ?thesis using False Cons x by simp
  qed
qed simp

lemma json_exact_insert:
  "json_exact (JObject kvs) \<Longrightarrow> json_exact v \<Longrightarrow> json_exact (JObject (json_insert k v kvs))"
  using sorted_json_insert [of kvs k v] set_json_insert [of k v kvs] by (fastforce simp: list_all_iff)

definition csl_ok :: "json_print \<Rightarrow> json_parse \<Rightarrow> rstr \<Rightarrow> rstr \<Rightarrow> bool" where
  "csl_ok enc dec key csl \<longleftrightarrow> (\<exists>c. csl_from_encoded enc dec key csl = Inr c \<and> vc_encoded c = csl)"

definition item_row_ok :: "json_print \<Rightarrow> json_parse \<Rightarrow> db \<Rightarrow> item_row \<Rightarrow> bool" where
  "item_row_ok enc dec d r \<longleftrightarrow> br_owner r \<in> set (db_principals d) \<and> 1 \<le> br_revision r \<and> in_i64 (br_revision r)
     \<and> br_created_at r \<le> br_updated_at r \<and> csl_ok enc dec (br_citation_key r) (br_csl_json r)"

definition source_name_ok :: "rstr \<Rightarrow> bool" where
  "source_name_ok name \<longleftrightarrow> name \<noteq> [] \<and> trim name = name \<and> length name \<le> 128 \<and> \<not> list_ex is_control name"

definition source_row_ok :: "db \<Rightarrow> source_row \<Rightarrow> bool" where
  "source_row_ok d r \<longleftrightarrow> sr_owner r \<in> set (db_principals d) \<and> sr_method r = lit ''csl_json_file''
     \<and> source_name_ok (sr_name r) \<and> 1 \<le> sr_revision r \<and> sr_created_at r \<le> sr_last_imported_at r"

definition link_row_ok :: "library \<Rightarrow> link_row \<Rightarrow> bool" where
  "link_row_ok s l \<longleftrightarrow> valid_identifier (lr_external l) 128 \<and> length (lr_digest l) = 32 \<and> 1 \<le> lr_revision l
     \<and> (\<exists>x\<in>set (lb_sources s). sr_id x = lr_source l \<and> sr_owner x = lr_owner l)
     \<and> (\<exists>x\<in>set (lb_items s). br_id x = lr_item l \<and> br_owner x = lr_owner l \<and> lr_revision l \<le> br_revision x)"

definition item_key :: "item_row \<Rightarrow> int \<times> rstr" where
  "item_key r = (br_owner r, br_citation_key r)"

definition library_ok :: "url_parser \<Rightarrow> json_print \<Rightarrow> json_parse \<Rightarrow> library \<Rightarrow> bool" where
  "library_ok pu enc dec s \<longleftrightarrow> store_ok pu (lb_db s)
     \<and> distinct (map br_id (lb_items s)) \<and> distinct (map item_key (lb_items s))
     \<and> (\<forall>r\<in>set (lb_items s). item_row_ok enc dec (lb_db s) r)
     \<and> distinct (map sr_id (lb_sources s)) \<and> (\<forall>r\<in>set (lb_sources s). source_row_ok (lb_db s) r)
     \<and> distinct (map link_key (lb_links s)) \<and> (\<forall>l\<in>set (lb_links s). link_row_ok s l)"

lemma library_okD:
  assumes "library_ok pu enc dec s"
  shows "store_ok pu (lb_db s)" "distinct (map br_id (lb_items s))" "distinct (map item_key (lb_items s))"
    "r \<in> set (lb_items s) \<Longrightarrow> item_row_ok enc dec (lb_db s) r" "distinct (map sr_id (lb_sources s))"
    "x \<in> set (lb_sources s) \<Longrightarrow> source_row_ok (lb_db s) x" "distinct (map link_key (lb_links s))"
    "l \<in> set (lb_links s) \<Longrightarrow> link_row_ok s l"
  using assms by (simp_all add: library_ok_def)

text \<open>Accepted JSON is stored in a form that reads back.\<close>

lemma csl_new_ok:
  assumes "json_codec enc dec" "json_exact v" "validated_csl_new enc v = Inr c"
  shows "csl_ok enc dec (vc_citation_key c) (vc_encoded c)" "dec (vc_encoded c) = Some v"
proof -
  note c = assms(3) [unfolded csl_new_Inr]
  have d: "dec (enc v) = Some v" using assms(1,2) c by (simp add: json_codec_def)
  then show "dec (vc_encoded c) = Some v" using c by simp
  have "csl_from_encoded enc dec (vc_citation_key c) (vc_encoded c) = Inr c"
    using c d assms(3) by (simp add: csl_from_encoded_def)
  then show "csl_ok enc dec (vc_citation_key c) (vc_encoded c)" by (auto simp: csl_ok_def)
qed

section \<open>Reading well-formed rows\<close>

lemma owner_decodes:
  assumes "principals_ok pu d" "p \<in> set (db_principals d)"
  shows "\<exists>i. primary_identity_row d p = Some i
    \<and> decode_owner pu p i = Inr \<lparr>pref_id = p, primary_identity = row_identity i\<rparr>"
  using assms by (fastforce simp: principals_ok_def decode_owner_def principal_id_new_def)

lemma item_decodes:
  assumes "principals_ok pu d" "item_row_ok enc dec d r" "primary_identity_row d (br_owner r) = Some i"
  shows "\<exists>b. decode_item pu enc dec (r, i) = Inr b \<and> row_of_item b = r"
proof -
  note r = assms(2) [unfolded item_row_ok_def]
  have o: "decode_owner pu (br_owner r) i = Inr \<lparr>pref_id = br_owner r, primary_identity = row_identity i\<rparr>"
    using owner_decodes [OF assms(1)] r assms(3) by fastforce
  obtain c where c: "csl_from_encoded enc dec (br_citation_key r) (br_csl_json r) = Inr c" "vc_encoded c = br_csl_json r"
    using r by (auto simp: csl_ok_def)
  have "vc_citation_key c = br_citation_key r" using c(1) by (auto simp: csl_from_encoded_def rbind_Inr_iff split: if_splits)
  then show ?thesis
    using o c r by (auto simp: decode_item_def revision_new_Inr bibliography_item_restore_def row_of_item_def)
qed

lemma details_found:
  assumes "library_ok pu enc dec s" "r \<in> set (lb_items s)"
  shows "\<exists>i. item_details s r = Some (r, i) \<and> primary_identity_row (lb_db s) (br_owner r) = Some i"
  using library_okD(4) [OF assms] owner_decodes [OF store_okD(1) [OF library_okD(1) [OF assms(1)]], of "br_owner r"]
  by (auto simp: item_row_ok_def item_details_def)

lemma set_items_where:
  assumes "library_ok pu enc dec s"
  shows "fst ` set (items_where p s) = {r \<in> set (lb_items s). p r}"
    and "x \<in> set (items_where p s) \<Longrightarrow> \<exists>b. decode_item pu enc dec x = Inr b \<and> row_of_item b = fst x"
proof -
  show "fst ` set (items_where p s) = {r \<in> set (lb_items s). p r}"
    using details_found [OF assms]
    by (force simp: items_where_def List.map_filter_def set_select_where item_details_def image_iff)
  assume "x \<in> set (items_where p s)"
  then obtain r i where x: "x = (r, i)" "r \<in> set (lb_items s)" "primary_identity_row (lb_db s) (br_owner r) = Some i"
    by (auto simp: items_where_def List.map_filter_def set_select_where item_details_def)
  then show "\<exists>b. decode_item pu enc dec x = Inr b \<and> row_of_item b = fst x"
    using item_decodes [OF store_okD(1) [OF library_okD(1) [OF assms]] library_okD(4) [OF assms x(2)]] by simp
qed

end
