(* ===== verification/BiblioKeeps.thy ===== *)
theory BiblioKeeps
  imports BiblioInv
begin

text \<open>Every statement of the library keeps it well-formed and touches one item and one link at most.\<close>

section \<open>The change log beside the library\<close>

lemma find_note_append [simp]: "find_note (append_change a b c e f g d) = find_note d"
  by (rule ext) (simp add: find_note_def)

lemma access_append [simp]:
  "has_access (append_change a b c e f g d) = has_access d" "visible (append_change a b c e f g d) = visible d"
  by (simp_all add: fun_eq_iff has_access_def access_at_least_def visible_def)

lemma primary_append [simp]: "primary_identity_row (append_change a b c e f g d) = primary_identity_row d"
  by (rule ext) (simp add: primary_identity_row_def)

lemma store_ok_append:
  assumes "store_ok pu d"
  shows "store_ok pu (append_change a b c e f g d)" (is "store_ok pu ?e")
proof -
  have fetch: "fetch_note pu n ?e = fetch_note pu n d" for n by (rule fetch_note_cong) simp_all
  have latest: "db_latest_change ?e = db_latest_change d" by (simp add: append_change_def)
  have "sync_ok ?e"
    using store_okD(5) [OF assms] unfolding sync_ok_def latest append_change_frame access_append
    by (elim conjE) (intro conjI; (assumption | linarith))
  moreover have "principals_ok pu ?e = principals_ok pu d" by (simp add: principals_ok_def)
  moreover have "notes_ok pu ?e = notes_ok pu d" unfolding notes_ok_def fetch by simp
  moreover have "acl_ok ?e = acl_ok d" "history_ok ?e = history_ok d"
    by (simp_all add: acl_ok_def history_ok_def note_history_def)
  ultimately show ?thesis using assms by (simp add: store_ok_def)
qed

lemma record_item_fields [simp]:
  "lb_items (record_item_change k r s) = lb_items s" "lb_sources (record_item_change k r s) = lb_sources s"
  "lb_links (record_item_change k r s) = lb_links s"
  "db_principals (lb_db (record_item_change k r s)) = db_principals (lb_db s)"
  "primary_identity_row (lb_db (record_item_change k r s)) = primary_identity_row (lb_db s)"
  by (simp_all add: record_item_change_def)

lemma item_row_ok_record [simp]: "item_row_ok enc dec (lb_db (record_item_change k r s)) = item_row_ok enc dec (lb_db s)"
  by (rule ext) (simp add: item_row_ok_def)

lemma source_row_ok_record [simp]: "source_row_ok (lb_db (record_item_change k r s)) = source_row_ok (lb_db s)"
  by (rule ext) (simp add: source_row_ok_def)

lemma record_item_ok:
  assumes "store_ok pu (lb_db s)"
  shows "store_ok pu (lb_db (record_item_change k r s))"
  using store_ok_append [OF assms] by (simp add: record_item_change_def)

section \<open>One statement at a time\<close>

lemma item_key_taken_iff:
  "item_key_taken r rows \<longleftrightarrow> (\<exists>x\<in>set rows. br_id x = br_id r \<or> item_key x = item_key r)"
  by (auto simp: item_key_taken_def exists_where_iff item_key_def)

lemma insert_item_ok:
  assumes "library_ok pu enc dec s" "sql_insert_item r s = Inr t" "item_row_ok enc dec (lb_db s) r"
  shows "library_ok pu enc dec t" "lb_items t = lb_items s @ [r]" "lb_links t = lb_links s" "lb_sources t = lb_sources s"
    "db_principals (lb_db t) = db_principals (lb_db s)" "\<forall>x\<in>set (lb_items s). br_id x \<noteq> br_id r"
proof -
  from assms(2) have t: "t = record_item_change CItemCreated r (s\<lparr>lb_items := lb_items s @ [r]\<rparr>)"
    and fresh: "\<forall>x\<in>set (lb_items s). br_id x \<noteq> br_id r \<and> item_key x \<noteq> item_key r"
    by (auto simp: sql_insert_item_def item_key_taken_iff split: if_splits)
  show f: "lb_items t = lb_items s @ [r]" "lb_links t = lb_links s" "lb_sources t = lb_sources s"
    "db_principals (lb_db t) = db_principals (lb_db s)" "\<forall>x\<in>set (lb_items s). br_id x \<noteq> br_id r"
    using fresh by (simp_all add: t)
  note ok = library_okD [OF assms(1)]
  have "store_ok pu (lb_db t)" unfolding t using ok(1) by (intro record_item_ok) simp
  moreover have "item_row_ok enc dec (lb_db t) = item_row_ok enc dec (lb_db s)"
    "source_row_ok (lb_db t) = source_row_ok (lb_db s)" by (simp_all add: t)
  moreover have "link_row_ok t l" if "l \<in> set (lb_links s)" for l
    using ok(8) [OF that] f by (auto simp: link_row_ok_def)
  ultimately show "library_ok pu enc dec t"
    using ok f fresh assms(3) by (auto simp: library_ok_def)
qed

lemma sql_update_item_Inr:
  assumes "sql_update_item g f s = Inr (True, t)"
  shows "\<exists>r. r \<in> set (lb_items s) \<and> g r \<and> in_i64 (br_revision (f r))
    \<and> (\<forall>x\<in>set (lb_items s). br_id x \<noteq> br_id r \<longrightarrow> br_id x \<noteq> br_id (f r) \<and> item_key x \<noteq> item_key (f r))
    \<and> t = record_item_change CItemUpdated (f r) (s\<lparr>lb_items := update_where (\<lambda>x. br_id x = br_id r) f (lb_items s)\<rparr>)"
proof (cases "find g (lb_items s)")
  case None
  with assms show ?thesis by (simp add: sql_update_item_def)
next
  case (Some r)
  then have "r \<in> set (lb_items s)" "g r" by (auto simp: find_Some_iff)
  with Some assms show ?thesis
    by (intro exI [of _ r]) (auto simp: sql_update_item_def item_key_taken_iff split: if_splits)
qed

lemma update_item_ok:
  assumes "library_ok pu enc dec s" "sql_update_item g f s = Inr (True, t)"
    and keys: "\<And>r. br_id (f r) = br_id r \<and> br_owner (f r) = br_owner r \<and> br_revision (f r) = br_revision r + 1"
    and fok: "\<And>r. r \<in> set (lb_items s) \<Longrightarrow> g r \<Longrightarrow> in_i64 (br_revision (f r)) \<Longrightarrow> item_row_ok enc dec (lb_db s) (f r)"
  shows "\<exists>r\<in>set (lb_items s). g r \<and> library_ok pu enc dec t
     \<and> set (lb_items t) = insert (f r) {x \<in> set (lb_items s). br_id x \<noteq> br_id r}
     \<and> lb_links t = lb_links s \<and> lb_sources t = lb_sources s \<and> db_principals (lb_db t) = db_principals (lb_db s)"
proof -
  note ok = library_okD [OF assms(1)]
  obtain r where r: "r \<in> set (lb_items s)" "g r" "in_i64 (br_revision (f r))"
      "\<forall>x\<in>set (lb_items s). br_id x \<noteq> br_id r \<longrightarrow> br_id x \<noteq> br_id (f r) \<and> item_key x \<noteq> item_key (f r)"
      "t = record_item_change CItemUpdated (f r) (s\<lparr>lb_items := update_where (\<lambda>x. br_id x = br_id r) f (lb_items s)\<rparr>)"
    using sql_update_item_Inr [OF assms(2)] by blast
  let ?us = "update_where (\<lambda>x. br_id x = br_id r) f (lb_items s)"
  have f: "lb_items t = ?us" "lb_links t = lb_links s" "lb_sources t = lb_sources s"
    "db_principals (lb_db t) = db_principals (lb_db s)" by (simp_all add: r(5))
  have set_us: "set ?us = insert (f r) {x \<in> set (lb_items s). br_id x \<noteq> br_id r}"
    by (rule update_where_unique [OF ok(2) r(1)])
  have "map br_id ?us = map br_id (lb_items s)" using keys by (auto simp: update_where_def)
  then have ids: "distinct (map br_id ?us)" using ok(2) by simp
  have "inj_on item_key (set ?us)"
  proof (rule inj_onI)
    fix x y assume xy: "x \<in> set ?us" "y \<in> set ?us" "item_key x = item_key y"
    show "x = y"
      using xy(1,2) xy(3) r(4) ok(3) unfolding set_us by (auto simp: distinct_map inj_on_def)
  qed
  moreover have "distinct ?us" using ids by (simp add: distinct_map)
  ultimately have item_keys: "distinct (map item_key ?us)" by (simp add: distinct_map)
  have "link_row_ok t l" if l: "l \<in> set (lb_links s)" for l
  proof -
    obtain x where x: "x \<in> set (lb_items s)" "br_id x = lr_item l" "br_owner x = lr_owner l" "lr_revision l \<le> br_revision x"
      using ok(8) [OF l] by (auto simp: link_row_ok_def)
    have "\<exists>x\<in>set ?us. br_id x = lr_item l \<and> br_owner x = lr_owner l \<and> lr_revision l \<le> br_revision x"
    proof (cases "br_id x = br_id r")
      case True
      then have "x = r" using ok(2) x(1) r(1) by (auto simp: distinct_map inj_on_def)
      then show ?thesis using x keys [of r] unfolding set_us by (intro bexI [of _ "f r"]) auto
    next
      case False
      then show ?thesis using x unfolding set_us by blast
    qed
    then show ?thesis using ok(8) [OF l] f(1,3) by (simp add: link_row_ok_def)
  qed
  moreover have "store_ok pu (lb_db t)" unfolding r(5) using ok(1) by (intro record_item_ok) simp
  moreover have "item_row_ok enc dec (lb_db t) x" if "x \<in> set ?us" for x
    using that ok(4) fok [OF r(1-3)] unfolding set_us by (auto simp: r(5))
  moreover have "source_row_ok (lb_db t) x" if "x \<in> set (lb_sources s)" for x
    using ok(6) [OF that] by (simp add: r(5))
  ultimately have "library_ok pu enc dec t"
    using ok(5,7) f ids item_keys by (simp add: library_ok_def)
  with r(1,2) f set_us show ?thesis by auto
qed

lemma delete_item_ok:
  assumes "library_ok pu enc dec s" "sql_delete_item g s = (b, t)"
  shows "library_ok pu enc dec t"
proof (cases "find g (lb_items s)")
  case None
  with assms show ?thesis by (simp add: sql_delete_item_def)
next
  case (Some r)
  note ok = library_okD [OF assms(1)]
  let ?s = "s\<lparr>lb_items := delete_where (\<lambda>x. br_id x = br_id r) (lb_items s),
     lb_links := delete_where (\<lambda>l. lr_item l = br_id r \<and> lr_owner l = br_owner r) (lb_links s)\<rparr>"
  have r: "r \<in> set (lb_items s)" and t: "t = record_item_change CItemDeleted r ?s"
    using assms(2) Some by (auto simp: sql_delete_item_def find_Some_iff)
  have "link_row_ok t l" if l: "l \<in> set (lb_links s)" "\<not> (lr_item l = br_id r \<and> lr_owner l = br_owner r)" for l
  proof -
    obtain x where x: "x \<in> set (lb_items s)" "br_id x = lr_item l" "br_owner x = lr_owner l" "lr_revision l \<le> br_revision x"
      using ok(8) [OF l(1)] by (auto simp: link_row_ok_def)
    have "br_id x \<noteq> br_id r"
    proof
      assume "br_id x = br_id r"
      then have "x = r" using ok(2) x(1) r by (auto simp: distinct_map inj_on_def)
      with x l(2) show False by simp
    qed
    then show ?thesis using ok(8) [OF l(1)] x by (auto simp: link_row_ok_def t set_delete_where)
  qed
  moreover have "store_ok pu (lb_db t)" unfolding t using ok(1) by (intro record_item_ok) simp
  ultimately show ?thesis
    using ok by (auto simp: library_ok_def t distinct_map_delete_where set_delete_where)
qed

end
