(* ===== verification/BiblioApply.thy ===== *)
theory BiblioApply
  imports BiblioKeeps
begin

text \<open>
  Applying a plan: every mutation keeps the library well-formed, touches its own item and link only, and
  leaves the link at the revision of the item and the digest of the imported text.
\<close>

section \<open>Sources\<close>

definition source_fits :: "import_source \<Rightarrow> bool" where
  "source_fits src \<longleftrightarrow> source_name_ok (is_name src)"

lemma same_items_ok:
  assumes "library_ok pu enc dec s" "lb_db t = lb_db s" "lb_items t = lb_items s" "lb_links t = lb_links s"
    and "distinct (map sr_id (lb_sources t))" "\<And>x. x \<in> set (lb_sources t) \<Longrightarrow> source_row_ok (lb_db s) x"
    and "\<And>x. x \<in> set (lb_sources s) \<Longrightarrow> \<exists>y\<in>set (lb_sources t). sr_id y = sr_id x \<and> sr_owner y = sr_owner x"
  shows "library_ok pu enc dec t"
proof -
  note ok = library_okD [OF assms(1)]
  have "link_row_ok t l" if "l \<in> set (lb_links s)" for l
  proof -
    from ok(8) [OF that] have l: "link_row_ok s l" .
    then obtain x where "x \<in> set (lb_sources s)" "sr_id x = lr_source l" "sr_owner x = lr_owner l"
      by (auto simp: link_row_ok_def)
    with assms(7) have "\<exists>y\<in>set (lb_sources t). sr_id y = lr_source l \<and> sr_owner y = lr_owner l" by metis
    with l show ?thesis by (simp add: link_row_ok_def assms(3))
  qed
  with ok assms show ?thesis by (simp add: library_ok_def)
qed

text \<open>What an import does to the sources: it adds its own or marks it as imported, and no other row changes.\<close>

definition source_persisted :: "int \<Rightarrow> import_source_id \<Rightarrow> unix_millis \<Rightarrow> revision \<Rightarrow> library \<Rightarrow> library \<Rightarrow> bool" where
  "source_persisted owner sid now rvn s t \<longleftrightarrow>
     (\<forall>x. sr_id x \<noteq> sid \<longrightarrow> x \<in> set (lb_sources t) \<longleftrightarrow> x \<in> set (lb_sources s))
     \<and> (\<forall>x\<in>set (lb_sources s). sr_id x = sid \<longrightarrow> sr_owner x = owner
          \<and> x\<lparr>sr_last_imported_at := now, sr_revision := rvn\<rparr> \<in> set (lb_sources t) \<and> rvn = sr_revision x + 1)
     \<and> (\<exists>x\<in>set (lb_sources t). sr_id x = sid \<and> sr_owner x = owner \<and> sr_last_imported_at x = now \<and> sr_revision x = rvn)"

lemma persist_source_ok:
  assumes "library_ok pu enc dec s" "persist_source act co s = Inr (rvn, t)" "source_fits (co_source co)"
    and "actor_id act \<in> set (db_principals (lb_db s))"
  shows "library_ok pu enc dec t \<and> lb_db t = lb_db s \<and> lb_items t = lb_items s \<and> lb_links t = lb_links s
    \<and> source_persisted (actor_id act) (is_id (co_source co)) (co_imported_at co) rvn s t"
proof (cases "st_source (co_expected co)")
  case None
  let ?r = "\<lparr>sr_id = is_id (co_source co), sr_owner = actor_id act, sr_method = lit ''csl_json_file'',
      sr_name = is_name (co_source co), sr_revision = 1, sr_created_at = is_created_at (co_source co),
      sr_last_imported_at = co_imported_at co\<rparr>"
  from assms(2) None have t: "t = s\<lparr>lb_sources := lb_sources s @ [?r]\<rparr>" "rvn = 1"
      "is_created_at (co_source co) \<le> co_imported_at co" "\<forall>x\<in>set (lb_sources s). sr_id x \<noteq> sr_id ?r"
    by (auto simp: persist_source_def sql_insert_source_def rbind_Inr_iff map_err_Inr_iff exists_where_iff
        revision_initial_def revision_minimum_def split: if_splits)
  have "source_row_ok (lb_db s) ?r" using assms(3,4) t(3) by (simp add: source_row_ok_def source_fits_def)
  then have "library_ok pu enc dec t"
    using t(4) library_okD(5,6) [OF assms(1)]
    by (intro same_items_ok [OF assms(1)]) (auto simp: t(1))
  moreover have "source_persisted (actor_id act) (is_id (co_source co)) (co_imported_at co) rvn s t"
    using t(4) by (auto simp: source_persisted_def t(1,2))
  ultimately show ?thesis by (simp add: t(1))
next
  case (Some ex)
  let ?same = "\<lambda>r. sr_id r = is_id (co_source co) \<and> sr_owner r = actor_id act \<and> sr_revision r = is_revision ex"
  let ?f = "\<lambda>x. x\<lparr>sr_last_imported_at := co_imported_at co, sr_revision := sr_revision x + 1\<rparr>"
  from assms(2) Some obtain r where r: "find ?same (lb_sources s) = Some r" "sr_created_at r \<le> co_imported_at co"
      and t: "t = s\<lparr>lb_sources := update_where ?same ?f (lb_sources s)\<rparr>" and rvn: "rvn = is_revision ex + 1"
    by (auto simp: persist_source_def Let_def rbind_Inr_iff map_err_Inr_iff revision_new_def
        split: option.splits if_splits)
  have rs: "r \<in> set (lb_sources s)" "?same r" using find_SomeD [OF r(1)] by simp_all
  have only: "x = r" if "x \<in> set (lb_sources s)" "sr_id x = is_id (co_source co)" for x
    using library_okD(5) [OF assms(1)] that rs by (auto simp: distinct_map inj_on_def)
  have "map sr_id (update_where ?same ?f (lb_sources s)) = map sr_id (lb_sources s)" by (auto simp: update_where_def)
  moreover have src: "lb_sources t = update_where ?same ?f (lb_sources s)" by (simp add: t)
  ultimately have ids: "distinct (map sr_id (lb_sources t))" using library_okD(5) [OF assms(1)] by simp
  have "library_ok pu enc dec t"
  proof (rule same_items_ok [OF assms(1) _ _ _ ids])
    show "lb_db t = lb_db s" "lb_items t = lb_items s" "lb_links t = lb_links s" by (simp_all add: t)
    show "source_row_ok (lb_db s) x" if "x \<in> set (lb_sources t)" for x
    proof -
      from that consider "x \<in> set (lb_sources s)" | y where "y \<in> set (lb_sources s)" "?same y" "x = ?f y"
        by (auto simp: t set_update_where)
      then show ?thesis
      proof cases
        case 1
        then show ?thesis by (rule library_okD(6) [OF assms(1)])
      next
        case (2 y)
        then have "y = r" using only by blast
        then show ?thesis using 2 r(2) library_okD(6) [OF assms(1) rs(1)] by (simp add: source_row_ok_def)
      qed
    qed
    show "\<exists>y\<in>set (lb_sources t). sr_id y = sr_id x \<and> sr_owner y = sr_owner x" if "x \<in> set (lb_sources s)" for x
    proof (rule bexI)
      show "(if ?same x then ?f x else x) \<in> set (lb_sources t)"
        unfolding src by (rule update_whereI [OF that])
    qed simp
  qed
  moreover have new: "r\<lparr>sr_last_imported_at := co_imported_at co, sr_revision := rvn\<rparr> \<in> set (lb_sources t)"
    using update_whereI [OF rs(1), of ?same ?f] rs(2) rvn by (simp add: src)
  have "source_persisted (actor_id act) (is_id (co_source co)) (co_imported_at co) rvn s t"
    unfolding source_persisted_def
  proof (intro conjI allI ballI impI)
    show "x \<in> set (lb_sources t) \<longleftrightarrow> x \<in> set (lb_sources s)" if "sr_id x \<noteq> is_id (co_source co)" for x
      using that by (auto simp: src set_update_where)
    show "sr_owner x = actor_id act" "x\<lparr>sr_last_imported_at := co_imported_at co, sr_revision := rvn\<rparr> \<in> set (lb_sources t)"
      "rvn = sr_revision x + 1" if "x \<in> set (lb_sources s)" "sr_id x = is_id (co_source co)" for x
      using only [OF that] rs(2) new rvn by simp_all
    show "\<exists>x\<in>set (lb_sources t). sr_id x = is_id (co_source co) \<and> sr_owner x = actor_id act
        \<and> sr_last_imported_at x = co_imported_at co \<and> sr_revision x = rvn"
      using new rs(2) by (intro bexI [OF _ new]) simp
  qed
  ultimately show ?thesis by (simp add: t)
qed

section \<open>Links\<close>

lemma persist_link_ok:
  assumes "library_ok pu enc dec s" "persist_link act l s = Inr t"
    and ext: "valid_identifier (il_external l) 128"
    and item: "\<exists>x\<in>set (lb_items s). br_id x = il_item l \<and> br_owner x = actor_id act \<and> br_revision x = il_revision l"
  shows "library_ok pu enc dec t \<and> lb_db t = lb_db s \<and> lb_items t = lb_items s \<and> lb_sources t = lb_sources s
    \<and> row_of_link act l \<in> set (lb_links t)
    \<and> (\<forall>x. link_key x \<noteq> (il_source l, il_external l) \<longrightarrow> x \<in> set (lb_links t) \<longleftrightarrow> x \<in> set (lb_links s))"
proof -
  let ?row = "row_of_link act l"
  let ?f = "\<lambda>x. x\<lparr>lr_digest := lr_digest ?row, lr_revision := lr_revision ?row\<rparr>"
  note ok = library_okD [OF assms(1)]
  have key: "link_key ?row = (il_source l, il_external l)" by (simp add: link_key_def row_of_link_def)
  from assms(2) have c: "link_constraints ?row s = Inr ()"
    by (auto simp: persist_link_def Let_def rbind_Inr_iff map_err_Inr_iff split: option.splits if_splits)
  then have row: "link_row_ok s ?row"
    using item ext by (fastforce simp: link_constraints_def link_row_ok_def row_of_link_def exists_where_iff split: if_splits)
  have links: "link_row_ok t x = link_row_ok s x" if "lb_items t = lb_items s" "lb_sources t = lb_sources s" for x
    by (simp add: link_row_ok_def that)
  show ?thesis
  proof (cases "row_by link_key (link_key ?row) (lb_links s)")
    case None
    then have t: "t = s\<lparr>lb_links := lb_links s @ [?row]\<rparr>"
      using assms(2) c by (simp add: persist_link_def Let_def)
    moreover have "\<forall>x\<in>set (lb_links s). link_key x \<noteq> link_key ?row" using None by (simp add: row_by_None_iff)
    ultimately have "library_ok pu enc dec t"
      using ok row links by (auto simp: library_ok_def link_row_ok_def)
    with t key show ?thesis by auto
  next
    case (Some old)
    then have old: "old \<in> set (lb_links s)" "link_key old = link_key ?row" using row_by_Some by fastforce+
    have t: "t = s\<lparr>lb_links := update_where (\<lambda>x. link_key x = link_key ?row) ?f (lb_links s)\<rparr>"
        and same: "lr_item old = lr_item ?row" "lr_owner old = lr_owner ?row"
      using assms(2) c Some by (auto simp: persist_link_def Let_def split: if_splits)
    have "?f old = ?row" using old(2) same by (simp add: row_of_link_def link_key_def)
    then have set_t: "set (lb_links t) = insert ?row {x \<in> set (lb_links s). link_key x \<noteq> link_key ?row}"
      using update_where_unique [OF ok(7) old(1), of ?f] old(2) by (simp add: t)
    have "map link_key (lb_links t) = map link_key (lb_links s)" by (auto simp: t update_where_def link_key_def)
    then have "library_ok pu enc dec t"
      using ok row links set_t by (auto simp: library_ok_def t link_row_ok_def)
    with set_t key show ?thesis by (auto simp: t)
  qed
qed

section \<open>Mutations\<close>

text \<open>What a plan provides for each mutation, given the rows of the library.\<close>

definition mutation_fits :: "json_print \<Rightarrow> json_parse \<Rightarrow> library \<Rightarrow> item_mutation \<Rightarrow> bool" where
  "mutation_fits enc dec s m \<longleftrightarrow> valid_identifier (il_external (mutation_link m)) 128
     \<and> il_item (mutation_link m) = mutation_target m
     \<and> (case m of
          MCreate b l \<Rightarrow> csl_ok enc dec (bi_citation_key b) (bi_csl_json b) \<and> bi_created_at b \<le> bi_updated_at b
            \<and> bi_revision b = 1 \<and> il_revision l = 1
        | MUpdate iid c expected l now \<Rightarrow> csl_ok enc dec (vc_citation_key c) (vc_encoded c) \<and> il_revision l = expected + 1
            \<and> (\<forall>r\<in>set (lb_items s). br_id r = iid \<longrightarrow> br_citation_key r = vc_citation_key c \<and> br_created_at r \<le> now)
        | MKeep expected l \<Rightarrow> il_revision l = expected)"

definition mutation_key :: "item_mutation \<Rightarrow> import_source_id \<times> rstr" where
  "mutation_key m = (il_source (mutation_link m), il_external (mutation_link m))"

text \<open>The item of a mutation and its link agree afterwards.\<close>

definition recorded :: "actor \<Rightarrow> library \<Rightarrow> item_mutation \<Rightarrow> bool" where
  "recorded act t m \<longleftrightarrow> row_of_link act (mutation_link m) \<in> set (lb_links t)
     \<and> (\<exists>r\<in>set (lb_items t). br_id r = mutation_target m \<and> br_owner r = actor_id act
          \<and> br_revision r = il_revision (mutation_link m))"

text \<open>Everything else stays.\<close>

definition untouched :: "bibliography_item_id set \<Rightarrow> (import_source_id \<times> rstr) set \<Rightarrow> library \<Rightarrow> library \<Rightarrow> bool" where
  "untouched targets keys s t \<longleftrightarrow>
     (\<forall>r. br_id r \<notin> targets \<longrightarrow> r \<in> set (lb_items t) \<longleftrightarrow> r \<in> set (lb_items s))
     \<and> (\<forall>x. link_key x \<notin> keys \<longrightarrow> x \<in> set (lb_links t) \<longleftrightarrow> x \<in> set (lb_links s))
     \<and> lb_sources t = lb_sources s \<and> db_principals (lb_db t) = db_principals (lb_db s)
     \<and> (\<forall>r\<in>set (lb_items s). \<exists>q\<in>set (lb_items t). br_id q = br_id r \<and> item_key q = item_key r
          \<and> br_created_at q = br_created_at r)"

lemma item_unique: "library_ok pu enc dec s \<Longrightarrow> x \<in> set (lb_items s) \<Longrightarrow> y \<in> set (lb_items s) \<Longrightarrow> br_id x = br_id y \<Longrightarrow> x = y"
  using library_okD(2) by (fastforce simp: distinct_map inj_on_def)

lemma apply_create_ok:
  assumes ok: "library_ok pu enc dec s" and op: "apply_mutation act (MCreate b l) s = Inr (a, t)"
    and fits: "mutation_fits enc dec s (MCreate b l)" and known: "actor_id act \<in> set (db_principals (lb_db s))"
  shows "library_ok pu enc dec t \<and> recorded act t (MCreate b l)
    \<and> untouched {mutation_target (MCreate b l)} {mutation_key (MCreate b l)} s t"
proof -
  let ?r = "(row_of_item b)\<lparr>br_owner := actor_id act\<rparr>"
  from op obtain u where u: "sql_insert_item ?r s = Inr u" "persist_link act l u = Inr t"
    by (auto simp: rbind_Inr_iff map_err_Inr_iff split: if_splits)
  have "in_i64 1" by (simp add: in_i64_def i64_min_def i64_max_def)
  then have "item_row_ok enc dec (lb_db s) ?r"
    using fits known by (simp add: mutation_fits_def item_row_ok_def row_of_item_def)
  note i = insert_item_ok [OF ok u(1) this]
  have "\<exists>x\<in>set (lb_items u). br_id x = il_item l \<and> br_owner x = actor_id act \<and> br_revision x = il_revision l"
    using fits i(2) by (auto simp: mutation_fits_def row_of_item_def)
  from persist_link_ok [OF i(1) u(2) _ this] fits
  have p: "library_ok pu enc dec t" "lb_db t = lb_db u" "lb_items t = lb_items u" "lb_sources t = lb_sources u"
    "row_of_link act l \<in> set (lb_links t)"
    "\<forall>x. link_key x \<noteq> (il_source l, il_external l) \<longrightarrow> x \<in> set (lb_links t) \<longleftrightarrow> x \<in> set (lb_links u)"
    by (simp_all add: mutation_fits_def)
  have "recorded act t (MCreate b l)"
    using p(3,5) i(2) fits by (auto simp: recorded_def mutation_fits_def row_of_item_def)
  moreover have "untouched {mutation_target (MCreate b l)} {mutation_key (MCreate b l)} s t"
    using p i by (auto simp: untouched_def mutation_key_def row_of_item_def)
  ultimately show ?thesis using p(1) by simp
qed

lemma apply_update_ok:
  assumes ok: "library_ok pu enc dec s" and op: "apply_mutation act (MUpdate iid c expected l now) s = Inr (a, t)"
    and fits: "mutation_fits enc dec s (MUpdate iid c expected l now)"
  shows "library_ok pu enc dec t \<and> recorded act t (MUpdate iid c expected l now)
    \<and> untouched {iid} {mutation_key (MUpdate iid c expected l now)} s t"
proof -
  let ?g = "\<lambda>r. br_id r = iid \<and> br_owner r = actor_id act \<and> br_revision r = expected"
  let ?f = "\<lambda>r. r\<lparr>br_csl_json := vc_encoded c, br_updated_at := now, br_revision := br_revision r + 1\<rparr>"
  from op obtain u where u: "sql_update_item ?g ?f s = Inr (True, u)" "persist_link act l u = Inr t"
    by (auto simp: rbind_Inr_iff map_err_Inr_iff split: if_splits)
  have "\<exists>r\<in>set (lb_items s). ?g r \<and> library_ok pu enc dec u
     \<and> set (lb_items u) = insert (?f r) {x \<in> set (lb_items s). br_id x \<noteq> br_id r}
     \<and> lb_links u = lb_links s \<and> lb_sources u = lb_sources s \<and> db_principals (lb_db u) = db_principals (lb_db s)"
  proof (rule update_item_ok [OF ok u(1)])
    show "br_id (?f r) = br_id r \<and> br_owner (?f r) = br_owner r \<and> br_revision (?f r) = br_revision r + 1" for r
      by simp
    show "item_row_ok enc dec (lb_db s) (?f r)" if r: "r \<in> set (lb_items s)" "?g r" "in_i64 (br_revision (?f r))" for r
      using library_okD(4) [OF ok r(1)] fits r by (auto simp: mutation_fits_def item_row_ok_def)
  qed
  then obtain r where r: "r \<in> set (lb_items s)" "?g r" "library_ok pu enc dec u"
    "set (lb_items u) = insert (?f r) {x \<in> set (lb_items s). br_id x \<noteq> br_id r}"
    "lb_links u = lb_links s" "lb_sources u = lb_sources s" "db_principals (lb_db u) = db_principals (lb_db s)"
    by blast
  have "\<exists>x\<in>set (lb_items u). br_id x = il_item l \<and> br_owner x = actor_id act \<and> br_revision x = il_revision l"
    using fits r(2,4) by (auto simp: mutation_fits_def)
  from persist_link_ok [OF r(3) u(2) _ this] fits
  have p: "library_ok pu enc dec t" "lb_db t = lb_db u" "lb_items t = lb_items u" "lb_sources t = lb_sources u"
    "row_of_link act l \<in> set (lb_links t)"
    "\<forall>x. link_key x \<noteq> (il_source l, il_external l) \<longrightarrow> x \<in> set (lb_links t) \<longleftrightarrow> x \<in> set (lb_links u)"
    by (simp_all add: mutation_fits_def)
  have "recorded act t (MUpdate iid c expected l now)"
    using p(3,5) r(2,4) fits by (auto simp: recorded_def mutation_fits_def)
  moreover have "\<exists>q\<in>set (lb_items t). br_id q = br_id x \<and> item_key q = item_key x \<and> br_created_at q = br_created_at x"
    if "x \<in> set (lb_items s)" for x
  proof (cases "br_id x = br_id r")
    case True
    then have "x = r" using item_unique [OF ok that r(1)] by simp
    then show ?thesis using p(3) r(4) by (intro bexI [of _ "?f r"]) (simp_all add: item_key_def)
  qed (use that p(3) r(4) in auto)
  then have "untouched {iid} {mutation_key (MUpdate iid c expected l now)} s t"
    using p r by (auto simp: untouched_def mutation_key_def)
  ultimately show ?thesis using p(1) by simp
qed

lemma apply_keep_ok:
  assumes ok: "library_ok pu enc dec s" and op: "apply_mutation act (MKeep expected l) s = Inr (a, t)"
    and fits: "mutation_fits enc dec s (MKeep expected l)"
  shows "library_ok pu enc dec t \<and> recorded act t (MKeep expected l)
    \<and> untouched {il_item l} {mutation_key (MKeep expected l)} s t"
proof -
  from op have u: "persist_link act l s = Inr t"
      and "count_where (\<lambda>r. br_id r = il_item l \<and> br_owner r = actor_id act \<and> br_revision r = expected) (lb_items s) = 1"
    by (auto simp: rbind_Inr_iff split: if_splits)
  then have "filter (\<lambda>r. br_id r = il_item l \<and> br_owner r = actor_id act \<and> br_revision r = expected) (lb_items s) \<noteq> []"
    by (auto simp: count_where_def)
  then have x: "\<exists>x\<in>set (lb_items s). br_id x = il_item l \<and> br_owner x = actor_id act \<and> br_revision x = il_revision l"
    using fits by (auto simp: filter_empty_conv mutation_fits_def)
  from persist_link_ok [OF ok u _ x] fits
  have p: "library_ok pu enc dec t" "lb_db t = lb_db s" "lb_items t = lb_items s" "lb_sources t = lb_sources s"
    "row_of_link act l \<in> set (lb_links t)"
    "\<forall>x. link_key x \<noteq> (il_source l, il_external l) \<longrightarrow> x \<in> set (lb_links t) \<longleftrightarrow> x \<in> set (lb_links s)"
    by (simp_all add: mutation_fits_def)
  have "recorded act t (MKeep expected l)" using p(3,5) x by (simp add: recorded_def)
  moreover have "untouched {il_item l} {mutation_key (MKeep expected l)} s t"
    using p by (auto simp: untouched_def mutation_key_def)
  ultimately show ?thesis using p(1) by simp
qed

lemma apply_mutation_ok:
  assumes "library_ok pu enc dec s" "apply_mutation act m s = Inr (a, t)" "mutation_fits enc dec s m"
    and "actor_id act \<in> set (db_principals (lb_db s))"
  shows "library_ok pu enc dec t \<and> recorded act t m \<and> untouched {mutation_target m} {mutation_key m} s t"
proof (cases m)
  case (MCreate b l)
  with apply_create_ok assms show ?thesis by blast
next
  case (MUpdate iid c expected l now)
  with apply_update_ok [of pu enc dec s act iid c expected l now a t] assms show ?thesis by simp
next
  case (MKeep expected l)
  with apply_keep_ok [of pu enc dec s act expected l a t] assms show ?thesis by simp
qed

end
