(* ===== verification/BiblioBatch.thy ===== *)
theory BiblioBatch
  imports BiblioApply
begin

text \<open>
  Reading the state of a well-formed library, and applying a whole plan to it.
\<close>

section \<open>A whole plan\<close>

lemma fits_later:
  assumes "untouched {mutation_target m} ks s t" "mutation_target m' \<noteq> mutation_target m" "mutation_fits enc dec s m'"
  shows "mutation_fits enc dec t m'"
  using assms by (cases m') (auto simp: mutation_fits_def untouched_def)

lemma recorded_later:
  assumes "untouched ts ks s t" "mutation_target m \<notin> ts" "mutation_key m \<notin> ks" "recorded act s m"
  shows "recorded act t m"
proof -
  have "link_key (row_of_link act (mutation_link m)) = mutation_key m"
    by (simp add: link_key_def row_of_link_def mutation_key_def)
  with assms show ?thesis unfolding recorded_def untouched_def by metis
qed

lemma untouched_trans:
  assumes "untouched ts ks s t" "untouched ts' ks' t u"
  shows "untouched (ts \<union> ts') (ks \<union> ks') s u"
proof -
  have "\<exists>q\<in>set (lb_items u). br_id q = br_id r \<and> item_key q = item_key r \<and> br_created_at q = br_created_at r"
    if "r \<in> set (lb_items s)" for r
    using assms that unfolding untouched_def by metis
  with assms show ?thesis by (simp add: untouched_def)
qed

lemma apply_mutations_ok:
  "library_ok pu enc dec s \<Longrightarrow> apply_mutations act ms s = Inr (as, t) \<Longrightarrow> \<forall>m\<in>set ms. mutation_fits enc dec s m
   \<Longrightarrow> distinct (map mutation_target ms) \<Longrightarrow> distinct (map mutation_key ms)
   \<Longrightarrow> actor_id act \<in> set (db_principals (lb_db s))
   \<Longrightarrow> library_ok pu enc dec t \<and> (\<forall>m\<in>set ms. recorded act t m)
     \<and> untouched (mutation_target ` set ms) (mutation_key ` set ms) s t"
proof (induction ms arbitrary: s as)
  case Nil
  then show ?case by (auto simp: untouched_def)
next
  case (Cons m ms)
  from Cons.prems(2) obtain a u bs where u: "apply_mutation act m s = Inr (a, u)" "apply_mutations act ms u = Inr (bs, t)"
    by (auto simp: rbind_Inr_iff)
  have m: "library_ok pu enc dec u" "recorded act u m" "untouched {mutation_target m} {mutation_key m} s u"
    using apply_mutation_ok [OF Cons.prems(1) u(1) _ Cons.prems(6)] Cons.prems(3) by simp_all
  have "mutation_fits enc dec u m'" if "m' \<in> set ms" for m'
  proof (rule fits_later [OF m(3)])
    have "mutation_target m' \<in> mutation_target ` set ms" using that by blast
    then show "mutation_target m' \<noteq> mutation_target m" using Cons.prems(4) by auto
  qed (use that Cons.prems(3) in simp)
  moreover have "actor_id act \<in> set (db_principals (lb_db u))" using m(3) Cons.prems(6) by (simp add: untouched_def)
  ultimately have ih: "library_ok pu enc dec t" "\<forall>m\<in>set ms. recorded act t m"
      "untouched (mutation_target ` set ms) (mutation_key ` set ms) u t"
    using Cons.IH [OF m(1) u(2)] Cons.prems(4,5) by simp_all
  have "recorded act t m" by (rule recorded_later [OF ih(3) _ _ m(2)]) (use Cons.prems(4,5) in auto)
  with ih untouched_trans [OF m(3) ih(3)] show ?case by (simp add: insert_is_Un [symmetric])
qed

section \<open>Reading the state\<close>

lemma load_items_ok:
  assumes "library_ok pu enc dec s"
  shows "\<exists>bs. load_items pu enc dec act s = Inr bs
    \<and> (\<forall>r. (\<exists>b\<in>set bs. row_of_item b = r) \<longleftrightarrow> r \<in> set (lb_items s) \<and> br_owner r = actor_id act)"
proof -
  let ?rows = "sort_key (\<lambda>(r, i). br_id r) (items_where (\<lambda>r. br_owner r = actor_id act) s)"
  have rows: "fst ` set ?rows = {r \<in> set (lb_items s). br_owner r = actor_id act}"
    using set_items_where(1) [OF assms] by simp
  have "\<exists>b. decode_item pu enc dec x = Inr b \<and> row_of_item b = fst x" if "x \<in> set ?rows" for x
    using set_items_where(2) [OF assms] that by simp
  from traverse_exists [where f = "decode_item pu enc dec" and P = "\<lambda>x b. row_of_item b = fst x", OF this]
  obtain bs where bs: "traverse (decode_item pu enc dec) ?rows = Inr bs"
      "list_all2 (\<lambda>x b. row_of_item b = fst x) ?rows bs" by blast
  have "(\<exists>b\<in>set bs. row_of_item b = r) \<longleftrightarrow> r \<in> fst ` set ?rows" for r
    using list_all2_set [OF bs(2)] by fastforce
  with bs(1) rows show ?thesis by (auto simp: load_items_def)
qed

lemma link_decodes:
  assumes "library_ok pu enc dec s" "l \<in> set (lb_links s)" "lr_owner l = actor_id act"
  shows "\<exists>k. decode_link l = Inr k \<and> row_of_link act k = l"
  using library_okD(8) [OF assms(1,2)] assms(3)
  by (simp add: link_row_ok_def decode_link_def revision_new_Inr import_link_new_def max_external_item_id_bytes_def
      row_of_link_def)

lemma load_links_ok:
  assumes "library_ok pu enc dec s"
  shows "\<exists>ls. load_links act sid s = Inr ls
    \<and> (\<forall>l. (\<exists>k\<in>set ls. row_of_link act k = l) \<longleftrightarrow> l \<in> set (lb_links s) \<and> lr_source l = sid \<and> lr_owner l = actor_id act)"
proof -
  let ?rows = "sort_key lr_external (select_where (\<lambda>l. lr_source l = sid \<and> lr_owner l = actor_id act) (lb_links s))"
  have "\<exists>k. decode_link l = Inr k \<and> row_of_link act k = l" if "l \<in> set ?rows" for l
    using link_decodes [OF assms] that by (auto simp: set_select_where)
  from traverse_exists [where f = decode_link and P = "\<lambda>l k. row_of_link act k = l", OF this] obtain ls where ls: "traverse decode_link ?rows = Inr ls"
      "list_all2 (\<lambda>l k. row_of_link act k = l) ?rows ls" by blast
  have "(\<exists>k\<in>set ls. row_of_link act k = l) \<longleftrightarrow> l \<in> set ?rows" for l
    using list_all2_set [OF ls(2)] by fastforce
  with ls(1) show ?thesis by (auto simp: load_links_def set_select_where)
qed

lemma source_decodes:
  assumes "library_ok pu enc dec s" "r \<in> set (lb_sources s)"
  shows "\<exists>i src. source_details s r = Some (r, i) \<and> decode_source pu (r, i) = Inr src \<and> is_id src = sr_id r
    \<and> is_name src = sr_name r \<and> is_revision src = sr_revision r \<and> pref_id (is_owner src) = sr_owner r"
proof -
  note r = library_okD(6) [OF assms, unfolded source_row_ok_def source_name_ok_def]
  obtain i where "primary_identity_row (lb_db s) (sr_owner r) = Some i"
      "decode_owner pu (sr_owner r) i = Inr \<lparr>pref_id = sr_owner r, primary_identity = row_identity i\<rparr>"
    using owner_decodes [OF store_okD(1) [OF library_okD(1) [OF assms(1)]]] r by blast
  with r show ?thesis
    by (simp add: source_details_def decode_source_def revision_new_Inr import_source_restore_def import_source_checked_def
        import_source_invalid_def max_import_source_name_characters_def)
qed

lemma load_source_ok:
  assumes "library_ok pu enc dec s"
  shows "\<exists>x. load_source pu act sid s = Inr x
    \<and> (x \<noteq> None \<longleftrightarrow> (\<exists>r\<in>set (lb_sources s). sr_id r = sid \<and> sr_owner r = actor_id act))
    \<and> (\<forall>src. x = Some src \<longrightarrow> is_id src = sid \<and> source_fits src \<and> pref_id (is_owner src) = actor_id act)"
proof -
  let ?rows = "select_where (\<lambda>r. sr_id r = sid \<and> sr_owner r = actor_id act) (lb_sources s)"
  show ?thesis
  proof (cases ?rows)
    case Nil
    then have "\<forall>r\<in>set (lb_sources s). \<not> (sr_id r = sid \<and> sr_owner r = actor_id act)"
      by (simp add: select_where_def filter_empty_conv)
    with Nil show ?thesis by (auto simp: load_source_def List.map_filter_simps)
  next
    case (Cons r rs)
    then have r: "r \<in> set (lb_sources s)" "sr_id r = sid" "sr_owner r = actor_id act"
      using set_select_where [of "\<lambda>r. sr_id r = sid \<and> sr_owner r = actor_id act" "lb_sources s"] by auto
    obtain i src where src: "source_details s r = Some (r, i)" "decode_source pu (r, i) = Inr src" "is_id src = sr_id r"
        "is_name src = sr_name r" "pref_id (is_owner src) = sr_owner r"
      using source_decodes [OF assms r(1)] by blast
    moreover have "source_fits src" using library_okD(6) [OF assms r(1)] src(4) by (simp add: source_fits_def source_row_ok_def)
    moreover have "load_source pu act sid s = Inr (Some src)"
      using src(1,2) Cons by (simp add: load_source_def List.map_filter_simps)
    ultimately show ?thesis using r by auto
  qed
qed

text \<open>The state of a well-formed library is always read.\<close>

definition state_of :: "actor \<Rightarrow> import_source_id option \<Rightarrow> library \<Rightarrow> import_state \<Rightarrow> bool" where
  "state_of act sid s st \<longleftrightarrow>
     (\<forall>r. (\<exists>b\<in>set (st_items st). row_of_item b = r) \<longleftrightarrow> r \<in> set (lb_items s) \<and> br_owner r = actor_id act)
     \<and> (\<forall>l. (\<exists>k\<in>set (st_links st). row_of_link act k = l)
          \<longleftrightarrow> l \<in> set (lb_links s) \<and> sid = Some (lr_source l) \<and> lr_owner l = actor_id act)
     \<and> (st_source st \<noteq> None \<longleftrightarrow> (\<exists>r\<in>set (lb_sources s). sid = Some (sr_id r) \<and> sr_owner r = actor_id act))
     \<and> (\<forall>src. st_source st = Some src \<longrightarrow> sid = Some (is_id src) \<and> source_fits src \<and> pref_id (is_owner src) = actor_id act)"

lemma state_of_canonicalized [simp]: "state_of act sid s (canonicalized st) = state_of act sid s st"
  by (simp add: state_of_def canonicalized_def)

lemma load_state_ok:
  assumes "library_ok pu enc dec s"
  shows "\<exists>st. load_import_state pu enc dec act sid s = Inr st \<and> state_of act sid s st"
proof -
  obtain bs where bs: "load_items pu enc dec act s = Inr bs"
      "\<forall>r. (\<exists>b\<in>set bs. row_of_item b = r) \<longleftrightarrow> r \<in> set (lb_items s) \<and> br_owner r = actor_id act"
    using load_items_ok [OF assms] by blast
  obtain ls where ls: "(case sid of None \<Rightarrow> Inr [] | Some k \<Rightarrow> load_links act k s) = Inr ls"
      "\<forall>l. (\<exists>k\<in>set ls. row_of_link act k = l) \<longleftrightarrow> l \<in> set (lb_links s) \<and> sid = Some (lr_source l) \<and> lr_owner l = actor_id act"
  proof (cases sid)
    case None
    then show ?thesis by (intro that [of "[]"]) simp_all
  next
    case (Some k)
    obtain ls where "load_links act k s = Inr ls" "\<forall>l. (\<exists>k'\<in>set ls. row_of_link act k' = l)
        \<longleftrightarrow> l \<in> set (lb_links s) \<and> lr_source l = k \<and> lr_owner l = actor_id act"
      using load_links_ok [OF assms, of act k] by blast
    with Some show ?thesis by (intro that [of ls]) auto
  qed
  obtain x where x: "(case sid of None \<Rightarrow> Inr None | Some k \<Rightarrow> load_source pu act k s) = Inr x"
      "x \<noteq> None \<longleftrightarrow> (\<exists>r\<in>set (lb_sources s). sid = Some (sr_id r) \<and> sr_owner r = actor_id act)"
      "\<forall>src. x = Some src \<longrightarrow> sid = Some (is_id src) \<and> source_fits src \<and> pref_id (is_owner src) = actor_id act"
  proof (cases sid)
    case None
    then show ?thesis by (intro that [of None]) simp_all
  next
    case (Some k)
    obtain x where x: "load_source pu act k s = Inr x"
        "x \<noteq> None \<longleftrightarrow> (\<exists>r\<in>set (lb_sources s). sr_id r = k \<and> sr_owner r = actor_id act)"
        "\<forall>src. x = Some src \<longrightarrow> is_id src = k \<and> source_fits src \<and> pref_id (is_owner src) = actor_id act"
      using load_source_ok [OF assms, of act k] by blast
    show ?thesis using x Some by (intro that [of x]) (auto simp: eq_commute)
  qed
  have "\<not> dangling bs k" if k: "k \<in> set ls" for k
  proof -
    have "row_of_link act k \<in> set (lb_links s)" using ls(2) k by blast
    from library_okD(8) [OF assms this] obtain r where r: "r \<in> set (lb_items s)" "br_id r = il_item k"
        "br_owner r = actor_id act" "il_revision k \<le> br_revision r"
      by (auto simp: link_row_ok_def row_of_link_def)
    then obtain b where b: "b \<in> set bs" "row_of_item b = r" using bs(2) by blast
    then obtain b' where b': "find (\<lambda>b. bi_id b = il_item k) bs = Some b'"
      using r(2) by (cases "find (\<lambda>b. bi_id b = il_item k) bs") (auto simp: find_None_iff row_of_item_def)
    have "row_of_item b' = r"
      using find_SomeD [OF b'] bs(2) r item_unique [OF assms, of "row_of_item b'" r] by (auto simp: row_of_item_def)
    then have "il_revision k \<le> bi_revision b'" using r(4) by (auto simp: row_of_item_def)
    with b' show ?thesis by (simp add: dangling_def)
  qed
  then have "load_import_state pu enc dec act sid s = Inr (canonicalized \<lparr>st_source = x, st_links = ls, st_items = bs\<rparr>)"
    using bs(1) ls(1) x(1) by (auto simp: load_import_state_def list_ex_iff)
  moreover have "state_of act sid s \<lparr>st_source = x, st_links = ls, st_items = bs\<rparr>"
    using bs(2) ls(2) x(2,3) by (simp add: state_of_def)
  ultimately show ?thesis by simp
qed

end
