(* ===== verification/BiblioDecisions.thy ===== *)
theory BiblioDecisions
  imports BiblioBatch
begin

text \<open>
  What a preview and a plan guarantee: every entry that is not rejected stands for a validated item of its
  own external id, and every planned mutation carries the id and the digest of its entry.
\<close>

section \<open>The entries of a preview\<close>

text \<open>The external ids seen before a position depend on the imported values only.\<close>

definition note_seen :: "json_print \<Rightarrow> (u8 list \<Rightarrow> u8 list) \<Rightarrow> json \<Rightarrow> rstr set \<Rightarrow> rstr set" where
  "note_seen enc sha256 v seen = (case validate_item enc sha256 v of Inl _ \<Rightarrow> seen | Inr vi \<Rightarrow> insert (vi_external vi) seen)"

text \<open>Validated and not seen before.\<close>

definition accepted :: "json_print \<Rightarrow> (u8 list \<Rightarrow> u8 list) \<Rightarrow> rstr set \<Rightarrow> json \<Rightarrow> validated_item \<Rightarrow> bool" where
  "accepted enc sha256 seen v vi \<longleftrightarrow> validate_item enc sha256 v = Inr vi \<and> vi_external vi \<notin> seen"

lemma classify_entry_seen:
  assumes "classify_entry enc dec sha256 lc p v st seen = Inr (en, seen')"
  shows "seen' = note_seen enc sha256 v seen" "en_position en = p"
    "en_class en \<noteq> ClRejected \<Longrightarrow> \<exists>vi. accepted enc sha256 seen v vi \<and> en_external en = Some (vi_external vi)"
  using assms
  by (auto simp: classify_entry_def note_seen_def accepted_def classify_linked_def classify_unlinked_def rejected_entry_def
      Let_def rbind_Inr_iff insert_absorb split: sum.splits option.splits if_splits)

definition seen_at :: "json_print \<Rightarrow> (u8 list \<Rightarrow> u8 list) \<Rightarrow> json list \<Rightarrow> rstr set \<Rightarrow> nat \<Rightarrow> rstr set" where
  "seen_at enc sha256 vs seen i = foldl (\<lambda>x v. note_seen enc sha256 v x) seen (take i vs)"

lemma seen_at_simps [simp]:
  "seen_at enc sha256 vs seen 0 = seen"
  "seen_at enc sha256 (v # vs) seen (Suc i) = seen_at enc sha256 vs (note_seen enc sha256 v seen) i"
  by (simp_all add: seen_at_def)

lemma classify_entries_nth:
  assumes "classify_entries enc dec sha256 lc p vs st seen = Inr ens"
  shows "length ens = length vs \<and> (\<forall>i<length vs. \<exists>seen'.
    classify_entry enc dec sha256 lc (p + i) (vs ! i) st (seen_at enc sha256 vs seen i) = Inr (ens ! i, seen'))"
  using assms
proof (induction vs arbitrary: p seen ens)
  case (Cons v vs)
  then obtain en seen' rest where *: "classify_entry enc dec sha256 lc p v st seen = Inr (en, seen')"
      "classify_entries enc dec sha256 lc (p + 1) vs st seen' = Inr rest" "ens = en # rest"
    by (auto simp: rbind_Inr_iff)
  have seen: "seen' = note_seen enc sha256 v seen" using classify_entry_seen(1) [OF *(1)] .
  note ih = Cons.IH [OF *(2)]
  show ?case
  proof (intro conjI allI impI)
    show "length ens = length (v # vs)" using ih *(3) by simp
    fix i
    assume "i < length (v # vs)"
    then show "\<exists>seen'. classify_entry enc dec sha256 lc (p + i) ((v # vs) ! i) st (seen_at enc sha256 (v # vs) seen i)
        = Inr (ens ! i, seen')"
      using * ih seen by (cases i) auto
  qed
qed simp

lemma classify_entries_total:
  assumes "\<And>i. i < length vs \<Longrightarrow> \<exists>x. classify_entry enc dec sha256 lc (p + i) (vs ! i) st (seen_at enc sha256 vs seen i) = Inr x"
  shows "\<exists>ens. classify_entries enc dec sha256 lc p vs st seen = Inr ens"
  using assms
proof (induction vs arbitrary: p seen)
  case (Cons v vs)
  obtain en seen' where en: "classify_entry enc dec sha256 lc p v st seen = Inr (en, seen')"
    using Cons.prems [of 0] by auto
  have seen: "seen' = note_seen enc sha256 v seen" using classify_entry_seen(1) [OF en] .
  have "\<exists>ens. classify_entries enc dec sha256 lc (p + 1) vs st seen' = Inr ens"
  proof (rule Cons.IH)
    fix i
    assume "i < length vs"
    then show "\<exists>x. classify_entry enc dec sha256 lc (p + 1 + i) (vs ! i) st (seen_at enc sha256 vs seen' i) = Inr x"
      using Cons.prems [of "Suc i"] seen by simp
  qed
  with en show ?case by auto
qed simp

lemma seen_at_mono: "i \<le> j \<Longrightarrow> seen_at enc sha256 vs seen i \<subseteq> seen_at enc sha256 vs seen j"
proof (induction vs arbitrary: seen i j)
  case (Cons v vs)
  show ?case
  proof (cases i)
    case 0
    have grow: "seen \<subseteq> note_seen enc sha256 v seen" by (auto simp: note_seen_def split: sum.splits)
    show ?thesis
    proof (cases j)
      case (Suc k)
      have "note_seen enc sha256 v seen \<subseteq> seen_at enc sha256 vs (note_seen enc sha256 v seen) k"
        using Cons.IH [of 0 k "note_seen enc sha256 v seen"] by simp
      with grow 0 Suc show ?thesis by auto
    qed (use 0 in simp)
  next
    case (Suc i')
    then obtain j' where "j = Suc j'" "i' \<le> j'" using Cons.prems by (cases j) auto
    with Suc Cons.IH show ?thesis by simp
  qed
qed (simp add: seen_at_def)

lemma seen_at_Suc: "i < length vs \<Longrightarrow> seen_at enc sha256 vs seen (Suc i) = note_seen enc sha256 (vs ! i) (seen_at enc sha256 vs seen i)"
  by (simp add: seen_at_def take_Suc_conv_app_nth)

text \<open>Two accepted positions have different external ids.\<close>

lemma accepted_distinct:
  assumes "accepted enc sha256 (seen_at enc sha256 vs seen i) (vs ! i) vi"
    and "accepted enc sha256 (seen_at enc sha256 vs seen j) (vs ! j) vj" "i < j" "j < length vs"
  shows "vi_external vi \<noteq> vi_external vj"
proof -
  have "vi_external vi \<in> seen_at enc sha256 vs seen (Suc i)"
    using assms(1,3,4) by (simp add: seen_at_Suc note_seen_def accepted_def)
  then have "vi_external vi \<in> seen_at enc sha256 vs seen j" using seen_at_mono [OF Suc_leI [OF assms(3)]] by blast
  with assms(2) show ?thesis by (auto simp: accepted_def)
qed

section \<open>The mutations of a plan\<close>

text \<open>A mutation carries its validated item.\<close>

definition carries :: "json_print \<Rightarrow> json_parse \<Rightarrow> import_source \<Rightarrow> unix_millis \<Rightarrow> validated_item \<Rightarrow> item_mutation \<Rightarrow> bool" where
  "carries enc dec src now vi m \<longleftrightarrow> (let l = mutation_link m in
     il_source l = is_id src \<and> il_external l = vi_external vi \<and> il_digest l = vi_digest vi \<and> il_item l = mutation_target m
     \<and> valid_identifier (il_external l) 128
     \<and> (case m of
          MCreate b _ \<Rightarrow> csl_ok enc dec (bi_citation_key b) (bi_csl_json b) \<and> bi_created_at b \<le> bi_updated_at b
            \<and> bi_revision b = 1
        | MUpdate _ c _ _ at \<Rightarrow> csl_ok enc dec (vc_citation_key c) (vc_encoded c) \<and> at = now
        | MKeep _ _ \<Rightarrow> True))"

lemma plan_link_Inr:
  "plan_link src ext iid digest rvn = Inr l \<longleftrightarrow> valid_identifier ext 128
    \<and> l = \<lparr>il_source = is_id src, il_external = ext, il_item = iid, il_digest = digest, il_revision = rvn\<rparr>"
  by (auto simp: plan_link_def import_link_new_def max_external_item_id_bytes_def)

lemma create_carries:
  assumes "json_codec enc dec" "json_exact v" "validate_item enc sha256 v = Inr vi"
    and "create_mutation vi src now iid = Inr m"
  shows "carries enc dec src now vi m"
proof -
  obtain c where "validated_csl_new enc v = Inr c" "vi_csl vi = c"
    using assms(3) by (auto simp: validate_item_def rbind_Inr_iff map_err_Inr_iff)
  then have "csl_ok enc dec (vc_citation_key (vi_csl vi)) (vc_encoded (vi_csl vi))"
    using csl_new_ok(1) [OF assms(1,2)] by blast
  with assms(4) show ?thesis
    by (auto simp: create_mutation_def Let_def rbind_Inr_iff plan_link_Inr carries_def bibliography_item_create_def
        revision_initial_def revision_minimum_def)
qed

lemma update_carries:
  assumes "json_codec enc dec" "json_exact v" "validate_item enc sha256 v = Inr vi"
    and "update_mutation enc dec en vi src now = Inr m"
  shows "carries enc dec src now vi m"
proof -
  have csl: "validated_csl_new enc v = Inr (vi_csl vi)"
    using assms(3) by (auto simp: validate_item_def rbind_Inr_iff map_err_Inr_iff)
  note read = csl_new_ok(2) [OF assms(1,2) csl]
  from assms(4) obtain key c iid rvn nxt l where c: "with_local_key enc dec key (vi_csl vi) = Inr c"
      and l: "plan_link src (vi_external vi) iid (vi_digest vi) nxt = Inr l" "m = MUpdate iid c rvn l now"
    unfolding update_mutation_def rbind_Inr_iff by blast
  obtain kvs where kvs: "v = JObject kvs" using csl csl_new_Inr by blast
  have "validated_csl_new enc (JObject (json_insert (lit ''id'') (JString key) kvs)) = Inr c"
    using c read by (simp add: with_local_key_def kvs map_err_Inr_iff)
  moreover have "json_exact (JObject (json_insert (lit ''id'') (JString key) kvs))"
    using assms(2) json_exact_insert [of kvs "JString key"] by (simp only: kvs json_exact.simps)
  ultimately have "csl_ok enc dec (vc_citation_key c) (vc_encoded c)" using csl_new_ok(1) [OF assms(1)] by blast
  with l show ?thesis by (auto simp: plan_link_Inr carries_def)
qed

lemma keep_carries:
  assumes "keep_mutation en vi src = Inr m"
  shows "carries enc dec src now vi m"
  using assms by (auto simp: keep_mutation_def rbind_Inr_iff plan_link_Inr carries_def)

lemma decision_carries:
  assumes "json_codec enc dec" "json_exact v" "validate_item enc sha256 v = Inr vi"
    and "mutation_for_decision enc dec en de vi bs src now iid = Inr m"
  shows "carries enc dec src now vi m"
proof -
  note rules = create_carries [OF assms(1-3)] update_carries [OF assms(1-3)] keep_carries
  have "carries enc dec src now vi m" if "link_candidate_mutation enc dec en de vi bs src now = Inr m"
    using that rules by (auto simp: link_candidate_mutation_def Let_def rbind_Inr_iff split: if_splits)
  with assms(4) rules show ?thesis
    by (auto simp: mutation_for_decision_def split: classification.splits decision_kind.splits if_splits)
qed

text \<open>The entries of the plan that are not excluded, each with its mutation.\<close>

definition entry_planned ::
  "json_print \<Rightarrow> json_parse \<Rightarrow> (u8 list \<Rightarrow> u8 list) \<Rightarrow> import_input \<Rightarrow> import_source \<Rightarrow> unix_millis \<Rightarrow> import_entry
   \<Rightarrow> item_mutation \<Rightarrow> bool" where
  "entry_planned enc dec sha256 inp src now en m \<longleftrightarrow> en_class en \<noteq> ClRejected \<and> en_position en < length (ii_items inp)
     \<and> (\<exists>vi. validate_item enc sha256 (ii_items inp ! en_position en) = Inr vi \<and> carries enc dec src now vi m)"

definition excluded_entry :: "import_decision list \<Rightarrow> import_entry \<Rightarrow> bool" where
  "excluded_entry decisions en \<longleftrightarrow> (\<exists>de\<in>set decisions. de_position de = en_position en \<and> de_kind de = Exclude)"

lemma plan_entry_Inr:
  assumes "json_codec enc dec" "\<forall>v\<in>set (ii_items inp). json_exact v"
    and "plan_entry enc dec sha256 inp decisions bs src now fresh targets en = Inr planned"
  shows "case planned of None \<Rightarrow> excluded_entry decisions en
    | Some m \<Rightarrow> entry_planned enc dec sha256 inp src now en m \<and> mutation_target m \<notin> targets"
proof -
  from assms(3) obtain de where de: "find (\<lambda>de. de_position de = en_position en) decisions = Some de"
      "planned = None \<and> de_kind de = Exclude \<or> (\<exists>vi m. planned = Some m \<and> en_class en \<noteq> ClRejected
        \<and> en_position en < length (ii_items inp) \<and> validate_item enc sha256 (ii_items inp ! en_position en) = Inr vi
        \<and> mutation_for_decision enc dec en de vi bs src now (fresh (en_position en)) = Inr m \<and> mutation_target m \<notin> targets)"
    by (auto simp: plan_entry_def rbind_Inr_iff map_err_Inr_iff ok_or_Inr_iff split: if_splits)
  have "de \<in> set decisions \<and> de_position de = en_position en" using find_SomeD [OF de(1)] by simp
  moreover have "json_exact (ii_items inp ! en_position en)" if "en_position en < length (ii_items inp)"
    using assms(2) that by simp
  ultimately show ?thesis
    using de(2) decision_carries [OF assms(1)] by (fastforce simp: excluded_entry_def entry_planned_def)
qed

lemma plan_entries_Inr:
  assumes "json_codec enc dec" "\<forall>v\<in>set (ii_items inp). json_exact v"
    and "plan_entries enc dec sha256 inp decisions bs src now fresh targets ens = Inr (ms, n)"
  shows "(\<exists>kept. list_all2 (entry_planned enc dec sha256 inp src now) kept ms \<and> set kept \<subseteq> set ens
      \<and> (\<forall>en\<in>set ens. en \<notin> set kept \<longrightarrow> excluded_entry decisions en) \<and> (distinct (map en_position ens) \<longrightarrow> distinct (map en_position kept)))
    \<and> distinct (map mutation_target ms) \<and> mutation_target ` set ms \<inter> targets = {}"
  using assms(3)
proof (induction ens arbitrary: targets ms n)
  case (Cons en ens)
  obtain planned where p: "plan_entry enc dec sha256 inp decisions bs src now fresh targets en = Inr planned"
    using Cons.prems by (auto simp: rbind_Inr_iff)
  note pe = plan_entry_Inr [OF assms(1,2) p]
  show ?case
  proof (cases planned)
    case None
    then obtain k where "plan_entries enc dec sha256 inp decisions bs src now fresh targets ens = Inr (ms, k)"
      using Cons.prems p by (auto simp: rbind_Inr_iff)
    from Cons.IH [OF this] obtain kept where k: "list_all2 (entry_planned enc dec sha256 inp src now) kept ms"
        "set kept \<subseteq> set ens" "\<forall>en\<in>set ens. en \<notin> set kept \<longrightarrow> excluded_entry decisions en"
        "distinct (map en_position ens) \<longrightarrow> distinct (map en_position kept)"
        "distinct (map mutation_target ms) \<and> mutation_target ` set ms \<inter> targets = {}"
      by blast
    then show ?thesis using pe None by (intro conjI exI [of _ kept]) auto
  next
    case (Some m)
    then obtain ms' k where "plan_entries enc dec sha256 inp decisions bs src now fresh (insert (mutation_target m) targets) ens
        = Inr (ms', k)" "ms = m # ms'"
      using Cons.prems p by (auto simp: rbind_Inr_iff)
    with Cons.IH [OF this(1)] obtain kept where k: "list_all2 (entry_planned enc dec sha256 inp src now) kept ms'"
        "set kept \<subseteq> set ens" "\<forall>en\<in>set ens. en \<notin> set kept \<longrightarrow> excluded_entry decisions en"
        "distinct (map en_position ens) \<longrightarrow> distinct (map en_position kept)"
        "distinct (map mutation_target ms') \<and> mutation_target ` set ms' \<inter> insert (mutation_target m) targets = {}"
        "ms = m # ms'"
      by blast
    then show ?thesis using pe Some by (intro conjI exI [of _ "en # kept"]) auto
  qed
qed simp

end
