(* ===== verification/BiblioPlanProps.thy ===== *)
theory BiblioPlanProps
  imports BiblioDecisions
begin

text \<open>
  The plan the application builds from a preview: its targets and keys are distinct, and every entry that is
  not excluded has its mutation.
\<close>

section \<open>A whole import\<close>

text \<open>What the current library has when it compares equal to the previewed one.\<close>

lemma item_eq_row: "item_eq x y \<Longrightarrow> row_of_item x = row_of_item y"
  by (cases x; cases y) (auto simp: item_eq_def row_of_item_def principal_ref_eq_def)

lemma state_eq_items:
  assumes "state_eq a b" "y \<in> set (st_items b)"
  shows "\<exists>x\<in>set (st_items a). row_of_item x = row_of_item y"
proof -
  have "list_all2 item_eq (st_items a) (st_items b)" using assms(1) by (simp add: state_eq_def)
  from list_all2_set(2) [OF this assms(2)] obtain x where x: "x \<in> set (st_items a)" "item_eq x y" by blast
  with item_eq_row show ?thesis by blast
qed

lemma carries_fits:
  assumes ok: "library_ok pu enc dec t" and st: "state_of act sid t cur" "state_eq cur (co_expected co)"
    and carries: "carries enc dec (co_source co) now vi m" and cons: "mutation_consistent co m"
    and clock: "\<forall>r\<in>set (lb_items t). br_created_at r \<le> now"
  shows "mutation_fits enc dec t m"
proof (cases m)
  case (MUpdate iid c expected l at)
  obtain b where b: "b \<in> set (st_items (co_expected co))" "bi_id b = iid" "bi_citation_key b = vc_citation_key c"
    using cons by (auto simp: MUpdate mutation_consistent_def list_ex_iff)
  obtain x where x: "x \<in> set (st_items cur)" "row_of_item x = row_of_item b" using state_eq_items [OF st(2) b(1)] by blast
  then have "row_of_item b \<in> set (lb_items t)" using st(1) unfolding state_of_def by metis
  then have "br_citation_key r = vc_citation_key c" if "r \<in> set (lb_items t)" "br_id r = iid" for r
    using item_unique [OF ok that(1), of "row_of_item b"] that(2) b by (simp add: row_of_item_def)
  with carries cons clock show ?thesis
    by (auto simp: MUpdate mutation_fits_def carries_def mutation_consistent_def Let_def)
qed (use carries cons in \<open>auto simp: mutation_fits_def carries_def mutation_consistent_def Let_def\<close>)

text \<open>A plan built from a preview of \<open>inp\<close>.\<close>

definition planned_from ::
  "json_print \<Rightarrow> json_parse \<Rightarrow> (u8 list \<Rightarrow> u8 list) \<Rightarrow> import_input \<Rightarrow> import_decision list \<Rightarrow> unix_millis \<Rightarrow> import_commit
   \<Rightarrow> bool" where
  "planned_from enc dec sha256 inp decisions now co \<longleftrightarrow> source_fits (co_source co)
     \<and> distinct (map mutation_target (co_mutations co)) \<and> distinct (map mutation_key (co_mutations co))
     \<and> (\<forall>m\<in>set (co_mutations co). \<exists>vi. carries enc dec (co_source co) now vi m)
     \<and> (\<forall>i<length (ii_items inp). (\<exists>de\<in>set decisions. de_position de = i \<and> de_kind de = Exclude)
          \<or> (\<exists>m\<in>set (co_mutations co). \<exists>vi. accepted enc sha256 (seen_at enc sha256 (ii_items inp) {} i) (ii_items inp ! i) vi
              \<and> carries enc dec (co_source co) now vi m))"

lemma entries_planned:
  assumes "classify_entries enc dec sha256 lc 0 (ii_items inp) st {} = Inr ens" "en \<in> set ens"
    and "entry_planned enc dec sha256 inp src now en m"
  shows "en_position en < length (ii_items inp) \<and> ens ! en_position en = en
    \<and> (\<exists>vi. accepted enc sha256 (seen_at enc sha256 (ii_items inp) {} (en_position en)) (ii_items inp ! en_position en) vi
        \<and> carries enc dec src now vi m)"
proof -
  note nth = classify_entries_nth [OF assms(1)]
  obtain i where i: "i < length (ii_items inp)" "ens ! i = en" using assms(2) nth by (auto simp: in_set_conv_nth)
  then obtain seen' where c: "classify_entry enc dec sha256 lc i (ii_items inp ! i) st (seen_at enc sha256 (ii_items inp) {} i)
      = Inr (en, seen')" using nth by auto
  have p: "en_position en = i" using classify_entry_seen(2) [OF c] by simp
  have "en_class en \<noteq> ClRejected" using assms(3) by (simp add: entry_planned_def)
  from classify_entry_seen(3) [OF c this] obtain vi where
    "accepted enc sha256 (seen_at enc sha256 (ii_items inp) {} i) (ii_items inp ! i) vi" by blast
  moreover from this assms(3) p have "carries enc dec src now vi m" by (auto simp: entry_planned_def accepted_def)
  ultimately show ?thesis using i p by auto
qed

lemma keys_distinct:
  assumes "list_all2 (\<lambda>en m. en_position en < length vs
      \<and> (\<exists>vi. accepted enc sha256 (seen_at enc sha256 vs {} (en_position en)) (vs ! en_position en) vi \<and> carries enc dec src now vi m))
    kept ms" "distinct (map en_position kept)"
  shows "distinct (map mutation_key ms)"
  using assms
proof (induction rule: list_all2_induct)
  case (Cons en ens m ms)
  have "mutation_key m \<noteq> mutation_key m'" if "m' \<in> set ms" for m'
  proof -
    from list_all2_set(2) [OF Cons.hyps(2) that] obtain en' vi' where m': "en' \<in> set ens" "en_position en' < length vs"
        "accepted enc sha256 (seen_at enc sha256 vs {} (en_position en')) (vs ! en_position en') vi'" "carries enc dec src now vi' m'"
      by blast
    from Cons.hyps(1) obtain vi where m: "en_position en < length vs"
        "accepted enc sha256 (seen_at enc sha256 vs {} (en_position en)) (vs ! en_position en) vi" "carries enc dec src now vi m"
      by blast
    have "en_position en \<noteq> en_position en'" using Cons.prems m'(1) by auto
    then consider "en_position en < en_position en'" | "en_position en' < en_position en" by linarith
    then have "vi_external vi \<noteq> vi_external vi'"
      using accepted_distinct [OF m(2) m'(3) _ m'(2)] accepted_distinct [OF m'(3) m(2) _ m(1)] by cases auto
    then show ?thesis using m(3) m'(4) by (simp add: mutation_key_def carries_def Let_def)
  qed
  with Cons.IH Cons.prems show ?case by auto
qed simp

lemma positions_distinct:
  assumes "classify_entries enc dec sha256 lc 0 vs st seen = Inr ens"
  shows "map en_position ens = [0..<length vs]"
proof (rule nth_equalityI)
  note nth = classify_entries_nth [OF assms]
  then show "length (map en_position ens) = length [0..<length vs]" by simp
  fix i
  assume i: "i < length (map en_position ens)"
  then obtain seen' where "classify_entry enc dec sha256 lc i (vs ! i) st (seen_at enc sha256 vs seen i) = Inr (ens ! i, seen')"
    using nth by auto
  from classify_entry_seen(2) [OF this] show "map en_position ens ! i = [0..<length vs] ! i" using i nth by simp
qed

text \<open>The plan of the application has this form.\<close>

lemma import_source_fits:
  assumes "state_of act sid s st" "import_source_for act inp st new_id now = Inr src"
  shows "source_fits src"
proof (cases "st_source st")
  case None
  with assms(2) obtain name where "import_source_create new_id (actor_principal act) (trim name) now = Inr src"
    by (auto simp: import_source_for_def map_err_Inr_iff split: source_selection.splits)
  then show ?thesis
    by (auto simp: import_source_create_def import_source_checked_def import_source_invalid_def source_fits_def
        source_name_ok_def max_import_source_name_characters_def split: if_splits)
next
  case (Some x)
  with assms(2) have "src = x" by (auto simp: import_source_for_def split: source_selection.splits)
  with assms(1) Some show ?thesis by (simp add: state_of_def)
qed

lemma plan_import_planned:
  assumes "json_codec enc dec" "library_ok pu enc dec s" "\<forall>v\<in>set (ii_items inp). json_exact v"
    and "plan_import pu enc dec sha256 lc id_text act inp decisions token new_id fresh now s = Inr co"
  shows "planned_from enc dec sha256 inp decisions now co \<and> co_imported_at co = now"
proof -
  from assms(4) obtain prev st where pv: "preview_with_state pu enc dec sha256 lc id_text act inp s = Inr (prev, st)"
      and src: "import_source_for act inp st new_id now = Inr (co_source co)"
      and ms: "plan_entries enc dec sha256 inp decisions (st_items st) (co_source co) now fresh {} (ip_entries prev)
        = Inr (co_mutations co, co_excluded co)" "co_imported_at co = now"
    by (fastforce simp: plan_import_def build_commit_def rbind_Inr_iff map_err_Inr_iff split: if_splits)
  from pv obtain ld where ld: "load_import_state pu enc dec act (selected_source inp) s = Inr ld"
      "st = canonicalized ld" and cl: "classify_entries enc dec sha256 lc 0 (ii_items inp) st {} = Inr (ip_entries prev)"
    by (auto simp: preview_with_state_def classify_import_def Let_def rbind_Inr_iff map_err_Inr_iff split: if_splits)
  have "state_of act (selected_source inp) s st"
    using load_state_ok [OF assms(2), of act "selected_source inp"] ld by auto
  then have fits: "source_fits (co_source co)" using src by (rule import_source_fits)
  have pos: "map en_position (ip_entries prev) = [0..<length (ii_items inp)]" using positions_distinct [OF cl] .
  let ?full = "\<lambda>en m. en_position en < length (ii_items inp) \<and> (\<exists>vi. accepted enc sha256
    (seen_at enc sha256 (ii_items inp) {} (en_position en)) (ii_items inp ! en_position en) vi \<and> carries enc dec (co_source co) now vi m)"
  obtain kept where kept: "list_all2 (entry_planned enc dec sha256 inp (co_source co) now) kept (co_mutations co)"
      "set kept \<subseteq> set (ip_entries prev)" "\<forall>en\<in>set (ip_entries prev). en \<notin> set kept \<longrightarrow> excluded_entry decisions en"
      "distinct (map en_position kept)" and targets: "distinct (map mutation_target (co_mutations co))"
    using plan_entries_Inr [OF assms(1,3) ms(1)] pos by auto
  have full: "list_all2 ?full kept (co_mutations co)"
  proof (rule list.rel_mono_strong [OF kept(1)])
    fix en m
    assume "en \<in> set kept" "entry_planned enc dec sha256 inp (co_source co) now en m"
    with kept(2) show "?full en m" using entries_planned [OF cl] by blast
  qed
  have keys: "distinct (map mutation_key (co_mutations co))" by (rule keys_distinct [OF full kept(4)])
  have all: "\<forall>m\<in>set (co_mutations co). \<exists>vi. carries enc dec (co_source co) now vi m"
    using list_all2_set(2) [OF full] by blast
  have "(\<exists>de\<in>set decisions. de_position de = i \<and> de_kind de = Exclude)
      \<or> (\<exists>m\<in>set (co_mutations co). \<exists>vi. accepted enc sha256 (seen_at enc sha256 (ii_items inp) {} i) (ii_items inp ! i) vi
          \<and> carries enc dec (co_source co) now vi m)" if "i < length (ii_items inp)" for i
  proof -
    have "i \<in> set (map en_position (ip_entries prev))" using pos that by simp
    then obtain en where en: "en \<in> set (ip_entries prev)" "en_position en = i" by auto
    show ?thesis
    proof (cases "en \<in> set kept")
      case True
      from list_all2_set(1) [OF full True] en(2) show ?thesis by blast
    next
      case False
      with kept(3) en show ?thesis by (auto simp: excluded_entry_def)
    qed
  qed
  with fits targets keys all ms(2) show ?thesis by (simp add: planned_from_def)
qed

end
