(* ===== verification/BiblioProps.thy ===== *)
theory BiblioProps
  imports BiblioPlanProps
begin

text \<open>
  The theorems about the bibliography: every library reached by the transactions reads back, an import is
  confined to what was decided, and importing the same entries again finds nothing to do.
\<close>

section \<open>An applied import\<close>

lemma persist_source_known:
  assumes "library_ok pu enc dec s" "persist_source act co s = Inr (rvn, t)"
  shows "actor_id act \<in> set (db_principals (lb_db s))"
proof (cases "st_source (co_expected co)")
  case None
  with assms(2) show ?thesis
    by (auto simp: persist_source_def sql_insert_source_def rbind_Inr_iff map_err_Inr_iff split: if_splits)
next
  case (Some ex)
  with assms(2) obtain r where "find (\<lambda>r. sr_id r = is_id (co_source co) \<and> sr_owner r = actor_id act
      \<and> sr_revision r = is_revision ex) (lb_sources s) = Some r"
    by (auto simp: persist_source_def Let_def split: option.splits if_splits)
  from find_SomeD [OF this] library_okD(6) [OF assms(1), of r] show ?thesis by (auto simp: source_row_ok_def)
qed

definition decided :: "import_input \<Rightarrow> import_decision list \<Rightarrow> nat \<Rightarrow> bool" where
  "decided inp decisions i \<longleftrightarrow> i < length (ii_items inp)
     \<and> (\<forall>de\<in>set decisions. de_position de = i \<longrightarrow> de_kind de \<noteq> Exclude)"

lemma apply_import_ok:
  assumes codec: "json_codec enc dec" and ok: "library_ok pu enc dec s" "library_ok pu enc dec t"
    and exact: "\<forall>v\<in>set (ii_items inp). json_exact v"
    and clock: "\<forall>r\<in>set (lb_items t). br_created_at r \<le> now"
    and op: "apply_bibliography_import pu enc dec sha256 lc id_text act inp decisions token new_id fresh now s t = Inr (res, u)"
  shows "\<exists>co t1. plan_import pu enc dec sha256 lc id_text act inp decisions token new_id fresh now s = Inr co
    \<and> planned_from enc dec sha256 inp decisions now co \<and> ir_source res = is_id (co_source co)
    \<and> lb_db t1 = lb_db t \<and> lb_items t1 = lb_items t \<and> lb_links t1 = lb_links t
    \<and> source_persisted (actor_id act) (is_id (co_source co)) now (ir_source_revision res) t t1
    \<and> library_ok pu enc dec u \<and> (\<forall>m\<in>set (co_mutations co). recorded act u m)
    \<and> untouched (mutation_target ` set (co_mutations co)) (mutation_key ` set (co_mutations co)) t1 u"
proof -
  from op obtain co where co: "plan_import pu enc dec sha256 lc id_text act inp decisions token new_id fresh now s = Inr co"
      "apply_import pu enc dec act co t = Inr (res, u)"
    by (auto simp: apply_bibliography_import_def rbind_Inr_iff map_err_Inr_iff)
  have planned: "planned_from enc dec sha256 inp decisions now co" "co_imported_at co = now"
    using plan_import_planned [OF codec ok(1) exact co(1)] by simp_all
  from co(2) obtain cur rvn t1 as where *: "commit_is_consistent co"
      "load_import_state pu enc dec act (map_option is_id (st_source (co_expected co))) t = Inr cur"
      "state_eq cur (co_expected co)" "persist_source act co t = Inr (rvn, t1)"
      "apply_mutations act (co_mutations co) t1 = Inr (as, u)" "ir_source res = is_id (co_source co)"
      "ir_source_revision res = rvn"
    by (auto simp: apply_import_def rbind_Inr_iff split: if_splits)
  have known: "actor_id act \<in> set (db_principals (lb_db t))" using persist_source_known [OF ok(2) *(4)] .
  have "source_fits (co_source co)" using planned by (simp add: planned_from_def)
  note t1 = persist_source_ok [OF ok(2) *(4) this known]
  have st: "state_of act (map_option is_id (st_source (co_expected co))) t cur"
    using load_state_ok [OF ok(2), of act "map_option is_id (st_source (co_expected co))"] *(2) by auto
  have fits: "mutation_fits enc dec t1 m" if m: "m \<in> set (co_mutations co)" for m
  proof -
    obtain vi where "carries enc dec (co_source co) now vi m" using planned m by (auto simp: planned_from_def)
    moreover have "mutation_consistent co m" using *(1) m by (simp add: commit_is_consistent_def list_all_iff)
    ultimately have "mutation_fits enc dec t m" using carries_fits [OF ok(2) st *(3)] clock by blast
    then show ?thesis using t1 by (cases m) (simp_all add: mutation_fits_def)
  qed
  have "library_ok pu enc dec u \<and> (\<forall>m\<in>set (co_mutations co). recorded act u m)
    \<and> untouched (mutation_target ` set (co_mutations co)) (mutation_key ` set (co_mutations co)) t1 u"
  proof (rule apply_mutations_ok [OF _ *(5)])
    show "library_ok pu enc dec t1" "actor_id act \<in> set (db_principals (lb_db t1))" using t1 known by simp_all
    show "\<forall>m\<in>set (co_mutations co). mutation_fits enc dec t1 m" using fits by simp
    show "distinct (map mutation_target (co_mutations co))" "distinct (map mutation_key (co_mutations co))"
      using planned by (simp_all add: planned_from_def)
  qed
  with co(1) planned t1 *(6,7) show ?thesis by (intro exI [of _ co] exI [of _ t1]) simp
qed

section \<open>The library as a machine\<close>

text \<open>An import is planned on one reachable library and applied to another.\<close>

inductive library_reached ::
  "url_parser \<Rightarrow> json_print \<Rightarrow> json_parse \<Rightarrow> (u8 list \<Rightarrow> u8 list) \<Rightarrow> (rstr \<Rightarrow> rstr) \<Rightarrow> (entity_id \<Rightarrow> rstr) \<Rightarrow> library \<Rightarrow> bool"
  for pu enc dec sha256 lc id_text where
  lib_empty: "library_reached pu enc dec sha256 lc id_text \<lparr>lb_db = empty_db, lb_items = [], lb_sources = [], lb_links = []\<rparr>"
| lib_note: "library_reached pu enc dec sha256 lc id_text s \<Longrightarrow> store_step pu (lb_db s) d
    \<Longrightarrow> library_reached pu enc dec sha256 lc id_text (s\<lparr>lb_db := d\<rparr>)"
| lib_add: "library_reached pu enc dec sha256 lc id_text s \<Longrightarrow> json_exact v
    \<Longrightarrow> add_bibliography_item enc act v iid now s = Inr (b, t)
    \<Longrightarrow> library_reached pu enc dec sha256 lc id_text t"
| lib_update: "library_reached pu enc dec sha256 lc id_text s \<Longrightarrow> \<forall>r\<in>set (lb_items s). br_created_at r \<le> now
    \<Longrightarrow> json_exact v \<Longrightarrow> update_bibliography_item pu enc dec act iid expected v now s = (r, t)
    \<Longrightarrow> library_reached pu enc dec sha256 lc id_text t"
| lib_delete: "library_reached pu enc dec sha256 lc id_text s \<Longrightarrow> delete_bibliography_item act iid expected s = Inr t
    \<Longrightarrow> library_reached pu enc dec sha256 lc id_text t"
| lib_import: "library_reached pu enc dec sha256 lc id_text s \<Longrightarrow> library_reached pu enc dec sha256 lc id_text t
    \<Longrightarrow> \<forall>r\<in>set (lb_items t). br_created_at r \<le> now \<Longrightarrow> \<forall>v\<in>set (ii_items inp). json_exact v
    \<Longrightarrow> apply_bibliography_import pu enc dec sha256 lc id_text act inp decisions token new_id fresh now s t = Inr (res, u)
    \<Longrightarrow> library_reached pu enc dec sha256 lc id_text u"

lemma empty_library_ok: "library_ok pu enc dec \<lparr>lb_db = empty_db, lb_items = [], lb_sources = [], lb_links = []\<rparr>"
  by (simp add: library_ok_def empty_store_ok)

lemma note_step_ok:
  assumes "library_ok pu enc dec s" "store_step pu (lb_db s) d"
  shows "library_ok pu enc dec (s\<lparr>lb_db := d\<rparr>)"
proof -
  have ok: "store_ok pu (lb_db s)" using library_okD(1) [OF assms(1)] .
  have "set (db_principals (lb_db s)) \<subseteq> set (db_principals d)"
    using store_step_extends [OF assms(2) ok] by (auto simp: extends_def)
  then have "item_row_ok enc dec (lb_db s) r \<Longrightarrow> item_row_ok enc dec d r" "source_row_ok (lb_db s) x \<Longrightarrow> source_row_ok d x" for r x
    by (auto simp: item_row_ok_def source_row_ok_def)
  with assms(1) store_step_ok [OF assms(2) ok] show ?thesis by (auto simp: library_ok_def link_row_ok_def)
qed

lemma add_item_ok:
  assumes "json_codec enc dec" "library_ok pu enc dec s" "json_exact v"
    and "add_bibliography_item enc act v iid now s = Inr (b, t)"
  shows "library_ok pu enc dec t"
proof -
  from assms(4) obtain c where c: "validated_csl_new enc v = Inr c"
      and t: "sql_insert_item (row_of_item (bibliography_item_create iid (actor_principal act) c now)) s = Inr t"
    by (auto simp: add_bibliography_item_def create_owned_item_def Let_def rbind_Inr_iff map_err_Inr_iff)
  let ?r = "row_of_item (bibliography_item_create iid (actor_principal act) c now)"
  have "br_owner ?r \<in> set (db_principals (lb_db s))" using t by (auto simp: sql_insert_item_def split: if_splits)
  then have "item_row_ok enc dec (lb_db s) ?r"
    using csl_new_ok(1) [OF assms(1,3) c]
    by (simp add: item_row_ok_def row_of_item_def bibliography_item_create_def revision_initial_def revision_minimum_def
        in_i64_def i64_min_def i64_max_def)
  then show ?thesis by (rule insert_item_ok(1) [OF assms(2) t])
qed

lemma update_library_ok:
  assumes "json_codec enc dec" "library_ok pu enc dec s" "\<forall>r\<in>set (lb_items s). br_created_at r \<le> now"
    and "json_exact v" "update_bibliography_item pu enc dec act iid expected v now s = (r, t)"
  shows "library_ok pu enc dec t"
proof (cases "validated_csl_new enc v")
  case (Inl e)
  with assms show ?thesis by (simp add: update_bibliography_item_def)
next
  case (Inr c)
  let ?g = "\<lambda>r. br_id r = iid \<and> br_owner r = actor_id act \<and> br_revision r = expected"
  let ?f = "\<lambda>r. r\<lparr>br_citation_key := vc_citation_key c, br_csl_json := vc_encoded c, br_updated_at := now,
      br_revision := br_revision r + 1\<rparr>"
  have t: "t = snd (update_owned_item pu enc dec act iid c now expected s)"
    using assms(5) Inr by (cases "update_owned_item pu enc dec act iid c now expected s") (simp add: update_bibliography_item_def)
  have "t = s \<or> sql_update_item ?g ?f s = Inr (True, t)"
  proof (cases "sql_update_item ?g ?f s")
    case (Inl e)
    with t show ?thesis by (simp add: update_owned_item_def)
  next
    case (Inr x)
    obtain b t' where x: "x = (b, t')" by (cases x)
    with t Inr have same: "t = t'" by (cases b) (simp_all add: update_owned_item_def split: list.splits)
    have "t' = s" if "\<not> b" using that Inr x by (auto simp: sql_update_item_def Let_def split: option.splits if_splits)
    with Inr x same show ?thesis by (cases b) simp_all
  qed
  moreover have "library_ok pu enc dec t" if "sql_update_item ?g ?f s = Inr (True, t)"
  proof -
    have "\<exists>r\<in>set (lb_items s). ?g r \<and> library_ok pu enc dec t
        \<and> set (lb_items t) = insert (?f r) {x \<in> set (lb_items s). br_id x \<noteq> br_id r}
        \<and> lb_links t = lb_links s \<and> lb_sources t = lb_sources s \<and> db_principals (lb_db t) = db_principals (lb_db s)"
    proof (rule update_item_ok [OF assms(2) that])
      show "br_id (?f r) = br_id r \<and> br_owner (?f r) = br_owner r \<and> br_revision (?f r) = br_revision r + 1" for r by simp
      show "item_row_ok enc dec (lb_db s) (?f r)" if r: "r \<in> set (lb_items s)" "?g r" "in_i64 (br_revision (?f r))" for r
        using library_okD(4) [OF assms(2) r(1)] csl_new_ok(1) [OF assms(1,4) Inr] assms(3) r by (auto simp: item_row_ok_def)
    qed
    then show ?thesis by blast
  qed
  ultimately show ?thesis using assms(2) by (elim disjE) simp_all
qed

lemma delete_library_ok:
  assumes "library_ok pu enc dec s" "delete_bibliography_item act iid expected s = Inr t"
  shows "library_ok pu enc dec t"
proof -
  from assms(2) have "sql_delete_item (\<lambda>r. br_id r = iid \<and> br_owner r = actor_id act \<and> br_revision r = expected) s = (True, t)"
    by (auto simp: delete_bibliography_item_def delete_owned_item_def map_err_Inr_iff split: prod.splits bool.splits)
  then show ?thesis by (rule delete_item_ok [OF assms(1)])
qed

lemma library_reached_ok:
  assumes "library_reached pu enc dec sha256 lc id_text s" "json_codec enc dec"
  shows "library_ok pu enc dec s"
  using assms(1)
proof induction
  case lib_empty
  then show ?case by (rule empty_library_ok)
next
  case (lib_note s d)
  then show ?case by (intro note_step_ok)
next
  case (lib_add s act v iid now b t)
  then show ?case using add_item_ok [OF assms(2)] by blast
next
  case (lib_update s now act iid expected v r t)
  then show ?case using update_library_ok [OF assms(2)] by blast
next
  case (lib_delete s act iid expected t)
  then show ?case using delete_library_ok by blast
next
  case (lib_import s t now act inp decisions token new_id fresh res u)
  then show ?case using apply_import_ok [OF assms(2)] by blast
qed

end
