(* ===== verification/BiblioSafety.thy ===== *)
theory BiblioSafety
  imports BiblioProps
begin

text \<open>
  The properties of the bibliography library: it always reads back, an import is confined to what was
  decided, and importing the same entries again finds nothing to do.
\<close>

section \<open>Reading back\<close>

lemma search_reads:
  assumes "library_ok pu enc dec s"
  shows "\<exists>bs. search_owned_items pu enc dec lc act q s = Inr bs
    \<and> (\<forall>b\<in>set bs. row_of_item b \<in> set (lb_items s) \<and> pref_id (bi_owner b) = actor_id act)"
proof -
  let ?P = "\<lambda>x b. row_of_item b = fst x \<and> fst x \<in> set (lb_items s) \<and> br_owner (fst x) = actor_id act"
  have "\<exists>b. decode_item pu enc dec x = Inr b \<and> ?P x b" if "x \<in> set (search_rows lc act q s)" for x
  proof -
    let ?p = "\<lambda>r. q = [] \<or> sql_like (like_contains_pattern lc q) (sql_lower (br_citation_key r))
      \<or> sql_like (like_contains_pattern lc q) (sql_lower (br_csl_json r))"
    have x: "x \<in> set (items_where (\<lambda>r. br_owner r = actor_id act \<and> ?p r) s)"
      using in_set_takeD [OF that [unfolded search_rows_def Let_def]] by simp
    then have "fst x \<in> {r \<in> set (lb_items s). br_owner r = actor_id act \<and> ?p r}"
      unfolding set_items_where(1) [OF assms, symmetric] by (rule imageI)
    with set_items_where(2) [OF assms x] show ?thesis by auto
  qed
  from traverse_exists [where f = "decode_item pu enc dec" and P = ?P, OF this]
  obtain bs where bs: "traverse (decode_item pu enc dec) (search_rows lc act q s) = Inr bs"
      "list_all2 ?P (search_rows lc act q s) bs" by blast
  have "row_of_item b \<in> set (lb_items s) \<and> pref_id (bi_owner b) = actor_id act" if "b \<in> set bs" for b
    using list_all2_set(2) [OF bs(2) that] by (auto simp: row_of_item_def)
  with bs(1) show ?thesis by (simp add: search_owned_items_def)
qed

lemma import_sources_read:
  assumes "library_ok pu enc dec s"
  shows "\<exists>xs. list_import_sources pu act s = Inr xs"
proof -
  let ?rows = "sort_key (\<lambda>(r, i). - sr_last_imported_at r) (sort_key (\<lambda>(r, i). sr_id r)
       (List.map_filter (source_details s) (select_where (\<lambda>r. sr_owner r = actor_id act) (lb_sources s))))"
  have "\<exists>y. decode_source pu x = Inr y \<and> True" if "x \<in> set ?rows" for x
  proof -
    from that obtain r where r: "r \<in> set (lb_sources s)" "source_details s r = Some x"
      by (auto simp: List.map_filter_def set_select_where)
    from source_decodes [OF assms r(1)] r(2) show ?thesis by auto
  qed
  from traverse_exists [where f = "decode_source pu" and P = "\<lambda>x y. True" and xs = ?rows, OF this]
  show ?thesis unfolding list_import_sources_def by blast
qed

section \<open>Importing again\<close>

lemma link_unique:
  "library_ok pu enc dec s \<Longrightarrow> x \<in> set (lb_links s) \<Longrightarrow> y \<in> set (lb_links s) \<Longrightarrow> link_key x = link_key y \<Longrightarrow> x = y"
  using library_okD(7) by (fastforce simp: distinct_map inj_on_def)

lemma state_item:
  assumes "library_ok pu enc dec s" "state_of act sid s st" "b \<in> set (st_items st)"
  shows "row_of_item b \<in> set (lb_items s)" "\<exists>v. dec (bi_csl_json b) = Some v"
proof -
  show row: "row_of_item b \<in> set (lb_items s)" using assms(2,3) unfolding state_of_def by metis
  from library_okD(4) [OF assms(1) row] show "\<exists>v. dec (bi_csl_json b) = Some v"
    by (auto simp: item_row_ok_def csl_ok_def csl_from_encoded_def rbind_Inr_iff ok_or_Inr_iff row_of_item_def)
qed

lemma classify_entry_total:
  assumes "library_ok pu enc dec s" "state_of act sid s st"
  shows "\<exists>x. classify_entry enc dec sha256 lc p v st seen = Inr x"
proof -
  have "\<exists>en. classify_linked dec p vi l st = Inr en" for vi l
  proof (cases "find (\<lambda>b. bi_id b = il_item l) (st_items st)")
    case (Some b)
    then have "b \<in> set (st_items st)" using find_SomeD [OF Some] by simp
    then obtain w where "dec (bi_csl_json b) = Some w" using state_item(2) [OF assms] by blast
    with Some show ?thesis by (simp add: classify_linked_def)
  qed (simp add: classify_linked_def)
  then show ?thesis by (auto simp: classify_entry_def rbind_Inr_iff split: sum.splits option.splits)
qed

lemma classify_recorded:
  assumes ok: "library_ok pu enc dec u" and st: "state_of act (Some (is_id src)) u st"
    and vi: "accepted enc sha256 seen v vi" and m: "carries enc dec src now vi m" "recorded act u m"
    and c: "classify_entry enc dec sha256 lc p v st seen = Inr (en, seen')"
  shows "en_class en = ClUnchanged"
proof -
  let ?row = "row_of_link act (mutation_link m)"
  have row: "?row \<in> set (lb_links u)" "lr_source ?row = is_id src" "lr_owner ?row = actor_id act" "lr_external ?row = vi_external vi"
      "lr_digest ?row = vi_digest vi" "lr_item ?row = mutation_target m"
    using m by (simp_all add: recorded_def carries_def Let_def row_of_link_def)
  obtain k where k: "k \<in> set (st_links st)" "row_of_link act k = ?row" using st row(1-3) unfolding state_of_def by metis
  then have "il_external k = vi_external vi" using row(4) by (simp add: row_of_link_def)
  then obtain l where l: "find (\<lambda>l. il_external l = vi_external vi) (st_links st) = Some l"
    using k(1) by (cases "find (\<lambda>l. il_external l = vi_external vi) (st_links st)") (auto simp: find_None_iff)
  have "l \<in> set (st_links st)" using find_SomeD [OF l] by simp
  moreover have "\<forall>x. (\<exists>k\<in>set (st_links st). row_of_link act k = x)
      \<longleftrightarrow> x \<in> set (lb_links u) \<and> Some (is_id src) = Some (lr_source x) \<and> lr_owner x = actor_id act"
    using st unfolding state_of_def by (elim conjE)
  ultimately have inl: "row_of_link act l \<in> set (lb_links u)" "Some (is_id src) = Some (lr_source (row_of_link act l))"
    by metis+
  have "il_external l = vi_external vi" using find_SomeD [OF l] by simp
  then have "lr_external (row_of_link act l) = lr_external ?row" using row(4) by (simp add: row_of_link_def)
  moreover have "lr_source (row_of_link act l) = lr_source ?row" using inl(2) row(2) by simp
  ultimately have "row_of_link act l = ?row" by (intro link_unique [OF ok inl(1) row(1)]) (simp add: link_key_def)
  then have l': "il_digest l = vi_digest vi" "il_item l = mutation_target m" "il_revision l = il_revision (mutation_link m)"
    using row(5,6) by (simp_all add: row_of_link_def)
  obtain r where r: "r \<in> set (lb_items u)" "br_id r = mutation_target m" "br_owner r = actor_id act"
      "br_revision r = il_revision (mutation_link m)" using m(2) by (auto simp: recorded_def)
  obtain b where b: "b \<in> set (st_items st)" "row_of_item b = r" using st r(1,3) unfolding state_of_def by metis
  then have "bi_id b = il_item l" using r(2) l'(2) by (auto simp: row_of_item_def)
  then obtain b' where b': "find (\<lambda>b. bi_id b = il_item l) (st_items st) = Some b'"
    using b(1) by (cases "find (\<lambda>b. bi_id b = il_item l) (st_items st)") (auto simp: find_None_iff)
  have "row_of_item b' = r"
    using item_unique [OF ok state_item(1) [OF ok st find_SomeD [OF b', THEN conjunct1]] r(1)] find_SomeD [OF b', THEN conjunct2] r(2) l'(2)
    by (simp add: row_of_item_def)
  then have "bi_revision b' = il_revision l" using r(4) l'(3) by (auto simp: row_of_item_def)
  with c vi l l'(1) b' show ?thesis
    by (auto simp: classify_entry_def accepted_def classify_linked_def rbind_Inr_iff)
qed

lemma import_again:
  assumes codec: "json_codec enc dec" and ok: "library_ok pu enc dec s" "library_ok pu enc dec t"
    and exact: "\<forall>v\<in>set (ii_items inp). json_exact v"
    and clock: "\<forall>r\<in>set (lb_items t). br_created_at r \<le> now"
    and op: "apply_bibliography_import pu enc dec sha256 lc id_text act inp decisions token new_id fresh now s t = Inr (res, u)"
  shows "\<exists>prev. preview_bibliography_import pu enc dec sha256 lc id_text act
      (inp\<lparr>ii_source := ExistingSource (ir_source res)\<rparr>) u = Inr prev
    \<and> length (ip_entries prev) = length (ii_items inp)
    \<and> (\<forall>i. decided inp decisions i \<longrightarrow> en_class (ip_entries prev ! i) = ClUnchanged)"
proof -
  let ?inp = "inp\<lparr>ii_source := ExistingSource (ir_source res)\<rparr>"
  obtain co t1 where co: "plan_import pu enc dec sha256 lc id_text act inp decisions token new_id fresh now s = Inr co"
      "planned_from enc dec sha256 inp decisions now co" "ir_source res = is_id (co_source co)"
      "source_persisted (actor_id act) (is_id (co_source co)) now (ir_source_revision res) t t1"
      "library_ok pu enc dec u" "\<forall>m\<in>set (co_mutations co). recorded act u m"
      "untouched (mutation_target ` set (co_mutations co)) (mutation_key ` set (co_mutations co)) t1 u"
    using apply_import_ok [OF codec ok exact clock op] by blast
  have sources: "lb_sources u = lb_sources t1" using co(7) by (simp add: untouched_def)
  have valid: "validate_import_input enc ?inp = Inr ()"
    using co(1) by (auto simp: plan_import_def preview_with_state_def validate_import_input_def rbind_Inr_iff map_err_Inr_iff
        split: if_splits)
  obtain st where st: "load_import_state pu enc dec act (Some (ir_source res)) u = Inr st"
      "state_of act (Some (ir_source res)) u st" using load_state_ok [OF co(5)] by blast
  have "st_source st \<noteq> None" using st(2) co(3,4) sources by (auto simp: state_of_def source_persisted_def)
  then have src: "st_source (canonicalized st) \<noteq> None" by (simp add: canonicalized_def)
  have st': "state_of act (Some (is_id (co_source co))) u (canonicalized st)" using st(2) co(3) by simp
  obtain ens where ens: "classify_entries enc dec sha256 lc 0 (ii_items inp) (canonicalized st) {} = Inr ens"
    using classify_entries_total [OF classify_entry_total [OF co(5) st']] by blast
  have "en_class (ens ! i) = ClUnchanged" if i: "decided inp decisions i" for i
  proof -
    from i co(2) obtain m vi where m: "m \<in> set (co_mutations co)"
        "accepted enc sha256 (seen_at enc sha256 (ii_items inp) {} i) (ii_items inp ! i) vi"
        "carries enc dec (co_source co) now vi m"
      unfolding planned_from_def decided_def by blast
    obtain seen' where "classify_entry enc dec sha256 lc i (ii_items inp ! i) (canonicalized st)
        (seen_at enc sha256 (ii_items inp) {} i) = Inr (ens ! i, seen')"
      using classify_entries_nth [OF ens] i by (auto simp: decided_def)
    with classify_recorded [OF co(5) st' m(2,3)] m(1) co(6) show ?thesis by blast
  qed
  moreover have "length ens = length (ii_items inp)" using classify_entries_nth [OF ens] by simp
  ultimately show ?thesis
    using valid st(1) src ens
    by (auto simp: preview_bibliography_import_def preview_with_state_def selected_source_def classify_import_def Let_def)
qed

section \<open>Confinement\<close>

lemma confined:
  assumes codec: "json_codec enc dec" and ok: "library_ok pu enc dec s" "library_ok pu enc dec t"
    and exact: "\<forall>v\<in>set (ii_items inp). json_exact v"
    and clock: "\<forall>r\<in>set (lb_items t). br_created_at r \<le> now"
    and op: "apply_bibliography_import pu enc dec sha256 lc id_text act inp decisions token new_id fresh now s t = Inr (res, u)"
  shows "\<forall>r. br_owner r \<noteq> actor_id act \<longrightarrow> r \<in> set (lb_items u) \<longleftrightarrow> r \<in> set (lb_items t)"
    and "\<forall>r\<in>set (lb_items t). \<exists>q\<in>set (lb_items u). br_id q = br_id r \<and> br_owner q = br_owner r
      \<and> br_citation_key q = br_citation_key r \<and> br_created_at q = br_created_at r"
    and "\<forall>l. lr_source l \<noteq> ir_source res \<longrightarrow> l \<in> set (lb_links u) \<longleftrightarrow> l \<in> set (lb_links t)"
    and "\<forall>r. (\<forall>l\<in>set (lb_links u). lr_source l = ir_source res \<longrightarrow> lr_item l \<noteq> br_id r)
      \<longrightarrow> r \<in> set (lb_items u) \<longleftrightarrow> r \<in> set (lb_items t)"
    and "source_persisted (actor_id act) (ir_source res) now (ir_source_revision res) t u"
proof -
  obtain co t1 where co: "planned_from enc dec sha256 inp decisions now co" "ir_source res = is_id (co_source co)"
      "lb_items t1 = lb_items t" "lb_links t1 = lb_links t" "library_ok pu enc dec u"
      "\<forall>m\<in>set (co_mutations co). recorded act u m"
      "untouched (mutation_target ` set (co_mutations co)) (mutation_key ` set (co_mutations co)) t1 u"
      "source_persisted (actor_id act) (is_id (co_source co)) now (ir_source_revision res) t t1"
    using apply_import_ok [OF codec ok exact clock op] by blast
  note un = co(7) [unfolded untouched_def co(3,4)]
  have "\<exists>l\<in>set (lb_links u). lr_source l = ir_source res \<and> lr_item l = mutation_target m"
    if "m \<in> set (co_mutations co)" for m
  proof (rule bexI)
    show "row_of_link act (mutation_link m) \<in> set (lb_links u)" using co(6) that by (simp add: recorded_def)
    show "lr_source (row_of_link act (mutation_link m)) = ir_source res
        \<and> lr_item (row_of_link act (mutation_link m)) = mutation_target m"
      using co(1,2) that by (auto simp: planned_from_def carries_def row_of_link_def Let_def)
  qed
  with un show "\<forall>r. (\<forall>l\<in>set (lb_links u). lr_source l = ir_source res \<longrightarrow> lr_item l \<noteq> br_id r)
      \<longrightarrow> r \<in> set (lb_items u) \<longleftrightarrow> r \<in> set (lb_items t)" by (metis imageE)
  have "lb_sources u = lb_sources t1" using un by blast
  with co(8) show "source_persisted (actor_id act) (ir_source res) now (ir_source_revision res) t u"
    unfolding source_persisted_def co(2) by metis
  show kept: "\<forall>r\<in>set (lb_items t). \<exists>q\<in>set (lb_items u). br_id q = br_id r \<and> br_owner q = br_owner r
      \<and> br_citation_key q = br_citation_key r \<and> br_created_at q = br_created_at r"
    using un by (simp add: item_key_def)
  have "mutation_key m \<noteq> link_key l" if "m \<in> set (co_mutations co)" "lr_source l \<noteq> ir_source res" for m l
    using co(1,2) that by (auto simp: planned_from_def mutation_key_def link_key_def carries_def Let_def)
  with un show "\<forall>l. lr_source l \<noteq> ir_source res \<longrightarrow> l \<in> set (lb_links u) \<longleftrightarrow> l \<in> set (lb_links t)" by (metis imageE)
  have owner: "br_owner r = actor_id act" if "r \<in> set (lb_items u)" "br_id r \<in> mutation_target ` set (co_mutations co)" for r
  proof -
    from that(2) co(6) obtain q where "q \<in> set (lb_items u)" "br_id q = br_id r" "br_owner q = actor_id act"
      by (auto simp: recorded_def)
    with item_unique [OF co(5) that(1)] show ?thesis by metis
  qed
  show "\<forall>r. br_owner r \<noteq> actor_id act \<longrightarrow> r \<in> set (lb_items u) \<longleftrightarrow> r \<in> set (lb_items t)"
  proof (intro allI impI)
    fix r :: item_row
    assume r: "br_owner r \<noteq> actor_id act"
    show "r \<in> set (lb_items u) \<longleftrightarrow> r \<in> set (lb_items t)"
    proof (cases "br_id r \<in> mutation_target ` set (co_mutations co)")
      case False
      with un show ?thesis by blast
    next
      case True
      have "r \<notin> set (lb_items u)" using owner True r by blast
      moreover have "r \<notin> set (lb_items t)"
      proof
        assume "r \<in> set (lb_items t)"
        with kept obtain q where "q \<in> set (lb_items u)" "br_id q = br_id r" "br_owner q = br_owner r" by blast
        with owner True r show False by metis
      qed
      ultimately show ?thesis by simp
    qed
  qed
qed

end
