(* ===== verification/BiblioSample.thy ===== *)
theory BiblioSample
  imports BiblioSafety
begin

text \<open>A sample codec for JSON values and a sample library with one imported item.\<close>

section \<open>A codec\<close>

text \<open>Every value starts with its kind and its length.\<close>

fun sample_print :: "json \<Rightarrow> rstr" where
  "sample_print JNull = [0]"
| "sample_print (JBool b) = [1, if b then 1 else 0]"
| "sample_print (JNumber s) = 2 # length s # s"
| "sample_print (JString s) = 3 # length s # s"
| "sample_print (JArray vs) = 4 # length vs # concat (map sample_print vs)"
| "sample_print (JObject kvs) = 5 # length kvs # concat (map (\<lambda>(k, v). length k # k @ sample_print v) kvs)"

text \<open>The first argument is fuel: the length of the text is enough.\<close>

fun parse_value :: "nat \<Rightarrow> rstr \<Rightarrow> (json \<times> rstr) option"
  and parse_values :: "nat \<Rightarrow> nat \<Rightarrow> rstr \<Rightarrow> (json list \<times> rstr) option"
  and parse_members :: "nat \<Rightarrow> nat \<Rightarrow> rstr \<Rightarrow> ((rstr \<times> json) list \<times> rstr) option" where
  "parse_value 0 t = None"
| "parse_value (Suc f) t =
     (case t of
        [] \<Rightarrow> None
      | kind # r \<Rightarrow>
          if kind = 0 then Some (JNull, r)
          else (case r of
              [] \<Rightarrow> None
            | n # r' \<Rightarrow>
                if kind = 1 then Some (JBool (n = 1), r')
                else if kind = 2 then Some (JNumber (take n r'), drop n r')
                else if kind = 3 then Some (JString (take n r'), drop n r')
                else if kind = 4 then map_option (\<lambda>(vs, q). (JArray vs, q)) (parse_values f n r')
                else map_option (\<lambda>(kvs, q). (JObject kvs, q)) (parse_members f n r')))"
| "parse_values f 0 t = Some ([], t)"
| "parse_values 0 (Suc n) t = None"
| "parse_values (Suc f) (Suc n) t =
     (case parse_value f t of
        None \<Rightarrow> None
      | Some (v, r) \<Rightarrow> map_option (\<lambda>(vs, q). (v # vs, q)) (parse_values f n r))"
| "parse_members f 0 t = Some ([], t)"
| "parse_members 0 (Suc n) t = None"
| "parse_members (Suc f) (Suc n) t =
     (case t of
        [] \<Rightarrow> None
      | m # r \<Rightarrow>
         (case parse_value f (drop m r) of
            None \<Rightarrow> None
          | Some (v, r') \<Rightarrow> map_option (\<lambda>(kvs, q). ((take m r, v) # kvs, q)) (parse_members f n r')))"

definition sample_parse :: json_parse where
  "sample_parse t = map_option fst (parse_value (length t) t)"

lemma print_nonempty: "0 < length (sample_print v)"
  by (cases v) simp_all

lemma parse_values_print:
  assumes "\<And>v f t. v \<in> set vs \<Longrightarrow> length (sample_print v) \<le> f \<Longrightarrow> parse_value f (sample_print v @ t) = Some (v, t)"
    and "length (concat (map sample_print vs)) + 1 \<le> f"
  shows "parse_values f (length vs) (concat (map sample_print vs) @ t) = Some (vs, t)"
  using assms
proof (induction vs arbitrary: f)
  case (Cons v vs)
  then obtain g where g: "f = Suc g" by (cases f) auto
  have "parse_value g (sample_print v @ concat (map sample_print vs) @ t) = Some (v, concat (map sample_print vs) @ t)"
    by (rule Cons.prems(1)) (use Cons.prems(2) g in auto)
  moreover have "parse_values g (length vs) (concat (map sample_print vs) @ t) = Some (vs, t)"
  proof (rule Cons.IH)
    obtain n where "length (sample_print v) = Suc n" using print_nonempty [of v] by (cases "length (sample_print v)") auto
    then show "length (concat (map sample_print vs)) + 1 \<le> g" using Cons.prems(2) g by simp
  qed (use Cons.prems(1) in simp)
  ultimately show ?case using g by simp
qed simp

lemma parse_members_print:
  assumes "\<And>k v f t. (k, v) \<in> set kvs \<Longrightarrow> length (sample_print v) \<le> f \<Longrightarrow> parse_value f (sample_print v @ t) = Some (v, t)"
    and "length (concat (map (\<lambda>(k, v). length k # k @ sample_print v) kvs)) + 1 \<le> f"
  shows "parse_members f (length kvs) (concat (map (\<lambda>(k, v). length k # k @ sample_print v) kvs) @ t) = Some (kvs, t)"
  using assms
proof (induction kvs arbitrary: f)
  case (Cons x kvs)
  obtain k v where x: "x = (k, v)" by (cases x)
  let ?rest = "concat (map (\<lambda>(k, v). length k # k @ sample_print v) kvs) @ t"
  obtain g where g: "f = Suc g" using Cons.prems(2) by (cases f) auto
  have "parse_value g (sample_print v @ ?rest) = Some (v, ?rest)"
    by (rule Cons.prems(1) [of k]) (use Cons.prems(2) g x in auto)
  moreover have "parse_members g (length kvs) ?rest = Some (kvs, t)"
  proof (rule Cons.IH)
    show "parse_value f (sample_print v @ t) = Some (v, t)" if "(k, v) \<in> set kvs" "length (sample_print v) \<le> f" for k v f t
      using Cons.prems(1) that by (meson list.set_intros(2))
  qed (use Cons.prems(2) g x in auto)
  ultimately show ?case using g x by simp
qed simp

lemma parse_value_print: "length (sample_print v) \<le> f \<Longrightarrow> parse_value f (sample_print v @ t) = Some (v, t)"
proof (induction v arbitrary: f t)
  case (JArray vs)
  then obtain g where g: "f = Suc g" "length (concat (map sample_print vs)) + 1 \<le> g" by (cases f) auto
  have "parse_values g (length vs) (concat (map sample_print vs) @ t) = Some (vs, t)"
    by (rule parse_values_print [OF JArray.IH g(2)])
  then show ?case using g by simp
next
  case (JObject kvs)
  then obtain g where g: "f = Suc g" "length (concat (map (\<lambda>(k, v). length k # k @ sample_print v) kvs)) + 1 \<le> g"
    by (cases f) auto
  have "parse_members g (length kvs) (concat (map (\<lambda>(k, v). length k # k @ sample_print v) kvs) @ t) = Some (kvs, t)"
    by (rule parse_members_print [OF _ g(2)]) (use JObject.IH in auto)
  then show ?case using g by simp
qed (case_tac f; auto)+

lemma sample_codec: "json_codec sample_print sample_parse"
  using parse_value_print [where t = "[]"] by (simp add: json_codec_def sample_parse_def)

section \<open>A library with an imported item\<close>

text \<open>One article, imported from a new source by the first principal.\<close>

definition sample_article :: json where
  "sample_article = JObject [(lit ''id'', JString (lit ''a1'')), (lit ''title'', JString (lit ''T'')),
     (lit ''type'', JString (lit ''article''))]"

lemma sample_article_exact: "json_exact sample_article"
  by (simp add: sample_article_def)

definition sample_import :: import_input where
  "sample_import = \<lparr>ii_source = NewSource (lit ''refs''), ii_items = [sample_article]\<rparr>"

definition sample_decisions :: "import_decision list" where
  "sample_decisions = [\<lparr>de_position = 0, de_kind = ApplySuggested, de_candidate = None\<rparr>]"

definition sample_digest :: "u8 list \<Rightarrow> u8 list" where "sample_digest b = replicate 32 0"

definition sample_token :: rstr where "sample_token = replicate 64 48"

definition sample_library :: library where
  "sample_library = \<lparr>lb_db = sample_users, lb_items = [], lb_sources = [], lb_links = []\<rparr>"

definition run_sample_import :: "library \<Rightarrow> plan_error + (import_result \<times> library)" where
  "run_sample_import s = apply_bibliography_import sample_parser sample_print sample_parse sample_digest (\<lambda>x. x)
     (\<lambda>_. []) (sample_actor 1) sample_import sample_decisions sample_token 3 (\<lambda>i. of_nat (10 + i)) 1000 s s"

definition sample_item_row :: item_row where
  "sample_item_row = \<lparr>br_id = 10, br_owner = 1, br_citation_key = lit ''a1'', br_csl_json = sample_print sample_article,
     br_created_at = 1000, br_updated_at = 1000, br_revision = 1\<rparr>"


definition sample_csl :: validated_csl where
  "sample_csl = \<lparr>vc_citation_key = lit ''a1'', vc_encoded = sample_print sample_article, vc_value = sample_article\<rparr>"

lemma sample_csl: "validated_csl_new sample_print sample_article = Inr sample_csl"
  unfolding csl_new_Inr
  by (simp add: sample_csl_def sample_article_def json_str_member_def valid_identifier_def identifier_char_def
      is_ascii_alphanumeric_def is_ascii_digit_def item_type_rejected_def trim_def trim_start_def trim_end_def
      is_whitespace_def is_control_def object_key_rejected_def max_csl_key_bytes_def max_csl_string_bytes_def max_csl_depth_def
      max_csl_json_bytes_def byte_len_def utf8_width_def)

lemma sample_token: "import_state_token sample_print sample_digest id_text inp st = sample_token"
proof -
  have "hex_text (replicate 32 0) = replicate 64 48" by code_simp
  then show ?thesis by (simp only: import_state_token_def sample_digest_def sample_token_def)
qed

lemma sample_import_valid: "validate_import_input sample_print sample_import = Inr ()"
  by (simp add: validate_import_input_def sample_import_def max_import_items_def max_import_bytes_def source_name_rejected_def
   trim_def trim_start_def trim_end_def is_whitespace_def is_control_def max_import_source_name_characters_def sample_article_def byte_len_def utf8_width_def)

definition sample_state :: import_state where
  "sample_state = \<lparr>st_source = None, st_links = [], st_items = []\<rparr>"

lemma sample_load: "load_import_state sample_parser enc dec (sample_actor 1) None sample_library = Inr sample_state"
  by (simp add: load_import_state_def load_items_def items_where_def select_where_def sample_library_def canonicalized_def
    sample_state_def List.map_filter_simps)

definition sample_item :: validated_item where
  "sample_item = \<lparr>vi_external = lit ''a1'', vi_csl = sample_csl, vi_digest = replicate 32 0\<rparr>"

lemma sample_validated: "validate_item sample_print sample_digest sample_article = Inr sample_item"
  by (simp add: validate_item_def sample_csl sample_item_def csl_digest_def sample_digest_def) (simp add: sample_csl_def)

lemma sample_entries: "classify_entries sample_print sample_parse sample_digest lc 0 [sample_article] sample_state {}
   = Inr [classify_unlinked sample_parse lc 0 sample_article sample_item sample_state]"
  by (simp add: classify_entry_def sample_validated sample_state_def)

lemma sample_unlinked: "classify_unlinked dec lc 0 v sample_item sample_state = 
  \<lparr>en_position = 0, en_external = Some (lit ''a1''), en_citation_key = Some (lit ''a1''), en_class = ClCreate, en_item = None, en_revision = None,
       en_current = None, en_candidates = [], en_rejection = None\<rparr>"
  by (simp add: classify_unlinked_def duplicate_candidates_def sample_state_def sample_item_def sample_csl_def List.map_filter_simps)

definition sample_src :: import_source where
  "sample_src = \<lparr>is_id = 3, is_owner = actor_principal (sample_actor 1), is_method = CslJsonFile, is_name = lit ''refs'', is_revision = 1,
      is_created_at = 1000, is_last_imported_at = 1000\<rparr>"
lemma sample_source: "import_source_for (sample_actor 1) sample_import sample_state 3 1000 = Inr sample_src"
  by (simp add: import_source_for_def sample_import_def sample_state_def import_source_create_def import_source_checked_def
     import_source_invalid_def trim_def trim_start_def trim_end_def is_whitespace_def is_control_def max_import_source_name_characters_def
     revision_initial_def revision_minimum_def sample_src_def)

definition sample_mutation :: item_mutation where
  "sample_mutation = MCreate (bibliography_item_create 10 (is_owner sample_src) sample_csl 1000)
     \<lparr>il_source = 3, il_external = lit ''a1'', il_item = 10, il_digest = replicate 32 0, il_revision = 1\<rparr>"

definition sample_commit :: import_commit where
  "sample_commit = \<lparr>co_source = sample_src, co_expected = sample_state, co_imported_at = 1000, co_mutations = [sample_mutation], co_excluded = 0\<rparr>"

lemma sample_create_mutation: "create_mutation sample_item sample_src 1000 10 = Inr sample_mutation"
  by (simp add: create_mutation_def Let_def plan_link_def import_link_new_def sample_item_def valid_identifier_def identifier_char_def
      is_ascii_alphanumeric_def is_ascii_digit_def byte_len_def utf8_width_def max_external_item_id_bytes_def bibliography_item_create_def
      sample_mutation_def sample_src_def revision_initial_def revision_minimum_def)

lemma sample_plan: "plan_import sample_parser sample_print sample_parse sample_digest lc id_text (sample_actor 1) sample_import
   sample_decisions sample_token 3 (\<lambda>i. of_nat (10 + i)) 1000 sample_library = Inr sample_commit"
proof -
  have "is_canonical_digest sample_token" by code_simp
  moreover have "canonicalized sample_state = sample_state" by (simp add: canonicalized_def sample_state_def)
  moreover have "selected_source sample_import = None" "ii_items sample_import = [sample_article]" by (simp_all add: selected_source_def sample_import_def)
  ultimately show ?thesis
  using sample_import_valid sample_load sample_source sample_entries [of lc]
  by (simp add: plan_import_def preview_with_state_def classify_import_def sample_token build_commit_def plan_entry_def sample_unlinked
     sample_decisions_def needs_candidate_def sample_validated mutation_for_decision_def sample_create_mutation sample_commit_def)
qed

lemma sample_apply: "\<exists>res u. apply_import sample_parser sample_print sample_parse (sample_actor 1) sample_commit sample_library = Inr (res, u)
    \<and> ir_source res = 3 \<and> lb_items u = [sample_item_row]
     \<and> length (lb_links u) = 1"
  using sample_load
  by (simp add: apply_import_def sample_commit_def sample_src_def commit_is_consistent_def mutation_consistent_def sample_mutation_def
     bibliography_item_create_def revision_initial_def revision_minimum_def state_eq_def sample_state_def persist_source_def
     sql_insert_source_def sql_insert_item_def sample_library_def exists_where_def item_key_taken_def persist_link_def row_of_link_def
     link_constraints_def link_key_def row_by_def record_item_change_def append_change_def sample_eval row_of_item_def sample_item_row_def
     in_i64_def i64_min_def i64_max_def Let_def sample_csl_def)

lemma sample_imported:
  "\<exists>res u. run_sample_import sample_library = Inr (res, u) \<and> ir_source res = 3 \<and> lb_items u = [sample_item_row]
     \<and> length (lb_links u) = 1"
  using sample_plan sample_apply by (auto simp: run_sample_import_def apply_bibliography_import_def)

lemma sample_library_reached:
  "library_reached sample_parser sample_print sample_parse sample_digest (\<lambda>x. x) (\<lambda>_. []) sample_library"
proof -
  let ?reached = "library_reached sample_parser sample_print sample_parse sample_digest (\<lambda>x. x) (\<lambda>_. [])"
  let ?empty = "\<lparr>lb_db = empty_db, lb_items = [], lb_sources = [], lb_links = []\<rparr>"
  from sample_register obtain a b d where
    "resolve_or_create_verified sample_parser (sample_identity 1) empty_db = Inr (a, d)"
    "resolve_or_create_verified sample_parser (sample_identity 2) d = Inr (b, sample_users)" by blast
  then have steps: "store_step sample_parser empty_db d" "store_step sample_parser d sample_users"
    using step_register sample_identity_ok [of 1] sample_identity_ok [of 2] by auto
  have "?reached (?empty\<lparr>lb_db := d\<rparr>)" using lib_note [OF lib_empty, of sample_parser d] steps(1) by simp
  from lib_note [OF this, of sample_users] steps(2) show ?thesis by (simp add: sample_library_def)
qed

lemma sample_library_ok: "library_ok sample_parser sample_print sample_parse sample_library"
  using library_reached_ok [OF sample_library_reached sample_codec] .

end
