(* ===== verification/BiblioClaims.thy ===== *)
theory BiblioClaims
  imports BiblioSample
begin

text \<open>The properties of the bibliography and of its imports, on a sample library.\<close>

text \<open>
  C35: in every library reachable by note transactions, by adding, changing and deleting items and by imports,
  a search, the list of sources and the state an import starts from are read without an error, and a search
  returns stored items of the actor only.  The library is reached while the clock does not run behind the
  creation times of the items, and from JSON whose numbers are 64-bit integers.
\<close>

theorem library_reads:
  assumes "library_reached pu enc dec sha256 lc id_text s" "json_codec enc dec"
  shows "(\<exists>bs. search_owned_items pu enc dec lc act q s = Inr bs
      \<and> (\<forall>b\<in>set bs. row_of_item b \<in> set (lb_items s) \<and> pref_id (bi_owner b) = actor_id act))
    \<and> (\<exists>xs. list_import_sources pu act s = Inr xs)
    \<and> (\<exists>st. load_import_state pu enc dec act sid s = Inr st)"
proof -
  have ok: "library_ok pu enc dec s" using library_reached_ok [OF assms] .
  show ?thesis using search_reads [OF ok] import_sources_read [OF ok] load_state_ok [OF ok] by blast
qed

lemma library_reads_witness:
  "\<exists>s bs. lb_items s = [sample_item_row]
    \<and> search_owned_items sample_parser sample_print sample_parse (\<lambda>x. x) (sample_actor 1) [] s = Inr bs"
proof -
  obtain res u where u: "run_sample_import sample_library = Inr (res, u)" "lb_items u = [sample_item_row]"
    using sample_imported by blast
  have "library_reached sample_parser sample_print sample_parse sample_digest (\<lambda>x. x) (\<lambda>_. []) u"
    using lib_import [OF sample_library_reached sample_library_reached _ _ u(1) [unfolded run_sample_import_def]]
    by (simp add: sample_library_def sample_import_def sample_article_exact)
  from library_reads [OF this sample_codec] u(2) show ?thesis by blast
qed

text \<open>
  C36: an import that was planned on one library and applied to a later one leaves the items of other
  principals, the items it does not link to its source, the links of other sources and every other source as
  they are; it keeps every item of the actor with its citation key and its creation time, marks its own
  source as imported now under the next revision, and leaves the library well-formed.  The clock is not
  behind the creation times of the items, and the numbers of the imported JSON are 64-bit integers.
\<close>

theorem import_confined:
  assumes "json_codec enc dec" "library_ok pu enc dec s" "library_ok pu enc dec t"
    and "\<forall>v\<in>set (ii_items inp). json_exact v" "\<forall>r\<in>set (lb_items t). br_created_at r \<le> now"
    and "apply_bibliography_import pu enc dec sha256 lc id_text act inp decisions token new_id fresh now s t = Inr (res, u)"
  shows "library_ok pu enc dec u
    \<and> (\<forall>r. br_owner r \<noteq> actor_id act \<longrightarrow> r \<in> set (lb_items u) \<longleftrightarrow> r \<in> set (lb_items t))
    \<and> (\<forall>r\<in>set (lb_items t). \<exists>q\<in>set (lb_items u). br_id q = br_id r \<and> br_owner q = br_owner r
        \<and> br_citation_key q = br_citation_key r \<and> br_created_at q = br_created_at r)
    \<and> (\<forall>r. (\<forall>l\<in>set (lb_links u). lr_source l = ir_source res \<longrightarrow> lr_item l \<noteq> br_id r)
        \<longrightarrow> r \<in> set (lb_items u) \<longleftrightarrow> r \<in> set (lb_items t))
    \<and> (\<forall>l. lr_source l \<noteq> ir_source res \<longrightarrow> l \<in> set (lb_links u) \<longleftrightarrow> l \<in> set (lb_links t))
    \<and> (\<forall>x. sr_id x \<noteq> ir_source res \<longrightarrow> x \<in> set (lb_sources u) \<longleftrightarrow> x \<in> set (lb_sources t))
    \<and> (\<forall>x\<in>set (lb_sources t). sr_id x = ir_source res \<longrightarrow> sr_owner x = actor_id act
        \<and> x\<lparr>sr_last_imported_at := now, sr_revision := sr_revision x + 1\<rparr> \<in> set (lb_sources u))
    \<and> (\<exists>x\<in>set (lb_sources u). sr_id x = ir_source res \<and> sr_owner x = actor_id act
        \<and> sr_last_imported_at x = now \<and> sr_revision x = ir_source_revision res)"
proof -
  have "library_ok pu enc dec u" using apply_import_ok [OF assms] by blast
  moreover note c = confined [OF assms]
  moreover have "\<forall>x\<in>set (lb_sources t). sr_id x = ir_source res \<longrightarrow> sr_owner x = actor_id act
      \<and> x\<lparr>sr_last_imported_at := now, sr_revision := sr_revision x + 1\<rparr> \<in> set (lb_sources u)"
    using c(5) by (auto simp: source_persisted_def)
  ultimately show ?thesis using c(5) by (simp add: source_persisted_def)
qed

lemma import_confined_witness:
  "\<exists>res u. run_sample_import sample_library = Inr (res, u) \<and> length (lb_links u) = 1
    \<and> (\<forall>r. br_owner r \<noteq> 1 \<longrightarrow> r \<in> set (lb_items u) \<longleftrightarrow> r \<in> set (lb_items sample_library))"
proof -
  obtain res u where u: "run_sample_import sample_library = Inr (res, u)" "length (lb_links u) = 1"
    using sample_imported by blast
  have "actor_id (sample_actor 1) = 1" by (simp add: sample_eval)
  with import_confined [OF sample_codec sample_library_ok sample_library_ok _ _ u(1) [unfolded run_sample_import_def]] u
  show ?thesis by (auto simp: sample_library_def sample_import_def sample_article_exact)
qed

text \<open>
  C37: after an import, previewing the same entries for its source succeeds and classifies every entry that
  was not excluded as unchanged, when the clock was not behind the creation times of the items and the
  numbers of the imported JSON are 64-bit integers.
\<close>

theorem import_idempotent:
  assumes "json_codec enc dec" "library_ok pu enc dec s" "library_ok pu enc dec t"
    and "\<forall>v\<in>set (ii_items inp). json_exact v" "\<forall>r\<in>set (lb_items t). br_created_at r \<le> now"
    and "apply_bibliography_import pu enc dec sha256 lc id_text act inp decisions token new_id fresh now s t = Inr (res, u)"
  shows "\<exists>prev. preview_bibliography_import pu enc dec sha256 lc id_text act
      (inp\<lparr>ii_source := ExistingSource (ir_source res)\<rparr>) u = Inr prev
    \<and> length (ip_entries prev) = length (ii_items inp)
    \<and> (\<forall>i. decided inp decisions i \<longrightarrow> en_class (ip_entries prev ! i) = ClUnchanged)"
  by (rule import_again [OF assms])

lemma import_idempotent_witness:
  "\<exists>res u prev. run_sample_import sample_library = Inr (res, u)
    \<and> preview_bibliography_import sample_parser sample_print sample_parse sample_digest (\<lambda>x. x) (\<lambda>_. []) (sample_actor 1)
        (sample_import\<lparr>ii_source := ExistingSource 3\<rparr>) u = Inr prev
    \<and> map en_class (ip_entries prev) = [ClUnchanged]"
proof -
  obtain res u where u: "run_sample_import sample_library = Inr (res, u)" "ir_source res = 3" using sample_imported by blast
  have "\<forall>v\<in>set (ii_items sample_import). json_exact v" "\<forall>r\<in>set (lb_items sample_library). br_created_at r \<le> 1000"
    by (simp_all add: sample_library_def sample_import_def sample_article_exact)
  from import_idempotent [OF sample_codec sample_library_ok sample_library_ok this u(1) [unfolded run_sample_import_def]]
  obtain prev where p: "preview_bibliography_import sample_parser sample_print sample_parse sample_digest (\<lambda>x. x) (\<lambda>_. [])
        (sample_actor 1) (sample_import\<lparr>ii_source := ExistingSource 3\<rparr>) u = Inr prev"
      "length (ip_entries prev) = 1" "\<forall>i. decided sample_import sample_decisions i \<longrightarrow> en_class (ip_entries prev ! i) = ClUnchanged"
    using u(2) by (auto simp: sample_import_def)
  have "decided sample_import sample_decisions 0" by (simp add: decided_def sample_import_def sample_decisions_def)
  with p(2,3) have "map en_class (ip_entries prev) = [ClUnchanged]" by (cases "ip_entries prev") auto
  with u(1) p(1) show ?thesis by (intro exI conjI)
qed

lemma decode_item_error:
  assumes "decode_item pu enc dec x = Inl e"
  shows "e = StorageCorruptData"
proof -
  obtain r i where "x = (r, i)" by (cases x)
  with assms show ?thesis
    by (simp only: decode_item_def decode_owner_def rbind_Inl_iff map_err_Inl_iff prod.case) blast
qed

lemma stale_item_update:
  fixes now :: unix_millis
  assumes ok: "library_ok pu enc dec s" and r: "r \<in> set (lb_items s)" "br_owner r = actor_id act" "in_i64 (br_revision r + 1)"
    and key: "vc_citation_key c = br_citation_key r"
  defines "r' \<equiv> r\<lparr>br_csl_json := vc_encoded c, br_updated_at := now, br_revision := br_revision r + 1\<rparr>"
  shows "\<exists>t i. update_owned_item pu enc dec act (br_id r) c now (br_revision r) s = (decode_item pu enc dec (r', i), t)
    \<and> r' \<in> set (lb_items t) \<and> primary_identity_row (lb_db t) (actor_id act) = Some i
    \<and> decode_owner pu (actor_id act) i = Inr \<lparr>pref_id = actor_id act, primary_identity = row_identity i\<rparr>"
proof -
  let ?g = "\<lambda>x. br_id x = br_id r \<and> br_owner x = actor_id act \<and> br_revision x = br_revision r"
  let ?f = "\<lambda>x. x\<lparr>br_citation_key := vc_citation_key c, br_csl_json := vc_encoded c, br_updated_at := now,
      br_revision := br_revision x + 1\<rparr>"
  let ?t = "record_item_change CItemUpdated r' (s\<lparr>lb_items := update_where (\<lambda>x. br_id x = br_id r) ?f (lb_items s)\<rparr>)"
  have f: "?f r = r'" using key by (simp add: r'_def)
  obtain x where x: "find ?g (lb_items s) = Some x"
    using r(1,2) by (cases "find ?g (lb_items s)") (auto simp: find_None_iff)
  with find_SomeD [OF x] item_unique [OF ok _ r(1)] have "find ?g (lb_items s) = Some r" by simp
  moreover have "\<not> item_key_taken r' (filter (\<lambda>x. br_id x \<noteq> br_id r) (lb_items s))"
    using library_okD(3) [OF ok] r(1) by (auto simp: item_key_taken_iff r'_def item_key_def distinct_map inj_on_def)
  ultimately have u: "sql_update_item ?g ?f s = Inr (True, ?t)" using r(3) f by (simp add: sql_update_item_def r'_def)
  have items: "set (lb_items ?t) = insert r' {x \<in> set (lb_items s). br_id x \<noteq> br_id r}"
    using update_where_unique [OF library_okD(2) [OF ok] r(1), of ?f] f by simp
  obtain i where i: "primary_identity_row (lb_db s) (actor_id act) = Some i"
      "decode_owner pu (actor_id act) i = Inr \<lparr>pref_id = actor_id act, primary_identity = row_identity i\<rparr>"
    using owner_decodes [OF store_okD(1) [OF library_okD(1) [OF ok]], of "actor_id act"] library_okD(4) [OF ok r(1)] r(2)
    by (auto simp: item_row_ok_def)
  have i': "primary_identity_row (lb_db ?t) (actor_id act) = Some i" using i(1) by (simp add: record_item_change_def)
  have owner': "br_owner r' = actor_id act" "br_id r' = br_id r" using r(2) by (simp_all add: r'_def)
  have all: "y = (r', i)" if "y \<in> set (items_where (\<lambda>x. br_id x = br_id r) ?t)" for y
    using that items i' owner' by (auto simp: items_where_def List.map_filter_def set_select_where item_details_def)
  have "(r', i) \<in> set (items_where (\<lambda>x. br_id x = br_id r) ?t)"
    using items i' owner' by (auto simp: items_where_def List.map_filter_def set_select_where item_details_def image_iff)
  then obtain ys where "items_where (\<lambda>x. br_id x = br_id r) ?t = (r', i) # ys"
    using all by (cases "items_where (\<lambda>x. br_id x = br_id r) ?t") auto
  with u have "update_owned_item pu enc dec act (br_id r) c now (br_revision r) s = (decode_item pu enc dec (r', i), ?t)"
    by (simp add: update_owned_item_def)
  with items i' i(2) show ?thesis by blast
qed

text \<open>
  C38: a change of an item while the clock is behind the time the item was created reports corrupt data, yet it
  is stored: afterwards the owner can no longer preview any import.
\<close>

theorem update_behind_clock:
  assumes "library_ok pu enc dec s" "r \<in> set (lb_items s)" "br_owner r = actor_id act" "in_i64 (br_revision r + 1)"
    and "now < br_created_at r" "validated_csl_new enc v = Inr c" "vc_citation_key c = br_citation_key r"
  shows "\<exists>t. update_bibliography_item pu enc dec act (br_id r) (br_revision r) v now s = (Inl BibCorruptData, t)
    \<and> load_import_state pu enc dec act None t = Inl StorageCorruptData"
proof -
  let ?r = "r\<lparr>br_csl_json := vc_encoded c, br_updated_at := now, br_revision := br_revision r + 1\<rparr>"
  obtain t i where t: "update_owned_item pu enc dec act (br_id r) c now (br_revision r) s = (decode_item pu enc dec (?r, i), t)"
      "?r \<in> set (lb_items t)" "primary_identity_row (lb_db t) (actor_id act) = Some i"
      "decode_owner pu (actor_id act) i = Inr \<lparr>pref_id = actor_id act, primary_identity = row_identity i\<rparr>"
    using stale_item_update [OF assms(1-4,7), of now] by blast
  have bad: "decode_item pu enc dec (?r, i) = Inl StorageCorruptData"
  proof (cases "decode_item pu enc dec (?r, i)")
    case (Inr b)
    with assms(5) show ?thesis by (auto simp: decode_item_def bibliography_item_restore_def rbind_Inr_iff map_err_Inr_iff)
  qed (use decode_item_error in blast)
  have "(?r, i) \<in> set (items_where (\<lambda>r. br_owner r = actor_id act) t)"
    using t(2,3) assms(3) by (force simp: items_where_def List.map_filter_def set_select_where item_details_def)
  then have "load_items pu enc dec act t = Inl StorageCorruptData"
    unfolding load_items_def
    by (intro traverse_Inl [where x = "(?r, i)" and f = "decode_item pu enc dec"] bad decode_item_error) auto
  then have "load_import_state pu enc dec act None t = Inl StorageCorruptData" by (simp add: load_import_state_def)
  with t(1) bad assms(6) show ?thesis by (simp add: update_bibliography_item_def)
qed

lemma update_behind_clock_witness:
  "\<exists>u t. update_bibliography_item sample_parser sample_print sample_parse (sample_actor 1) 10 1 sample_article 999 u
      = (Inl BibCorruptData, t)
    \<and> load_import_state sample_parser sample_print sample_parse (sample_actor 1) None t = Inl StorageCorruptData"
proof -
  obtain res u where u: "run_sample_import sample_library = Inr (res, u)" "lb_items u = [sample_item_row]"
    using sample_imported by blast
  have "library_reached sample_parser sample_print sample_parse sample_digest (\<lambda>x. x) (\<lambda>_. []) u"
    using lib_import [OF sample_library_reached sample_library_reached _ _ u(1) [unfolded run_sample_import_def]]
    by (simp add: sample_library_def sample_import_def sample_article_exact)
  then have ok: "library_ok sample_parser sample_print sample_parse u" using library_reached_ok [OF _ sample_codec] by blast
  have row: "br_id sample_item_row = 10" "br_owner sample_item_row = actor_id (sample_actor 1)"
    "br_revision sample_item_row = 1" "br_created_at sample_item_row = 1000" "br_citation_key sample_item_row = lit ''a1''"
    by (simp_all add: sample_item_row_def sample_eval)
  from update_behind_clock [OF ok, of sample_item_row "sample_actor 1" 999 sample_article sample_csl] u(2) row sample_csl
  show ?thesis by (auto simp: in_i64_def i64_min_def i64_max_def sample_csl_def)
qed

end
