(* ===== verification/MathMacros.thy ===== *)
theory MathMacros
  imports BiblioStore
begin

text \<open>
  The math macros of a principal: the validation of \<open>crates/marginalis-application/src/math_macros.rs\<close> and
  the table of \<open>crates/marginalis-sqlite/src/math_macro_repository.rs\<close>.  The JSON text of a list of macros is
  written by \<open>put\<close> and read by \<open>get\<close>.
\<close>

section \<open>Macros\<close>

definition max_math_macros :: nat where "max_math_macros = 64"
definition max_math_macro_name_characters :: nat where "max_math_macro_name_characters = 32"
definition max_math_macro_replacement_characters :: nat where "max_math_macro_replacement_characters = 512"
definition max_math_macro_arguments :: nat where "max_math_macro_arguments = 9"
definition max_math_macro_total_bytes :: nat where "max_math_macro_total_bytes = 16 * 1024"

record math_macro =
  mm_name :: rstr
  mm_replacement :: rstr
  mm_argument_count :: nat

record math_macro_settings =
  ms_macros :: "math_macro list"
  ms_revision :: int

datatype math_macro_error = MacroInvalid | MacroConflict | MacroUnavailable | MacroCorruptData

fun math_macro_error_of :: "storage_error \<Rightarrow> math_macro_error" where
  "math_macro_error_of StorageConflict = MacroConflict"
| "math_macro_error_of StorageCorruptData = MacroCorruptData"
| "math_macro_error_of StorageNotFound = MacroUnavailable"
| "math_macro_error_of StorageRetentionExpired = MacroUnavailable"
| "math_macro_error_of StorageUnavailable = MacroUnavailable"

section \<open>Argument references\<close>

text \<open>The UTF-8 bytes of a text.\<close>

definition char_bytes :: "uchar \<Rightarrow> nat list" where
  "char_bytes c =
     (if c < 128 then [c]
      else if c < 2048 then [192 + c div 64, 128 + c mod 64]
      else if c < 65536 then [224 + c div 4096, 128 + c div 64 mod 64, 128 + c mod 64]
      else [240 + c div 262144, 128 + c div 4096 mod 64, 128 + c div 64 mod 64, 128 + c mod 64])"

definition as_bytes :: "rstr \<Rightarrow> nat list" where "as_bytes s = concat (map char_bytes s)"

text \<open>The loop over the bytes, from an index; \<open>#\<close> is 35 and \<open>0\<close> is 48.\<close>

function references_from :: "nat list \<Rightarrow> nat \<Rightarrow> nat \<Rightarrow> bool" where
  "references_from bytes count index =
     (if index < length bytes then
        if bytes ! index \<noteq> 35 then references_from bytes count (index + 1)
        else if length bytes \<le> index + 1 \<or> bytes ! (index + 1) < 48 then False
        else let number = bytes ! (index + 1) - 48 in
          if number = 0 \<or> count < number then False else references_from bytes count (index + 2)
      else True)"
  by pat_completeness auto
termination by (relation "measure (\<lambda>(bytes, count, index). length bytes - index)") auto

declare references_from.simps [simp del]

definition valid_argument_references :: "rstr \<Rightarrow> nat \<Rightarrow> bool" where
  "valid_argument_references replacement count = references_from (as_bytes replacement) count 0"

section \<open>Safe definitions\<close>

text \<open>
  The loop over the characters with the depth of braces and the number of backslashes just read: the
  backslash is 92, the braces are 123 and 125, the percent sign is 37.
\<close>

fun safe_scan :: "rstr \<Rightarrow> nat \<Rightarrow> nat \<Rightarrow> bool" where
  "safe_scan [] depth backslashes \<longleftrightarrow> depth = 0 \<and> backslashes mod 2 = 0"
| "safe_scan (c # cs) depth backslashes \<longleftrightarrow>
     (if c = 92 then safe_scan cs depth (backslashes + 1)
      else let escaped = (backslashes mod 2 = 1) in
        if c = 37 \<and> \<not> escaped then False
        else if c = 123 \<and> \<not> escaped then safe_scan cs (depth + 1) 0
        else if c = 125 \<and> \<not> escaped then (if depth = 0 then False else safe_scan cs (depth - 1) 0)
        else safe_scan cs depth 0)"

definition safe_tex_definition :: "rstr \<Rightarrow> rstr \<Rightarrow> bool" where
  "safe_tex_definition name replacement \<longleftrightarrow> name \<noteq> lit ''def'' \<and> safe_scan replacement 0 0"

section \<open>Validation\<close>

definition is_ascii_alphabetic :: "uchar \<Rightarrow> bool" where
  "is_ascii_alphabetic c \<longleftrightarrow> (65 \<le> c \<and> c \<le> 90) \<or> (97 \<le> c \<and> c \<le> 122)"

definition macro_rejected :: "math_macro \<Rightarrow> bool" where
  "macro_rejected m \<longleftrightarrow> mm_name m = [] \<or> max_math_macro_name_characters < length (mm_name m)
     \<or> \<not> list_all is_ascii_alphabetic (mm_name m) \<or> mm_replacement m = []
     \<or> max_math_macro_replacement_characters < length (mm_replacement m) \<or> list_ex is_control (mm_replacement m)
     \<or> max_math_macro_arguments < mm_argument_count m"

text \<open>The names seen so far are the state of the loop.\<close>

fun validate_each :: "rstr set \<Rightarrow> math_macro list \<Rightarrow> math_macro_error + unit" where
  "validate_each names [] = Inr ()"
| "validate_each names (m # ms) =
     (if macro_rejected m \<or> mm_name m \<in> names \<or> \<not> valid_argument_references (mm_replacement m) (mm_argument_count m)
      then Inl MacroInvalid
      else validate_each (insert (mm_name m) names) ms)"

definition validate_stored_math_macros :: "math_macro list \<Rightarrow> math_macro_error + unit" where
  "validate_stored_math_macros ms =
     (if max_math_macros < length ms
         \<or> max_math_macro_total_bytes < sum_list (map (\<lambda>m. byte_len (mm_name m) + byte_len (mm_replacement m)) ms)
      then Inl MacroInvalid
      else validate_each {} ms)"

definition validate_math_macros :: "math_macro list \<Rightarrow> math_macro_error + unit" where
  "validate_math_macros ms =
     rbind (validate_stored_math_macros ms) (\<lambda>_.
     if list_ex (\<lambda>m. \<not> safe_tex_definition (mm_name m) (mm_replacement m)) ms then Inl MacroInvalid else Inr ())"

section \<open>The table\<close>

record macro_row =
  mr_owner :: int
  mr_macros_json :: rstr
  mr_revision :: int

type_synonym put_macros = "math_macro list \<Rightarrow> rstr"
type_synonym get_macros = "rstr \<Rightarrow> math_macro list option"

definition decode_settings :: "get_macros \<Rightarrow> macro_row \<Rightarrow> storage_error + math_macro_settings" where
  "decode_settings get r =
     (if mr_revision r \<le> 0 then Inl StorageCorruptData
      else rbind (ok_or StorageCorruptData (get (mr_macros_json r))) (\<lambda>ms.
        rbind (map_err (\<lambda>_. StorageCorruptData) (validate_stored_math_macros ms)) (\<lambda>_.
        Inr \<lparr>ms_macros = ms, ms_revision = mr_revision r\<rparr>)))"

definition read_math_macros :: "get_macros \<Rightarrow> principal_ref \<Rightarrow> macro_row list \<Rightarrow> storage_error + math_macro_settings" where
  "read_math_macros get owner rows =
     (case row_by mr_owner (pref_id owner) rows of
        None \<Rightarrow> Inr \<lparr>ms_macros = [], ms_revision = 0\<rparr>
      | Some r \<Rightarrow> decode_settings get r)"

definition replace_math_macros ::
  "put_macros \<Rightarrow> int list \<Rightarrow> principal_ref \<Rightarrow> math_macro list \<Rightarrow> int \<Rightarrow> macro_row list
   \<Rightarrow> storage_error + (math_macro_settings \<times> macro_row list)" where
  "replace_math_macros put principals owner ms expected rows =
     (if expected = 0 then
        if exists_where (\<lambda>r. mr_owner r = pref_id owner) rows then Inl StorageConflict
        else if pref_id owner \<notin> set principals then Inl StorageUnavailable
        else Inr (\<lparr>ms_macros = ms, ms_revision = 1\<rparr>,
          rows @ [\<lparr>mr_owner = pref_id owner, mr_macros_json = put ms, mr_revision = 1\<rparr>])
      else (let same = (\<lambda>r. mr_owner r = pref_id owner \<and> mr_revision r = expected) in
        case find same rows of
          None \<Rightarrow> Inl StorageConflict
        | Some r \<Rightarrow>
            if \<not> in_i64 (expected + 1) then Inl StorageUnavailable
            else Inr (\<lparr>ms_macros = ms, ms_revision = expected + 1\<rparr>,
              update_where same (\<lambda>x. x\<lparr>mr_macros_json := put ms, mr_revision := mr_revision x + 1\<rparr>) rows)))"

section \<open>Use cases\<close>

definition read_own_math_macros :: "get_macros \<Rightarrow> actor \<Rightarrow> macro_row list \<Rightarrow> math_macro_error + math_macro_settings" where
  "read_own_math_macros get act rows = map_err math_macro_error_of (read_math_macros get (actor_principal act) rows)"

definition replace_own_math_macros ::
  "put_macros \<Rightarrow> int list \<Rightarrow> actor \<Rightarrow> math_macro list \<Rightarrow> int \<Rightarrow> macro_row list
   \<Rightarrow> math_macro_error + (math_macro_settings \<times> macro_row list)" where
  "replace_own_math_macros put principals act ms expected rows =
     rbind (validate_math_macros ms) (\<lambda>_.
     if expected < 0 then Inl MacroInvalid
     else map_err math_macro_error_of (replace_math_macros put principals (actor_principal act) ms expected rows))"

end
