(* ===== verification/MathMacroProps.thy ===== *)
theory MathMacroProps
  imports MathMacros
begin

text \<open>
  What the validation of math macros guarantees: references to declared arguments only, definitions that
  TeX reads as one group, and settings that are read back as they were saved.
\<close>

section \<open>Argument references\<close>

text \<open>Over the characters: every \<open>#\<close> is followed by the digit of a declared argument.\<close>

fun references_ok :: "rstr \<Rightarrow> nat \<Rightarrow> bool" where
  "references_ok [] count \<longleftrightarrow> True"
| "references_ok (c # cs) count \<longleftrightarrow>
     (if c \<noteq> 35 then references_ok cs count
      else case cs of [] \<Rightarrow> False | d # ds \<Rightarrow> 49 \<le> d \<and> d \<le> 48 + count \<and> references_ok ds count)"

lemma references_from_append:
  assumes "i = length xs"
  shows "references_from (xs @ ys) count i = references_from ys count 0"
proof -
  have "references_from (xs @ ys) count (length xs + j) = references_from ys count j" for j
  proof (induction "length ys - j" arbitrary: j rule: less_induct)
    case less
    have ih: "references_from (xs @ ys) count (length xs + (j + n)) = references_from ys count (j + n)"
      if "j < length ys" "0 < n" for n
      by (rule less) (use that in simp)
    show ?case
      using ih [of 1] ih [of 2]
      by (subst (1 2) references_from.simps) (auto simp: nth_append Let_def add.assoc)
  qed
  from this [of 0] assms show ?thesis by simp
qed

lemma references_from_Nil: "references_from [] count 0"
  by (subst references_from.simps) simp

lemma references_from_other: "b \<noteq> 35 \<Longrightarrow> references_from (b # bs) count 0 = references_from bs count 0"
  using references_from_append [of 1 "[b]" bs count] by (subst references_from.simps) simp

lemma references_from_hash:
  "references_from [35] count 0 = False"
  "references_from (35 # d # bs) count 0 \<longleftrightarrow> 49 \<le> d \<and> d \<le> 48 + count \<and> references_from bs count 0"
proof -
  show "references_from [35] count 0 = False" by (subst references_from.simps) simp
  have "references_from (35 # d # bs) count 2 = references_from bs count 0"
    using references_from_append [of 2 "[35, d]" bs count] by simp
  then show "references_from (35 # d # bs) count 0 \<longleftrightarrow> 49 \<le> d \<and> d \<le> 48 + count \<and> references_from bs count 0"
    by (subst references_from.simps) (auto simp: Let_def numeral_2_eq_2)
qed

lemmas references_from_Cons = references_from_Nil references_from_other references_from_hash

lemma char_bytes_high: "128 \<le> c \<Longrightarrow> char_bytes c \<noteq> [] \<and> (\<forall>b\<in>set (char_bytes c). 128 \<le> b)"
  by (simp add: char_bytes_def)

lemma references_skip: "\<forall>b\<in>set bs. b \<noteq> 35 \<Longrightarrow> references_from (bs @ rest) count 0 = references_from rest count 0"
  by (induction bs) (simp_all add: references_from_Cons)

lemma references_from_bytes: "count \<le> 9 \<Longrightarrow> references_from (as_bytes s) count 0 = references_ok s count"
proof (induction s count rule: references_ok.induct)
  case (1 count)
  then show ?case by (simp add: as_bytes_def references_from_Cons)
next
  case (2 c cs count)
  show ?case
  proof (cases "c = 35")
    case False
    have "\<forall>b\<in>set (char_bytes c). b \<noteq> 35" using False char_bytes_high [of c] by (cases "c < 128") (auto simp: char_bytes_def)
    then have "references_from (as_bytes (c # cs)) count 0 = references_from (as_bytes cs) count 0"
      by (simp add: as_bytes_def references_skip)
    then show ?thesis using 2 False by simp
  next
    case True
    show ?thesis
    proof (cases cs)
      case Nil
      then show ?thesis using True by (simp add: as_bytes_def char_bytes_def references_from_Cons)
    next
      case (Cons d ds)
      show ?thesis
      proof (cases "d < 128")
        case True
        then show ?thesis
          using 2 \<open>c = 35\<close> Cons by (simp add: as_bytes_def char_bytes_def references_from_Cons)
      next
        case False
        then obtain b bs where "char_bytes d = b # bs" "128 \<le> b" using char_bytes_high [of d] by (cases "char_bytes d") auto
        then show ?thesis
          using False \<open>c = 35\<close> Cons 2 by (simp add: as_bytes_def char_bytes_def [of 35] references_from_Cons)
      qed
    qed
  qed
qed

section \<open>Groups\<close>

text \<open>
  How TeX reads a group whose opening brace has been read: a backslash takes the next character with it, a
  percent sign starts a comment up to the end of the line, braces nest.  The result is the text after the
  group.
\<close>

function read_group :: "nat \<Rightarrow> rstr \<Rightarrow> rstr option" where
  "read_group depth [] = None"
| "read_group depth (c # cs) =
     (if c = 92 then (case cs of [] \<Rightarrow> None | d # ds \<Rightarrow> read_group depth ds)
      else if c = 37 then read_group depth (dropWhile (\<lambda>x. x \<noteq> 10) cs)
      else if c = 123 then read_group (depth + 1) cs
      else if c = 125 then (if depth \<le> 1 then Some cs else read_group (depth - 1) cs)
      else read_group depth cs)"
  by pat_completeness auto
termination
  by (relation "measure (\<lambda>(depth, cs). length cs)") (auto simp: le_imp_less_Suc length_dropWhile_le)

lemma safe_scan_group:
  assumes "10 \<notin> set cs"
  shows "safe_scan cs depth backslashes \<longleftrightarrow>
    read_group (depth + 1) ((if backslashes mod 2 = 1 then [92] else []) @ cs @ [125]) = Some []"
  using assms
proof (induction cs arbitrary: depth backslashes)
  case (Cons c cs)
  have "dropWhile (\<lambda>x. x \<noteq> 10) (cs @ [125]) = []" using Cons.prems by (auto simp: dropWhile_eq_Nil_conv)
  with Cons show ?case by (auto simp: Let_def mod_Suc)
qed auto

text \<open>
  C39: the byte loop that checks the argument references of a macro always ends and accepts exactly the texts
  in which every \<open>#\<close> is followed by the digit of a declared argument.
\<close>

theorem argument_references_checked:
  assumes "count \<le> max_math_macro_arguments"
  shows "valid_argument_references replacement count = references_ok replacement count"
  using assms references_from_bytes by (simp add: valid_argument_references_def max_math_macro_arguments_def)

lemma argument_references_checked_witness:
  "valid_argument_references (lit ''a#1'') 1 \<and> \<not> valid_argument_references (lit ''a#2'') 1"
  using argument_references_checked [of 1 "lit ''a#1''"] argument_references_checked [of 1 "lit ''a#2''"]
  by (simp add: max_math_macro_arguments_def)

lemma read_group_append: "read_group depth xs = Some ys \<Longrightarrow> 10 \<notin> set xs \<Longrightarrow> read_group depth (xs @ zs) = Some (ys @ zs)"
proof (induction depth xs rule: read_group.induct)
  case (2 depth c cs)
  show ?case
  proof (cases "c = 37")
    case True
    have "dropWhile (\<lambda>x. x \<noteq> 10) cs = []" using 2(7) by (auto simp: dropWhile_eq_Nil_conv)
    with True 2(6) show ?thesis by simp
  next
    case False
    note c = this
    show ?thesis
    proof (cases "c = 92")
      case True
      then obtain d ds where "cs = d # ds" using 2(6) by (cases cs) auto
      with 2(1) [OF True this] 2(6,7) True show ?thesis by simp
    next
      case False
      note ih = 2(3-5) [OF False c]
      from 2(7) have nl: "10 \<notin> set cs" by simp
      show ?thesis using ih 2(6) nl c False by (cases "c = 123"; cases "c = 125"; cases "depth \<le> 1") simp_all
    qed
  qed
qed simp

text \<open>
  C40: a replacement that passes validation is read by TeX as exactly one group: whatever follows its closing
  brace stays outside, and a text without control characters passes only if it is one.
\<close>

theorem accepted_macro_is_one_group:
  assumes "\<not> list_ex is_control replacement"
  shows "safe_tex_definition name replacement \<longleftrightarrow> name \<noteq> lit ''def'' \<and> (\<forall>rest. read_group 1 (replacement @ 125 # rest) = Some rest)"
proof -
  have nl: "10 \<notin> set replacement" using assms by (auto simp: list_ex_iff is_control_def)
  have "safe_scan replacement 0 0 \<longleftrightarrow> read_group 1 (replacement @ [125]) = Some []"
    using safe_scan_group [OF nl, of 0 0] by simp
  moreover have "read_group 1 (replacement @ [125]) = Some [] \<longleftrightarrow> (\<forall>rest. read_group 1 (replacement @ 125 # rest) = Some rest)"
    using read_group_append [of 1 "replacement @ [125]" "[]"] nl by force
  ultimately show ?thesis by (simp add: safe_tex_definition_def)
qed

lemma accepted_macro_is_one_group_witness:
  "safe_tex_definition (lit ''bm'') (lit ''x{y}'') \<and> read_group 1 (lit ''x{y}'' @ 125 # lit ''z'') = Some (lit ''z'')"
proof -
  have "safe_tex_definition (lit ''bm'') (lit ''x{y}'')" by (simp add: safe_tex_definition_def)
  with accepted_macro_is_one_group [of "lit ''x{y}''" "lit ''bm''"] show ?thesis by (simp add: is_control_def)
qed

section \<open>Saved settings\<close>

text \<open>What was saved is read back, and nobody else is affected.\<close>

lemma macros_saved:
  assumes "distinct (map mr_owner rows)" "\<And>ms. get (put ms) = Some ms"
    and "replace_own_math_macros put principals act ms expected rows = Inr (st, rows')"
  shows "st = \<lparr>ms_macros = ms, ms_revision = expected + 1\<rparr>" "read_own_math_macros get act rows' = Inr st"
    "distinct (map mr_owner rows')"
    "pref_id owner \<noteq> actor_id act \<Longrightarrow> read_math_macros get owner rows' = read_math_macros get owner rows"
proof -
  let ?id = "pref_id (actor_principal act)"
  from assms(3) have v: "validate_math_macros ms = Inr ()" "0 \<le> expected"
      and r: "replace_math_macros put principals (actor_principal act) ms expected rows = Inr (st, rows')"
    by (auto simp: replace_own_math_macros_def rbind_Inr_iff map_err_Inr_iff split: if_splits)
  have valid: "validate_stored_math_macros ms = Inr ()" using v(1) by (auto simp: validate_math_macros_def rbind_Inr_iff)
  have dec: "decode_settings get \<lparr>mr_owner = ?id, mr_macros_json = put ms, mr_revision = n\<rparr>
      = Inr \<lparr>ms_macros = ms, ms_revision = n\<rparr>" if "0 < n" for n
    using that valid assms(2) by (simp add: decode_settings_def)
  show "st = \<lparr>ms_macros = ms, ms_revision = expected + 1\<rparr>"
    using r by (auto simp: replace_math_macros_def Let_def split: if_splits option.splits)
  moreover have "read_math_macros get (actor_principal act) rows' = Inr st \<and> distinct (map mr_owner rows')
    \<and> (pref_id owner \<noteq> actor_id act \<longrightarrow> read_math_macros get owner rows' = read_math_macros get owner rows)"
  proof (cases "expected = 0")
    case True
    let ?new = "\<lparr>mr_owner = ?id, mr_macros_json = put ms, mr_revision = 1\<rparr>"
    from r True have *: "\<forall>x\<in>set rows. mr_owner x \<noteq> ?id" "rows' = rows @ [?new]" "st = \<lparr>ms_macros = ms, ms_revision = 1\<rparr>"
      by (auto simp: replace_math_macros_def exists_where_iff split: if_splits)
    then have "row_by mr_owner ?id rows = None" by (simp add: row_by_None_iff)
    with * have "row_by mr_owner ?id rows' = Some ?new" by (simp add: row_by_append_new)
    moreover have "row_by mr_owner (pref_id owner) rows' = row_by mr_owner (pref_id owner) rows"
      if "pref_id owner \<noteq> ?id" using that * by (simp add: row_by_append_new split: option.splits)
    moreover have "distinct (map mr_owner rows')" using * assms(1) by auto
    ultimately show ?thesis using dec [of 1] *(3) by (simp add: read_math_macros_def)
  next
    case False
    let ?same = "\<lambda>r. mr_owner r = ?id \<and> mr_revision r = expected"
    let ?f = "\<lambda>x. x\<lparr>mr_macros_json := put ms, mr_revision := mr_revision x + 1\<rparr>"
    from r False obtain r0 where *: "find ?same rows = Some r0" "rows' = update_where ?same ?f rows"
        "st = \<lparr>ms_macros = ms, ms_revision = expected + 1\<rparr>"
      by (auto simp: replace_math_macros_def Let_def split: if_splits option.splits)
    have r0: "r0 \<in> set rows" "mr_owner r0 = ?id" "mr_revision r0 = expected" using find_SomeD [OF *(1)] by simp_all
    have rows': "row_by mr_owner k rows' = map_option (\<lambda>r. if ?same r then ?f r else r) (row_by mr_owner k rows)" for k
      unfolding *(2) by (rule row_by_update_where) simp
    have "row_by mr_owner ?id rows = Some r0" using row_by_unique [OF assms(1) r0(1)] r0(2) by simp
    then have "row_by mr_owner ?id rows' = Some \<lparr>mr_owner = ?id, mr_macros_json = put ms, mr_revision = expected + 1\<rparr>"
      using r0 rows' [of ?id] by (cases r0) simp
    moreover have "row_by mr_owner (pref_id owner) rows' = row_by mr_owner (pref_id owner) rows"
      if "pref_id owner \<noteq> ?id"
      using that rows' [of "pref_id owner"] row_by_Some [of mr_owner "pref_id owner" rows]
      by (cases "row_by mr_owner (pref_id owner) rows") auto
    moreover have "map mr_owner rows' = map mr_owner rows" unfolding *(2) by (rule distinct_map_update_where) simp
    then have "distinct (map mr_owner rows')" using assms(1) by simp
    ultimately show ?thesis using dec [of "expected + 1"] False v(2) *(3) by (simp add: read_math_macros_def)
  qed
  ultimately show "read_own_math_macros get act rows' = Inr st" "distinct (map mr_owner rows')"
    "pref_id owner \<noteq> actor_id act \<Longrightarrow> read_math_macros get owner rows' = read_math_macros get owner rows"
    by (simp_all add: read_own_math_macros_def)
qed

end
