(* ===== verification/GraphSearch.thy ===== *)
theory GraphSearch
  imports NoteStore NotePolicy SqlLike
begin

text \<open>
  The neighbourhood of a note in the graph view: \<open>NoteGraph::within\<close> of
  \<open>crates/marginalis-application/src/notes/graph.rs\<close>.  Vertices are the strings \<open>note:<id>\<close> and
  \<open>work:<key>\<close>; \<open>id_text\<close> is the text of an entity id, which the \<open>uuid\<close> crate prints.
\<close>

section \<open>Data\<close>

record graph_note =
  gn_note :: note_id
  gn_title :: rstr
  gn_tags :: "rstr list"
  gn_updated_at :: int

record graph_work =
  gw_key :: rstr
  gw_title :: "rstr option"

record graph_reference =
  gr_source :: note_id
  gr_target :: note_id

record graph_citation =
  gc_source :: note_id
  gc_key :: rstr

record note_graph =
  ng_notes :: "graph_note list"
  ng_works :: "graph_work list"
  ng_references :: "graph_reference list"
  ng_citations :: "graph_citation list"

definition empty_graph :: note_graph where
  "empty_graph = \<lparr>ng_notes = [], ng_works = [], ng_references = [], ng_citations = []\<rparr>"

record graph_query =
  gq_text :: "rstr option"
  gq_origin :: "note_id option"
  gq_depth :: "nat option"

section \<open>Breadth-first search\<close>

definition work_key :: "rstr \<Rightarrow> rstr" where
  "work_key k = lit ''work:'' @ k"

definition note_key :: "(note_id \<Rightarrow> rstr) \<Rightarrow> note_id \<Rightarrow> rstr" where
  "note_key id_text n = lit ''note:'' @ id_text n"

text \<open>The adjacency map, with no neighbours for an absent key.\<close>

type_synonym adjacency = "rstr \<Rightarrow> rstr list"

definition join_vertices :: "rstr \<times> rstr \<Rightarrow> adjacency \<Rightarrow> adjacency" where
  "join_vertices e adj = (case e of (l, r) \<Rightarrow>
     let a = adj(l := adj l @ [r]) in a(r := a r @ [l]))"

definition edge_keys :: "(note_id \<Rightarrow> rstr) \<Rightarrow> note_graph \<Rightarrow> (rstr \<times> rstr) list" where
  "edge_keys id_text g =
     map (\<lambda>e. (note_key id_text (gr_source e), note_key id_text (gr_target e))) (ng_references g)
     @ map (\<lambda>e. (note_key id_text (gc_source e), work_key (gc_key e))) (ng_citations g)"

definition adjacency_of :: "(note_id \<Rightarrow> rstr) \<Rightarrow> note_graph \<Rightarrow> adjacency" where
  "adjacency_of id_text g = fold join_vertices (edge_keys id_text g) (\<lambda>_. [])"

text \<open>One neighbour, one frontier, and the loop over the frontiers with its early exit.\<close>

definition discover :: "rstr \<Rightarrow> rstr set \<times> rstr list \<Rightarrow> rstr set \<times> rstr list" where
  "discover v st = (case st of (reached, next) \<Rightarrow>
     if v \<in> reached then (reached, next) else (insert v reached, next @ [v]))"

definition expand :: "adjacency \<Rightarrow> rstr list \<Rightarrow> rstr set \<Rightarrow> rstr set \<times> rstr list" where
  "expand adj frontier reached = fold (\<lambda>v. fold discover (adj v)) frontier (reached, [])"

fun search_graph :: "adjacency \<Rightarrow> nat \<Rightarrow> rstr list \<Rightarrow> rstr set \<Rightarrow> rstr set" where
  "search_graph adj 0 frontier reached = reached"
| "search_graph adj (Suc n) frontier reached =
     (case expand adj frontier reached of (reached1, next) \<Rightarrow>
        if next = [] then reached1 else search_graph adj n next reached1)"

definition within :: "(note_id \<Rightarrow> rstr) \<Rightarrow> note_id \<Rightarrow> nat \<Rightarrow> note_graph \<Rightarrow> note_graph" where
  "within id_text origin depth g =
     (if \<not> list_ex (\<lambda>n. gn_note n = origin) (ng_notes g) then empty_graph
      else let k = note_key id_text;
               reached = search_graph (adjacency_of id_text g) (min depth max_graph_depth) [k origin] {k origin} in
        \<lparr>ng_notes = filter (\<lambda>n. k (gn_note n) \<in> reached) (ng_notes g),
         ng_works = filter (\<lambda>w. work_key (gw_key w) \<in> reached) (ng_works g),
         ng_references = filter (\<lambda>e. k (gr_source e) \<in> reached \<and> k (gr_target e) \<in> reached) (ng_references g),
         ng_citations = filter (\<lambda>e. k (gc_source e) \<in> reached \<and> work_key (gc_key e) \<in> reached) (ng_citations g)\<rparr>)"

section \<open>The specification: distance in the graph\<close>

datatype vertex = NoteVertex note_id | WorkVertex rstr

definition one_way_links :: "note_graph \<Rightarrow> (vertex \<times> vertex) set" where
  "one_way_links g =
     (\<lambda>e. (NoteVertex (gr_source e), NoteVertex (gr_target e))) ` set (ng_references g)
     \<union> (\<lambda>e. (NoteVertex (gc_source e), WorkVertex (gc_key e))) ` set (ng_citations g)"

definition graph_links :: "note_graph \<Rightarrow> (vertex \<times> vertex) set" where
  "graph_links g = one_way_links g \<union> (one_way_links g)\<inverse>"

text \<open>Reachable over at most \<open>n\<close> links, taken in either direction.\<close>

definition at_distance :: "note_graph \<Rightarrow> note_id \<Rightarrow> nat \<Rightarrow> vertex \<Rightarrow> bool" where
  "at_distance g origin n v \<longleftrightarrow> (\<exists>k\<le>n. (NoteVertex origin, v) \<in> graph_links g ^^ k)"

section \<open>The search computes balls\<close>

lemma fold_discover:
  "fst (fold discover vs (r, next)) = r \<union> set vs"
  "set (snd (fold discover vs (r, next))) = set next \<union> (set vs - r)"
  by (induction vs arbitrary: r "next") (auto simp: discover_def)

lemma expand_result:
  assumes "expand adj frontier reached = (reached1, next)"
  shows "reached1 = reached \<union> (\<Union>v\<in>set frontier. set (adj v))" "set next = reached1 - reached"
proof -
  have "fst (fold (\<lambda>v. fold discover (adj v)) fr (r, nx)) = r \<union> (\<Union>v\<in>set fr. set (adj v))
      \<and> (set nx \<subseteq> r \<longrightarrow> set (snd (fold (\<lambda>v. fold discover (adj v)) fr (r, nx)))
          = set nx \<union> (fst (fold (\<lambda>v. fold discover (adj v)) fr (r, nx)) - r))" for fr r nx
  proof (induction fr arbitrary: r nx)
    case (Cons v fr)
    obtain r1 n1 where d: "fold discover (adj v) (r, nx) = (r1, n1)" by fastforce
    have r1: "r1 = r \<union> set (adj v)" "set n1 = set nx \<union> (set (adj v) - r)"
      using fold_discover [of "adj v" r nx] by (simp_all add: d)
    show ?case using Cons.IH [of r1 n1] by (auto simp: d r1)
  qed simp
  from this [of frontier reached "[]"] assms
  show "reached1 = reached \<union> (\<Union>v\<in>set frontier. set (adj v))" "set next = reached1 - reached"
    by (auto simp: expand_def)
qed

definition neighbours :: "('v \<times> 'v) set \<Rightarrow> 'v set \<Rightarrow> 'v set" where
  "neighbours E X = X \<union> E `` X"

lemma neighbours_fixed: "E `` X \<subseteq> X \<Longrightarrow> (neighbours E ^^ n) X = X"
  by (induction n) (auto simp: neighbours_def)

lemma search_ball:
  assumes "set frontier \<subseteq> reached" "E = {(u, v). v \<in> set (adj u)}"
    and "E `` (reached - set frontier) \<subseteq> reached"
  shows "search_graph adj n frontier reached = (neighbours E ^^ n) reached"
  using assms
proof (induction n arbitrary: frontier reached)
  case (Suc n)
  obtain r1 nx where e: "expand adj frontier reached = (r1, nx)" by fastforce
  note r1 = expand_result [OF e]
  have step: "r1 = neighbours E reached" using r1(1) Suc.prems by (auto simp: neighbours_def)
  show ?case
  proof (cases "nx = []")
    case True
    then have "r1 = reached" using r1 by auto
    then have "E `` reached \<subseteq> reached" using step by (auto simp: neighbours_def)
    then have "(neighbours E ^^ Suc n) reached = reached" by (rule neighbours_fixed)
    with True e \<open>r1 = reached\<close> show ?thesis by simp
  next
    case False
    have "search_graph adj n nx r1 = (neighbours E ^^ n) r1"
    proof (rule Suc.IH [OF _ Suc.prems(2)])
      show "set nx \<subseteq> r1" using r1(2) by blast
      show "E `` (r1 - set nx) \<subseteq> r1" using r1(2) step by (auto simp: neighbours_def)
    qed
    with False e show ?thesis by (simp add: step funpow_swap1)
  qed
qed simp

lemma neighbours_ball: "(neighbours E ^^ n) {o'} = {v. \<exists>k\<le>n. (o', v) \<in> E ^^ k}"
proof (induction n)
  case (Suc n)
  have "{v. \<exists>k\<le>Suc n. (o', v) \<in> E ^^ k} = {v. \<exists>k\<le>n. (o', v) \<in> E ^^ k} \<union> E `` {v. \<exists>k\<le>n. (o', v) \<in> E ^^ k}"
  proof (intro set_eqI iffI)
    fix v assume "v \<in> {v. \<exists>k\<le>Suc n. (o', v) \<in> E ^^ k}"
    then obtain k where k: "k \<le> Suc n" "(o', v) \<in> E ^^ k" by blast
    show "v \<in> {v. \<exists>k\<le>n. (o', v) \<in> E ^^ k} \<union> E `` {v. \<exists>k\<le>n. (o', v) \<in> E ^^ k}"
    proof (cases k)
      case (Suc j)
      with k obtain u where "(o', u) \<in> E ^^ j" "(u, v) \<in> E" "j \<le> n" by auto
      then show ?thesis by blast
    qed (use k in auto)
  next
    fix v assume "v \<in> {v. \<exists>k\<le>n. (o', v) \<in> E ^^ k} \<union> E `` {v. \<exists>k\<le>n. (o', v) \<in> E ^^ k}"
    then show "v \<in> {v. \<exists>k\<le>Suc n. (o', v) \<in> E ^^ k}"
      by (auto intro: le_SucI) (metis Suc_le_mono relpow_Suc_I)
  qed
  then show ?case unfolding funpow.simps comp_apply Suc.IH by (simp add: neighbours_def)
qed auto

section \<open>Keys name vertices\<close>

fun vertex_key :: "(note_id \<Rightarrow> rstr) \<Rightarrow> vertex \<Rightarrow> rstr" where
  "vertex_key id_text (NoteVertex n) = note_key id_text n"
| "vertex_key id_text (WorkVertex k) = work_key k"

lemma vertex_key_inj: "inj id_text \<Longrightarrow> vertex_key id_text u = vertex_key id_text v \<longleftrightarrow> u = v"
  by (cases u; cases v) (auto simp: note_key_def work_key_def dest: injD)

lemma join_vertices_edge:
  "v \<in> set (join_vertices (l, r) adj u) \<longleftrightarrow> v \<in> set (adj u) \<or> (u = l \<and> v = r) \<or> (u = r \<and> v = l)"
  by (cases "u = l"; cases "u = r") (simp_all add: join_vertices_def Let_def, blast+)

lemma adjacency_edges:
  "v \<in> set (fold join_vertices es adj u) \<longleftrightarrow> v \<in> set (adj u) \<or> (u, v) \<in> set es \<or> (v, u) \<in> set es"
proof (induction es arbitrary: adj)
  case (Cons e es)
  obtain l r where e: "e = (l, r)" by (cases e)
  have "v \<in> set (fold join_vertices (e # es) adj u)
      \<longleftrightarrow> v \<in> set (join_vertices (l, r) adj u) \<or> (u, v) \<in> set es \<or> (v, u) \<in> set es"
    by (simp only: fold_simps Cons.IH e)
  then show ?case by (simp only: join_vertices_edge e set_simps insert_iff prod.inject) blast
qed simp

lemma set_edge_keys:
  "set (edge_keys id_text g) = map_prod (vertex_key id_text) (vertex_key id_text) ` one_way_links g"
  by (simp add: edge_keys_def one_way_links_def image_Un image_image)

lemma adjacency_of_links:
  "{(a, b). b \<in> set (adjacency_of id_text g a)} = map_prod (vertex_key id_text) (vertex_key id_text) ` graph_links g"
proof -
  have "{(a, b). b \<in> set (adjacency_of id_text g a)} = set (edge_keys id_text g) \<union> (set (edge_keys id_text g))\<inverse>"
    by (auto simp: adjacency_of_def adjacency_edges)
  moreover have "(map_prod f f ` R)\<inverse> = map_prod f f ` R\<inverse>" for f :: "vertex \<Rightarrow> rstr" and R
    by force
  ultimately show ?thesis by (simp only: set_edge_keys graph_links_def image_Un)
qed

lemma relpow_map_prod:
  assumes inj: "\<And>u v. f u = f v \<longleftrightarrow> u = v"
  shows "(f o', w) \<in> (map_prod f f ` L) ^^ k \<longleftrightarrow> (\<exists>v. w = f v \<and> (o', v) \<in> L ^^ k)"
proof (induction k arbitrary: w)
  case (Suc k)
  have step: "(f v, w) \<in> map_prod f f ` L \<longleftrightarrow> (\<exists>u. w = f u \<and> (v, u) \<in> L)" for v
    using inj by auto
  have more: "(o', v) \<in> L ^^ Suc k \<longleftrightarrow> (\<exists>y. (o', y) \<in> L ^^ k \<and> (y, v) \<in> L)" for v
    by (simp only: relpow.simps relcomp_unfold mem_Collect_eq prod.case)
  have "(f o', w) \<in> (map_prod f f ` L) ^^ Suc k \<longleftrightarrow> (\<exists>y. (f o', y) \<in> (map_prod f f ` L) ^^ k \<and> (y, w) \<in> map_prod f f ` L)"
    by (simp only: relpow.simps relcomp_unfold mem_Collect_eq prod.case)
  also have "\<dots> \<longleftrightarrow> (\<exists>v. (o', v) \<in> L ^^ k \<and> (f v, w) \<in> map_prod f f ` L)"
    unfolding Suc.IH by (rule iffI; elim exE conjE; hypsubst?; intro exI conjI; (rule refl | assumption))
  also have "\<dots> \<longleftrightarrow> (\<exists>u. w = f u \<and> (\<exists>v. (o', v) \<in> L ^^ k \<and> (v, u) \<in> L))"
    unfolding step by (rule iffI; elim exE conjE; intro exI conjI; assumption)
  also have "\<dots> \<longleftrightarrow> (\<exists>v. w = f v \<and> (o', v) \<in> L ^^ Suc k)"
    by (simp only: more)
  finally show ?case .
qed auto

lemma search_reaches:
  assumes "inj id_text"
  shows "vertex_key id_text v \<in> search_graph (adjacency_of id_text g) n [note_key id_text origin] {note_key id_text origin}
    \<longleftrightarrow> at_distance g origin n v"
proof -
  let ?E = "{(a, b). b \<in> set (adjacency_of id_text g a)}"
  have "search_graph (adjacency_of id_text g) n [note_key id_text origin] {note_key id_text origin}
      = (neighbours ?E ^^ n) {note_key id_text origin}"
    by (rule search_ball) auto
  also have "\<dots> = {w. \<exists>k\<le>n. (vertex_key id_text (NoteVertex origin), w) \<in> ?E ^^ k}"
    by (simp add: neighbours_ball)
  also have "\<dots> = {w. \<exists>k\<le>n. \<exists>v. w = vertex_key id_text v \<and> (NoteVertex origin, v) \<in> graph_links g ^^ k}"
    unfolding adjacency_of_links by (simp only: relpow_map_prod [where f = "vertex_key id_text", OF vertex_key_inj [OF assms]])
  finally show ?thesis by (auto simp: at_distance_def vertex_key_inj [OF assms])
qed

text \<open>
  C29: narrowing the graph to a neighbourhood is exactly distance.  With a known origin the search keeps
  the notes, works, references and citations whose ends lie at most the requested number of links from
  the origin, references and citations counted in both directions and never more than five links.
\<close>

theorem within_is_distance:
  assumes "inj id_text" "origin \<in> gn_note ` set (ng_notes g)"
  shows "within id_text origin depth g =
    (let near = at_distance g origin (min depth max_graph_depth) in
     \<lparr>ng_notes = filter (\<lambda>n. near (NoteVertex (gn_note n))) (ng_notes g),
      ng_works = filter (\<lambda>w. near (WorkVertex (gw_key w))) (ng_works g),
      ng_references = filter (\<lambda>e. near (NoteVertex (gr_source e)) \<and> near (NoteVertex (gr_target e))) (ng_references g),
      ng_citations = filter (\<lambda>e. near (NoteVertex (gc_source e)) \<and> near (WorkVertex (gc_key e))) (ng_citations g)\<rparr>)"
proof -
  have "list_ex (\<lambda>n. gn_note n = origin) (ng_notes g)" using assms(2) by (auto simp: list_ex_iff)
  moreover have "note_key id_text n \<in> search_graph (adjacency_of id_text g) m [note_key id_text origin] {note_key id_text origin}
      \<longleftrightarrow> at_distance g origin m (NoteVertex n)" for n m
    using search_reaches [OF assms(1), of "NoteVertex n"] by simp
  moreover have "work_key k \<in> search_graph (adjacency_of id_text g) m [note_key id_text origin] {note_key id_text origin}
      \<longleftrightarrow> at_distance g origin m (WorkVertex k)" for k m
    using search_reaches [OF assms(1), of "WorkVertex k"] by simp
  ultimately show ?thesis by (simp add: within_def Let_def)
qed

definition sample_id_text :: "note_id \<Rightarrow> rstr" where
  "sample_id_text n = [unat n]"

definition sample_graph :: note_graph where
  "sample_graph = \<lparr>ng_notes = [\<lparr>gn_note = 1, gn_title = [], gn_tags = [], gn_updated_at = 0\<rparr>,
       \<lparr>gn_note = 2, gn_title = [], gn_tags = [], gn_updated_at = 0\<rparr>,
       \<lparr>gn_note = 3, gn_title = [], gn_tags = [], gn_updated_at = 0\<rparr>],
     ng_works = [], ng_references = [\<lparr>gr_source = 2, gr_target = 1\<rparr>, \<lparr>gr_source = 2, gr_target = 3\<rparr>],
     ng_citations = []\<rparr>"

lemma within_is_distance_witness:
  "map gn_note (ng_notes (within sample_id_text 1 1 sample_graph)) = [1, 2]
   \<and> ng_works (within sample_id_text 1 1 sample_graph)
      = filter (\<lambda>w. at_distance sample_graph 1 (min 1 max_graph_depth) (WorkVertex (gw_key w))) (ng_works sample_graph)"
proof
  show "map gn_note (ng_notes (within sample_id_text 1 1 sample_graph)) = [1, 2]"
    by code_simp
  have i: "inj sample_id_text" by (auto simp: sample_id_text_def inj_def unsigned_word_eqI)
  have o: "1 \<in> gn_note ` set (ng_notes sample_graph)" by (simp add: sample_graph_def)
  show "ng_works (within sample_id_text 1 1 sample_graph)
      = filter (\<lambda>w. at_distance sample_graph 1 (min 1 max_graph_depth) (WorkVertex (gw_key w))) (ng_works sample_graph)"
    unfolding within_is_distance [OF i o] by (simp add: Let_def)
qed

end
