(* ===== verification/NoteViews.thy ===== *)
theory NoteViews
  imports NoteListingProps GraphSearch
begin

text \<open>
  What a principal is shown around a note: the references and backlinks of its page, and the graph of
  \<open>crates/marginalis-sqlite/src/note_graph.rs\<close>.  Both name exactly the notes the principal can read.
  The JSON text of tags, the lower-casing of Unicode and the title of a bibliography item are parameters.
\<close>

section \<open>Visible notes\<close>

lemma details_row: "note_details_of d r = Some nd \<Longrightarrow> nd_row nd = r"
  by (auto simp: note_details_of_def Let_def bind_eq_Some_conv)

lemma ok_of_result: "(case r of Inr x \<Rightarrow> Some x | Inl _ \<Rightarrow> None) = Some n \<longleftrightarrow> r = Inr n"
  by (cases r) simp_all

lemma visible_note_iff:
  assumes "store_ok pu d"
  shows "visible_note pu d p t = Some n \<longleftrightarrow> (\<exists>r nd. r \<in> set (db_notes d) \<and> nr_id r = t \<and> nr_deleted_at r = None
     \<and> has_access d t p \<and> note_details_of d r = Some nd \<and> nd_row nd = r \<and> note_from_row pu nd = Inr n)"
  (is "?L \<longleftrightarrow> ?R")
proof
  assume ?L
  then obtain nd where d: "visible_details d p t = Some nd" "note_from_row pu nd = Inr n"
    unfolding visible_note_def bind_eq_Some_conv by (auto simp: ok_of_result)
  from d(1) have v: "visible d p t" "fetch_details d t = Some nd" by (simp_all add: visible_details_def split: if_splits)
  then obtain r where nd: "find_note d t = Some r" "nr_deleted_at r = None" "has_access d t p"
      "note_details_of d r = Some nd"
    by (auto simp: visible_def fetch_details_def)
  then show ?R using find_note_iff [OF store_okD(2) [OF assms], of t r] details_row [OF nd(4)] d(2) by blast
next
  assume ?R
  then obtain r nd where nd: "find_note d t = Some r" "nr_deleted_at r = None" "has_access d t p"
      "note_details_of d r = Some nd" "note_from_row pu nd = Inr n"
    using find_note_iff [OF store_okD(2) [OF assms], of t] by blast
  then show ?L by (simp add: visible_note_def visible_details_def visible_def fetch_details_def)
qed

lemma row_readable:
  assumes "store_ok pu d" "r \<in> set (db_notes d)"
  shows "\<exists>nd n. note_details_of d r = Some nd \<and> nd_row nd = r \<and> note_from_row pu nd = Inr n \<and> note_row_check r
    \<and> note_summary_from_row r = Inr (summary_of_note n)"
proof -
  obtain nd n where nd: "fetch_details d (nr_id r) = Some nd" "nd_row nd = r" "note_from_row pu nd = Inr n"
    "note_row_check r" using readable_note [OF assms] .
  moreover have "find_note d (nr_id r) = Some r" using find_note_iff [OF store_okD(2) [OF assms(1)]] assms(2) by simp
  ultimately have "note_details_of d r = Some nd" by (simp add: fetch_details_def)
  with nd summary_row_agrees [OF nd(3)] show ?thesis by blast
qed

lemma set_target_rows:
  "nd \<in> set (target_rows d p nid) \<longleftrightarrow> (\<exists>t r. (nid, t) \<in> set (db_references d) \<and> find_note d t = Some r
     \<and> nr_deleted_at r = None \<and> has_access d t p \<and> note_details_of d r = Some nd)"
  by (force simp: target_rows_def List.map_filter_def image_iff bind_eq_Some_conv split: if_splits)

lemma set_source_rows:
  "r \<in> set (source_rows d p nid) \<longleftrightarrow> (\<exists>s. (s, nid) \<in> set (db_references d) \<and> find_note d s = Some r
     \<and> nr_deleted_at r = None \<and> has_access d s p)"
  by (force simp: source_rows_def List.map_filter_def image_iff bind_eq_Some_conv split: if_splits)

text \<open>The readable note behind a row, as its summary.\<close>

lemma traverse_set:
  assumes "\<And>x. x \<in> set xs \<Longrightarrow> \<exists>y. f x = Inr y"
  shows "\<exists>ys. traverse f xs = Inr ys \<and> (\<forall>y. y \<in> set ys \<longleftrightarrow> (\<exists>x\<in>set xs. f x = Inr y))"
proof -
  from assms obtain g where g: "\<And>x. x \<in> set xs \<Longrightarrow> f x = Inr (g x)" by metis
  then have "traverse f xs = Inr (map g xs)" by (rule traverse_all)
  moreover have "y \<in> set (map g xs) \<longleftrightarrow> (\<exists>x\<in>set xs. f x = Inr y)" for y using g by auto
  ultimately show ?thesis by blast
qed

lemma targets_read:
  assumes "store_ok pu d"
  shows "\<exists>ns. traverse (note_from_row pu) (target_rows d p nid) = Inr ns
    \<and> (\<forall>n. n \<in> set ns \<longleftrightarrow> (\<exists>t. (nid, t) \<in> set (db_references d) \<and> visible_note pu d p t = Some n))"
proof -
  note okn = store_okD(2) [OF assms]
  have "\<exists>n. note_from_row pu nd = Inr n" if "nd \<in> set (target_rows d p nid)" for nd
  proof -
    from that obtain t r where r: "find_note d t = Some r" "note_details_of d r = Some nd"
      unfolding set_target_rows by blast
    then have "r \<in> set (db_notes d)" using find_note_Some by blast
    from row_readable [OF assms this] r(2) show ?thesis by auto
  qed
  from traverse_set [of "target_rows d p nid" "note_from_row pu", OF this] obtain ns where ns: "traverse (note_from_row pu) (target_rows d p nid) = Inr ns"
    "\<And>n. n \<in> set ns \<longleftrightarrow> (\<exists>nd\<in>set (target_rows d p nid). note_from_row pu nd = Inr n)" by blast
  have "n \<in> set ns \<longleftrightarrow> (\<exists>t. (nid, t) \<in> set (db_references d) \<and> visible_note pu d p t = Some n)" for n
    unfolding ns(2) Bex_def set_target_rows visible_note_iff [OF assms] find_note_iff [OF okn] using details_row by blast
  with ns(1) show ?thesis by blast
qed

lemma sources_read:
  assumes "store_ok pu d"
  shows "\<exists>ss. traverse note_summary_from_row (source_rows d p nid) = Inr ss
    \<and> (\<forall>s. s \<in> set ss \<longleftrightarrow> (\<exists>t n. (t, nid) \<in> set (db_references d) \<and> visible_note pu d p t = Some n \<and> s = summary_of_note n))"
proof -
  note okn = store_okD(2) [OF assms]
  note read = row_readable [OF assms]
  have src: "r \<in> set (source_rows d p nid) \<longleftrightarrow> (\<exists>s. (s, nid) \<in> set (db_references d) \<and> r \<in> set (db_notes d) \<and> nr_id r = s
     \<and> nr_deleted_at r = None \<and> has_access d s p)" for r
    unfolding set_source_rows find_note_iff [OF okn] by blast
  have "\<exists>s. note_summary_from_row r = Inr s" if "r \<in> set (source_rows d p nid)" for r
    using that read unfolding src by blast
  from traverse_set [of "source_rows d p nid" note_summary_from_row, OF this] obtain ss where ss: "traverse note_summary_from_row (source_rows d p nid) = Inr ss"
    "\<And>s. s \<in> set ss \<longleftrightarrow> (\<exists>r\<in>set (source_rows d p nid). note_summary_from_row r = Inr s)" by blast
  have "s \<in> set ss \<longleftrightarrow> (\<exists>t n. (t, nid) \<in> set (db_references d) \<and> visible_note pu d p t = Some n \<and> s = summary_of_note n)" for s
  proof
    assume "s \<in> set ss"
    then obtain r where r: "r \<in> set (source_rows d p nid)" "note_summary_from_row r = Inr s" using ss(2) by blast
    from r(1) have c: "(nr_id r, nid) \<in> set (db_references d)" "r \<in> set (db_notes d)" "nr_deleted_at r = None"
      "has_access d (nr_id r) p" unfolding src by blast+
    from read [OF c(2)] obtain nd n where "note_details_of d r = Some nd" "nd_row nd = r" "note_from_row pu nd = Inr n"
      "note_summary_from_row r = Inr (summary_of_note n)" by blast
    with c r(2) show "\<exists>t n. (t, nid) \<in> set (db_references d) \<and> visible_note pu d p t = Some n \<and> s = summary_of_note n"
      unfolding visible_note_iff [OF assms] by auto
  next
    assume "\<exists>t n. (t, nid) \<in> set (db_references d) \<and> visible_note pu d p t = Some n \<and> s = summary_of_note n"
    then obtain t n r nd where t: "(t, nid) \<in> set (db_references d)" "s = summary_of_note n" "r \<in> set (db_notes d)"
      "nr_id r = t" "nr_deleted_at r = None" "has_access d t p" "note_details_of d r = Some nd" "note_from_row pu nd = Inr n"
      unfolding visible_note_iff [OF assms] by blast
    then have "r \<in> set (source_rows d p nid)" unfolding src by blast
    moreover have "note_summary_from_row r = Inr s" using read [OF t(3)] t(2,7,8) by auto
    ultimately show "s \<in> set ss" unfolding ss(2) by blast
  qed
  with ss(1) show ?thesis by blast
qed

text \<open>
  The page of a note names exactly what its reader may see.  In every reachable database the snapshot
  of a readable note succeeds; its outgoing links are the summaries of the readable notes it refers to,
  its incoming links those of the readable notes that refer to it, so for one reader a note is a backlink
  of another exactly when the other is among its references.
\<close>

theorem view_links_exact:
  assumes "store_steps pu empty_db d" "accessible_note pu act nid d = Inr (Some an)"
  shows "\<exists>v. note_view_snapshot pu act nid d = Inr (Some v) \<and> nv_note v = an_note an \<and> nv_access v = an_access an
    \<and> (\<forall>s. s \<in> set (rel_outgoing (nv_related v)) \<longleftrightarrow> (\<exists>t n. (nid, t) \<in> set (db_references d)
         \<and> visible_note pu d (actor_id act) t = Some n \<and> s = summary_of_note n))
    \<and> (\<forall>s. s \<in> set (rel_incoming (nv_related v)) \<longleftrightarrow> (\<exists>t n. (t, nid) \<in> set (db_references d)
         \<and> visible_note pu d (actor_id act) t = Some n \<and> s = summary_of_note n))"
proof -
  have ok: "store_ok pu d" using store_steps_ok [OF assms(1) empty_store_ok] by blast
  obtain ns where ns: "traverse (note_from_row pu) (target_rows d (actor_id act) nid) = Inr ns"
    "\<And>n. n \<in> set ns \<longleftrightarrow> (\<exists>t. (nid, t) \<in> set (db_references d) \<and> visible_note pu d (actor_id act) t = Some n)"
    using targets_read [OF ok] by blast
  obtain ss where ss: "traverse note_summary_from_row (source_rows d (actor_id act) nid) = Inr ss"
    "\<And>s. s \<in> set ss \<longleftrightarrow> (\<exists>t n. (t, nid) \<in> set (db_references d)
       \<and> visible_note pu d (actor_id act) t = Some n \<and> s = summary_of_note n)"
    using sources_read [OF ok] by blast
  have "s \<in> summary_of_note ` set ns \<longleftrightarrow> (\<exists>t n. (nid, t) \<in> set (db_references d)
         \<and> visible_note pu d (actor_id act) t = Some n \<and> s = summary_of_note n)" for s
    using ns(2) by blast
  then show ?thesis
    using assms(2) ns(1) ss by (simp add: note_view_snapshot_def)
qed

lemma sample_accessible:
  "\<exists>an. accessible_note sample_parser (sample_actor 1) sample_note_id sample_db = Inr (Some an)"
proof -
  have r: "row_of_new_note (new_note sample_note_id (sample_actor 1) (sample_draft 0) 1000 Web) \<in> set (db_notes sample_db)"
    using find_note_Some [OF sample_find] by blast
  have i: "nr_id (row_of_new_note (new_note sample_note_id (sample_actor 1) (sample_draft 0) 1000 Web)) = sample_note_id"
    "nr_deleted_at (row_of_new_note (new_note sample_note_id (sample_actor 1) (sample_draft 0) 1000 Web)) = None"
    by (simp_all add: row_of_new_note_def new_note_def note_create_def)
  have "has_access sample_db sample_note_id 1"
    by (simp add: has_access_def sample_eval store_eval)
  then obtain l where l: "access_row sample_db sample_note_id 1 = Some l" using access_row_has by fastforce
  from access_row_level [OF l] obtain a where a: "access_from_level l = Inr a" ..
  obtain nd n where nd: "fetch_details sample_db sample_note_id = Some nd"
      "nd_row nd = row_of_new_note (new_note sample_note_id (sample_actor 1) (sample_draft 0) 1000 Web)"
      "note_from_row sample_parser nd = Inr n"
    using readable_note [OF sample_ok r] unfolding i by blast
  have "actor_id (sample_actor 1) = 1" by (simp add: sample_actor_def actor_for_single_identity_def)
  with r i l a nd have "accessible_note sample_parser (sample_actor 1) sample_note_id sample_db
      = Inr (Some \<lparr>an_note = n, an_access = a\<rparr>)"
    unfolding accessible_note_iff [OF sample_ok] by auto
  then show ?thesis ..
qed

lemma view_links_exact_witness:
  "\<exists>v. note_view_snapshot sample_parser (sample_actor 1) sample_note_id sample_db = Inr (Some v)"
  using sample_accessible view_links_exact [OF sample_reachable] by blast

end
