(* ===== verification/NoteGraphStore.thy ===== *)
theory NoteGraphStore
  imports NoteViews
begin

text \<open>
  The graph of the readable notes and the works they cite, \<open>note_graph\<close> of
  \<open>crates/marginalis-sqlite/src/note_graph.rs\<close>, and the use case \<open>read_note_graph\<close> over it.  \<open>lc\<close> is the
  lower-casing of Unicode, \<open>tags_text\<close> the JSON text of the tags, and \<open>title_of\<close> reads the title of the
  item an owner keeps under a citation key, if there is one.
\<close>

section \<open>The query\<close>

definition graph_pattern :: "(rstr \<Rightarrow> rstr) \<Rightarrow> graph_query \<Rightarrow> rstr option" where
  "graph_pattern lc q = Option.bind (gq_text q) (\<lambda>t.
     if trim t = [] then None else Some (like_contains_pattern lc (trim t)))"

definition matches_pattern :: "(rstr list \<Rightarrow> rstr) \<Rightarrow> rstr option \<Rightarrow> note_row \<Rightarrow> bool" where
  "matches_pattern tags_text pat r \<longleftrightarrow> (case pat of None \<Rightarrow> True | Some p \<Rightarrow>
     sql_like p (sql_lower (nr_title r)) \<or> sql_like p (sql_lower (nr_source r))
     \<or> sql_like p (sql_lower (tags_text (nr_tags r))))"

definition graph_note_of :: "note_row \<Rightarrow> graph_note" where
  "graph_note_of r = \<lparr>gn_note = nr_id r, gn_title = nr_title r, gn_tags = nr_tags r, gn_updated_at = nr_updated_at r\<rparr>"

text \<open>How often a join with \<open>note_access\<close> finds a note for a principal, and whether the note is active.\<close>

definition access_times :: "db \<Rightarrow> int \<Rightarrow> note_id \<Rightarrow> nat" where
  "access_times d p n = length (filter (\<lambda>(m, q, l). m = n \<and> q = p) (note_access d))"

definition note_active :: "db \<Rightarrow> note_id \<Rightarrow> bool" where
  "note_active d n \<longleftrightarrow> (case find_note d n of None \<Rightarrow> False | Some r \<Rightarrow> nr_deleted_at r = None)"

definition reference_rows :: "db \<Rightarrow> int \<Rightarrow> (note_id \<times> note_id) list" where
  "reference_rows d p = sort_key fst (sort_key snd (concat (map (\<lambda>(s, t).
     if note_active d s \<and> note_active d t then replicate (access_times d p s * access_times d p t) (s, t) else [])
     (db_references d))))"

definition citation_rows :: "db \<Rightarrow> int \<Rightarrow> (note_id \<times> rstr \<times> int) list" where
  "citation_rows d p = sort_key fst (sort_key (\<lambda>(s, k, c). k) (concat (map (\<lambda>(s, k).
     case find_note d s of
       None \<Rightarrow> []
     | Some r \<Rightarrow> if nr_deleted_at r = None then replicate (access_times d p s) (s, k, nr_creator r) else [])
     (db_citations d))))"

text \<open>The ordered map from citation keys to titles: a known title stays, an unknown one is filled in.\<close>

fun add_work :: "rstr \<Rightarrow> rstr option \<Rightarrow> (rstr \<times> rstr option) list \<Rightarrow> (rstr \<times> rstr option) list" where
  "add_work k title [] = [(k, title)]"
| "add_work k title ((j, known) # ws) =
     (if k = j then (j, if known = None then title else known) # ws
      else if k < j then (k, title) # (j, known) # ws
      else (j, known) # add_work k title ws)"

fun collect_citations ::
  "(int \<Rightarrow> rstr \<Rightarrow> store_error + rstr option) \<Rightarrow> note_id set \<Rightarrow> (note_id \<times> rstr \<times> int) list
   \<Rightarrow> (rstr \<times> rstr option) list \<Rightarrow> graph_citation list
   \<Rightarrow> store_error + ((rstr \<times> rstr option) list \<times> graph_citation list)" where
  "collect_citations title_of vis [] ws es = Inr (ws, es)"
| "collect_citations title_of vis ((s, k, c) # rows) ws es =
     (if s \<notin> vis then collect_citations title_of vis rows ws es
      else rbind (title_of c k) (\<lambda>title.
        collect_citations title_of vis rows (add_work k title ws) (es @ [\<lparr>gc_source = s, gc_key = k\<rparr>])))"

definition note_graph_query ::
  "(rstr \<Rightarrow> rstr) \<Rightarrow> (rstr list \<Rightarrow> rstr) \<Rightarrow> (int \<Rightarrow> rstr \<Rightarrow> store_error + rstr option)
   \<Rightarrow> actor \<Rightarrow> graph_query \<Rightarrow> db \<Rightarrow> store_error + note_graph" where
  "note_graph_query lc tags_text title_of act q d =
     (let p = actor_id act;
          notes = map graph_note_of (sort_key nr_id (map fst (filter (\<lambda>(r, l). nr_deleted_at r = None
             \<and> matches_pattern tags_text (graph_pattern lc q) r) (access_join d p))));
          vis = gn_note ` set notes in
      rbind (collect_citations title_of vis (citation_rows d p) [] []) (\<lambda>(ws, es).
      Inr \<lparr>ng_notes = notes,
        ng_works = map (\<lambda>(k, t). \<lparr>gw_key = k, gw_title = t\<rparr>) ws,
        ng_references = map (\<lambda>(s, t). \<lparr>gr_source = s, gr_target = t\<rparr>)
          (filter (\<lambda>(s, t). s \<in> vis \<and> t \<in> vis) (reference_rows d p)),
        ng_citations = es\<rparr>))"

definition read_note_graph ::
  "(rstr \<Rightarrow> rstr) \<Rightarrow> (rstr list \<Rightarrow> rstr) \<Rightarrow> (int \<Rightarrow> rstr \<Rightarrow> store_error + rstr option) \<Rightarrow> (note_id \<Rightarrow> rstr)
   \<Rightarrow> actor \<Rightarrow> graph_query \<Rightarrow> db \<Rightarrow> storage_error + note_graph" where
  "read_note_graph lc tags_text title_of id_text act q d =
     rbind (map_err storage_error_of (note_graph_query lc tags_text title_of act q d)) (\<lambda>g.
     Inr (case gq_origin q of
       None \<Rightarrow> g
     | Some origin \<Rightarrow> within id_text origin (case gq_depth q of None \<Rightarrow> 1 | Some n \<Rightarrow> n) g))"

section \<open>What the graph shows\<close>

lemma access_times_has: "access_times d p n \<noteq> 0 \<longleftrightarrow> has_access d n p"
  by (auto simp: access_times_def has_access_iff filter_empty_conv)

lemma set_reference_rows:
  "(s, t) \<in> set (reference_rows d p) \<longleftrightarrow> (s, t) \<in> set (db_references d) \<and> visible d p s \<and> visible d p t"
proof -
  have act: "note_active d n \<longleftrightarrow> (\<exists>r. find_note d n = Some r \<and> nr_deleted_at r = None)" for n
    by (simp add: note_active_def split: option.split)
  have "(s, t) \<in> set (reference_rows d p) \<longleftrightarrow> (s, t) \<in> set (db_references d) \<and> note_active d s \<and> note_active d t
      \<and> access_times d p s \<noteq> 0 \<and> access_times d p t \<noteq> 0"
    by (auto simp: reference_rows_def split: if_splits)
  then show ?thesis unfolding access_times_has visible_def act by blast
qed

lemma set_citation_rows:
  "(s, k, c) \<in> set (citation_rows d p) \<longleftrightarrow> (s, k) \<in> set (db_citations d) \<and> visible d p s
     \<and> (\<exists>r. find_note d s = Some r \<and> nr_creator r = c)"
proof -
  have "(s, k, c) \<in> set (citation_rows d p) \<longleftrightarrow> (s, k) \<in> set (db_citations d)
      \<and> (\<exists>r. find_note d s = Some r \<and> nr_deleted_at r = None \<and> nr_creator r = c) \<and> access_times d p s \<noteq> 0"
    by (auto simp: citation_rows_def split: if_splits option.splits) force
  then show ?thesis unfolding access_times_has visible_def by auto
qed

lemma add_work_keys [simp]: "fst ` set (add_work k t ws) = insert k (fst ` set ws)"
  by (induction ws rule: add_work.induct) auto

lemma collect_citations_result:
  assumes "collect_citations title_of vis rows ws es = Inr (ws', es')"
  shows "fst ` set ws' = fst ` set ws \<union> (fst \<circ> snd) ` set (filter (\<lambda>x. fst x \<in> vis) rows)"
    "es' = es @ map (\<lambda>(s, k, c). \<lparr>gc_source = s, gc_key = k\<rparr>) (filter (\<lambda>x. fst x \<in> vis) rows)"
proof -
  have "fst ` set ws' = fst ` set ws \<union> (fst \<circ> snd) ` set (filter (\<lambda>x. fst x \<in> vis) rows)
     \<and> es' = es @ map (\<lambda>(s, k, c). \<lparr>gc_source = s, gc_key = k\<rparr>) (filter (\<lambda>x. fst x \<in> vis) rows)"
    using assms
  proof (induction rows arbitrary: ws es)
    case (Cons x rows)
    obtain s k c where x: "x = (s, k, c)" by (cases x)
    show ?case
    proof (cases "s \<in> vis")
      case True
      with Cons.prems obtain t where "collect_citations title_of vis rows (add_work k t ws)
          (es @ [\<lparr>gc_source = s, gc_key = k\<rparr>]) = Inr (ws', es')" by (auto simp: x rbind_Inr_iff)
      from Cons.IH [OF this] True show ?thesis by (simp add: x)
    next
      case False
      with Cons show ?thesis by (simp add: x)
    qed
  qed simp
  then show "fst ` set ws' = fst ` set ws \<union> (fst \<circ> snd) ` set (filter (\<lambda>x. fst x \<in> vis) rows)"
    "es' = es @ map (\<lambda>(s, k, c). \<lparr>gc_source = s, gc_key = k\<rparr>) (filter (\<lambda>x. fst x \<in> vis) rows)" by blast+
qed

lemma collect_citations_succeeds:
  "(\<And>c k. \<exists>t. title_of c k = Inr t) \<Longrightarrow> \<exists>r. collect_citations title_of vis rows ws es = Inr r"
proof (induction title_of vis rows ws es rule: collect_citations.induct)
  case (2 title_of vis s k c rows ws es)
  then obtain t where "title_of c k = Inr t" by blast
  with 2 show ?case by (cases "s \<in> vis") auto
qed simp

text \<open>The search of the graph as containment of the search text.\<close>

definition found_text :: "(rstr \<Rightarrow> rstr) \<Rightarrow> graph_query \<Rightarrow> rstr list \<Rightarrow> bool" where
  "found_text lc q texts \<longleftrightarrow> (case gq_text q of None \<Rightarrow> True
     | Some t \<Rightarrow> trim t = [] \<or> list_ex (contains_word (lc (trim t))) texts)"

lemma graph_text_matches:
  "matches_pattern tags_text (graph_pattern lc q) r \<longleftrightarrow> found_text lc q [nr_title r, nr_source r, tags_text (nr_tags r)]"
  by (cases "gq_text q") (auto simp: matches_pattern_def graph_pattern_def search_is_containment found_text_def)

definition text_matches :: "(rstr \<Rightarrow> rstr) \<Rightarrow> (rstr list \<Rightarrow> rstr) \<Rightarrow> graph_query \<Rightarrow> note_rec \<Rightarrow> bool" where
  "text_matches lc tags_text q n \<longleftrightarrow> found_text lc q [n_title n, n_source n, tags_text (n_tags n)]"

lemma graph_note_visible:
  assumes "store_ok pu d"
  shows "(\<exists>r\<in>set (db_notes d). nr_id r = v \<and> nr_deleted_at r = None \<and> has_access d v p
      \<and> matches_pattern tags_text (graph_pattern lc q) r)
    \<longleftrightarrow> (\<exists>n. visible_note pu d p v = Some n \<and> text_matches lc tags_text q n)"
proof
  assume "\<exists>r\<in>set (db_notes d). nr_id r = v \<and> nr_deleted_at r = None \<and> has_access d v p
      \<and> matches_pattern tags_text (graph_pattern lc q) r"
  then obtain r where r: "r \<in> set (db_notes d)" "nr_id r = v" "nr_deleted_at r = None" "has_access d v p"
      "matches_pattern tags_text (graph_pattern lc q) r" by blast
  from row_readable [OF assms r(1)] obtain nd n where nd: "note_details_of d r = Some nd" "nd_row nd = r"
      "note_from_row pu nd = Inr n" by blast
  have "text_matches lc tags_text q n"
    using r(5) nd(2) note_from_row_Inr(3,4,5) [OF nd(3)] unfolding text_matches_def graph_text_matches by simp
  moreover have "visible_note pu d p v = Some n" unfolding visible_note_iff [OF assms] using r nd by blast
  ultimately show "\<exists>n. visible_note pu d p v = Some n \<and> text_matches lc tags_text q n" by blast
next
  assume "\<exists>n. visible_note pu d p v = Some n \<and> text_matches lc tags_text q n"
  then obtain n r nd where r: "text_matches lc tags_text q n" "r \<in> set (db_notes d)" "nr_id r = v"
      "nr_deleted_at r = None" "has_access d v p" "nd_row nd = r" "note_from_row pu nd = Inr n"
    unfolding visible_note_iff [OF assms] by blast
  have "matches_pattern tags_text (graph_pattern lc q) r"
    using r(1,6) note_from_row_Inr(3,4,5) [OF r(7)] unfolding text_matches_def graph_text_matches by simp
  with r show "\<exists>r\<in>set (db_notes d). nr_id r = v \<and> nr_deleted_at r = None \<and> has_access d v p
      \<and> matches_pattern tags_text (graph_pattern lc q) r" by blast
qed

lemma visible_note_visible: "visible_note pu d p v = Some n \<Longrightarrow> visible d p v"
  by (auto simp: visible_note_def visible_details_def bind_eq_Some_conv split: if_splits)

text \<open>
  C30: the graph shows exactly what its reader may see.  When the titles of the library can be read the
  query succeeds; its notes are the readable notes whose title, source or tags contain the search text,
  its references the stored references between two of them, and its works and citations exactly those of
  its notes.  No note the principal cannot read appears as a note or as an end of a line.
\<close>

theorem graph_shows_visible:
  assumes "store_ok pu d" "\<And>c k. \<exists>t. title_of c k = Inr t"
  shows "\<exists>g. note_graph_query lc tags_text title_of act q d = Inr g
    \<and> (\<forall>v. v \<in> gn_note ` set (ng_notes g) \<longleftrightarrow> (\<exists>n. visible_note pu d (actor_id act) v = Some n
         \<and> text_matches lc tags_text q n))
    \<and> (\<forall>e. e \<in> set (ng_references g) \<longleftrightarrow> (gr_source e, gr_target e) \<in> set (db_references d)
         \<and> gr_source e \<in> gn_note ` set (ng_notes g) \<and> gr_target e \<in> gn_note ` set (ng_notes g))
    \<and> (\<forall>e. e \<in> set (ng_citations g) \<longleftrightarrow> (gc_source e, gc_key e) \<in> set (db_citations d)
         \<and> gc_source e \<in> gn_note ` set (ng_notes g))
    \<and> gw_key ` set (ng_works g) = gc_key ` set (ng_citations g)"
proof -
  let ?p = "actor_id act"
  define rows where "rows = filter (\<lambda>(r, l). nr_deleted_at r = None \<and> matches_pattern tags_text (graph_pattern lc q) r)
    (access_join d ?p)"
  define nodes where "nodes = map graph_note_of (sort_key nr_id (map fst rows))"
  define vis where "vis = gn_note ` set nodes"
  obtain ws es where c: "collect_citations title_of vis (citation_rows d ?p) [] [] = Inr (ws, es)"
    using collect_citations_succeeds [of title_of vis "citation_rows d ?p" "[]" "[]"] assms(2) by auto
  note cr = collect_citations_result [OF c, simplified]
  let ?g = "\<lparr>ng_notes = nodes, ng_works = map (\<lambda>(k, t). \<lparr>gw_key = k, gw_title = t\<rparr>) ws,
      ng_references = map (\<lambda>(s, t). \<lparr>gr_source = s, gr_target = t\<rparr>)
        (filter (\<lambda>(s, t). s \<in> vis \<and> t \<in> vis) (reference_rows d ?p)), ng_citations = es\<rparr>"
  have "note_graph_query lc tags_text title_of act q d = Inr ?g"
    using c by (simp add: note_graph_query_def Let_def rows_def nodes_def vis_def)
  moreover have vis: "v \<in> vis \<longleftrightarrow> (\<exists>n. visible_note pu d ?p v = Some n \<and> text_matches lc tags_text q n)" for v
  proof -
    have "v \<in> vis \<longleftrightarrow> (\<exists>r l. (r, l) \<in> set rows \<and> nr_id r = v)"
      by (auto simp: vis_def nodes_def graph_note_of_def image_iff intro: bexI [rotated])
    also have "\<dots> \<longleftrightarrow> (\<exists>r\<in>set (db_notes d). nr_id r = v \<and> nr_deleted_at r = None \<and> access_row d v ?p \<noteq> None
      \<and> matches_pattern tags_text (graph_pattern lc q) r)"
      using set_access_join [OF assms(1)] by (auto simp: rows_def)
    finally show ?thesis unfolding access_row_has graph_note_visible [OF assms(1)] .
  qed
  moreover have seen: "v \<in> vis \<Longrightarrow> visible d ?p v" for v unfolding vis using visible_note_visible by blast
  then have "e \<in> set (ng_references ?g) \<longleftrightarrow> (gr_source e, gr_target e) \<in> set (db_references d)
      \<and> gr_source e \<in> vis \<and> gr_target e \<in> vis" for e
  proof -
    have "e \<in> set (ng_references ?g) \<longleftrightarrow> (gr_source e, gr_target e) \<in> set (reference_rows d ?p)
        \<and> gr_source e \<in> vis \<and> gr_target e \<in> vis"
      by (cases e) force
    then show ?thesis unfolding set_reference_rows using seen by blast
  qed
  moreover have "e \<in> set es \<longleftrightarrow> (gc_source e, gc_key e) \<in> set (db_citations d) \<and> gc_source e \<in> vis" for e
  proof -
    have "e \<in> set es \<longleftrightarrow> (\<exists>c. (gc_source e, gc_key e, c) \<in> set (citation_rows d ?p)) \<and> gc_source e \<in> vis"
      unfolding cr(2) by (cases e) (auto simp: image_iff split: prod.splits)
    also have "\<dots> \<longleftrightarrow> (gc_source e, gc_key e) \<in> set (db_citations d) \<and> gc_source e \<in> vis"
      unfolding set_citation_rows using seen by (auto simp: visible_def)
    finally show ?thesis .
  qed
  moreover have "gw_key ` set (ng_works ?g) = gc_key ` set es"
  proof -
    have "gw_key ` set (ng_works ?g) = fst ` set ws" by (auto simp: image_image case_prod_beta)
    also have "\<dots> = gc_key ` set es" unfolding cr by (auto simp: image_image case_prod_beta)
    finally show ?thesis .
  qed
  ultimately show ?thesis by (intro exI [of _ ?g]) (simp only: note_graph.simps vis_def simp_thms)
qed

lemma graph_shows_visible_witness:
  "\<exists>g. note_graph_query id concat (\<lambda>c k. Inr None) (sample_actor 1)
     \<lparr>gq_text = None, gq_origin = None, gq_depth = None\<rparr> sample_db = Inr g"
  using graph_shows_visible [OF sample_ok, of "\<lambda>c k. Inr None" id concat "sample_actor 1"
      "\<lparr>gq_text = None, gq_origin = None, gq_depth = None\<rparr>"] by auto

end
