(* ===== verification/Spec2Isabelle.thy ===== *)
theory Spec2Isabelle
  imports NoteProgress SyncSession NotePatchProps McpAuthProps AuthFlow SessionProps HookSample BiblioClaims MathMacroProps
    NoteGraphStore
begin

text \<open>
  Marginalis is a self-hosted knowledge base: notes in AsciiDoc that their owner shares with other users,
  kept in one SQLite database, served to a web interface, a REST interface and clients of the Model Context
  Protocol (MCP).  This development models the domain values, the store and the use cases over it, and proves
  what the program promises about them.

  \<^bold>\<open>How the model corresponds to the code.\<close>  The workspace has the crates \<open>marginalis-domain\<close> (values),
  \<open>marginalis-application\<close> (use cases and their repository traits), \<open>marginalis-sqlite\<close> (the repositories),
  \<open>marginalis-web\<close> and \<open>marginalis-contract\<close> (transport) and \<open>marginalis-service\<close> (the process).  A struct is
  a record, an enum a datatype, a private field behind a smart constructor a field that every constructor
  checks.  A table of \<open>schema.sql\<close> is a list of row records, a transaction a function from a database to an
  error or a new database: SQLite serialises transactions, an error rolls back, so one transaction is one
  step.  CHECK, UNIQUE and FOREIGN KEY constraints are guards of the statement that can violate them, and
  triggers are part of the statement that fires them.  An identity column is the largest id so far plus one.
  \<open>Result\<close> is a sum with the error on the left, \<open>Option\<close> is option, a panic is an error value of its own.
  A string is the list of its Unicode scalar values, \<open>len()\<close> its UTF-8 length.  \<open>i64\<close> values are integers with
  the range checks written out where the code computes on them; identifiers are 128-bit words.

  \<^bold>\<open>Foundations.\<close>
  \<open>Prelude\<close>: results, strings, tables and the lemma collections \<open>result_simps\<close> and \<open>table_simps\<close>.
  \<open>Identity\<close> (\<open>domain/model.rs\<close>, \<open>model/identity.rs\<close>), \<open>NoteModel\<close> (\<open>model/note.rs\<close>), \<open>NotePolicy\<close>
  (\<open>policy.rs\<close>), \<open>Attachment\<close> (\<open>model/attachment.rs\<close>): the domain values.
  \<open>Store\<close>: the tables of notes, their history, access lists, links, the change log and the synchronisation
  projection, with their constraints and triggers.

  \<^bold>\<open>Notes.\<close>
  \<open>NoteStore\<close> has every transaction of \<open>sqlite/notes.rs\<close>, \<open>note_acl.rs\<close> and \<open>note_reviews.rs\<close>,
  \<open>NoteHistory\<close> those of \<open>note_history.rs\<close>, \<open>PrincipalStore\<close> those of \<open>principal.rs\<close>.  \<open>StoreLemmas\<close> and
  \<open>NoteMutations\<close> say what each statement changes; \<open>StoreInv\<close> is the invariant, \<open>StoreOps\<close> shows that every
  transaction keeps it, \<open>StoreMachine\<close> makes the transactions a step relation.  \<open>NoteStoreProps\<close>,
  \<open>NoteHistory\<close>, \<open>NoteLifecycle\<close> and \<open>NoteProgress\<close> prove the behaviour on every branch: refusals, effects,
  optimistic concurrency, the readable history, deletion and restoration, and that permitted changes succeed.
  \<open>NoteListing\<close> and \<open>NoteViews\<close> model the listings and the page of a note, and show them exact with respect
  to reading notes one by one.  \<open>SqlLike\<close>, \<open>GraphSearch\<close> and \<open>NoteGraphStore\<close> model the text search and
  the graph view (\<open>application/notes/graph.rs\<close>, \<open>sqlite/note_graph.rs\<close>); the depth of the search is capped at
  five by the code.  \<open>NotePatch\<close> models \<open>application/notes/patch.rs\<close>; \<open>NotePatchCorrect\<close>
  relates it to edit scripts, \<open>NotePatchRender\<close> to printed diffs between two texts, with
  their markers for a missing final newline.

  \<^bold>\<open>Synchronisation.\<close>  \<open>ChangeLog\<close> shows that the projection records every visible change.  The locale
  \<open>change_log\<close> of \<open>ChangeReplica\<close> is the contract between a log and a replica; \<open>NoteSync\<close>
  (\<open>sqlite/note_sync.rs\<close>, \<open>application/notes/sync.rs\<close>) is interpreted for it in \<open>NoteSyncProps\<close>, which bounds the
  pages (at most 100 entries and four megabytes) and binds cursors to their principal.

  \<^bold>\<open>Life of the tables.\<close>  \<open>StoreClock\<close> joins the note transactions, uploads, discards, sweeps and the purges of
  deleted notes and of synchronisation state (\<open>cleanup.rs\<close>) to one step relation with the clock each of them
  reads, and shows that the purges keep the store invariant.  \<open>StoreLife\<close> proves over it that a history
  is readable until its note is purged and that images of committed revisions stay; \<open>SyncSession\<close> that a
  client that follows its cursors converges when it reaches the last page once in the 35 days the purge
  keeps a change, and that a slower one may stay stale.

  \<^bold>\<open>Attachments.\<close>  \<open>AttachmentStore\<close> (\<open>sqlite/attachment.rs\<close>, \<open>application/notes/attachments.rs\<close>, parts of
  \<open>cleanup.rs\<close> and \<open>notes.rs\<close>), \<open>AttachmentInv\<close>, \<open>AttachmentProps\<close> and \<open>AttachmentSafety\<close>: quotas, consistency,
  and the purge of deleted notes, which fails as a whole on a note that ever showed an attached image.

  \<^bold>\<open>Authorization.\<close>  \<open>AuthStore\<close>, \<open>McpStore\<close> (\<open>sqlite/mcp.rs\<close>), \<open>ScopeCeilings\<close>
  (\<open>mcp_scope_ceiling_repository.rs\<close>, \<open>application/mcp_oauth.rs\<close>), \<open>SessionStore\<close> (\<open>sqlite/session.rs\<close>,
  \<open>application/identity.rs\<close>), \<open>Scopes\<close> and \<open>AuthPurge\<close> (\<open>cleanup.rs\<close>) are the model; \<open>McpMachine\<close> makes it a
  step relation whose random tokens are fresh, with a ghost list of the digests used so far.  \<open>McpInv\<close>,
  \<open>McpLater\<close>, \<open>McpReplay\<close>, \<open>McpConsent\<close> and \<open>McpGrants\<close> carry the invariants; \<open>McpProps\<close>, \<open>McpAuthProps\<close>,
  \<open>AuthFlow\<close> and \<open>SessionProps\<close> the properties of codes, token families, consent, ceilings and sessions.

  \<^bold>\<open>Webhooks.\<close>  \<open>HookAddress\<close> (\<open>application/webhooks/destination.rs\<close>), \<open>HookStore\<close> and \<open>HookService\<close>
  (\<open>sqlite/webhooks.rs\<close>, \<open>application/webhooks.rs\<close>, \<open>webhooks/delivery.rs\<close>).  The locale \<open>outbox\<close> of
  \<open>Outbox\<close> is the contract of ordered delivery; \<open>HookProps\<close> interprets it on the webhook tables as the step
  relation of \<open>HookMachine\<close>, and \<open>HookTick\<close> shows that a worker tick refines a simultaneous update.
  \<open>webhook_delivery_tick\<close> is a tick that runs alone; claim, record and the operations of owners are separate
  steps of \<open>HookMachine\<close>, which interleave.  The purge of changes without deliveries is not one of these steps;
  it removes nothing a delivery refers to.  The foreign key from a subscription to its owner is not a guard of
  the insertion, whose actor is always stored.  \<open>HookAddress\<close> states the address check against the blocks of
  RFC 6890, as base and prefix length, and names the blocks the code overlooks.

  \<^bold>\<open>Bibliography.\<close>  \<open>BiblioItem\<close> (\<open>model/bibliography.rs\<close>, \<open>bibliography_import.rs\<close> of the domain) and
  \<open>BiblioStore\<close> (\<open>sqlite/bibliography_repository.rs\<close>, \<open>application/bibliography.rs\<close>) model the library of
  a user, \<open>BiblioPreview\<close>, \<open>BiblioPlan\<close> and \<open>BiblioImport\<close> the import with its preview, decisions, plan and
  atomic application.  The printer and parser of \<open>serde_json\<close> are trusted to give back a value whose numbers
  are 64-bit integers (\<open>json_exact\<close>); for other numbers nothing is assumed, and the properties of libraries are
  stated for exact JSON and a clock that is not behind the items.  \<open>BiblioInv\<close>, \<open>BiblioKeeps\<close>, \<open>BiblioApply\<close> and \<open>BiblioBatch\<close> show that all transactions
  keep a library well-formed; \<open>BiblioDecisions\<close>, \<open>BiblioPlanProps\<close>, \<open>BiblioProps\<close> and \<open>BiblioSafety\<close> what a
  plan guarantees; \<open>BiblioClaims\<close> has the properties, on the library of \<open>BiblioSample\<close>.

  \<^bold>\<open>Math macros.\<close>  \<open>MathMacros\<close> (\<open>application/math_macros.rs\<close>, \<open>sqlite/math_macro_repository.rs\<close>) and
  \<open>MathMacroProps\<close>: the references to arguments, definitions that TeX reads as one group, and settings that
  read back.

  \<^bold>\<open>Parameters.\<close>  Code outside the repository is an argument of the definitions that use it: \<open>pu\<close> the parser of
  URLs, \<open>hash\<close> and \<open>sha256\<close> digests, \<open>nfc\<close> Unicode normalisation, \<open>lc\<close> Unicode lower-casing, \<open>enc\<close> and \<open>dec\<close>
  the printer and parser of \<open>serde_json\<close>, \<open>id_text\<close> the printed form of an identifier, \<open>tags_text\<close> and
  \<open>title_of\<close> the JSON texts the graph query builds, \<open>deliver\<close> the HTTP client of the webhooks, \<open>lookup\<close> the name
  resolver, \<open>mk\<close>, \<open>valid\<close>, \<open>build\<close> and \<open>pending\<close> the OIDC and MCP server crates.  Fresh identifiers and tokens
  and the clock are arguments.  What the code relies on is a named hypothesis where a property needs it
  (\<open>json_codec\<close>, \<open>nfc_stable\<close>, fresh tokens, digests of 32 bytes), with a concrete instance in the witness.

  \<^bold>\<open>Not modelled.\<close>  The HTTP, JSON-RPC and form layer (\<open>marginalis-web\<close>) and its data transfer types
  (\<open>marginalis-contract\<close>), which decode requests, call the use cases above and encode their results; the
  AsciiDoc crate, whose parser is an external program; the process, its configuration and its maintenance
  commands (\<open>marginalis-service\<close>), which are file system and network operations; the external crates
  \<open>mcp_authorization_server\<close> and \<open>oidc_browser_login\<close>; schema migrations and diagnostics, which are SQL
  scripts over earlier schemas; event ids, which are random and never read back; failures of the database
  connection, which every operation reports as unavailable and which roll back.
\<close>

end
